(* ===== verification/Go_Prelude.thy ===== *)
theory Go_Prelude
  imports Main "HOL-Library.Word" "HOL-Library.Sublist" "HOL-Library.AList"
    "HOL-Library.Signed_Division"
begin

text \<open>
  The Go notions that the components share, and the lemmas about them: 64-bit integer
  arithmetic with its wrap-around, time values, buffered channels with the non-blocking
  (\<open>select\<close> with \<open>default\<close>) send, Go maps as association lists in an iteration order, and
  the FIFO interface that channels and ring buffers provide to their clients.

  Machine conventions. A Go \<open>int\<close> or \<open>int64\<close> is an \<open>int\<close>; where the source adds,
  subtracts or multiplies values that are not bounded by the size of an object in memory the
  result is passed through \<open>wrap64\<close>, so that the value is the one the 64-bit machine computes.
  Lengths and indices are \<open>nat\<close>. Bit-level code (samples, frames) uses words.
\<close>

section \<open>Named collections\<close>

named_theorems go_simps \<open>facts that evaluate the operations of the components\<close>
named_theorems wf_intros \<open>well-formedness is kept by the operations\<close>

section \<open>64-bit integers\<close>

definition wrap64 :: "int \<Rightarrow> int" where
  "wrap64 x = signed_take_bit 63 x"

definition is_int64 :: "int \<Rightarrow> bool" where
  "is_int64 x \<longleftrightarrow> - (2 ^ 63) \<le> x \<and> x < 2 ^ 63"

lemma wrap64_id: "is_int64 x \<Longrightarrow> wrap64 x = x"
  by (simp add: wrap64_def is_int64_def signed_take_bit_int_eq_self)

lemma wrap64_in_range [simp]: "is_int64 (wrap64 x)"
  using signed_take_bit_int_less_exp [of 63 x] signed_take_bit_int_greater_eq_minus_exp [of 63 x]
  by (simp add: wrap64_def is_int64_def)

lemma wrap64_wrap64 [simp]: "wrap64 (wrap64 x) = wrap64 x"
  by (simp add: wrap64_id)

lemma wrap64_0 [simp]: "wrap64 0 = 0"
  by (simp add: wrap64_def)

lemma is_int64I: "- (2 ^ 63) \<le> x \<Longrightarrow> x < 2 ^ 63 \<Longrightarrow> is_int64 x"
  by (simp add: is_int64_def)

lemma wrap64_eq_mod: "wrap64 x = (x + 2 ^ 63) mod 2 ^ 64 - 2 ^ 63"
  by (simp add: wrap64_def signed_take_bit_eq_take_bit_shift take_bit_eq_mod)

lemma wrap64_add: "wrap64 (wrap64 a + wrap64 b) = wrap64 (a + b)"
  by (simp add: wrap64_def signed_take_bit_add)

lemma wrap64_add_left [simp]: "wrap64 (wrap64 a + b) = wrap64 (a + b)"
  using wrap64_add [of "wrap64 a" b] wrap64_add [of a b] by simp

lemma wrap64_add_right [simp]: "wrap64 (a + wrap64 b) = wrap64 (a + b)"
  using wrap64_add_left [of b a] by (simp add: add.commute)

lemma wrap64_diff: "wrap64 (wrap64 a - wrap64 b) = wrap64 (a - b)"
  by (simp add: wrap64_def signed_take_bit_diff)

lemma wrap64_diff_left [simp]: "wrap64 (wrap64 a - b) = wrap64 (a - b)"
  using wrap64_diff [of "wrap64 a" b] wrap64_diff [of a b] by simp

lemma wrap64_diff_right [simp]: "wrap64 (a - wrap64 b) = wrap64 (a - b)"
  using wrap64_diff [of a "wrap64 b"] wrap64_diff [of a b] by simp

text \<open>Go's integer division truncates towards zero.\<close>

definition go_quot :: "int \<Rightarrow> int \<Rightarrow> int" where
  "go_quot a b = a sdiv b"

lemma go_quot_nonneg: "0 \<le> a \<Longrightarrow> 0 < b \<Longrightarrow> go_quot a b = a div b"
  by (cases "a = 0") (simp_all add: go_quot_def signed_divide_int_def sgn_if)

section \<open>Time\<close>

text \<open>
  A \<open>time.Duration\<close> is a number of nanoseconds; a \<open>time.Time\<close> is the number of nanoseconds
  since the Unix epoch. \<open>Time.Sub\<close> saturates at the ends of the \<open>Duration\<close> range.
\<close>

type_synonym duration = int
type_synonym instant = int

abbreviation millisecond :: duration where "millisecond \<equiv> 1000000"
abbreviation second :: duration where "second \<equiv> 1000000000"

definition time_sub :: "instant \<Rightarrow> instant \<Rightarrow> duration" where
  "time_sub t u = max (- (2 ^ 63)) (min (2 ^ 63 - 1) (t - u))"

lemma time_sub_less_iff [simp]:
  "is_int64 d \<Longrightarrow> - (2 ^ 63) < d \<Longrightarrow> time_sub t u < d \<longleftrightarrow> t - u < d"
  by (auto simp: time_sub_def is_int64_def)

lemma time_sub_greater_iff [simp]:
  "is_int64 d \<Longrightarrow> d < 2 ^ 63 - 1 \<Longrightarrow> d < time_sub t u \<longleftrightarrow> d < t - u"
  by (auto simp: time_sub_def is_int64_def)

section \<open>First-in first-out queues\<close>

text \<open>
  The interface that Go channels and the ring buffers of the program provide: a bounded or
  growing queue with an abstraction to the list of its elements, oldest first. A client relies
  on the laws only; every run of puts and takes then delivers exactly what was accepted, in
  order, without loss or duplication.
\<close>

datatype 'a qop = Put 'a | Take

fun fifo_run ::
  "('q \<Rightarrow> bool) \<Rightarrow> ('a \<Rightarrow> 'q \<Rightarrow> 'q) \<Rightarrow> ('q \<Rightarrow> ('a \<times> 'q) option) \<Rightarrow> 'a qop list \<Rightarrow> 'q \<Rightarrow>
   'a list \<times> 'a list \<times> 'q" where
  "fifo_run room push pop [] q = ([], [], q)"
| "fifo_run room push pop (Put x # ops) q =
     (if room q
      then (case fifo_run room push pop ops (push x q) of (acc, out, q') \<Rightarrow> (x # acc, out, q'))
      else fifo_run room push pop ops q)"
| "fifo_run room push pop (Take # ops) q =
     (case pop q of
        None \<Rightarrow> fifo_run room push pop ops q
      | Some (x, q1) \<Rightarrow>
          (case fifo_run room push pop ops q1 of (acc, out, q') \<Rightarrow> (acc, x # out, q')))"

locale fifo =
  fixes items :: "'q \<Rightarrow> 'a list"
    and wf :: "'q \<Rightarrow> bool"
    and room :: "'q \<Rightarrow> bool"
    and push :: "'a \<Rightarrow> 'q \<Rightarrow> 'q"
    and pop :: "'q \<Rightarrow> ('a \<times> 'q) option"
  assumes items_push: "wf q \<Longrightarrow> room q \<Longrightarrow> items (push x q) = items q @ [x]"
    and wf_push: "wf q \<Longrightarrow> room q \<Longrightarrow> wf (push x q)"
    and pop_empty: "wf q \<Longrightarrow> items q = [] \<Longrightarrow> pop q = None"
    and pop_head: "wf q \<Longrightarrow> items q = x # xs \<Longrightarrow> \<exists>q'. pop q = Some (x, q') \<and> items q' = xs \<and> wf q'"
begin

lemma pop_None_iff: "wf q \<Longrightarrow> pop q = None \<longleftrightarrow> items q = []"
  using pop_empty pop_head by (cases "items q") fastforce+

lemma pop_Some: "wf q \<Longrightarrow> pop q = Some (x, q') \<Longrightarrow> items q = x # items q' \<and> wf q'"
  using pop_empty pop_head by (cases "items q") fastforce+

lemma run_order:
  "wf q \<Longrightarrow> fifo_run room push pop ops q = (acc, out, q') \<Longrightarrow>
   items q @ acc = out @ items q' \<and> wf q'"
proof (induction ops arbitrary: q acc out)
  case Nil
  then show ?case by simp
next
  case (Cons op ops)
  show ?case
  proof (cases op)
    case (Put x)
    show ?thesis
    proof (cases "room q")
      case True
      obtain acc1 where run: "fifo_run room push pop ops (push x q) = (acc1, out, q')"
        and acc: "acc = x # acc1"
        using Cons.prems(2) Put True by (auto split: prod.splits)
      have "items (push x q) @ acc1 = out @ items q' \<and> wf q'"
        by (rule Cons.IH [OF wf_push [OF Cons.prems(1) True] run])
      then show ?thesis by (simp add: acc items_push [OF Cons.prems(1) True])
    next
      case False
      with Put Cons show ?thesis by simp
    qed
  next
    case Take
    show ?thesis
    proof (cases "pop q")
      case None
      with Take Cons show ?thesis by simp
    next
      case (Some p)
      then obtain x q1 where p: "pop q = Some (x, q1)" by (cases p) auto
      with pop_Some Cons.prems(1) have "items q = x # items q1" "wf q1" by auto
      with Take Cons p show ?thesis by (fastforce split: prod.splits)
    qed
  qed
qed

end

text \<open>A queue with a capacity: there is room as long as it holds fewer elements than that.\<close>

locale bounded_fifo = fifo items wf room push pop
  for items :: "'q \<Rightarrow> 'a list"
    and wf :: "'q \<Rightarrow> bool"
    and room :: "'q \<Rightarrow> bool"
    and push :: "'a \<Rightarrow> 'q \<Rightarrow> 'q"
    and pop :: "'q \<Rightarrow> ('a \<times> 'q) option" +
  fixes capacity :: "'q \<Rightarrow> nat"
  assumes room_iff: "wf q \<Longrightarrow> room q \<longleftrightarrow> length (items q) < capacity q"
    and capacity_push: "capacity (push x q) = capacity q"
    and capacity_pop: "pop q = Some (y, q') \<Longrightarrow> capacity q' = capacity q"
    and wf_bound: "wf q \<Longrightarrow> length (items q) \<le> capacity q"
begin

lemma capacity_run:
  "fifo_run room push pop ops q = (acc, out, q') \<Longrightarrow> capacity q' = capacity q"
proof (induction ops arbitrary: q acc out)
  case Nil
  then show ?case by simp
next
  case (Cons op ops)
  then show ?case
    by (cases op)
      (auto simp: capacity_push dest: capacity_pop split: if_splits option.splits prod.splits)
qed

lemma run_bounded:
  assumes "wf q" and "fifo_run room push pop ops q = (acc, out, q')"
  shows "length (items q') \<le> capacity q"
  using run_order [OF assms] capacity_run [OF assms(2)] wf_bound by metis

end

section \<open>Buffered channels\<close>

record 'a chan =
  chan_cap :: nat
  chan_buf :: "'a list"
  chan_closed :: bool

definition make_chan :: "nat \<Rightarrow> 'a chan" where
  "make_chan n = \<lparr>chan_cap = n, chan_buf = [], chan_closed = False\<rparr>"

definition chan_room :: "'a chan \<Rightarrow> bool" where
  "chan_room c \<longleftrightarrow> length (chan_buf c) < chan_cap c"

definition chan_put :: "'a \<Rightarrow> 'a chan \<Rightarrow> 'a chan" where
  "chan_put x c = c\<lparr>chan_buf := chan_buf c @ [x]\<rparr>"

definition chan_take :: "'a chan \<Rightarrow> ('a \<times> 'a chan) option" where
  "chan_take c = (case chan_buf c of [] \<Rightarrow> None | x # xs \<Rightarrow> Some (x, c\<lparr>chan_buf := xs\<rparr>))"

definition chan_wf :: "'a chan \<Rightarrow> bool" where
  "chan_wf c \<longleftrightarrow> length (chan_buf c) \<le> chan_cap c"

text \<open>
  \<open>select { case c <- x: default: }\<close> on a channel that nobody has closed: the value is
  buffered when there is room, and otherwise the default branch is taken (\<open>None\<close>).
\<close>

definition chan_offer :: "'a \<Rightarrow> 'a chan \<Rightarrow> 'a chan option" where
  "chan_offer x c = (if chan_room c then Some (chan_put x c) else None)"

interpretation chan: bounded_fifo chan_buf chan_wf chan_room chan_put chan_take chan_cap
  by unfold_locales
    (auto simp: chan_put_def chan_wf_def chan_room_def chan_take_def split: list.splits)

lemma make_chan_simps [simp]:
  "chan_buf (make_chan n) = []" "chan_cap (make_chan n) = n" "\<not> chan_closed (make_chan n)"
  "chan_wf (make_chan n)"
  by (simp_all add: make_chan_def chan_wf_def)

lemma chan_offer_Some:
  "chan_offer x c = Some c' \<longleftrightarrow> chan_room c \<and> c' = chan_put x c"
  by (auto simp: chan_offer_def)

lemma chan_offer_wf [wf_intros]: "chan_wf c \<Longrightarrow> chan_offer x c = Some c' \<Longrightarrow> chan_wf c'"
  by (auto simp: chan_offer_Some intro: chan.wf_push)

section \<open>Invariants of step relations\<close>

text \<open>
  What the goroutines of a component share is modelled as a step relation; a property that every
  step keeps holds after every run. A property may look back to the state where the run began.
\<close>

locale step_invariant =
  fixes step :: "'s \<Rightarrow> 's \<Rightarrow> bool"
    and holds :: "'s \<Rightarrow> bool"
  assumes kept: "step s t \<Longrightarrow> holds s \<Longrightarrow> holds t"
begin

lemma run: "step\<^sup>*\<^sup>* s t \<Longrightarrow> holds s \<Longrightarrow> holds t"
  by (induction rule: rtranclp_induct) (auto intro: kept)

end

section \<open>Rings\<close>

text \<open>
  The elements of a ring buffer: \<open>c\<close> of them, from index \<open>h\<close> on, wrapping around. Both ring
  buffers of the program are abstracted with it.
\<close>

definition ring_view :: "'a list \<Rightarrow> nat \<Rightarrow> nat \<Rightarrow> 'a list" where
  "ring_view xs h c = map (\<lambda>i. xs ! ((h + i) mod length xs)) [0..<c]"

lemma length_ring_view [simp]: "length (ring_view xs h c) = c"
  by (simp add: ring_view_def)

lemma ring_view_0 [simp]: "ring_view xs h 0 = []"
  by (simp add: ring_view_def)

lemma ring_view_Nil_iff [simp]: "ring_view xs h c = [] \<longleftrightarrow> c = 0"
  by (simp add: ring_view_def)

lemma ring_view_Suc:
  assumes "h < length xs"
  shows "ring_view xs h (Suc c) = xs ! h # ring_view xs (Suc h mod length xs) c"
proof -
  have "[0..<Suc c] = 0 # map Suc [0..<c]"
    by (simp add: map_Suc_upt upt_conv_Cons)
  moreover have "(Suc h mod length xs + i) mod length xs = Suc (h + i) mod length xs" for i
    by (metis add_Suc mod_add_left_eq)
  ultimately show ?thesis
    using assms by (simp add: ring_view_def o_def del: upt_Suc)
qed

lemma ring_index_neq:
  assumes "i < j" "j - i < (n :: nat)"
  shows "(h + i) mod n \<noteq> (h + j) mod n"
proof
  assume "(h + i) mod n = (h + j) mod n"
  with assms(1) have "n dvd (h + j) - (h + i)"
    by (metis add_le_cancel_left less_imp_le mod_eq_dvd_iff_nat)
  with assms show False
    by (simp add: nat_dvd_not_less)
qed

lemma ring_view_put:
  assumes "c < length xs"
  shows "ring_view (xs[(h + c) mod length xs := x]) h (Suc c) = ring_view xs h c @ [x]"
proof -
  let ?n = "length xs"
  have "xs[(h + c) mod ?n := x] ! ((h + i) mod ?n) = xs ! ((h + i) mod ?n)" if "i < c" for i
  proof -
    have "(h + i) mod ?n \<noteq> (h + c) mod ?n"
      using that assms by (intro ring_index_neq) auto
    then show ?thesis by simp
  qed
  moreover have "(h + c) mod ?n < ?n"
    using assms by (intro mod_less_divisor) linarith
  ultimately show ?thesis
    by (auto simp: ring_view_def intro!: map_cong)
qed

end
