(* ===== verification/Float64.thy ===== *)
theory Float64
  imports Go_Prelude "HOL-Library.Log_Nat"
begin

text \<open>
  The \<open>float64\<close> arithmetic of the program: finite values are rationals, every operation is the
  exact one followed by rounding to nearest, ties to even, to a 53-bit significand (IEEE 754,
  as Go computes on amd64, without fused operations). The sign of zero is not represented; no
  expression of the program that is modelled here depends on it.

  The clients of the arithmetic rely on the laws of rounding only (the locale \<open>rounding\<close>):
  monotone, odd, and exact on the representable numbers.
\<close>

section \<open>Rounding\<close>

locale rounding =
  fixes rnd :: "rat \<Rightarrow> rat" and representable :: "rat \<Rightarrow> bool"
  assumes rnd_mono: "x \<le> y \<Longrightarrow> rnd x \<le> rnd y"
    and rnd_exact: "representable x \<Longrightarrow> rnd x = x"
    and rnd_minus: "rnd (- x) = - rnd x"
    and representable_0: "representable 0"
    and representable_minus: "representable x \<Longrightarrow> representable (- x)"
    and representable_rnd: "representable (rnd x)"
begin

lemma rnd_rnd: "rnd (rnd x) = rnd x"
  by (rule rnd_exact [OF representable_rnd])

lemma rnd_le: "x \<le> y \<Longrightarrow> representable y \<Longrightarrow> rnd x \<le> y"
  using rnd_mono rnd_exact by metis

lemma rnd_ge: "y \<le> x \<Longrightarrow> representable y \<Longrightarrow> y \<le> rnd x"
  using rnd_mono rnd_exact by metis

lemma rnd_nonneg: "0 \<le> x \<Longrightarrow> 0 \<le> rnd x"
  using rnd_ge representable_0 by blast

lemma rnd_nonpos: "x \<le> 0 \<Longrightarrow> rnd x \<le> 0"
  using rnd_le representable_0 by blast

lemma rnd_abs_le:
  assumes "\<bar>x\<bar> \<le> y" "representable y"
  shows "\<bar>rnd x\<bar> \<le> y"
  using assms rnd_le [of x y] rnd_ge [of "- y" x] representable_minus [of y] by (auto simp: abs_le_iff)

text \<open>Scaling by a factor of at most one never makes a representable number larger.\<close>

lemma rnd_shrink:
  assumes "representable s" "0 \<le> m" "m \<le> 1"
  shows "\<bar>rnd (s * m)\<bar> \<le> \<bar>s\<bar>"
proof (rule rnd_abs_le)
  show "\<bar>s * m\<bar> \<le> \<bar>s\<bar>"
    using assms mult_left_mono [of m 1 "\<bar>s\<bar>"] by (simp add: abs_mult)
  show "representable \<bar>s\<bar>"
    using assms representable_minus by (auto simp: abs_if)
qed

end

section \<open>Exponents\<close>

abbreviation pow2 :: "int \<Rightarrow> rat" where
  "pow2 k \<equiv> 2 powi k"

definition ilog2 :: "rat \<Rightarrow> int" where
  "ilog2 x =
     (case quotient_of x of (p, q) \<Rightarrow>
        let k = int (floorlog 2 (nat p)) - int (floorlog 2 (nat q))
        in if pow2 k \<le> x then k else k - 1)"

lemma floorlog_bounds:
  assumes "0 < (n :: int)"
  shows "pow2 (int (floorlog 2 (nat n)) - 1) \<le> of_int n" "of_int n < pow2 (int (floorlog 2 (nat n)))"
proof -
  have b: "2 ^ (floorlog 2 (nat n) - 1) \<le> nat n" "nat n < 2 ^ floorlog 2 (nat n)"
    using assms floorlog_bounds [of "nat n" 2] by auto
  have pos: "0 < floorlog 2 (nat n)"
    using assms by (simp add: floorlog_def)
  have "(2 :: rat) ^ (floorlog 2 (nat n) - 1) \<le> of_nat (nat n)"
    using b(1) by (metis of_nat_le_iff of_nat_numeral of_nat_power)
  then show "pow2 (int (floorlog 2 (nat n)) - 1) \<le> of_int n"
    using assms pos by (simp add: power_int_def nat_diff_distrib)
  have "of_nat (nat n) < (2 :: rat) ^ floorlog 2 (nat n)"
    using b(2) by (metis of_nat_less_iff of_nat_numeral of_nat_power)
  then show "of_int n < pow2 (int (floorlog 2 (nat n)))"
    using assms by (simp add: power_int_def)
qed

lemma ilog2_bounds:
  assumes "0 < x"
  shows "pow2 (ilog2 x) \<le> x" "x < pow2 (ilog2 x + 1)"
proof -
  obtain p q where pq: "quotient_of x = (p, q)" by fastforce
  then have q: "0 < q" and x: "x = of_int p / of_int q"
    using quotient_of_denom_pos quotient_of_div by auto
  with assms have p: "0 < p" by (simp add: zero_less_divide_iff)
  define a b where "a = int (floorlog 2 (nat p))" and "b = int (floorlog 2 (nat q))"
  have a: "pow2 (a - 1) \<le> of_int p" "of_int p < pow2 a"
    using floorlog_bounds [OF p] by (simp_all add: a_def)
  have b: "pow2 (b - 1) \<le> of_int q" "of_int q < pow2 b"
    using floorlog_bounds [OF q] by (simp_all add: b_def)
  have "pow2 (a - b - 1) * of_int q \<le> pow2 (a - b - 1) * pow2 b"
    using b by (intro mult_left_mono) (simp_all add: less_imp_le)
  also have "\<dots> = pow2 (a - 1)" by (simp flip: power_int_add)
  finally have lo: "pow2 (a - b - 1) \<le> x"
    using a q by (simp add: x pos_le_divide_eq)
  have "pow2 a = pow2 (a - b + 1) * pow2 (b - 1)" by (simp flip: power_int_add)
  also have "\<dots> \<le> pow2 (a - b + 1) * of_int q"
    using b by (intro mult_left_mono) simp_all
  finally have hi: "x < pow2 (a - b + 1)"
    using a q by (simp add: x pos_divide_less_eq)
  have l: "ilog2 x = (if pow2 (a - b) \<le> x then a - b else a - b - 1)"
    by (simp add: ilog2_def pq a_def b_def)
  show "pow2 (ilog2 x) \<le> x" using lo by (simp add: l)
  show "x < pow2 (ilog2 x + 1)" using hi by (simp add: l)
qed

lemma pow2_less_iff: "pow2 a < pow2 b \<longleftrightarrow> a < b"
  using power_int_strict_increasing [of a b "2 :: rat"] power_int_increasing [of b a "2 :: rat"]
  by (cases a b rule: linorder_cases) auto

lemma pow2_le_iff: "pow2 a \<le> pow2 b \<longleftrightarrow> a \<le> b"
  using pow2_less_iff by (simp flip: not_less)

lemma ilog2_mono:
  assumes "0 < x" "x \<le> y"
  shows "ilog2 x \<le> ilog2 y"
proof -
  have "pow2 (ilog2 x) < pow2 (ilog2 y + 1)"
    using assms ilog2_bounds [of x] ilog2_bounds [of y] by linarith
  then show ?thesis by (simp add: pow2_less_iff)
qed

section \<open>Rounding to nearest, ties to even\<close>

definition round_half_even :: "rat \<Rightarrow> int" where
  "round_half_even x =
     (let f = \<lfloor>x\<rfloor>; d = x - of_int f
      in if d < 1 / 2 then f else if 1 / 2 < d then f + 1 else if even f then f else f + 1)"

lemma round_half_even_of_int [simp]: "round_half_even (of_int n) = n"
  by (simp add: round_half_even_def)

lemma round_half_even_mono: "x \<le> y \<Longrightarrow> round_half_even x \<le> round_half_even y"
proof -
  assume "x \<le> y"
  then consider "\<lfloor>x\<rfloor> = \<lfloor>y\<rfloor>" | "\<lfloor>x\<rfloor> + 1 \<le> \<lfloor>y\<rfloor>"
    using floor_mono by fastforce
  then show ?thesis
    using \<open>x \<le> y\<close> by cases (auto simp: round_half_even_def Let_def)
qed

lemma round_half_even_minus: "round_half_even (- x) = - round_half_even x"
proof (cases "x = of_int \<lfloor>x\<rfloor>")
  case True
  then show ?thesis by (metis of_int_minus round_half_even_of_int)
next
  case False
  define f d where "f = \<lfloor>x\<rfloor>" and "d = x - of_int \<lfloor>x\<rfloor>"
  have d: "0 < d" "d < 1"
    using False floor_correct [of x] unfolding d_def by linarith+
  have x: "x = of_int f + d" by (simp add: f_def d_def)
  have "\<lfloor>- x\<rfloor> = - f - 1"
    using d unfolding x by (intro floor_unique) auto
  moreover have "\<lfloor>of_int f + d\<rfloor> = f"
    using d by (intro floor_unique) auto
  ultimately show ?thesis
    using d by (auto simp: round_half_even_def Let_def x)
qed

definition f64_ulp :: "rat \<Rightarrow> int" where
  "f64_ulp x = max (- 1074) (ilog2 \<bar>x\<bar> - 52)"

definition f64_round :: "rat \<Rightarrow> rat" where
  "f64_round x =
     (if x = 0 then 0
      else of_int (round_half_even (x / pow2 (f64_ulp x))) * pow2 (f64_ulp x))"

definition f64_representable :: "rat \<Rightarrow> bool" where
  "f64_representable x \<longleftrightarrow> (\<exists>m e. x = of_int m * pow2 e \<and> \<bar>m\<bar> \<le> 2 ^ 53 \<and> - 1074 \<le> e)"

lemma pow2_int: "0 \<le> k \<Longrightarrow> pow2 k = of_int (2 ^ nat k)"
  by (simp add: power_int_def)

lemma f64_round_on_grid:
  assumes "x = of_int n * pow2 (f64_ulp x)"
  shows "f64_round x = x"
proof -
  have "x / pow2 (f64_ulp x) = of_int n"
    by (subst (1) assms) simp
  then show ?thesis
    using assms by (simp add: f64_round_def)
qed

lemma f64_round_exact:
  assumes "f64_representable x"
  shows "f64_round x = x"
proof (cases "x = 0")
  case True
  then show ?thesis by (simp add: f64_round_def)
next
  case False
  obtain m e where x: "x = of_int m * pow2 e" and m: "\<bar>m\<bar> \<le> 2 ^ 53" and e: "- 1074 \<le> e"
    using assms by (auto simp: f64_representable_def)
  define u where "u = f64_ulp x"
  show ?thesis
  proof (cases "u \<le> e")
    case True
    have "x = of_int m * (pow2 (e - u) * pow2 u)"
      by (simp add: x flip: power_int_add)
    also have "\<dots> = of_int (m * 2 ^ nat (e - u)) * pow2 u"
      using True by (simp add: pow2_int)
    finally show ?thesis
      unfolding u_def by (rule f64_round_on_grid)
  next
    case False
    then have u: "u = ilog2 \<bar>x\<bar> - 52"
      using e by (auto simp: u_def f64_ulp_def)
    have "pow2 (e + 53) \<le> pow2 (ilog2 \<bar>x\<bar>)"
      using False u by (simp add: pow2_le_iff)
    also have "\<dots> \<le> \<bar>x\<bar>"
      using \<open>x \<noteq> 0\<close> ilog2_bounds [of "\<bar>x\<bar>"] by simp
    also have "\<dots> = of_int \<bar>m\<bar> * pow2 e"
      by (simp add: x abs_mult)
    finally have "of_int (2 ^ 53) * pow2 e \<le> of_int \<bar>m\<bar> * pow2 e"
      by (simp add: power_int_add)
    then have "2 ^ 53 \<le> \<bar>m\<bar>"
      by (metis mult_le_cancel_right_pos of_int_le_iff zero_less_numeral zero_less_power_int)
    with m have m53: "\<bar>m\<bar> = 2 ^ 53" by simp
    have "\<bar>x\<bar> = pow2 (e + 53)"
      by (simp add: x abs_mult power_int_add m53 flip: of_int_abs)
    then have "pow2 (e + 53) < pow2 (ilog2 \<bar>x\<bar> + 1)"
      using \<open>x \<noteq> 0\<close> ilog2_bounds [of "\<bar>x\<bar>"] by simp
    with pow2_less_iff have "e + 53 < ilog2 \<bar>x\<bar> + 1" by blast
    moreover have "pow2 (ilog2 \<bar>x\<bar>) \<le> pow2 (e + 53)"
      using \<open>x \<noteq> 0\<close> ilog2_bounds [of "\<bar>x\<bar>"] \<open>\<bar>x\<bar> = pow2 (e + 53)\<close> by simp
    ultimately have "u = e + 1"
      using u pow2_le_iff [of "ilog2 \<bar>x\<bar>" "e + 53"] by linarith
    moreover have "m = 2 ^ 53 \<or> m = - (2 ^ 53)"
      using m53 by linarith
    moreover have "(2 :: rat) ^ 53 * pow2 e = 2 ^ 52 * pow2 (e + 1)"
      by (simp add: power_int_add)
    ultimately have "x = of_int (2 ^ 52) * pow2 u \<or> x = of_int (- (2 ^ 52)) * pow2 u"
      using x by auto
    then show ?thesis
      unfolding u_def using f64_round_on_grid by blast
  qed
qed

text \<open>Evaluating a rounding: the binade of the value and its nearest multiple of the unit.\<close>

lemma ilog2_unique:
  assumes "pow2 k \<le> x" "x < pow2 (k + 1)"
  shows "ilog2 x = k"
proof -
  have "0 < pow2 k" by simp
  with assms(1) have "0 < x" by linarith
  then have "pow2 (ilog2 x) < pow2 (k + 1)" "pow2 k < pow2 (ilog2 x + 1)"
    using ilog2_bounds [of x] assms by linarith+
  then show ?thesis by (simp add: pow2_less_iff)
qed

lemma f64_round_eval:
  assumes "pow2 k \<le> x" "x < pow2 (k + 1)" "- 1022 \<le> k"
    and "\<bar>x / pow2 (k - 52) - of_int m\<bar> < 1 / 2"
  shows "f64_round x = of_int m * pow2 (k - 52)"
proof -
  have "0 < pow2 k" by simp
  with assms(1) have "0 < x" by linarith
  then have u: "f64_ulp x = k - 52"
    using ilog2_unique [OF assms(1,2)] assms(3) by (simp add: f64_ulp_def)
  define y where "y = x / pow2 (k - 52)"
  have y: "\<bar>y - of_int m\<bar> < 1 / 2" using assms(4) by (simp add: y_def)
  have "round_half_even y = m"
  proof (cases "of_int m \<le> y")
    case True
    with y have "\<lfloor>y\<rfloor> = m" by (intro floor_unique) linarith+
    with y True show ?thesis by (simp add: round_half_even_def Let_def)
  next
    case False
    moreover have "of_int (m - 1) = (of_int m - 1 :: rat)" by simp
    ultimately have "\<lfloor>y\<rfloor> = m - 1" using y by (intro floor_unique) linarith+
    with y False show ?thesis by (simp add: round_half_even_def Let_def)
  qed
  with \<open>0 < x\<close> u show ?thesis by (simp add: f64_round_def y_def)
qed

lemma f64_round_minus: "f64_round (- x) = - f64_round x"
  by (simp add: f64_round_def f64_ulp_def round_half_even_minus)

lemma f64_round_mono_pos:
  assumes "0 < x" "x \<le> y"
  shows "f64_round x \<le> f64_round y"
proof -
  define a b where "a = f64_ulp x" and "b = f64_ulp y"
  have ab: "a \<le> b"
    using ilog2_mono [OF assms] assms by (auto simp: a_def b_def f64_ulp_def)
  have rx: "f64_round x = of_int (round_half_even (x / pow2 a)) * pow2 a"
    and ry: "f64_round y = of_int (round_half_even (y / pow2 b)) * pow2 b"
    using assms by (simp_all add: f64_round_def a_def b_def)
  show ?thesis
  proof (cases "a = b")
    case True
    have "round_half_even (x / pow2 a) \<le> round_half_even (y / pow2 a)"
      using assms by (intro round_half_even_mono divide_right_mono) simp_all
    with True show ?thesis
      by (simp add: rx ry)
  next
    case False
    then have b: "b = ilog2 y - 52" "a + 1 \<le> b"
      using ab assms by (auto simp: a_def b_def f64_ulp_def)
    have "ilog2 x - 52 \<le> a"
      using assms by (simp add: a_def f64_ulp_def)
    then have "pow2 (ilog2 x + 1) \<le> pow2 (a + 53)"
      by (simp only: pow2_le_iff)
    then have "x \<le> pow2 (a + 53)"
      using ilog2_bounds [of x] assms by linarith
    then have "x / pow2 a \<le> of_int (2 ^ 53)"
      by (simp add: pos_divide_le_eq power_int_add mult.commute)
    then have "round_half_even (x / pow2 a) \<le> 2 ^ 53"
      using round_half_even_mono round_half_even_of_int by metis
    then have "of_int (round_half_even (x / pow2 a)) \<le> (of_int (2 ^ 53) :: rat)"
      by (simp only: of_int_le_iff)
    then have "f64_round x \<le> of_int (2 ^ 53) * pow2 a"
      unfolding rx by (intro mult_right_mono) simp_all
    also have "\<dots> = of_int (2 ^ 52) * pow2 (a + 1)"
      by (simp add: power_int_add)
    also have "\<dots> \<le> of_int (2 ^ 52) * pow2 b"
      using b(2) by (intro mult_left_mono) (simp_all only: pow2_le_iff, simp)
    also have "\<dots> \<le> f64_round y"
    proof -
      have "pow2 (b + 52) \<le> y"
        using ilog2_bounds [of y] assms b by simp
      then have "of_int (2 ^ 52) \<le> y / pow2 b"
        by (simp add: pos_le_divide_eq power_int_add mult.commute)
      then have "2 ^ 52 \<le> round_half_even (y / pow2 b)"
        using round_half_even_mono round_half_even_of_int by metis
      then have "(of_int (2 ^ 52) :: rat) \<le> of_int (round_half_even (y / pow2 b))"
        by (simp only: of_int_le_iff)
      then show ?thesis
        unfolding ry by (intro mult_right_mono) simp_all
    qed
    finally show ?thesis .
  qed
qed

lemma f64_round_nonneg: "0 \<le> x \<Longrightarrow> 0 \<le> f64_round x"
proof -
  assume "0 \<le> x"
  then have "round_half_even (of_int 0) \<le> round_half_even (x / pow2 (f64_ulp x))"
    by (intro round_half_even_mono) simp
  then show ?thesis
    by (simp add: f64_round_def del: of_int_0)
qed

lemma f64_round_mono:
  assumes "x \<le> y"
  shows "f64_round x \<le> f64_round y"
proof -
  consider "0 < x" | "x \<le> 0" "0 \<le> y" | "y < 0" by linarith
  then show ?thesis
  proof cases
    case 1
    with assms show ?thesis by (simp add: f64_round_mono_pos)
  next
    case 2
    then show ?thesis
      using f64_round_nonneg [of "- x"] f64_round_nonneg [of y] by (simp add: f64_round_minus)
  next
    case 3
    with assms have "f64_round (- y) \<le> f64_round (- x)"
      by (intro f64_round_mono_pos) simp_all
    then show ?thesis by (simp add: f64_round_minus)
  qed
qed

lemma f64_representable_round: "f64_representable (f64_round x)"
proof (cases "x = 0")
  case True
  then show ?thesis
    unfolding f64_representable_def by (intro exI [of _ 0]) (simp add: f64_round_def)
next
  case False
  define u where "u = f64_ulp x"
  have u: "- 1074 \<le> u" "ilog2 \<bar>x\<bar> + 1 \<le> u + 53"
    by (simp_all add: u_def f64_ulp_def)
  have "pow2 (ilog2 \<bar>x\<bar> + 1) \<le> pow2 (u + 53)"
    using u(2) by (simp only: pow2_le_iff)
  then have "\<bar>x\<bar> \<le> pow2 (u + 53)"
    using ilog2_bounds [of "\<bar>x\<bar>"] False by linarith
  then have "\<bar>x / pow2 u\<bar> \<le> of_int (2 ^ 53)"
    by (simp add: pos_divide_le_eq power_int_add mult.commute)
  then have "of_int (- (2 ^ 53)) \<le> x / pow2 u" "x / pow2 u \<le> of_int (2 ^ 53)"
    by (simp_all only: of_int_minus abs_le_iff, simp_all only: minus_le_iff)
  then have "- (2 ^ 53) \<le> round_half_even (x / pow2 u)" "round_half_even (x / pow2 u) \<le> 2 ^ 53"
    using round_half_even_mono round_half_even_of_int by metis+
  then have "\<bar>round_half_even (x / pow2 u)\<bar> \<le> 2 ^ 53" by linarith
  with False u(1) show ?thesis
    unfolding f64_representable_def
    by (intro exI [of _ "round_half_even (x / pow2 u)"] exI [of _ u]) (simp add: f64_round_def u_def)
qed

interpretation f64: rounding f64_round f64_representable
proof unfold_locales
  show "f64_representable 0"
    unfolding f64_representable_def by (intro exI [of _ 0]) simp
  fix x :: rat
  assume "f64_representable x"
  then obtain m e where "x = of_int m * pow2 e" "\<bar>m\<bar> \<le> 2 ^ 53" "- 1074 \<le> e"
    by (auto simp: f64_representable_def)
  then show "f64_representable (- x)"
    unfolding f64_representable_def by (intro exI [of _ "- m"] exI [of _ e]) simp
qed (simp_all add: f64_round_mono f64_round_exact f64_round_minus f64_representable_round)

lemma f64_representable_of_int: "\<bar>n\<bar> \<le> 2 ^ 53 \<Longrightarrow> f64_representable (of_int n)"
  unfolding f64_representable_def by (intro exI [of _ n] exI [of _ 0]) simp

section \<open>The values and operations\<close>

datatype f64 = Fin rat | Inf bool | NaN

text \<open>\<open>Inf True\<close> is minus infinity.\<close>

definition fl :: "rat \<Rightarrow> f64" where
  "fl x = (let r = f64_round x in if 2 ^ 1024 \<le> \<bar>r\<bar> then Inf (r < 0) else Fin r)"

definition f64_of_int :: "int \<Rightarrow> f64" where
  "f64_of_int n = fl (of_int n)"

fun f64_neg :: "f64 \<Rightarrow> f64" where
  "f64_neg (Fin x) = Fin (- x)"
| "f64_neg (Inf s) = Inf (\<not> s)"
| "f64_neg NaN = NaN"

fun f64_add :: "f64 \<Rightarrow> f64 \<Rightarrow> f64" where
  "f64_add (Fin x) (Fin y) = fl (x + y)"
| "f64_add (Inf s) (Fin _) = Inf s"
| "f64_add (Fin _) (Inf s) = Inf s"
| "f64_add (Inf s) (Inf t) = (if s = t then Inf s else NaN)"
| "f64_add _ _ = NaN"

definition f64_sub :: "f64 \<Rightarrow> f64 \<Rightarrow> f64" where
  "f64_sub a b = f64_add a (f64_neg b)"

fun f64_mul :: "f64 \<Rightarrow> f64 \<Rightarrow> f64" where
  "f64_mul (Fin x) (Fin y) = fl (x * y)"
| "f64_mul (Inf s) (Fin y) = (if y = 0 then NaN else Inf (s \<noteq> (y < 0)))"
| "f64_mul (Fin x) (Inf s) = (if x = 0 then NaN else Inf (s \<noteq> (x < 0)))"
| "f64_mul (Inf s) (Inf t) = Inf (s \<noteq> t)"
| "f64_mul _ _ = NaN"

fun f64_div :: "f64 \<Rightarrow> f64 \<Rightarrow> f64" where
  "f64_div (Fin x) (Fin y) = (if y = 0 then (if x = 0 then NaN else Inf (x < 0)) else fl (x / y))"
| "f64_div (Inf s) (Fin y) = Inf (s \<noteq> (y < 0))"
| "f64_div (Fin _) (Inf _) = Fin 0"
| "f64_div _ _ = NaN"

fun f64_less :: "f64 \<Rightarrow> f64 \<Rightarrow> bool" where
  "f64_less (Fin x) (Fin y) \<longleftrightarrow> x < y"
| "f64_less (Inf s) (Fin _) \<longleftrightarrow> s"
| "f64_less (Fin _) (Inf s) \<longleftrightarrow> \<not> s"
| "f64_less (Inf s) (Inf t) \<longleftrightarrow> s \<and> \<not> t"
| "f64_less _ _ \<longleftrightarrow> False"

definition f64_trunc :: "rat \<Rightarrow> int" where
  "f64_trunc x = (if 0 \<le> x then \<lfloor>x\<rfloor> else \<lceil>x\<rceil>)"

text \<open>
  Conversion to \<open>int64\<close> truncates towards zero; out of range (where the language leaves the
  result to the implementation) it is the amd64 value.
\<close>

definition f64_to_int64 :: "f64 \<Rightarrow> int" where
  "f64_to_int64 f =
     (case f of
        Fin x \<Rightarrow> (if is_int64 (f64_trunc x) then f64_trunc x else - (2 ^ 63))
      | _ \<Rightarrow> - (2 ^ 63))"

lemma f64_trunc_of_int [simp]: "f64_trunc (of_int n) = n"
  by (simp add: f64_trunc_def)

lemma f64_trunc_abs_le:
  assumes "\<bar>x\<bar> \<le> of_int n"
  shows "\<bar>f64_trunc x\<bar> \<le> n"
proof (cases "0 \<le> x")
  case True
  with assms have "\<lfloor>x\<rfloor> \<le> n" "0 \<le> \<lfloor>x\<rfloor>" by (simp_all add: floor_le_iff)
  with True show ?thesis by (simp add: f64_trunc_def)
next
  case False
  with assms have "- n \<le> \<lceil>x\<rceil>" "\<lceil>x\<rceil> \<le> 0" by (simp_all add: le_ceiling_iff ceiling_le_iff)
  with False show ?thesis by (simp add: f64_trunc_def)
qed

lemma f64_trunc_nonneg: "0 \<le> x \<Longrightarrow> 0 \<le> f64_trunc x"
  by (simp add: f64_trunc_def)

lemma fl_Fin: "\<bar>f64_round x\<bar> < 2 ^ 1024 \<Longrightarrow> fl x = Fin (f64_round x)"
  by (simp add: fl_def)

lemma fl_exact: "f64_representable x \<Longrightarrow> \<bar>x\<bar> < 2 ^ 1024 \<Longrightarrow> fl x = Fin x"
  by (simp add: fl_def f64.rnd_exact)

lemma f64_of_int_exact:
  assumes "\<bar>n\<bar> \<le> 2 ^ 53"
  shows "f64_of_int n = Fin (of_int n)"
proof -
  have "\<bar>of_int n\<bar> \<le> (of_int (2 ^ 53) :: rat)"
    using assms by (metis of_int_abs of_int_le_iff)
  also have "\<dots> < 2 ^ 1024" by simp
  finally show ?thesis
    unfolding f64_of_int_def by (rule fl_exact [OF f64_representable_of_int [OF assms]])
qed

section \<open>Error bounds\<close>

lemma round_half_even_error: "\<bar>of_int (round_half_even x) - x\<bar> \<le> 1 / 2"
  using floor_correct [of x] by (auto simp: round_half_even_def Let_def abs_le_iff)

lemma f64_round_error:
  assumes "\<bar>x\<bar> < pow2 k" "- 1021 \<le> k"
  shows "\<bar>f64_round x - x\<bar> \<le> pow2 (k - 54)"
proof (cases "x = 0")
  case True
  then show ?thesis by (simp add: f64_round_def)
next
  case False
  define u where "u = f64_ulp x"
  have "pow2 (ilog2 \<bar>x\<bar>) < pow2 k"
    using ilog2_bounds [of "\<bar>x\<bar>"] False assms by linarith
  then have "ilog2 \<bar>x\<bar> < k" by (simp only: pow2_less_iff)
  then have u: "u \<le> k - 53"
    using assms by (auto simp: u_def f64_ulp_def)
  have "f64_round x - x = (of_int (round_half_even (x / pow2 u)) - x / pow2 u) * pow2 u"
    using False by (simp add: f64_round_def u_def [symmetric] left_diff_distrib)
  then have "\<bar>f64_round x - x\<bar> = \<bar>of_int (round_half_even (x / pow2 u)) - x / pow2 u\<bar> * pow2 u"
    by (simp add: abs_mult)
  also have "\<dots> \<le> 1 / 2 * pow2 u"
    by (intro mult_right_mono round_half_even_error) simp
  also have "\<dots> = pow2 (u - 1)"
    by (simp add: power_int_diff)
  also have "\<dots> \<le> pow2 (k - 54)"
    using u by (simp only: pow2_le_iff)
  finally show ?thesis .
qed

lemma f64_round_0 [simp]: "f64_round 0 = 0"
  by (simp add: f64_round_def)

lemma fl_0 [simp]: "fl 0 = Fin 0"
  by (simp add: fl_def)

lemma fl_small:
  assumes "\<bar>x\<bar> < pow2 k" "- 1021 \<le> k" "k \<le> 1000"
  shows "fl x = Fin (f64_round x)" "\<bar>f64_round x - x\<bar> \<le> pow2 (k - 54)"
proof -
  show err: "\<bar>f64_round x - x\<bar> \<le> pow2 (k - 54)"
    by (rule f64_round_error [OF assms(1,2)])
  have "pow2 (k - 54) \<le> pow2 1000" "pow2 k \<le> pow2 1000"
    using assms(3) by (simp_all only: pow2_le_iff)
  then have "\<bar>f64_round x\<bar> < pow2 1000 + pow2 1000"
    using err assms(1) by linarith
  also have "\<dots> \<le> 2 ^ 1024" by (simp add: power_int_def)
  finally show "fl x = Fin (f64_round x)" by (rule fl_Fin)
qed

lemma f64_representable_1: "f64_representable 1"
  using f64_representable_of_int [of 1] by simp

lemma f64_trunc_bounds:
  assumes "of_int lo - 1 < x" "x < of_int hi + 1" "lo \<le> 0" "0 \<le> hi"
  shows "lo \<le> f64_trunc x" "f64_trunc x \<le> hi"
proof -
  have f: "\<lfloor>x\<rfloor> < hi + 1" using assms(2) by linarith
  have c: "lo - 1 < \<lceil>x\<rceil>" using assms(1) by linarith
  have "lo \<le> f64_trunc x \<and> f64_trunc x \<le> hi"
  proof (cases "0 \<le> x")
    case True
    then have "0 \<le> \<lfloor>x\<rfloor>" by simp
    moreover have "f64_trunc x = \<lfloor>x\<rfloor>" using True by (simp add: f64_trunc_def)
    ultimately show ?thesis using f assms(3) by linarith
  next
    case False
    then have "\<lceil>x\<rceil> \<le> 0" by (simp add: ceiling_le_iff)
    moreover have "f64_trunc x = \<lceil>x\<rceil>" using False by (simp add: f64_trunc_def)
    ultimately show ?thesis using c assms(4) by linarith
  qed
  then show "lo \<le> f64_trunc x" "f64_trunc x \<le> hi" by simp_all
qed

lemma fl_bounded:
  assumes "of_int lo \<le> x" "x \<le> of_int hi" "\<bar>lo\<bar> \<le> 2 ^ 53" "\<bar>hi\<bar> \<le> 2 ^ 53"
  shows "\<exists>y. fl x = Fin y \<and> y = f64_round x \<and> of_int lo \<le> y \<and> y \<le> of_int hi"
proof -
  have y: "of_int lo \<le> f64_round x" "f64_round x \<le> of_int hi"
    using assms f64.rnd_ge f64.rnd_le f64_representable_of_int by blast+
  have "\<bar>of_int lo\<bar> \<le> (of_int (2 ^ 53) :: rat)" "\<bar>of_int hi\<bar> \<le> (of_int (2 ^ 53) :: rat)"
    using assms(3,4) by (simp_all only: of_int_le_iff flip: of_int_abs)
  with y have "\<bar>f64_round x\<bar> \<le> of_int (2 ^ 53)" by linarith
  also have "\<dots> < (2 :: rat) ^ 1024" by simp
  finally show ?thesis using y by (simp add: fl_Fin)
qed

end
