(* ===== verification/Time_Sync.thy ===== *)
theory Time_Sync
  imports Float64
begin

text \<open>
  Clock synchronisation: the Kalman filter of \<open>pkg/sync/timefilter.go\<close> on the \<open>float64\<close> model, and
  the \<open>ClockSync\<close> of \<open>pkg/sync/clock.go\<close> that feeds it with the four time stamps of a
  \<open>client/time\<close> - \<open>server/time\<close> exchange. Times are \<open>int64\<close> microseconds.
\<close>

section \<open>The \<open>math\<close> functions\<close>

function isqrt :: "nat \<Rightarrow> nat" where
  "isqrt n =
     (if n = 0 then 0
      else let r = 2 * isqrt (n div 4) in if (r + 1) * (r + 1) \<le> n then r + 1 else r)"
  by pat_completeness auto
termination
  by (relation "measure id") auto

declare isqrt.simps [simp del]

lemma isqrt_correct: "isqrt n * isqrt n \<le> n \<and> n < (isqrt n + 1) * (isqrt n + 1)"
proof (induction n rule: isqrt.induct)
  case (1 n)
  show ?case
  proof (cases "n = 0")
    case True
    then show ?thesis by (simp add: isqrt.simps)
  next
    case False
    define r where "r = isqrt (n div 4)"
    have r: "r * r \<le> n div 4" "n div 4 < (r + 1) * (r + 1)"
      using 1 False by (simp_all add: r_def)
    then have "4 * (r * r) \<le> n" "n < 4 * ((r + 1) * (r + 1))"
      by (simp_all only: less_eq_div_iff_mult_less_eq div_less_iff_less_mult mult.commute [of _ 4]
          zero_less_numeral)
    moreover have "isqrt n = (if (2 * r + 1) * (2 * r + 1) \<le> n then 2 * r + 1 else 2 * r)"
      using False by (subst isqrt.simps) (simp add: r_def Let_def)
    ultimately show ?thesis
      by (auto simp: algebra_simps)
  qed
qed

definition f64_sqrt :: "f64 \<Rightarrow> f64" where
  "f64_sqrt f =
     (case f of
        Fin x \<Rightarrow>
          (if x < 0 then NaN
           else if x = 0 then Fin 0
           else
             let e = ilog2 x div 2 - 52;
                 y = x / pow2 (2 * e);
                 n = int (isqrt (nat \<lfloor>y\<rfloor>));
                 m = (if of_int ((2 * n + 1) * (2 * n + 1)) < 4 * y then n + 1 else n)
             in Fin (of_int m * pow2 e))
      | Inf s \<Rightarrow> (if s then NaN else Inf False)
      | NaN \<Rightarrow> NaN)"

definition half_away :: "rat \<Rightarrow> int" where
  "half_away x = (if 0 \<le> x then \<lfloor>x + 1 / 2\<rfloor> else \<lceil>x - 1 / 2\<rceil>)"

text \<open>\<open>math.Round\<close>: to the nearest integer, halves away from zero.\<close>

fun math_Round :: "f64 \<Rightarrow> f64" where
  "math_Round (Fin x) = Fin (of_int (half_away x))"
| "math_Round f = f"

fun math_Abs :: "f64 \<Rightarrow> f64" where
  "math_Abs (Fin x) = Fin \<bar>x\<bar>"
| "math_Abs (Inf s) = Inf False"
| "math_Abs NaN = NaN"

fun is_finite :: "f64 \<Rightarrow> bool" where
  "is_finite (Fin x) \<longleftrightarrow> True"
| "is_finite _ \<longleftrightarrow> False"

lemma half_away_near: "\<bar>of_int (half_away x) - x\<bar> \<le> 1 / 2"
proof (cases "0 \<le> x")
  case True
  then have "half_away x = \<lfloor>x + 1 / 2\<rfloor>" by (simp add: half_away_def)
  then show ?thesis using floor_correct [of "x + 1 / 2"] by linarith
next
  case False
  then have "half_away x = \<lceil>x - 1 / 2\<rceil>" by (simp add: half_away_def)
  then show ?thesis using ceiling_correct [of "x - 1 / 2"] by linarith
qed

lemma half_away_of_int [simp]: "half_away (of_int n) = n"
proof -
  have "\<bar>of_int (half_away (of_int n)) - of_int n\<bar> \<le> (1 / 2 :: rat)"
    by (rule half_away_near)
  then have "\<bar>of_int (half_away (of_int n) - n)\<bar> < (1 :: rat)" by simp
  then have "\<bar>half_away (of_int n) - n\<bar> < 1"
    by (simp only: of_int_less_1_iff flip: of_int_abs)
  then show ?thesis by simp
qed

section \<open>The filter\<close>

record TimeFilterConfig =
  ProcessStdDev :: f64
  DriftProcessStdDev :: f64
  ForgetFactor :: f64
  AdaptiveCutoff :: f64
  MinSamples :: "8 word"
  DriftSignificanceThreshold :: f64
  MaxErrorScale :: f64

definition DefaultTimeFilterConfig :: TimeFilterConfig where
  "DefaultTimeFilterConfig =
     \<lparr>ProcessStdDev = Fin 0, DriftProcessStdDev = fl (1 / 10 ^ 11), ForgetFactor = Fin 2,
      AdaptiveCutoff = Fin 3, MinSamples = 100, DriftSignificanceThreshold = Fin 2,
      MaxErrorScale = Fin (1 / 2)\<rparr>"

record TimeFilter =
  lastUpdate :: int
  offset :: f64
  drift :: f64
  offsetCovariance :: f64
  offsetDriftCovariance :: f64
  driftCovariance :: f64
  processVariance :: f64
  driftProcessVariance :: f64
  forgetVarianceFactor :: f64
  adaptiveForgettingCutoff :: f64
  driftSignificanceThresholdSq :: f64
  maxErrorScale :: f64
  useDrift :: bool
  tf_count :: "8 word"
  minSamples :: "8 word"

definition tf_reset :: "TimeFilter \<Rightarrow> TimeFilter" where
  "tf_reset tf =
     tf\<lparr>tf_count := 0, offset := Fin 0, drift := Fin 0, offsetCovariance := Inf False,
        offsetDriftCovariance := Fin 0, driftCovariance := Fin 0, lastUpdate := 0,
        useDrift := False\<rparr>"

definition NewTimeFilter :: "TimeFilterConfig \<Rightarrow> TimeFilter" where
  "NewTimeFilter cfg =
     (let scale = (if f64_less (Fin 0) (MaxErrorScale cfg) \<or> MaxErrorScale cfg = NaN
                   then MaxErrorScale cfg else Fin 1)
      in tf_reset
           \<lparr>lastUpdate = 0, offset = Fin 0, drift = Fin 0, offsetCovariance = Fin 0,
            offsetDriftCovariance = Fin 0, driftCovariance = Fin 0,
            processVariance = f64_mul (ProcessStdDev cfg) (ProcessStdDev cfg),
            driftProcessVariance = f64_mul (DriftProcessStdDev cfg) (DriftProcessStdDev cfg),
            forgetVarianceFactor = f64_mul (ForgetFactor cfg) (ForgetFactor cfg),
            adaptiveForgettingCutoff = AdaptiveCutoff cfg,
            driftSignificanceThresholdSq =
              f64_mul (DriftSignificanceThreshold cfg) (DriftSignificanceThreshold cfg),
            maxErrorScale = scale, useDrift = False, tf_count = 0, minSamples = MinSamples cfg\<rparr>)"

text \<open>The Kalman step from the third measurement on.\<close>

definition kalman_step :: "int \<Rightarrow> int \<Rightarrow> f64 \<Rightarrow> f64 \<Rightarrow> f64 \<Rightarrow> TimeFilter \<Rightarrow> TimeFilter" where
  "kalman_step measurement maxError dt dtSq measVar tf =
     (let predOffset = f64_add (offset tf) (f64_mul (drift tf) dt);
          driftProcVar = f64_mul dt (driftProcessVariance tf);
          newDriftCov = f64_add (driftCovariance tf) driftProcVar;
          newOffsetDriftCov =
            f64_add (offsetDriftCovariance tf) (f64_mul (driftCovariance tf) dt);
          offsetProcVar = f64_mul dt (processVariance tf);
          newOffsetCov =
            f64_add (f64_add (f64_add (offsetCovariance tf)
                (f64_mul (f64_mul (Fin 2) (offsetDriftCovariance tf)) dt))
                (f64_mul (driftCovariance tf) dtSq)) offsetProcVar;
          residual = f64_sub (f64_of_int measurement) predOffset;
          cutoff = f64_mul (f64_of_int maxError) (adaptiveForgettingCutoff tf);
          warmup = tf_count tf < minSamples tf;
          forget = \<not> warmup \<and> f64_less cutoff (math_Abs residual);
          factor = forgetVarianceFactor tf;
          newDriftCov = (if forget then f64_mul newDriftCov factor else newDriftCov);
          newOffsetDriftCov =
            (if forget then f64_mul newOffsetDriftCov factor else newOffsetDriftCov);
          newOffsetCov = (if forget then f64_mul newOffsetCov factor else newOffsetCov);
          invS = f64_div (Fin 1) (f64_add newOffsetCov measVar);
          offsetGain = f64_mul newOffsetCov invS;
          driftGain = f64_mul newOffsetDriftCov invS;
          newDrift = f64_add (drift tf) (f64_mul driftGain residual);
          driftCov = f64_sub newDriftCov (f64_mul driftGain newOffsetDriftCov)
      in tf\<lparr>tf_count := (if warmup then tf_count tf + 1 else tf_count tf),
            offset := f64_add predOffset (f64_mul offsetGain residual),
            drift := newDrift,
            driftCovariance := driftCov,
            offsetDriftCovariance := f64_sub newOffsetDriftCov (f64_mul driftGain newOffsetCov),
            offsetCovariance := f64_sub newOffsetCov (f64_mul offsetGain newOffsetCov),
            useDrift := f64_less (f64_mul (driftSignificanceThresholdSq tf) driftCov)
                          (f64_mul newDrift newDrift)\<rparr>)"

definition Update :: "int \<Rightarrow> int \<Rightarrow> int \<Rightarrow> TimeFilter \<Rightarrow> TimeFilter" where
  "Update measurement maxError timeAdded tf =
     (if timeAdded \<le> lastUpdate tf then tf
      else
        let dt = f64_of_int (wrap64 (timeAdded - lastUpdate tf));
            dtSq = f64_mul dt dt;
            tf = tf\<lparr>lastUpdate := timeAdded\<rparr>;
            updateStdDev = f64_mul (f64_of_int maxError) (maxErrorScale tf);
            measVar = f64_mul updateStdDev updateStdDev
        in if tf_count tf = 0
           then tf\<lparr>tf_count := tf_count tf + 1, offset := f64_of_int measurement,
                   offsetCovariance := measVar, drift := Fin 0\<rparr>
           else if tf_count tf = 1
           then tf\<lparr>tf_count := tf_count tf + 1,
                   drift := f64_div (f64_sub (f64_of_int measurement) (offset tf)) dt,
                   offset := f64_of_int measurement,
                   driftCovariance := f64_div (f64_add (offsetCovariance tf) measVar) dtSq,
                   offsetCovariance := measVar\<rparr>
           else kalman_step measurement maxError dt dtSq measVar tf)"

definition effectiveDrift :: "TimeFilter \<Rightarrow> f64" where
  "effectiveDrift tf = (if useDrift tf then drift tf else Fin 0)"

definition ComputeServerTime :: "TimeFilter \<Rightarrow> int \<Rightarrow> int" where
  "ComputeServerTime tf clientTime =
     (let dt = f64_of_int (wrap64 (clientTime - lastUpdate tf));
          off = math_Round (f64_add (offset tf) (f64_mul (effectiveDrift tf) dt))
      in wrap64 (clientTime + f64_to_int64 off))"

definition ComputeClientTime :: "TimeFilter \<Rightarrow> int \<Rightarrow> int" where
  "ComputeClientTime tf serverTime =
     f64_to_int64 (math_Round
       (f64_div
         (f64_add (f64_sub (f64_of_int serverTime) (offset tf))
                  (f64_mul (effectiveDrift tf) (f64_of_int (lastUpdate tf))))
         (f64_add (Fin 1) (effectiveDrift tf))))"

definition MaxInt64 :: int where "MaxInt64 = 2 ^ 63 - 1"

definition GetError :: "TimeFilter \<Rightarrow> int" where
  "GetError tf =
     (let v = f64_sqrt (offsetCovariance tf)
      in if \<not> is_finite v then MaxInt64 else f64_to_int64 (math_Round v))"

definition GetCovariance :: "TimeFilter \<Rightarrow> int" where
  "GetCovariance tf =
     (let v = offsetCovariance tf
      in if \<not> is_finite v then MaxInt64 else f64_to_int64 (math_Round v))"

definition Synced :: "TimeFilter \<Rightarrow> bool" where
  "Synced tf \<longleftrightarrow> 0 < tf_count tf"

section \<open>ClockSync\<close>

datatype Quality = QualityGood | QualityDegraded | QualityLost

definition qualityFromError :: "int \<Rightarrow> Quality" where
  "qualityFromError errUs =
     (if errUs < 100 then QualityGood else if errUs < 5000 then QualityDegraded else QualityLost)"

record ClockSync =
  cs_filter :: TimeFilter
  cs_rtt :: int
  cs_quality :: Quality
  cs_lastSync :: instant
  cs_sampleCount :: int

text \<open>The zero \<open>time.Time\<close> is the first of January of the year one.\<close>

definition zero_time :: instant where "zero_time = - 62135596800000000000"

definition NewClockSyncWithConfig :: "TimeFilterConfig \<Rightarrow> ClockSync" where
  "NewClockSyncWithConfig cfg =
     \<lparr>cs_filter = NewTimeFilter cfg, cs_rtt = 0, cs_quality = QualityLost,
      cs_lastSync = zero_time, cs_sampleCount = 0\<rparr>"

definition NewClockSync :: ClockSync where
  "NewClockSync = NewClockSyncWithConfig DefaultTimeFilterConfig"

definition ProcessSyncResponse ::
  "instant \<Rightarrow> int \<Rightarrow> int \<Rightarrow> int \<Rightarrow> int \<Rightarrow> ClockSync \<Rightarrow> ClockSync" where
  "ProcessSyncResponse now t1 t2 t3 t4 cs =
     (let rtt = wrap64 (wrap64 (t4 - t1) - wrap64 (t3 - t2));
          measurement = go_quot (wrap64 (wrap64 (t2 - t1) + wrap64 (t3 - t4))) 2;
          maxError = go_quot rtt 2;
          filter = Update measurement maxError t4 (cs_filter cs)
      in cs\<lparr>cs_rtt := rtt, cs_lastSync := now, cs_filter := filter,
            cs_quality := qualityFromError (GetError filter),
            cs_sampleCount := wrap64 (cs_sampleCount cs + 1)\<rparr>)"

definition GetStats :: "ClockSync \<Rightarrow> int \<times> Quality" where
  "GetStats cs = (cs_rtt cs, cs_quality cs)"

definition CheckQuality :: "instant \<Rightarrow> ClockSync \<Rightarrow> Quality \<times> ClockSync" where
  "CheckQuality now cs =
     (let cs = (if 5 * second < time_sub now (cs_lastSync cs)
                then cs\<lparr>cs_quality := QualityLost\<rparr> else cs)
      in (cs_quality cs, cs))"

definition ServerToLocalTime :: "ClockSync \<Rightarrow> int \<Rightarrow> instant" where
  "ServerToLocalTime cs serverTime =
     (if \<not> Synced (cs_filter cs) then wrap64 (serverTime * 1000)
      else ComputeClientTime (cs_filter cs) serverTime * 1000)"

text \<open>\<open>nowMicros\<close> is the wall clock, \<open>time.Now().UnixMicro()\<close>.\<close>

definition ServerMicrosNow :: "ClockSync \<Rightarrow> int \<Rightarrow> int" where
  "ServerMicrosNow cs nowMicros =
     (if \<not> Synced (cs_filter cs) then nowMicros
      else ComputeServerTime (cs_filter cs) nowMicros)"

section \<open>Properties of the filter\<close>

lemma lastUpdate_Update [simp]: "lastUpdate (Update m e t tf) = max (lastUpdate tf) t"
  by (simp add: Update_def kalman_step_def Let_def max_def)

lemma Update_stale: "t \<le> lastUpdate tf \<Longrightarrow> Update m e t tf = tf"
  by (simp add: Update_def)

lemma Update_first:
  "lastUpdate tf < t \<Longrightarrow> tf_count tf = 0 \<Longrightarrow>
   offset (Update m e t tf) = f64_of_int m \<and> drift (Update m e t tf) = Fin 0 \<and>
   useDrift (Update m e t tf) = useDrift tf \<and> tf_count (Update m e t tf) = 1"
  by (simp add: Update_def Let_def)

lemma fl_of_int_small: "\<bar>n\<bar> \<le> 2 ^ 53 \<Longrightarrow> fl (of_int n) = Fin (of_int n)"
  using f64_of_int_exact by (simp add: f64_of_int_def)

lemma f64_of_int_Fin: "\<exists>y. f64_of_int n = Fin y" if "is_int64 n"
proof -
  have "\<bar>n\<bar> \<le> 2 ^ 63" using that by (auto simp: is_int64_def)
  then have "\<bar>of_int n\<bar> \<le> (of_int (2 ^ 63) :: rat)"
    by (simp only: of_int_le_iff flip: of_int_abs)
  also have "\<dots> < pow2 64" by (simp add: power_int_def)
  finally show ?thesis
    using fl_small(1) [of "of_int n" 64] by (simp add: f64_of_int_def)
qed

text \<open>While drift is not applied the conversion to server time adds the rounded offset.\<close>

lemma ComputeServerTime_no_drift:
  assumes "\<not> useDrift tf" "offset tf = Fin x" "f64_representable x" "\<bar>x\<bar> \<le> 2 ^ 52"
    and "\<bar>t\<bar> \<le> 2 ^ 52"
  shows "ComputeServerTime tf t = t + half_away x" "\<bar>half_away x\<bar> \<le> 2 ^ 52 + 1"
proof -
  obtain y where y: "f64_of_int (wrap64 (t - lastUpdate tf)) = Fin y"
    using f64_of_int_Fin wrap64_in_range by blast
  show h: "\<bar>half_away x\<bar> \<le> 2 ^ 52 + 1"
  proof -
    have "\<bar>of_int (half_away x)\<bar> \<le> (of_int (2 ^ 52 + 1) :: rat)"
      using half_away_near [of x] assms(4) unfolding of_int_add of_int_power of_int_numeral of_int_1
      by linarith
    then show ?thesis by (simp only: of_int_le_iff flip: of_int_abs)
  qed
  have "\<bar>x\<bar> < 2 ^ 1024"
  proof -
    have "(2 :: rat) ^ 52 < 2 ^ 1024" by simp
    with assms(4) show ?thesis by (rule order.strict_trans1)
  qed
  then have "fl (x + 0) = Fin x" using fl_exact assms(3) by simp
  moreover have "is_int64 (half_away x)" "is_int64 (t + half_away x)"
    using h assms(5) by (auto simp: is_int64_def abs_le_iff)
  ultimately show "ComputeServerTime tf t = t + half_away x"
    using assms(1,2) y
    by (simp add: ComputeServerTime_def effectiveDrift_def f64_to_int64_def wrap64_id Let_def)
qed

lemma ComputeClientTime_no_drift:
  assumes "\<not> useDrift tf" "offset tf = Fin x" "\<bar>x\<bar> \<le> 2 ^ 51" "\<bar>s\<bar> \<le> 2 ^ 52"
    and "is_int64 (lastUpdate tf)"
  shows "ComputeClientTime tf s = half_away (f64_round (of_int s - x))"
proof -
  obtain y where y: "f64_of_int (lastUpdate tf) = Fin y"
    using f64_of_int_Fin assms(5) by blast
  have "of_int (- (2 ^ 52)) \<le> (of_int s :: rat)" "of_int s \<le> (of_int (2 ^ 52) :: rat)"
    using assms(4) by (simp_all only: of_int_le_iff abs_le_iff, linarith)
  then have "of_int (- (2 ^ 53)) \<le> of_int s - x" "of_int s - x \<le> of_int (2 ^ 53)"
    using assms(3) by (auto simp: abs_le_iff)
  from fl_bounded [OF this] have r: "fl (of_int s - x) = Fin (f64_round (of_int s - x))"
    and b: "\<bar>f64_round (of_int s - x)\<bar> \<le> 2 ^ 53" by (auto simp: abs_le_iff)
  have "(2 :: rat) ^ 53 < 2 ^ 1024" by simp
  with b have "\<bar>f64_round (of_int s - x)\<bar> < 2 ^ 1024" by linarith
  then have r2: "fl (f64_round (of_int s - x)) = Fin (f64_round (of_int s - x))"
    by (rule fl_exact [OF f64_representable_round])
  have "half_away (f64_round (of_int s - x)) \<le> 2 ^ 53"
    "- (2 ^ 53) \<le> half_away (f64_round (of_int s - x))"
    using b by (auto simp: half_away_def abs_le_iff floor_le_iff le_ceiling_iff)
  then have "is_int64 (half_away (f64_round (of_int s - x)))"
    by (simp add: is_int64_def)
  moreover have "f64_of_int s = Fin (of_int s)"
    using assms(4) by (intro f64_of_int_exact) simp
  moreover have "fl 1 = Fin 1"
    using fl_exact [OF f64_representable_1] by simp
  ultimately show ?thesis
    using assms(1,2) y r r2
    by (simp add: ComputeClientTime_def effectiveDrift_def f64_sub_def f64_to_int64_def)
qed

text \<open>
  Converting a client time to server time and back is exact up to one microsecond while
  the filter does not apply drift, for any offset it has estimated.
\<close>

theorem time_conversion_roundtrip:
  assumes "\<not> useDrift tf" "offset tf = Fin x" "f64_representable x" "\<bar>x\<bar> \<le> 2 ^ 50"
    and "\<bar>t\<bar> \<le> 2 ^ 51" "is_int64 (lastUpdate tf)"
  shows "\<bar>ComputeClientTime tf (ComputeServerTime tf t) - t\<bar> \<le> 1"
proof -
  define s where "s = t + half_away x"
  have x52: "\<bar>x\<bar> \<le> 2 ^ 52" "\<bar>x\<bar> \<le> 2 ^ 51" "\<bar>t\<bar> \<le> 2 ^ 52"
    using assms(4,5) by (simp_all add: abs_le_iff)
  have server: "ComputeServerTime tf t = s"
    using ComputeServerTime_no_drift(1) [OF assms(1-3) x52(1,3)] by (simp add: s_def)
  have near: "\<bar>of_int (half_away x) - x\<bar> \<le> 1 / 2" by (rule half_away_near)
  have "\<bar>half_away x\<bar> \<le> 2 ^ 50 + 1"
  proof -
    have "\<bar>of_int (half_away x)\<bar> \<le> (of_int (2 ^ 50 + 1) :: rat)"
      using near assms(4) unfolding of_int_add of_int_power of_int_numeral of_int_1 by linarith
    then show ?thesis by (simp only: of_int_le_iff flip: of_int_abs)
  qed
  then have s: "\<bar>s\<bar> \<le> 2 ^ 52" using assms(5) by (auto simp: s_def abs_le_iff)
  have client: "ComputeClientTime tf s = half_away (f64_round (of_int s - x))"
    by (rule ComputeClientTime_no_drift [OF assms(1,2) x52(2) s assms(6)])
  have half: "f64_representable (of_int n / 2)" if "\<bar>n\<bar> \<le> 2 ^ 53" for n
    unfolding f64_representable_def
    using that by (intro exI [of _ n] exI [of _ "- 1"]) simp
  have "of_int s - x = of_int t + (of_int (half_away x) - x)" by (simp add: s_def)
  moreover have ends: "of_int (2 * t - 1) / 2 = (of_int t - 1 / 2 :: rat)"
    "of_int (2 * t + 1) / 2 = (of_int t + 1 / 2 :: rat)" by (simp_all add: field_simps)
  ultimately have b: "of_int (2 * t - 1) / 2 \<le> of_int s - x"
    "of_int s - x \<le> of_int (2 * t + 1) / 2"
    using near by linarith+
  have "\<bar>2 * t - 1\<bar> \<le> 2 ^ 53" "\<bar>2 * t + 1\<bar> \<le> 2 ^ 53" using assms(5) by (auto simp: abs_le_iff)
  with b have "of_int (2 * t - 1) / 2 \<le> f64_round (of_int s - x)"
    "f64_round (of_int s - x) \<le> of_int (2 * t + 1) / 2"
    using f64.rnd_ge f64.rnd_le half by blast+
  then have "\<bar>f64_round (of_int s - x) - of_int t\<bar> \<le> 1 / 2" using ends by linarith
  then have "\<bar>of_int (half_away (f64_round (of_int s - x))) - of_int t\<bar> \<le> (1 :: rat)"
    using half_away_near [of "f64_round (of_int s - x)"] by linarith
  then have "\<bar>half_away (f64_round (of_int s - x)) - t\<bar> \<le> 1"
    by (simp only: of_int_le_1_iff flip: of_int_abs of_int_diff)
  then show ?thesis by (simp add: server client)
qed

definition synced_filter_example :: TimeFilter where
  "synced_filter_example =
     (NewTimeFilter DefaultTimeFilterConfig)
       \<lparr>lastUpdate := 5000, offset := Fin (5 / 2), tf_count := 1\<rparr>"

theorem time_conversion_roundtrip_witness:
  "\<bar>ComputeClientTime synced_filter_example (ComputeServerTime synced_filter_example 7000) - 7000\<bar> \<le> 1"
proof (rule time_conversion_roundtrip [where x = "5 / 2"])
  show "f64_representable (5 / 2)"
    unfolding f64_representable_def by (intro exI [of _ 5] exI [of _ "- 1"]) simp
qed (simp_all add: synced_filter_example_def NewTimeFilter_def tf_reset_def is_int64_def Let_def)

lemma go_quot_2: "\<bar>2 * go_quot a 2 - a\<bar> \<le> 1"
  by (cases "0 \<le> a") (auto simp: go_quot_def signed_divide_int_def sgn_if)

lemma go_quot_2_bound: "\<bar>a\<bar> \<le> b \<Longrightarrow> \<bar>2 * go_quot a 2\<bar> \<le> b + 1"
  using go_quot_2 [of a] by linarith

text \<open>
  C28. After the first exchange the client's estimate of the server clock is off by at most
  half the round trip, however the network delay is split between the two directions: \<open>d1\<close> and
  \<open>d2\<close> are the one-way delays, \<open>pr\<close> the time the server takes and \<open>theta\<close> the true clock offset.
\<close>

theorem first_sync_error_bound:
  assumes delays: "0 \<le> d1" "d1 \<le> 2 ^ 48" "0 \<le> d2" "d2 \<le> 2 ^ 48" "0 \<le> pr" "pr \<le> 2 ^ 48"
    and stamps: "\<bar>t1\<bar> \<le> 2 ^ 51" "\<bar>theta\<bar> \<le> 2 ^ 51" "\<bar>u\<bar> \<le> 2 ^ 52"
    and exchange: "t2 = t1 + theta + d1" "t3 = t2 + pr" "t4 = t3 - theta + d2" "0 < t4"
    and cs: "cs = ProcessSyncResponse now t1 t2 t3 t4 (NewClockSyncWithConfig cfg)"
  shows "cs_rtt cs = d1 + d2 \<and>
         \<bar>ServerMicrosNow cs u - (u + theta)\<bar> \<le> (d1 + d2 + 1) div 2"
proof -
  have small: "is_int64 (t4 - t1)" "is_int64 (t3 - t2)" "is_int64 (t2 - t1)" "is_int64 (t3 - t4)"
    "is_int64 ((t4 - t1) - (t3 - t2))" "is_int64 ((t2 - t1) + (t3 - t4))"
    using delays stamps exchange by (auto simp: is_int64_def abs_le_iff)
  have rtt: "(t4 - t1) - (t3 - t2) = d1 + d2" and two: "(t2 - t1) + (t3 - t4) = 2 * theta + d1 - d2"
    using exchange by auto
  define m where "m = go_quot (2 * theta + d1 - d2) 2"
  have m: "\<bar>2 * m - (2 * theta + d1 - d2)\<bar> \<le> 1" by (simp add: m_def go_quot_2)
  then have m52: "\<bar>m\<bar> \<le> 2 ^ 52" using delays stamps by (auto simp: abs_le_iff)
  define filter where "filter = Update m (go_quot (d1 + d2) 2) t4 (NewTimeFilter cfg)"
  have cs': "cs_filter cs = filter" "cs_rtt cs = d1 + d2"
    using small by (simp_all add: cs ProcessSyncResponse_def NewClockSyncWithConfig_def Let_def
        wrap64_id rtt two m_def filter_def)
  have new: "lastUpdate (NewTimeFilter cfg) = 0" "tf_count (NewTimeFilter cfg) = 0"
    "\<not> useDrift (NewTimeFilter cfg)"
    by (simp_all add: NewTimeFilter_def tf_reset_def Let_def)
  have f: "offset filter = Fin (of_int m)" "\<not> useDrift filter" "tf_count filter = 1"
    using Update_first [of "NewTimeFilter cfg" t4] new exchange(4) m52
    by (simp_all add: filter_def f64_of_int_exact)
  have rep: "f64_representable (of_int m)"
    using m52 by (intro f64_representable_of_int) simp
  have "\<bar>of_int m\<bar> \<le> (of_int (2 ^ 52) :: rat)"
    using m52 by (simp only: of_int_le_iff flip: of_int_abs)
  then have "ComputeServerTime filter u = u + m"
    using ComputeServerTime_no_drift(1) [OF f(2,1) rep _ stamps(3)] by simp
  then have "ServerMicrosNow cs u = u + m"
    by (simp add: ServerMicrosNow_def Synced_def cs'(1) f(3))
  moreover have "\<bar>m - theta\<bar> \<le> (d1 + d2 + 1) div 2"
    using m delays by (auto simp: abs_le_iff)
  ultimately show ?thesis using cs'(2) by simp
qed

theorem first_sync_error_bound_witness:
  "cs_rtt (ProcessSyncResponse 0 1000 501300 501400 1900 NewClockSync) = 300 + 500 \<and>
   \<bar>ServerMicrosNow (ProcessSyncResponse 0 1000 501300 501400 1900 NewClockSync) 9000 - (9000 + 500000)\<bar>
     \<le> (300 + 500 + 1) div 2"
  by (rule first_sync_error_bound [where pr = 100 and cfg = DefaultTimeFilterConfig])
    (simp_all add: NewClockSync_def)

text \<open>A client that hears nothing for more than five seconds considers the clock lost.\<close>

lemma CheckQuality_silence:
  "cs_lastSync cs + 5 * second < now \<Longrightarrow> CheckQuality now cs = (QualityLost, cs\<lparr>cs_quality := QualityLost\<rparr>)"
  by (simp add: CheckQuality_def is_int64_def)

end
