(* ===== verification/Client_Dialer.thy ===== *)
theory Client_Dialer
  imports Go_Prelude Go_Strings
begin

text \<open>
  The outbound dialler of \<open>pkg/sendspin/client_dialer.go\<close>: one slot per mDNS instance, claimed
  before a dial and released with its outcome. A slot stays taken after a normal session, is freed
  at once after a restart goodbye, and is freed with an exponential cool-down after a failure.
  Dialling itself is I/O: a dial is an instance in flight until its outcome arrives.
\<close>

section \<open>The dialler\<close>

datatype dial_result = DialOk | DialRetryRequested | DialFailed string

record clientDialer =
  baseBackoff :: duration
  maxBackoff :: duration
  d_active :: "string set"
  d_cooldown :: "string \<rightharpoonup> instant"
  d_failures :: "string \<Rightarrow> int"

definition newClientDialer :: clientDialer where
  "newClientDialer =
     \<lparr>baseBackoff = 1 * second, maxBackoff = 30 * second, d_active = {}, d_cooldown = Map.empty,
      d_failures = (\<lambda>_. 0)\<rparr>"

definition clientInfoURL :: "string \<Rightarrow> int \<Rightarrow> string \<Rightarrow> string" where
  "clientInfoURL host port path =
     ''ws://'' @ host @ '':'' @ show_int port @
     (if prefix ''/'' path then path else ''/'' @ path)"

text \<open>\<open>dialAndHandle\<close>: the outcome of a dial, and the retry flag of the handled connection.\<close>

definition dialAndHandle :: "string + bool \<Rightarrow> dial_result" where
  "dialAndHandle r =
     (case r of Inl err \<Rightarrow> DialFailed err
      | Inr retry \<Rightarrow> if retry then DialRetryRequested else DialOk)"

definition claim :: "instant \<Rightarrow> string \<Rightarrow> clientDialer \<Rightarrow> bool \<times> clientDialer" where
  "claim now i d =
     (if i \<in> d_active d then (False, d)
      else if (case d_cooldown d i of Some until \<Rightarrow> now < until | None \<Rightarrow> False) then (False, d)
      else (True, d\<lparr>d_active := insert i (d_active d)\<rparr>))"

text \<open>\<open>1 << k\<close> on 64 bits.\<close>

definition shift_one :: "int \<Rightarrow> int" where
  "shift_one k = wrap64 (2 ^ nat k)"

definition backoff_for :: "clientDialer \<Rightarrow> int \<Rightarrow> duration" where
  "backoff_for d failures =
     (let backoff = wrap64 (baseBackoff d * shift_one (failures - 1))
      in if maxBackoff d < backoff \<or> backoff \<le> 0 then maxBackoff d else backoff)"

definition release :: "instant \<Rightarrow> string \<Rightarrow> dial_result \<Rightarrow> clientDialer \<Rightarrow> clientDialer" where
  "release now i result d =
     (case result of
        DialOk \<Rightarrow> d\<lparr>d_failures := (d_failures d)(i := 0), d_cooldown := (d_cooldown d)(i := None)\<rparr>
      | DialRetryRequested \<Rightarrow>
          d\<lparr>d_active := d_active d - {i}, d_failures := (d_failures d)(i := 0),
            d_cooldown := (d_cooldown d)(i := None)\<rparr>
      | DialFailed err \<Rightarrow>
          (let failures = d_failures d i + 1
           in d\<lparr>d_active := d_active d - {i}, d_failures := (d_failures d)(i := failures),
                d_cooldown := (d_cooldown d)(i := Some (now + backoff_for d failures))\<rparr>))"

section \<open>Back-off\<close>

lemma power_as_numeral: "k < 34 \<Longrightarrow> (1000000000 :: int) * 2 ^ k < 2 ^ 63"
  using power_increasing [of k 33 "2 :: int"] by simp

lemma wrap64_nonneg: "0 \<le> x \<Longrightarrow> x < 2 ^ 63 \<Longrightarrow> wrap64 x = x"
  by (rule wrap64_id) (simp add: is_int64_def)

lemma shift_one_small: "k \<le> 62 \<Longrightarrow> shift_one (int k) = 2 ^ k"
proof -
  assume "k \<le> 62"
  then have "(2 :: int) ^ k \<le> 2 ^ 62" by (rule power_increasing) simp
  moreover have "(2 :: int) ^ 62 < 2 ^ 63" by simp
  ultimately have "(2 :: int) ^ k < 2 ^ 63" by linarith
  then show ?thesis by (simp add: shift_one_def wrap64_nonneg)
qed

text \<open>Beyond 33 doublings the product wraps to a multiple of \<open>2 ^ 43\<close>, never to a short delay.\<close>

lemma wrap_multiple:
  assumes "j \<le> 63" "2 ^ j dvd x"
  shows "2 ^ j dvd wrap64 x"
proof -
  have d: "(2 :: int) ^ j dvd 2 ^ 63" "(2 :: int) ^ j dvd 2 ^ 64"
    by (rule le_imp_power_dvd, use assms(1) in linarith)+
  have "2 ^ j dvd (x + 2 ^ 63) mod 2 ^ 64"
    by (rule dvd_mod [OF dvd_add [OF assms(2) d(1)] d(2)])
  then show ?thesis unfolding wrap64_eq_mod by (rule dvd_diff [OF _ d(1)])
qed

lemma not_short: "(2 :: int) ^ 43 dvd x \<Longrightarrow> 30000000000 < x \<or> x \<le> 0"
proof -
  assume d: "(2 :: int) ^ 43 dvd x"
  show ?thesis
  proof (rule ccontr)
    assume "\<not> (30000000000 < x \<or> x \<le> 0)"
    then have "0 < x" "x \<le> 30000000000" by simp_all
    with zdvd_imp_le [OF d] show False by simp
  qed
qed

lemma backoff_value:
  assumes "baseBackoff d = second" "maxBackoff d = 30 * second" "1 \<le> n"
  shows "backoff_for d (int n) = min (30 * second) (second * 2 ^ (n - 1))"
proof -
  define k where "k = n - 1"
  have shift: "backoff_for d (int n) =
      (let b = wrap64 (second * shift_one (int k)) in if 30 * second < b \<or> b \<le> 0 then 30 * second else b)"
    using assms by (simp add: backoff_for_def Let_def k_def of_nat_diff)
  show ?thesis
  proof (cases "k < 34")
    case True
    have "wrap64 (second * 2 ^ k) = second * 2 ^ k"
      by (rule wrap64_nonneg [OF _ power_as_numeral [OF True]]) simp
    then have "wrap64 (second * shift_one (int k)) = second * 2 ^ k"
      using True by (subst shift_one_small) simp_all
    then show ?thesis by (auto simp: shift Let_def k_def min_def)
  next
    case False
    have "(2 :: int) ^ 34 dvd 2 ^ k" using False by (intro le_imp_power_dvd) simp
    then have "2 ^ 34 dvd shift_one (int k)"
      unfolding shift_one_def nat_int by (intro wrap_multiple) simp_all
    define s where "s = second * shift_one (int k)"
    have "(1000000000 :: int) * 2 ^ 34 dvd s"
      using \<open>2 ^ 34 dvd shift_one (int k)\<close> unfolding s_def by (rule mult_dvd_mono [OF dvd_refl])
    moreover have "(2 :: int) ^ 43 dvd 1000000000 * 2 ^ 34" by simp
    ultimately have "2 ^ 43 dvd s" by (metis dvd_trans)
    then have "2 ^ 43 dvd wrap64 s" by (rule wrap_multiple [of 43, rotated]) simp
    then have long: "30000000000 < wrap64 s \<or> wrap64 s \<le> 0" by (rule not_short)
    define p where "p = (2 :: int) ^ k"
    have "(2 :: int) ^ 34 \<le> p"
      using False unfolding p_def by (intro power_increasing) simp_all
    then have "30 * second < second * p" by simp
    then have "min (30 * second) (second * p) = 30 * second" by simp
    moreover have "backoff_for d (int n) = 30 * second"
      using long unfolding shift s_def [symmetric] Let_def by auto
    ultimately show ?thesis unfolding p_def k_def by simp
  qed
qed

section \<open>Runs\<close>

text \<open>
  Discovery events and dial outcomes, in any order; the instances in flight are recorded beside the
  dialler.
\<close>

datatype dial_event =
    Discovered instant string
  | Finished instant string dial_result

fun dialer_step :: "dial_event \<Rightarrow> string list \<times> clientDialer \<Rightarrow> (string list \<times> clientDialer) option" where
  "dialer_step (Discovered now i) (flight, d) =
     (case claim now i d of (ok, d') \<Rightarrow> Some (if ok then i # flight else flight, d'))"
| "dialer_step (Finished now i result) (flight, d) =
     (if i \<in> set flight then Some (remove1 i flight, release now i result d) else None)"

fun dialer_run :: "dial_event list \<Rightarrow> string list \<times> clientDialer \<Rightarrow> (string list \<times> clientDialer) option" where
  "dialer_run [] s = Some s"
| "dialer_run (ev # evs) s = Option.bind (dialer_step ev s) (dialer_run evs)"

text \<open>The outcomes of an instance, the latest first.\<close>

fun outcomes_of :: "string \<Rightarrow> dial_event list \<Rightarrow> dial_result list" where
  "outcomes_of i [] = []"
| "outcomes_of i (Finished now j r # evs) = outcomes_of i evs @ (if j = i then [r] else [])"
| "outcomes_of i (Discovered now j # evs) = outcomes_of i evs"

fun is_failure :: "dial_result \<Rightarrow> bool" where
  "is_failure (DialFailed e) = True"
| "is_failure _ = False"

definition dialer_inv :: "dial_event list \<Rightarrow> string list \<times> clientDialer \<Rightarrow> bool" where
  "dialer_inv evs s \<longleftrightarrow> (case s of (flight, d) \<Rightarrow>
     distinct flight \<and> baseBackoff d = second \<and> maxBackoff d = 30 * second \<and>
     (\<forall>i. i \<in> d_active d \<longleftrightarrow> i \<in> set flight \<or> DialOk \<in> set (outcomes_of i evs)) \<and>
     (\<forall>i. DialOk \<in> set (outcomes_of i evs) \<longrightarrow> i \<notin> set flight) \<and>
     (\<forall>i. d_failures d i = int (length (takeWhile is_failure (outcomes_of i evs)))))"

lemma outcomes_of_append: "outcomes_of i (xs @ ys) = outcomes_of i ys @ outcomes_of i xs"
  by (induction i xs rule: outcomes_of.induct) simp_all

lemma dialer_inv_step:
  assumes "dialer_inv evs s" "dialer_step ev s = Some s'"
  shows "dialer_inv (evs @ [ev]) s'"
proof -
  obtain flight d where s: "s = (flight, d)" by (cases s)
  show ?thesis
  proof (cases ev)
    case (Discovered now i)
    have "outcomes_of j (evs @ [ev]) = outcomes_of j evs" for j
      by (simp add: outcomes_of_append Discovered)
    with assms show ?thesis
      by (auto simp: dialer_inv_def s Discovered claim_def split: if_splits)
  next
    case (Finished now i r)
    have out: "outcomes_of j (evs @ [ev]) = (if j = i then [r] else []) @ outcomes_of j evs" for j
      by (simp add: outcomes_of_append Finished)
    have fl: "i \<in> set flight" and s': "s' = (remove1 i flight, release now i r d)"
      using assms(2) by (simp_all add: s Finished split: if_splits)
    have inv: "distinct flight" "baseBackoff d = second" "maxBackoff d = 30 * second"
      "\<And>j. j \<in> d_active d \<longleftrightarrow> j \<in> set flight \<or> DialOk \<in> set (outcomes_of j evs)"
      "\<And>j. DialOk \<in> set (outcomes_of j evs) \<Longrightarrow> j \<notin> set flight"
      "\<And>j. d_failures d j = int (length (takeWhile is_failure (outcomes_of j evs)))"
      using assms(1) by (auto simp: dialer_inv_def s)
    show ?thesis
      using inv fl by (cases r) (auto simp: dialer_inv_def s' out release_def Let_def)
  qed
qed

lemma dialer_inv_run:
  "dialer_inv pre s \<Longrightarrow> dialer_run evs s = Some s' \<Longrightarrow> dialer_inv (pre @ evs) s'"
proof (induction evs arbitrary: pre s)
  case (Cons ev evs)
  then obtain s1 where "dialer_step ev s = Some s1" "dialer_run evs s1 = Some s'"
    by (auto split: Option.bind_splits)
  with Cons dialer_inv_step [OF Cons.prems(1)] have "dialer_inv ((pre @ [ev]) @ evs) s'" by blast
  then show ?case by simp
qed simp

lemma dialer_inv_start: "dialer_inv [] ([], newClientDialer)"
  by (simp add: dialer_inv_def newClientDialer_def)

text \<open>
  C36. For every sequence of discoveries and outcomes: an instance is never dialled twice at the same
  time, and never again once a session with it has ended normally; after its \<open>n\<close>-th failure in a
  row it is left alone for \<open>min (30 s) (2 ^ (n - 1) s)\<close>, whatever \<open>n\<close> is (the 64-bit shift and
  product may overflow), and dialled again when it is discovered after that; after a restart goodbye
  it is dialled as soon as it is discovered.
\<close>

theorem dialer_backoff_and_latch:
  assumes "dialer_run evs ([], newClientDialer) = Some (flight, d)"
  shows "distinct flight \<and>
    (\<forall>i now. fst (claim now i d) \<longrightarrow> i \<notin> set flight \<and> DialOk \<notin> set (outcomes_of i evs)) \<and>
    (\<forall>i now now' e. i \<in> set flight \<longrightarrow>
       (let n = Suc (length (takeWhile is_failure (outcomes_of i evs)));
            d' = release now i (DialFailed e) d
        in fst (claim now' i d') \<longleftrightarrow> now + min (30 * second) (second * 2 ^ (n - 1)) \<le> now')) \<and>
    (\<forall>i now now'. i \<in> set flight \<longrightarrow> fst (claim now' i (release now i DialRetryRequested d)))"
proof -
  have inv: "dialer_inv evs (flight, d)"
    using dialer_inv_run [OF dialer_inv_start assms] by simp
  then have bk: "baseBackoff d = second" "maxBackoff d = 30 * second"
    and fails: "d_failures d i = int (length (takeWhile is_failure (outcomes_of i evs)))" for i
    by (auto simp: dialer_inv_def)
  have "backoff_for d (d_failures d i + 1) =
      min (30 * second) (second * 2 ^ length (takeWhile is_failure (outcomes_of i evs)))" for i
    using backoff_value [OF bk, of "Suc (length (takeWhile is_failure (outcomes_of i evs)))"]
    by (simp add: fails add.commute)
  then show ?thesis
    using inv by (auto simp: dialer_inv_def claim_def release_def Let_def split: if_splits)
qed

definition dial_events_example :: "dial_event list" where
  "dial_events_example =
     [Discovered 0 ''x'', Finished 1 ''x'' (DialFailed ''e''), Discovered 5 ''x'', Discovered (2 * second) ''x'']"

theorem dialer_backoff_and_latch_witness:
  "\<exists>d. dialer_run dial_events_example ([], newClientDialer) = Some ([''x''], d) \<and>
     \<not> fst (claim (5 * second - 1) ''x'' (release (3 * second) ''x'' (DialFailed ''e'') d)) \<and>
     fst (claim (5 * second) ''x'' (release (3 * second) ''x'' (DialFailed ''e'') d))"
proof -
  have b: "wrap64 (second * shift_one 0) = second"
    using shift_one_small [of 0] wrap64_nonneg [of second] by simp
  have run: "\<exists>d. dialer_run dial_events_example ([], newClientDialer) = Some ([''x''], d)"
    using b by (simp add: dial_events_example_def claim_def release_def newClientDialer_def Let_def backoff_for_def)
  then obtain d where d: "dialer_run dial_events_example ([], newClientDialer) = Some ([''x''], d)" by blast
  have "takeWhile is_failure (outcomes_of ''x'' dial_events_example) = [DialFailed ''e'']"
    by (simp add: dial_events_example_def)
  with dialer_backoff_and_latch [OF d] have
    "fst (claim now' ''x'' (release now ''x'' (DialFailed ''e'') d)) \<longleftrightarrow> now + 2 * second \<le> now'" for now now'
    by (auto simp: Let_def)
  with d show ?thesis by auto
qed

end
