(* ===== verification/Buffer_Tracker.thy ===== *)
theory Buffer_Tracker
  imports Go_Prelude
begin

text \<open>
  The per-client pacing of \<open>pkg/sendspin/buffer_tracker.go\<close>: a growing ring of the chunks that
  were sent and not yet played, with running totals of their bytes and durations. The ring is
  abstracted to the list of chunks, oldest first (\<open>chunks\<close>); registering is an append, pruning
  drops the prefix that has been played, and the totals are the sums over the list.
\<close>

section \<open>State\<close>

record bufferedChunk =
  endTimeUs :: int
  byteCount :: int
  durationUs :: int

definition zeroChunk :: bufferedChunk where
  "zeroChunk = \<lparr>endTimeUs = 0, byteCount = 0, durationUs = 0\<rparr>"

record BufferTracker =
  ring :: "bufferedChunk list"
  head :: nat
  count :: nat
  bufferedBytes :: int
  bufferedDurationUs :: int
  capacityBytes :: int
  maxDurationUs :: int

definition DefaultMaxBufferDurationUs :: int where "DefaultMaxBufferDurationUs = 30000000"

section \<open>Operations\<close>

definition NewBufferTracker :: "int \<Rightarrow> BufferTracker" where
  "NewBufferTracker capacity =
     \<lparr>ring = replicate 1500 zeroChunk, head = 0, count = 0,
      bufferedBytes = 0, bufferedDurationUs = 0,
      capacityBytes = (if capacity \<le> 0 then 1048576 else capacity),
      maxDurationUs = DefaultMaxBufferDurationUs\<rparr>"

text \<open>One turn of the loop of \<open>PruneConsumed\<close>: the oldest entry leaves the ring.\<close>

definition drop_oldest :: "BufferTracker \<Rightarrow> BufferTracker" where
  "drop_oldest t =
     (let entry = ring t ! head t
      in t\<lparr>bufferedBytes := wrap64 (bufferedBytes t - byteCount entry),
           bufferedDurationUs := wrap64 (bufferedDurationUs t - durationUs entry),
           head := (head t + 1) mod length (ring t),
           count := count t - 1\<rparr>)"

lemma count_drop_oldest [simp]: "count (drop_oldest t) = count t - 1"
  by (simp add: drop_oldest_def Let_def)

function PruneConsumed :: "int \<Rightarrow> BufferTracker \<Rightarrow> BufferTracker" where
  "PruneConsumed nowUs t =
     (if 0 < count t
      then (if nowUs < endTimeUs (ring t ! head t) then t
            else PruneConsumed nowUs (drop_oldest t))
      else t)"
  by pat_completeness auto
termination
  by (relation "measure (\<lambda>(now, t). count t)") auto

declare PruneConsumed.simps [simp del]

definition CanSend :: "BufferTracker \<Rightarrow> int \<Rightarrow> int \<Rightarrow> bool" where
  "CanSend t bytes dur =
     (if capacityBytes t < wrap64 (bufferedBytes t + bytes) then False
      else if maxDurationUs t < wrap64 (bufferedDurationUs t + dur) then False
      else True)"

definition grow :: "BufferTracker \<Rightarrow> BufferTracker" where
  "grow t =
     (let newCap = length (ring t) * 2;
          newRing = map (\<lambda>i. if i < count t then ring t ! ((head t + i) mod length (ring t))
                             else zeroChunk) [0..<newCap]
      in t\<lparr>ring := newRing, head := 0\<rparr>)"

definition Register :: "int \<Rightarrow> int \<Rightarrow> int \<Rightarrow> BufferTracker \<Rightarrow> BufferTracker" where
  "Register endTime bytes dur t0 =
     (let t = (if count t0 = length (ring t0) then grow t0 else t0);
          idx = (head t + count t) mod length (ring t)
      in t\<lparr>ring := (ring t)[idx := \<lparr>endTimeUs = endTime, byteCount = bytes, durationUs = dur\<rparr>],
           count := count t + 1,
           bufferedBytes := wrap64 (bufferedBytes t + bytes),
           bufferedDurationUs := wrap64 (bufferedDurationUs t + dur)\<rparr>)"

section \<open>Abstraction and well-formedness\<close>

definition chunks :: "BufferTracker \<Rightarrow> bufferedChunk list" where
  "chunks t = ring_view (ring t) (head t) (count t)"

definition tracker_wf :: "BufferTracker \<Rightarrow> bool" where
  "tracker_wf t \<longleftrightarrow> ring t \<noteq> [] \<and> head t < length (ring t) \<and> count t \<le> length (ring t)"

definition total_bytes :: "bufferedChunk list \<Rightarrow> int" where
  "total_bytes cs = sum_list (map byteCount cs)"

definition total_duration :: "bufferedChunk list \<Rightarrow> int" where
  "total_duration cs = sum_list (map durationUs cs)"

text \<open>The totals kept by the tracker are those of its chunks (as 64-bit values).\<close>

definition tracker_accounts :: "BufferTracker \<Rightarrow> bool" where
  "tracker_accounts t \<longleftrightarrow>
     bufferedBytes t = wrap64 (total_bytes (chunks t)) \<and>
     bufferedDurationUs t = wrap64 (total_duration (chunks t))"

lemma length_chunks [simp]: "length (chunks t) = count t"
  by (simp add: chunks_def)

lemma total_simps [simp]:
  "total_bytes [] = 0" "total_bytes (c # cs) = byteCount c + total_bytes cs"
  "total_bytes (cs @ ds) = total_bytes cs + total_bytes ds"
  "total_duration [] = 0" "total_duration (c # cs) = durationUs c + total_duration cs"
  "total_duration (cs @ ds) = total_duration cs + total_duration ds"
  by (simp_all add: total_bytes_def total_duration_def)

lemma chunks_Nil_iff [simp]: "chunks t = [] \<longleftrightarrow> count t = 0"
  by (simp add: chunks_def)

lemma chunks_empty [simp]: "count t = 0 \<Longrightarrow> chunks t = []"
  by simp

lemma chunks_unfold:
  assumes "tracker_wf t" "0 < count t"
  shows "chunks t = ring t ! head t # chunks (drop_oldest t)"
proof -
  obtain n where "count t = Suc n"
    using assms(2) gr0_implies_Suc by blast
  then show ?thesis
    using assms(1) by (simp add: chunks_def drop_oldest_def Let_def tracker_wf_def ring_view_Suc)
qed

lemma drop_oldest_wf [wf_intros]: "tracker_wf t \<Longrightarrow> 0 < count t \<Longrightarrow> tracker_wf (drop_oldest t)"
  by (auto simp: tracker_wf_def drop_oldest_def Let_def)

lemma drop_oldest_fields [simp]:
  "capacityBytes (drop_oldest t) = capacityBytes t" "maxDurationUs (drop_oldest t) = maxDurationUs t"
  "bufferedBytes (drop_oldest t) = wrap64 (bufferedBytes t - byteCount (ring t ! head t))"
  "bufferedDurationUs (drop_oldest t) = wrap64 (bufferedDurationUs t - durationUs (ring t ! head t))"
  by (simp_all add: drop_oldest_def Let_def)

lemma grow_chunks: "tracker_wf t \<Longrightarrow> chunks (grow t) = chunks t"
  by (auto simp: chunks_def ring_view_def grow_def Let_def tracker_wf_def intro!: map_cong)

lemma grow_wf: "tracker_wf t \<Longrightarrow> tracker_wf (grow t) \<and> count (grow t) < length (ring (grow t))"
  by (cases "ring t") (auto simp: tracker_wf_def grow_def Let_def)

lemma grow_fields [simp]:
  "count (grow t) = count t" "bufferedBytes (grow t) = bufferedBytes t"
  "bufferedDurationUs (grow t) = bufferedDurationUs t"
  "capacityBytes (grow t) = capacityBytes t" "maxDurationUs (grow t) = maxDurationUs t"
  by (simp_all add: grow_def Let_def)

lemma new_tracker:
  "tracker_wf (NewBufferTracker cap)" "chunks (NewBufferTracker cap) = []"
  "tracker_accounts (NewBufferTracker cap)" "0 < capacityBytes (NewBufferTracker cap)"
  "maxDurationUs (NewBufferTracker cap) = 30000000"
  by (simp_all add: NewBufferTracker_def tracker_wf_def tracker_accounts_def chunks_def
      DefaultMaxBufferDurationUs_def)

lemma Register_fields [simp]:
  "count (Register e b d t) = Suc (count t)"
  "bufferedBytes (Register e b d t) = wrap64 (bufferedBytes t + b)"
  "bufferedDurationUs (Register e b d t) = wrap64 (bufferedDurationUs t + d)"
  "capacityBytes (Register e b d t) = capacityBytes t"
  "maxDurationUs (Register e b d t) = maxDurationUs t"
  by (simp_all add: Register_def Let_def)

lemma Register_chunks:
  assumes "tracker_wf t"
  shows "chunks (Register e b d t) =
      chunks t @ [\<lparr>endTimeUs = e, byteCount = b, durationUs = d\<rparr>] \<and> tracker_wf (Register e b d t)"
proof (cases "count t = length (ring t)")
  case True
  with grow_wf [OF assms] grow_chunks [OF assms] show ?thesis
    by (auto simp: Register_def Let_def chunks_def tracker_wf_def ring_view_put)
next
  case False
  with assms show ?thesis
    by (auto simp: Register_def Let_def chunks_def tracker_wf_def ring_view_put)
qed

lemma PruneConsumed_fields [simp]:
  "capacityBytes (PruneConsumed now t) = capacityBytes t"
  "maxDurationUs (PruneConsumed now t) = maxDurationUs t"
  by (induction now t rule: PruneConsumed.induct; subst PruneConsumed.simps; simp)+

lemma PruneConsumed_chunks:
  "tracker_wf t \<Longrightarrow>
   chunks (PruneConsumed now t) = dropWhile (\<lambda>c. endTimeUs c \<le> now) (chunks t) \<and>
   tracker_wf (PruneConsumed now t)"
proof (induction now t rule: PruneConsumed.induct)
  case (1 now t)
  show ?case
  proof (cases "0 < count t \<and> \<not> now < endTimeUs (ring t ! head t)")
    case True
    with 1 have "chunks (PruneConsumed now (drop_oldest t)) =
        dropWhile (\<lambda>c. endTimeUs c \<le> now) (chunks (drop_oldest t)) \<and>
        tracker_wf (PruneConsumed now (drop_oldest t))"
      by (simp add: drop_oldest_wf)
    with True "1.prems" show ?thesis
      by (subst PruneConsumed.simps)
        (simp add: PruneConsumed.simps [of now t] chunks_unfold [of t])
  next
    case False
    with "1.prems" show ?thesis
      by (cases "count t = 0") (auto simp: PruneConsumed.simps [of now t] chunks_unfold [of t] simp del: chunks_Nil_iff)
  qed
qed

lemma drop_oldest_accounts:
  assumes "tracker_wf t" "0 < count t" "tracker_accounts t"
  shows "tracker_accounts (drop_oldest t)"
  using assms(3) chunks_unfold [OF assms(1,2)] by (simp add: tracker_accounts_def)

lemma PruneConsumed_accounts:
  "tracker_wf t \<Longrightarrow> tracker_accounts t \<Longrightarrow> tracker_accounts (PruneConsumed now t)"
proof (induction now t rule: PruneConsumed.induct)
  case (1 now t)
  then show ?case
    by (subst PruneConsumed.simps) (simp add: drop_oldest_wf drop_oldest_accounts)
qed

lemma Register_accounts:
  "tracker_wf t \<Longrightarrow> tracker_accounts t \<Longrightarrow> tracker_accounts (Register e b d t)"
  by (simp add: tracker_accounts_def Register_chunks)

section \<open>The tracker as a queue\<close>

definition Register_chunk :: "bufferedChunk \<Rightarrow> BufferTracker \<Rightarrow> BufferTracker" where
  "Register_chunk c = Register (endTimeUs c) (byteCount c) (durationUs c)"

definition take_oldest :: "BufferTracker \<Rightarrow> (bufferedChunk \<times> BufferTracker) option" where
  "take_oldest t = (if count t = 0 then None else Some (ring t ! head t, drop_oldest t))"

interpretation tracker: fifo chunks tracker_wf "\<lambda>_. True" Register_chunk take_oldest
proof unfold_locales
  fix q x xs assume "tracker_wf q" "chunks q = x # xs"
  then show "\<exists>q'. take_oldest q = Some (x, q') \<and> chunks q' = xs \<and> tracker_wf q'"
    by (cases "count q = 0") (auto simp: take_oldest_def chunks_unfold wf_intros)
qed (auto simp: Register_chunk_def Register_chunks take_oldest_def)

text \<open>
  C13. The growing ring is a queue: registering appends the chunk, pruning removes exactly the
  longest prefix whose playback has ended, and both keep the byte and duration totals equal to
  the sums over the queue (as 64-bit values). Growing and index wrap-around are invisible.
\<close>

theorem tracker_refines_queue:
  assumes "tracker_wf t" and "tracker_accounts t"
  shows "chunks (Register e b d t) = chunks t @ [\<lparr>endTimeUs = e, byteCount = b, durationUs = d\<rparr>] \<and>
    chunks (PruneConsumed now t) = dropWhile (\<lambda>c. endTimeUs c \<le> now) (chunks t) \<and>
    tracker_wf (Register e b d t) \<and> tracker_accounts (Register e b d t) \<and>
    tracker_wf (PruneConsumed now t) \<and> tracker_accounts (PruneConsumed now t)"
  using assms
  by (simp add: Register_chunks PruneConsumed_chunks Register_accounts PruneConsumed_accounts)

section \<open>Guarded use\<close>

text \<open>
  The server's use of the tracker: at every tick it prunes, and it registers a chunk only after
  \<open>CanSend\<close> has returned true for it (\<open>generateAndSendChunk\<close>).
\<close>

datatype tracker_op = TPrune int | TSend int int int

fun tracker_step :: "tracker_op \<Rightarrow> BufferTracker \<Rightarrow> BufferTracker" where
  "tracker_step (TPrune now) t = PruneConsumed now t"
| "tracker_step (TSend e b d) t = (if CanSend t b d then Register e b d t else t)"

text \<open>Chunk sizes and durations are natural numbers far below the 64-bit range.\<close>

fun op_sane :: "tracker_op \<Rightarrow> bool" where
  "op_sane (TPrune now) = True"
| "op_sane (TSend e b d) = (0 \<le> b \<and> b < 2 ^ 62 \<and> 0 \<le> d \<and> d < 2 ^ 62)"

definition chunk_sane :: "bufferedChunk \<Rightarrow> bool" where
  "chunk_sane c \<longleftrightarrow> 0 \<le> byteCount c \<and> 0 \<le> durationUs c"

definition tracker_inv :: "BufferTracker \<Rightarrow> bool" where
  "tracker_inv t \<longleftrightarrow> tracker_wf t \<and> list_all chunk_sane (chunks t) \<and>
     capacityBytes t \<le> 2 ^ 62 \<and> maxDurationUs t = 30000000 \<and>
     bufferedBytes t = total_bytes (chunks t) \<and> total_bytes (chunks t) \<le> capacityBytes t \<and>
     bufferedDurationUs t = total_duration (chunks t) \<and>
     total_duration (chunks t) \<le> maxDurationUs t"

lemma totals_nonneg:
  "list_all chunk_sane cs \<Longrightarrow> 0 \<le> total_bytes cs \<and> 0 \<le> total_duration cs"
  by (induction cs) (auto simp: chunk_sane_def)

lemma totals_dropWhile:
  "list_all chunk_sane cs \<Longrightarrow> total_bytes (dropWhile P cs) \<le> total_bytes cs \<and>
     total_duration (dropWhile P cs) \<le> total_duration cs \<and> list_all chunk_sane (dropWhile P cs)"
  by (induction cs) (auto simp: chunk_sane_def)

lemma tracker_inv_accounts: "tracker_inv t \<Longrightarrow> tracker_accounts t"
  using totals_nonneg [of "chunks t"]
  by (auto simp: tracker_inv_def tracker_accounts_def intro!: wrap64_id [symmetric] is_int64I)

lemma tracker_inv_prune: "tracker_inv t \<Longrightarrow> tracker_inv (PruneConsumed now t)"
proof -
  assume inv: "tracker_inv t"
  let ?cs = "dropWhile (\<lambda>c. endTimeUs c \<le> now) (chunks t)"
  have "tracker_accounts (PruneConsumed now t)"
    using inv tracker_inv_accounts by (simp add: tracker_inv_def PruneConsumed_accounts)
  moreover have "is_int64 (total_bytes ?cs)" "is_int64 (total_duration ?cs)"
    using inv totals_dropWhile [of "chunks t" "\<lambda>c. endTimeUs c \<le> now"] totals_nonneg [of ?cs]
    by (auto simp: tracker_inv_def is_int64_def)
  ultimately show ?thesis
    using inv totals_dropWhile [of "chunks t" "\<lambda>c. endTimeUs c \<le> now"]
    by (auto simp: tracker_inv_def tracker_accounts_def PruneConsumed_chunks wrap64_id)
qed

lemma tracker_inv_send:
  assumes inv: "tracker_inv t" and sane: "op_sane (TSend e b d)" and can: "CanSend t b d"
  shows "tracker_inv (Register e b d t)"
proof -
  have range: "is_int64 (bufferedBytes t + b)" "is_int64 (bufferedDurationUs t + d)"
    using inv sane totals_nonneg [of "chunks t"] by (auto simp: tracker_inv_def is_int64_def)
  with can have "bufferedBytes t + b \<le> capacityBytes t"
    "bufferedDurationUs t + d \<le> maxDurationUs t"
    by (auto simp: CanSend_def wrap64_id split: if_splits)
  with inv sane range show ?thesis
    by (simp add: tracker_inv_def Register_chunks chunk_sane_def wrap64_id)
qed

lemma tracker_inv_new: "capacity \<le> 2 ^ 62 \<Longrightarrow> tracker_inv (NewBufferTracker capacity)"
  using new_tracker [of capacity] by (auto simp: tracker_inv_def NewBufferTracker_def)

lemma tracker_step_inv: "tracker_inv t \<Longrightarrow> op_sane op \<Longrightarrow> tracker_inv (tracker_step op t)"
  by (cases op) (auto intro: tracker_inv_prune tracker_inv_send)

lemma tracker_run_inv:
  "tracker_inv t \<Longrightarrow> list_all op_sane ops \<Longrightarrow> tracker_inv (fold tracker_step ops t)"
  by (induction ops arbitrary: t) (auto intro: tracker_step_inv)

text \<open>
  C6. Under any sequence of prunes and guarded sends, the tracker's byte count is the sum of the
  chunks in flight and never exceeds the client's capacity, and the buffered duration never
  exceeds 30 seconds: the pacing cannot overflow the client.
\<close>

theorem pacing_never_overflows_client:
  assumes "capacity \<le> 2 ^ 62" and "list_all op_sane ops"
  shows "let t = fold tracker_step ops (NewBufferTracker capacity)
    in bufferedBytes t = total_bytes (chunks t) \<and> 0 \<le> bufferedBytes t \<and>
       bufferedBytes t \<le> (if capacity \<le> 0 then 1048576 else capacity) \<and>
       bufferedDurationUs t = total_duration (chunks t) \<and>
       0 \<le> bufferedDurationUs t \<and> bufferedDurationUs t \<le> 30000000"
proof -
  have cap: "capacityBytes (fold tracker_step ops t) = capacityBytes t" for t
  proof (induction ops arbitrary: t)
    case (Cons op ops)
    then show ?case by (cases op) auto
  qed simp
  have "tracker_inv (fold tracker_step ops (NewBufferTracker capacity))"
    using assms by (intro tracker_run_inv tracker_inv_new)
  with totals_nonneg cap [of "NewBufferTracker capacity"] show ?thesis
    by (auto simp: tracker_inv_def Let_def NewBufferTracker_def)
qed

theorem pacing_never_overflows_client_witness:
  "let t = fold tracker_step [TSend 20 700 20000, TSend 40 700 20000, TPrune 30] (NewBufferTracker 1000)
    in bufferedBytes t = total_bytes (chunks t) \<and> 0 \<le> bufferedBytes t \<and>
       bufferedBytes t \<le> (if (1000 :: int) \<le> 0 then 1048576 else 1000) \<and>
       bufferedDurationUs t = total_duration (chunks t) \<and>
       0 \<le> bufferedDurationUs t \<and> bufferedDurationUs t \<le> 30000000"
  by (rule pacing_never_overflows_client) simp_all

theorem tracker_refines_queue_witness:
  "chunks (Register 20 700 20000 (NewBufferTracker 0)) =
     chunks (NewBufferTracker 0) @ [\<lparr>endTimeUs = 20, byteCount = 700, durationUs = 20000\<rparr>] \<and>
   chunks (PruneConsumed 5 (NewBufferTracker 0)) =
     dropWhile (\<lambda>c. endTimeUs c \<le> 5) (chunks (NewBufferTracker 0)) \<and>
   tracker_wf (Register 20 700 20000 (NewBufferTracker 0)) \<and>
   tracker_accounts (Register 20 700 20000 (NewBufferTracker 0)) \<and>
   tracker_wf (PruneConsumed 5 (NewBufferTracker 0)) \<and>
   tracker_accounts (PruneConsumed 5 (NewBufferTracker 0))"
  by (rule tracker_refines_queue) (simp_all add: new_tracker)

end
