(* ===== verification/Wire_Frames.thy ===== *)
theory Wire_Frames
  imports Go_Prelude
begin

unbundle bit_operations_syntax

text \<open>
  The binary frames of the wire protocol: one message-type byte, a big-endian 64-bit timestamp
  in microseconds, and the payload. \<open>CreateAudioChunk\<close> and \<open>CreateArtworkChunk\<close> exist twice in
  the source, with the same body (\<open>pkg/sendspin/server_stream.go\<close> and
  \<open>pkg/protocol/server_conn.go\<close>); the parser is \<open>Client.handleBinaryMessage\<close> of
  \<open>pkg/protocol/client.go\<close>.
\<close>

type_synonym byte = "8 word"

section \<open>Big-endian integers\<close>

text \<open>\<open>binary.BigEndian.PutUint64\<close> and \<open>Uint64\<close> of the Go standard library.\<close>

definition put_uint64 :: "64 word \<Rightarrow> byte list" where
  "put_uint64 v = map (\<lambda>s. ucast (drop_bit s v)) [56, 48, 40, 32, 24, 16, 8, 0]"

definition get_uint64 :: "byte list \<Rightarrow> 64 word" where
  "get_uint64 b =
     ucast (b ! 7) OR push_bit 8 (ucast (b ! 6)) OR push_bit 16 (ucast (b ! 5)) OR
     push_bit 24 (ucast (b ! 4)) OR push_bit 32 (ucast (b ! 3)) OR push_bit 40 (ucast (b ! 2)) OR
     push_bit 48 (ucast (b ! 1)) OR push_bit 56 (ucast (b ! 0))"

lemma length_put_uint64 [simp]: "length (put_uint64 v) = 8"
  by (simp add: put_uint64_def)

lemma bit_byte_of: "bit (ucast (drop_bit s v) :: byte) n \<longleftrightarrow> n < 8 \<and> bit (v :: 64 word) (s + n)"
  by (auto simp: bit_simps)

lemma bit_shifted_byte:
  "bit (push_bit s (ucast (b :: byte)) :: 64 word) n \<longleftrightarrow> n < 64 \<and> s \<le> n \<and> bit b (n - s)"
  by (auto simp: bit_simps)

lemma bit_widened_byte: "bit (ucast (b :: byte) :: 64 word) n \<longleftrightarrow> n < 64 \<and> bit b n"
  by (auto simp: bit_simps)

lemma bit_get_uint64:
  "bit (get_uint64 [b7, b6, b5, b4, b3, b2, b1, b0]) n \<longleftrightarrow> n < 64 \<and>
     (bit b0 n \<or> 8 \<le> n \<and> bit b1 (n - 8) \<or> 16 \<le> n \<and> bit b2 (n - 16) \<or>
      24 \<le> n \<and> bit b3 (n - 24) \<or> 32 \<le> n \<and> bit b4 (n - 32) \<or> 40 \<le> n \<and> bit b5 (n - 40) \<or>
      48 \<le> n \<and> bit b6 (n - 48) \<or> 56 \<le> n \<and> bit b7 (n - 56))"
  by (cases "n < 64")
    (simp_all add: get_uint64_def bit_or_iff bit_shifted_byte bit_widened_byte disj_assoc
      del: word_or_not push_bit_or)

lemma get_put_uint64 [simp]: "get_uint64 (put_uint64 v) = v"
proof (rule bit_word_eqI)
  fix n assume n: "n < LENGTH(64)"
  show "bit (get_uint64 (put_uint64 v)) n = bit v n"
    unfolding put_uint64_def list.map bit_get_uint64 bit_byte_of
  proof -
    consider "n < 8" | "8 \<le> n" "n < 16" | "16 \<le> n" "n < 24" | "24 \<le> n" "n < 32" | "32 \<le> n" "n < 40"
      | "40 \<le> n" "n < 48" | "48 \<le> n" "n < 56" | "56 \<le> n" "n < 64"
      using n by fastforce
    then show "(n < 64 \<and>
      ((n < 8 \<and> bit v (0 + n)) \<or> 8 \<le> n \<and> n - 8 < 8 \<and> bit v (8 + (n - 8)) \<or>
       16 \<le> n \<and> n - 16 < 8 \<and> bit v (16 + (n - 16)) \<or> 24 \<le> n \<and> n - 24 < 8 \<and> bit v (24 + (n - 24)) \<or>
       32 \<le> n \<and> n - 32 < 8 \<and> bit v (32 + (n - 32)) \<or> 40 \<le> n \<and> n - 40 < 8 \<and> bit v (40 + (n - 40)) \<or>
       48 \<le> n \<and> n - 48 < 8 \<and> bit v (48 + (n - 48)) \<or> 56 \<le> n \<and> n - 56 < 8 \<and> bit v (56 + (n - 56)))) =
      bit v n"
      by cases (simp_all add: less_diff_conv2)
  qed
qed

lemma put_uint64_inj: "put_uint64 v = put_uint64 w \<Longrightarrow> v = w"
  by (metis get_put_uint64)

section \<open>Building frames\<close>

definition BinaryMessageHeaderSize :: nat where "BinaryMessageHeaderSize = 1 + 8"
definition AudioChunkMessageType :: nat where "AudioChunkMessageType = 4"
definition ArtworkChannel0MessageType :: nat where "ArtworkChannel0MessageType = 8"
definition ArtworkChannel3MessageType :: nat where "ArtworkChannel3MessageType = 11"

definition CreateAudioChunk :: "int \<Rightarrow> byte list \<Rightarrow> byte list" where
  "CreateAudioChunk timestamp audioData =
     word_of_nat AudioChunkMessageType # put_uint64 (word_of_int timestamp) @ audioData"

definition CreateArtworkChunk :: "int \<Rightarrow> int \<Rightarrow> byte list \<Rightarrow> byte list" where
  "CreateArtworkChunk channel timestamp imageData =
     word_of_int (int ArtworkChannel0MessageType + channel)
       # put_uint64 (word_of_int timestamp) @ imageData"

lemma length_CreateAudioChunk:
  "length (CreateAudioChunk ts d) = BinaryMessageHeaderSize + length d"
  by (simp add: CreateAudioChunk_def BinaryMessageHeaderSize_def)

section \<open>Parsing frames\<close>

text \<open>
  What \<open>handleBinaryMessage\<close> does with a frame: drop it with a log line (\<open>FrameTooShort\<close>,
  \<open>FrameUnknown\<close>) or send it on one of the client's two binary channels.
\<close>

datatype binary_frame =
    FrameTooShort
  | FrameUnknown byte
  | FrameAudio int "byte list"
  | FrameArtwork int int "byte list"

definition parse_binary :: "byte list \<Rightarrow> binary_frame" where
  "parse_binary data =
     (if length data < BinaryMessageHeaderSize then FrameTooShort
      else
        let msgType = data ! 0;
            timestamp = sint (get_uint64 (take 8 (drop 1 data)));
            payload = drop BinaryMessageHeaderSize data
        in if msgType = word_of_nat AudioChunkMessageType then FrameAudio timestamp payload
           else if word_of_nat ArtworkChannel0MessageType \<le> msgType
                \<and> msgType \<le> word_of_nat ArtworkChannel3MessageType
           then FrameArtwork (int (unat msgType) - int ArtworkChannel0MessageType) timestamp payload
           else FrameUnknown msgType)"

lemmas frame_consts = BinaryMessageHeaderSize_def AudioChunkMessageType_def
  ArtworkChannel0MessageType_def ArtworkChannel3MessageType_def

lemma sint_word_of_int64: "is_int64 t \<Longrightarrow> sint (word_of_int t :: 64 word) = t"
  by (simp add: sint_sbintrunc' is_int64_def signed_take_bit_int_eq_self)

lemma frame_layout:
  assumes "frame = b # put_uint64 v @ payload"
  shows "\<not> length frame < BinaryMessageHeaderSize" "frame ! 0 = b"
    "get_uint64 (take 8 (drop (Suc 0) frame)) = v" "drop BinaryMessageHeaderSize frame = payload"
  using assms by (simp_all add: BinaryMessageHeaderSize_def)

lemma parse_audio: "parse_binary (CreateAudioChunk ts d) = FrameAudio (wrap64 ts) d"
proof -
  have "sint (word_of_int ts :: 64 word) = wrap64 ts"
    by (simp add: sint_sbintrunc' wrap64_def)
  then show ?thesis
    by (simp add: parse_binary_def frame_layout [OF CreateAudioChunk_def] Let_def)
qed

lemma artwork_type:
  assumes "0 \<le> ch" "ch < (4 :: int)"
  shows "ch \<in> {0, 1, 2, 3}"
  using assms by auto

lemma parse_artwork:
  assumes "0 \<le> ch" "ch < 4"
  shows "parse_binary (CreateArtworkChunk ch ts d) = FrameArtwork ch (wrap64 ts) d"
proof -
  have "sint (word_of_int ts :: 64 word) = wrap64 ts"
    by (simp add: sint_sbintrunc' wrap64_def)
  then show ?thesis
    using artwork_type [OF assms]
    by (auto simp: parse_binary_def frame_layout [OF CreateArtworkChunk_def] Let_def
        ArtworkChannel0MessageType_def ArtworkChannel3MessageType_def AudioChunkMessageType_def)
qed

text \<open>
  A frame built by the server's \<open>CreateAudioChunk\<close> is read back by the client with the same
  timestamp and payload, whatever the payload.
\<close>

theorem audio_frame_roundtrip:
  "is_int64 ts \<Longrightarrow> parse_binary (CreateAudioChunk ts d) = FrameAudio ts d"
  by (simp add: parse_audio wrap64_id)

theorem audio_frame_roundtrip_witness:
  "parse_binary (CreateAudioChunk (-5) [1, 2, 255]) = FrameAudio (-5) [1, 2, 255]"
  by (rule audio_frame_roundtrip) (simp add: is_int64_def)

end
