(* ===== verification/Sample_Codec.thy ===== *)
theory Sample_Codec
  imports Wire_Frames
begin

text \<open>
  Samples and their byte encodings: \<open>pkg/audio/types.go\<close>, the PCM decoder of
  \<open>pkg/audio/decode/pcm.go\<close>, the server's PCM encoder and 16-bit conversion
  (\<open>pkg/sendspin/server_stream.go\<close>), and the device encodings of \<open>pkg/audio/output/malgo.go\<close>.
  A sample is an \<open>int32\<close> that holds a 24-bit value; all conversions are done on words.
\<close>

type_synonym sample = "32 word"
type_synonym int16 = "16 word"

section \<open>Formats\<close>

record Format =
  Codec :: string
  SampleRate :: int
  Channels :: int
  BitDepth :: int
  CodecHeader :: "byte list"

definition Max24Bit :: int where "Max24Bit = 8388607"
definition Min24Bit :: int where "Min24Bit = - 8388608"

definition in_24bit :: "sample \<Rightarrow> bool" where
  "in_24bit s \<longleftrightarrow> Min24Bit \<le> sint s \<and> sint s \<le> Max24Bit"

section \<open>Conversions of one sample\<close>

definition SampleToInt16 :: "sample \<Rightarrow> int16" where
  "SampleToInt16 s = ucast (signed_drop_bit 8 s)"

definition SampleFromInt16 :: "int16 \<Rightarrow> sample" where
  "SampleFromInt16 s = push_bit 8 (scast s)"

definition SampleTo24Bit :: "sample \<Rightarrow> byte \<times> byte \<times> byte" where
  "SampleTo24Bit s = (ucast s, ucast (signed_drop_bit 8 s), ucast (signed_drop_bit 16 s))"

definition sign_bits24 :: sample where "sign_bits24 = NOT 0xFFFFFF"

definition SampleFrom24Bit :: "byte \<times> byte \<times> byte \<Rightarrow> sample" where
  "SampleFrom24Bit b =
     (case b of (b0, b1, b2) \<Rightarrow>
        let val = ucast b0 OR push_bit 8 (ucast b1) OR push_bit 16 (ucast b2)
        in if val AND 0x800000 \<noteq> 0 then val OR sign_bits24 else val)"

lemma bit_SampleToInt16: "bit (SampleToInt16 s) n \<longleftrightarrow> n < 16 \<and> bit s (8 + n)"
  by (auto simp: SampleToInt16_def bit_simps)

lemma bit_SampleFromInt16:
  "bit (SampleFromInt16 h) n \<longleftrightarrow> n < 32 \<and> 8 \<le> n \<and> bit h (min (n - 8) 15)"
  by (auto simp: SampleFromInt16_def bit_simps min_def)

lemma int16_roundtrip: "SampleToInt16 (SampleFromInt16 h) = h"
  by (rule bit_word_eqI) (auto simp: bit_SampleToInt16 bit_SampleFromInt16)

lemma bit_byte_of_sample:
  "bit (ucast (signed_drop_bit k (s :: sample)) :: byte) n \<longleftrightarrow>
     n < 8 \<and> bit s (if 32 - k \<le> n then 31 else k + n)"
  by (auto simp: bit_simps)

lemma bit_shifted_byte32:
  "bit (push_bit k (ucast (b :: byte)) :: sample) n \<longleftrightarrow> n < 32 \<and> k \<le> n \<and> bit b (n - k)"
  by (auto simp: bit_simps)

lemma bit_widened_byte32: "bit (ucast (b :: byte) :: sample) n \<longleftrightarrow> n < 32 \<and> bit b n"
  by (auto simp: bit_simps)

lemma bit_byte_imp_less: "bit (b :: byte) n \<Longrightarrow> n < 8"
  using bit_imp_le_length by fastforce

lemma and_0x800000: "(v :: sample) AND 0x800000 \<noteq> 0 \<longleftrightarrow> bit v 23"
  using and_exp_eq_0_iff_not_bit [of v 23] by simp

lemma bit_sign_bits24: "bit sign_bits24 n \<longleftrightarrow> 24 \<le> n \<and> n < 32"
proof -
  have "(NOT 0xFFFFFF :: sample) = NOT (mask 24)"
    by (simp add: mask_eq_exp_minus_1)
  then show ?thesis
    unfolding sign_bits24_def by (auto simp only: bit_not_iff bit_mask_iff) simp_all
qed

lemma bit_SampleFrom24Bit:
  "bit (SampleFrom24Bit (b0, b1, b2)) n \<longleftrightarrow>
     n < 32 \<and> (if n < 8 then bit b0 n else if n < 16 then bit b1 (n - 8)
               else if n < 24 then bit b2 (n - 16) else bit b2 7)"
proof -
  obtain v :: sample where v_def: "v = ucast b0 OR push_bit 8 (ucast b1) OR push_bit 16 (ucast b2)"
    by blast
  have v: "bit v n \<longleftrightarrow> n < 32 \<and>
      (bit b0 n \<or> 8 \<le> n \<and> bit b1 (n - 8) \<or> 16 \<le> n \<and> bit b2 (n - 16))" for n
    by (auto simp: v_def bit_or_iff bit_shifted_byte32 bit_widened_byte32)
  have "bit v 23 \<longleftrightarrow> bit b2 7"
    using v [of 23] bit_byte_imp_less [of b0 23] bit_byte_imp_less [of b1 15] by auto
  then have "SampleFrom24Bit (b0, b1, b2) = (if bit b2 7 then v OR sign_bits24 else v)"
    unfolding SampleFrom24Bit_def prod.case Let_def and_0x800000 by (simp add: v_def)
  then show ?thesis
    using bit_byte_imp_less [of b0 n] bit_byte_imp_less [of b1 "n - 8"]
      bit_byte_imp_less [of b2 "n - 16"]
    by (auto simp: v bit_or_iff bit_sign_bits24)
qed

lemma to24_from24: "SampleTo24Bit (SampleFrom24Bit (b0, b1, b2)) = (b0, b1, b2)"
proof -
  have "ucast (SampleFrom24Bit (b0, b1, b2)) = b0"
    by (intro bit_word_eqI) (simp add: bit_unsigned_iff bit_SampleFrom24Bit)
  moreover have "ucast (signed_drop_bit 8 (SampleFrom24Bit (b0, b1, b2))) = b1"
    by (intro bit_word_eqI) (simp add: bit_byte_of_sample bit_SampleFrom24Bit)
  moreover have "ucast (signed_drop_bit 16 (SampleFrom24Bit (b0, b1, b2))) = b2"
    by (intro bit_word_eqI) (simp add: bit_byte_of_sample bit_SampleFrom24Bit)
  ultimately show ?thesis
    by (simp add: SampleTo24Bit_def)
qed

text \<open>Unpacking after packing keeps the low 24 bits, sign-extended.\<close>

lemma bit_from24_to24:
  "bit (SampleFrom24Bit (SampleTo24Bit s)) n \<longleftrightarrow> n < 32 \<and> bit s (min n 23)"
proof -
  consider "n < 8" | "8 \<le> n" "n < 16" | "16 \<le> n" "n < 24" | "24 \<le> n" by linarith
  then show ?thesis
    by cases (auto simp: SampleTo24Bit_def bit_SampleFrom24Bit bit_unsigned_iff
        bit_signed_drop_bit_iff min_def)
qed

lemma sint_from24_to24: "sint (SampleFrom24Bit (SampleTo24Bit s)) = signed_take_bit 23 (sint s)"
proof (rule bit_eqI)
  fix n
  show "bit (sint (SampleFrom24Bit (SampleTo24Bit s))) n = bit (signed_take_bit 23 (sint s)) n"
    by (auto simp: bit_sint_iff bit_signed_take_bit_iff bit_from24_to24 min_def)
qed

lemma from24_to24: "in_24bit s \<Longrightarrow> SampleFrom24Bit (SampleTo24Bit s) = s"
proof -
  assume "in_24bit s"
  then have "sint (SampleFrom24Bit (SampleTo24Bit s)) = sint s"
    unfolding sint_from24_to24
    by (intro signed_take_bit_int_eq_self) (simp_all add: in_24bit_def Min24Bit_def Max24Bit_def)
  then show ?thesis
    using signed_word_eqI by blast
qed

lemma in_24bit_fromInt16: "in_24bit (SampleFromInt16 h)"
proof -
  have "sint (SampleFromInt16 h) = signed_take_bit 23 (sint (SampleFromInt16 h))"
  proof (rule bit_eqI)
    fix n
    show "bit (sint (SampleFromInt16 h)) n = bit (signed_take_bit 23 (sint (SampleFromInt16 h))) n"
      by (cases "n \<le> 23")
        (auto simp: bit_sint_iff bit_signed_take_bit_iff bit_SampleFromInt16 min_absorb2)
  qed
  then show ?thesis
    using signed_take_bit_int_less_exp [of 23 "sint (SampleFromInt16 h)"]
      signed_take_bit_int_greater_eq_minus_exp [of 23 "sint (SampleFromInt16 h)"]
    by (simp add: in_24bit_def Min24Bit_def Max24Bit_def)
qed

lemma in_24bit_from24: "in_24bit (SampleFrom24Bit b)"
proof -
  obtain b0 b1 b2 where b: "b = (b0, b1, b2)" by (metis prod_cases3)
  have "sint (SampleFrom24Bit b) = signed_take_bit 23 (sint (SampleFrom24Bit b))"
    using sint_from24_to24 [of "SampleFrom24Bit b"] by (simp add: b to24_from24)
  then show ?thesis
    using signed_take_bit_int_less_exp [of 23 "sint (SampleFrom24Bit b)"]
      signed_take_bit_int_greater_eq_minus_exp [of 23 "sint (SampleFrom24Bit b)"]
    by (simp add: in_24bit_def Min24Bit_def Max24Bit_def)
qed

section \<open>Byte buffers\<close>

text \<open>
  A loop that fills a fresh buffer at \<open>i*k .. i*k+k-1\<close> for the \<open>i\<close>-th sample builds the
  concatenation of the per-sample bytes; reading is by index, as in the source.
\<close>

definition bytes24 :: "sample \<Rightarrow> byte list" where
  "bytes24 s = [ucast s, ucast (signed_drop_bit 8 s), ucast (signed_drop_bit 16 s)]"

definition bytes16 :: "int16 \<Rightarrow> byte list" where
  "bytes16 h = [ucast h, ucast (signed_drop_bit 8 h)]"

definition uint16_le :: "byte \<Rightarrow> byte \<Rightarrow> int16" where
  "uint16_le b0 b1 = ucast b0 OR push_bit 8 (ucast b1)"

definition encodePCM :: "sample list \<Rightarrow> byte list" where
  "encodePCM samples = concat (map bytes24 samples)"

definition convertToInt16 :: "sample list \<Rightarrow> int16 list" where
  "convertToInt16 samples = map (\<lambda>s. ucast (signed_drop_bit 8 s)) samples"

lemma length_encodePCM [simp]: "length (encodePCM xs) = 3 * length xs"
  by (induction xs) (simp_all add: encodePCM_def bytes24_def)

lemma length_concat_uniform:
  "(\<And>x. length (f x) = k) \<Longrightarrow> length (concat (map f xs)) = k * length xs"
  by (induction xs) simp_all

lemma nth_concat_uniform:
  assumes len: "\<And>x. length (f x) = k" and "i < length xs" "j < k"
  shows "concat (map f xs) ! (i * k + j) = f (xs ! i) ! j"
  using assms(2)
proof (induction xs arbitrary: i)
  case Nil
  then show ?case by simp
next
  case (Cons x xs)
  show ?case
  proof (cases i)
    case 0
    with len assms(3) show ?thesis by (simp add: nth_append)
  next
    case (Suc i')
    have "concat (map f (x # xs)) ! (i * k + j) = concat (map f xs) ! (i' * k + j)"
      using len by (simp add: Suc nth_append algebra_simps)
    also have "\<dots> = f (xs ! i') ! j"
      using Cons Suc by simp
    finally show ?thesis by (simp add: Suc)
  qed
qed

lemma uint16_bytes: "uint16_le (ucast h) (ucast (signed_drop_bit 8 h)) = h" for h :: int16
proof (rule bit_word_eqI)
  fix n
  assume "n < LENGTH(16)"
  then consider "n < 8" | m where "n = 8 + m" "m < 8"
    using that(2) [of "n - 8"] that(1) by fastforce
  then show "bit (uint16_le (ucast h) (ucast (signed_drop_bit 8 h))) n = bit h n"
    by cases (auto simp: uint16_le_def bit_simps)
qed

section \<open>The PCM decoder\<close>

datatype codec_error =
    InvalidCodec string
  | UnsupportedDepth int
  | MissingCodecHeader
  | WrongSampleCount nat nat
  | LibraryError string
  | DecoderClosed
  | IndexOutOfRange

record PCMDecoder =
  pcm_bitDepth :: int

definition NewPCM :: "Format \<Rightarrow> codec_error + PCMDecoder" where
  "NewPCM format =
     (if Codec format \<noteq> ''pcm'' then Inl (InvalidCodec (Codec format))
      else if BitDepth format \<noteq> 16 \<and> BitDepth format \<noteq> 24
      then Inl (UnsupportedDepth (BitDepth format))
      else Inr \<lparr>pcm_bitDepth = BitDepth format\<rparr>)"

definition pcm_Decode :: "PCMDecoder \<Rightarrow> byte list \<Rightarrow> codec_error + sample list" where
  "pcm_Decode d data =
     (if pcm_bitDepth d = 24
      then Inr (map (\<lambda>i. SampleFrom24Bit (data ! (i * 3), data ! (i * 3 + 1), data ! (i * 3 + 2)))
                  [0..<length data div 3])
      else Inr (map (\<lambda>i. SampleFromInt16 (uint16_le (data ! (i * 2)) (data ! (i * 2 + 1))))
                  [0..<length data div 2]))"

lemma decode_encoded24:
  assumes "pcm_bitDepth d = 24"
  shows "pcm_Decode d (encodePCM xs) = Inr (map (\<lambda>s. SampleFrom24Bit (SampleTo24Bit s)) xs)"
proof -
  have at: "encodePCM xs ! (i * 3 + j) = bytes24 (xs ! i) ! j" if "i < length xs" "j < 3" for i j
    unfolding encodePCM_def by (rule nth_concat_uniform) (use that in \<open>simp_all add: bytes24_def\<close>)
  have "SampleFrom24Bit (encodePCM xs ! (i * 3), encodePCM xs ! (i * 3 + 1), encodePCM xs ! (i * 3 + 2))
      = SampleFrom24Bit (SampleTo24Bit (xs ! i))" if "i < length xs" for i
    using at [OF that, of 0] at [OF that, of 1] at [OF that, of 2]
    by (simp add: bytes24_def SampleTo24Bit_def)
  with assms show ?thesis
    by (simp add: pcm_Decode_def map_equality_iff)
qed

lemma decode_encoded16:
  assumes "pcm_bitDepth d \<noteq> 24"
  shows "pcm_Decode d (concat (map bytes16 hs)) = Inr (map SampleFromInt16 hs)"
proof -
  let ?e = "concat (map bytes16 hs)"
  have at: "?e ! (i * 2 + j) = bytes16 (hs ! i) ! j" if "i < length hs" "j < 2" for i j
    by (rule nth_concat_uniform) (use that in \<open>simp_all add: bytes16_def\<close>)
  have len: "length ?e = 2 * length hs"
    by (rule length_concat_uniform) (simp add: bytes16_def)
  have "uint16_le (?e ! (i * 2)) (?e ! (i * 2 + 1)) = hs ! i" if "i < length hs" for i
    using at [OF that, of 0] at [OF that, of 1] by (simp add: bytes16_def uint16_bytes)
  with assms len show ?thesis
    by (simp add: pcm_Decode_def map_equality_iff)
qed

lemma in_24bit_decoded:
  assumes "pcm_Decode d data = Inr xs" "x \<in> set xs"
  shows "in_24bit x"
  using assms in_24bit_from24 in_24bit_fromInt16
  by (auto simp: pcm_Decode_def split: if_splits)

text \<open>
  C19. Audio that the server packs as 24-bit PCM into a binary frame comes out of the client's
  frame parser and PCM decoder as the same samples with the same timestamp, for every list of
  samples in the 24-bit range.
\<close>

theorem pcm_stream_roundtrip:
  "is_int64 ts \<Longrightarrow> list_all in_24bit xs \<Longrightarrow>
   NewPCM \<lparr>Codec = ''pcm'', SampleRate = rate, Channels = ch, BitDepth = 24, CodecHeader = []\<rparr> = Inr d \<Longrightarrow>
   \<exists>payload. parse_binary (CreateAudioChunk ts (encodePCM xs)) = FrameAudio ts payload \<and>
     pcm_Decode d payload = Inr xs"
  by (auto simp: parse_audio wrap64_id NewPCM_def decode_encoded24 from24_to24 list_all_iff
      intro!: map_idI)

theorem pcm_stream_roundtrip_witness:
  "\<exists>payload. parse_binary (CreateAudioChunk 7 (encodePCM [1, -2, 8388607])) = FrameAudio 7 payload \<and>
     pcm_Decode \<lparr>pcm_bitDepth = 24\<rparr> payload = Inr [1, -2, 8388607]"
  by (rule pcm_stream_roundtrip [where rate = 48000 and ch = 2])
    (simp_all add: is_int64_def in_24bit_def Min24Bit_def Max24Bit_def NewPCM_def)

section \<open>Device encodings\<close>

text \<open>
  \<open>write16Bit\<close>, \<open>write24Bit\<close> and \<open>write32Bit\<close> fill the front of the buffer the audio callback is
  given; a buffer that is too short is an index panic (\<open>None\<close>).
\<close>

definition fill_front :: "byte list \<Rightarrow> byte list \<Rightarrow> byte list option" where
  "fill_front output bytes =
     (if length bytes \<le> length output then Some (bytes @ drop (length bytes) output) else None)"

definition write16Bit :: "byte list \<Rightarrow> sample list \<Rightarrow> byte list option" where
  "write16Bit output samples =
     fill_front output (concat (map (\<lambda>s. bytes16 (SampleToInt16 s)) samples))"

definition write24Bit :: "byte list \<Rightarrow> sample list \<Rightarrow> byte list option" where
  "write24Bit output samples = fill_front output (concat (map bytes24 samples))"

definition bytes32 :: "sample \<Rightarrow> byte list" where
  "bytes32 s = [ucast s, ucast (signed_drop_bit 8 s), ucast (signed_drop_bit 16 s),
                ucast (signed_drop_bit 24 s)]"

definition write32Bit :: "byte list \<Rightarrow> sample list \<Rightarrow> byte list option" where
  "write32Bit output samples =
     fill_front output (concat (map (\<lambda>s. bytes32 (push_bit 8 s)) samples))"

text \<open>What a device reads back from the bytes of one sample, as a signed value.\<close>

definition read16 :: "byte list \<Rightarrow> int" where
  "read16 b = sint (uint16_le (b ! 0) (b ! 1))"

definition read24 :: "byte list \<Rightarrow> int" where
  "read24 b = sint (SampleFrom24Bit (b ! 0, b ! 1, b ! 2))"

definition read32 :: "byte list \<Rightarrow> int" where
  "read32 b = sint (ucast (b ! 0) OR push_bit 8 (ucast (b ! 1)) OR push_bit 16 (ucast (b ! 2))
                      OR push_bit 24 (ucast (b ! 3)) :: 32 word)"

lemma bytes32_word:
  "ucast (ucast s :: byte) OR push_bit 8 (ucast (ucast (signed_drop_bit 8 s) :: byte))
     OR push_bit 16 (ucast (ucast (signed_drop_bit 16 s) :: byte))
     OR push_bit 24 (ucast (ucast (signed_drop_bit 24 s) :: byte)) = (s :: sample)"
proof (rule bit_word_eqI)
  fix n
  assume "n < LENGTH(32)"
  then consider "n < 8" | m where "n = 8 + m" "m < 8" | m where "n = 16 + m" "m < 8"
    | m where "n = 24 + m" "m < 8"
    using that(2) [of "n - 8"] that(3) [of "n - 16"] that(4) [of "n - 24"] that(1) by fastforce
  then show "bit (ucast (ucast s :: byte) OR push_bit 8 (ucast (ucast (signed_drop_bit 8 s) :: byte))
     OR push_bit 16 (ucast (ucast (signed_drop_bit 16 s) :: byte))
     OR push_bit 24 (ucast (ucast (signed_drop_bit 24 s) :: byte)) :: sample) n = bit s n"
    by cases (simp_all add: bit_or_iff bit_shifted_byte32 bit_widened_byte32 bit_signed_drop_bit_iff
        bit_unsigned_iff)
qed

lemma read32_bytes32: "read32 (bytes32 s) = sint s"
  unfolding read32_def bytes32_def using bytes32_word [of s] by (simp add: numeral_eq_Suc)

lemma read24_bytes24: "in_24bit s \<Longrightarrow> read24 (bytes24 s) = sint s"
  using from24_to24 [of s] by (simp add: read24_def bytes24_def SampleTo24Bit_def numeral_eq_Suc)

lemma read16_bytes16: "read16 (bytes16 h) = sint h"
  using uint16_bytes [of h] by (simp add: read16_def bytes16_def)

lemma sint_push8:
  assumes "in_24bit s"
  shows "sint (push_bit 8 s) = 256 * sint s"
proof -
  have "sint (push_bit 8 s) = signed_take_bit 31 (push_bit 8 (sint s))"
  proof (rule bit_eqI)
    fix n :: nat
    consider "n < 31" | "n = 31" | "31 < n" by linarith
    then show "bit (sint (push_bit 8 s)) n = bit (signed_take_bit 31 (push_bit 8 (sint s))) n"
      by cases (auto simp: bit_sint_iff bit_signed_take_bit_iff bit_push_bit_iff min_absorb2)
  qed
  also have "\<dots> = push_bit 8 (sint s)"
    using assms
    by (intro signed_take_bit_int_eq_self) (simp_all add: in_24bit_def Min24Bit_def Max24Bit_def push_bit_eq_mult)
  finally show ?thesis by (simp add: push_bit_eq_mult)
qed

lemma sint_to_int16:
  assumes "in_24bit s"
  shows "sint (SampleToInt16 s) = sint s div 256"
proof -
  have "sint (SampleToInt16 s) = signed_take_bit 15 (drop_bit 8 (sint s))"
  proof (rule bit_eqI)
    fix n :: nat
    consider "n < 15" | "n = 15" | "15 < n" by linarith
    then show "bit (sint (SampleToInt16 s)) n = bit (signed_take_bit 15 (drop_bit 8 (sint s))) n"
      by cases (auto simp: bit_sint_iff bit_signed_take_bit_iff bit_drop_bit_eq bit_SampleToInt16 min_absorb2)
  qed
  also have "\<dots> = drop_bit 8 (sint s)"
    using assms
    by (intro signed_take_bit_int_eq_self)
      (auto simp: in_24bit_def Min24Bit_def Max24Bit_def drop_bit_eq_div)
  finally show ?thesis by (simp add: drop_bit_eq_div)
qed

end
