(* ===== verification/Codecs.thy ===== *)
theory Codecs
  imports Sample_Codec
begin

text \<open>
  The FLAC and Opus wrappers of \<open>pkg/audio/encode\<close> and \<open>pkg/audio/decode\<close>. The codec
  libraries are parameters: an opaque library state, and the calls the wrappers make on it.
  What the wrappers themselves do (argument checks, de-interleaving and interleaving, sample
  scaling, the queue between the FLAC parser goroutine and \<open>Decode\<close>) is modelled in full.
\<close>

section \<open>The Opus wrappers\<close>

record 'o OpusEncoder =
  opus_lib :: 'o
  opus_sampleRate :: int
  opus_channels :: nat
  opus_frameSize :: nat

text \<open>
  \<open>new_enc\<close> is \<open>opus.NewEncoder\<close> for the audio application and \<open>set_bitrate\<close> its
  \<open>SetBitrate\<close>, whose failure is only logged.
\<close>

definition NewOpusEncoder ::
  "(int \<Rightarrow> nat \<Rightarrow> string + 'o) \<Rightarrow> (int \<Rightarrow> 'o \<Rightarrow> string option \<times> 'o) \<Rightarrow>
   int \<Rightarrow> nat \<Rightarrow> nat \<Rightarrow> codec_error + 'o OpusEncoder" where
  "NewOpusEncoder new_enc set_bitrate sampleRate channels frameSize =
     (case new_enc sampleRate channels of
        Inl e \<Rightarrow> Inl (LibraryError e)
      | Inr enc \<Rightarrow>
          Inr \<lparr>opus_lib = snd (set_bitrate (128000 * int channels) enc),
               opus_sampleRate = sampleRate, opus_channels = channels,
               opus_frameSize = frameSize\<rparr>)"

text \<open>\<open>enc\<close> fills the 4000-byte output buffer it is given and returns the packet length.\<close>

definition opus_Encode ::
  "(int16 list \<Rightarrow> byte list \<Rightarrow> 'o \<Rightarrow> (string + nat) \<times> byte list \<times> 'o) \<Rightarrow>
   'o OpusEncoder \<Rightarrow> int16 list \<Rightarrow> (codec_error + byte list) \<times> 'o OpusEncoder" where
  "opus_Encode enc e pcm =
     (case enc pcm (replicate 4000 0) (opus_lib e) of
        (r, output, lib) \<Rightarrow>
          (case r of
             Inl err \<Rightarrow> (Inl (LibraryError err), e\<lparr>opus_lib := lib\<rparr>)
           | Inr n \<Rightarrow>
               (if n \<le> length output then Inr (take n output) else Inl IndexOutOfRange,
                e\<lparr>opus_lib := lib\<rparr>)))"

record 'd OpusDecoder =
  opus_dec :: 'd
  opus_format :: Format
  pcm16Buf :: "int16 list"

definition NewOpus :: "(int \<Rightarrow> int \<Rightarrow> string + 'd) \<Rightarrow> Format \<Rightarrow> codec_error + 'd OpusDecoder" where
  "NewOpus new_dec format =
     (if Codec format \<noteq> ''opus'' then Inl (InvalidCodec (Codec format))
      else case new_dec (SampleRate format) (Channels format) of
        Inl e \<Rightarrow> Inl (LibraryError e)
      | Inr d \<Rightarrow> Inr \<lparr>opus_dec = d, opus_format = format,
                      pcm16Buf = replicate (nat (5760 * Channels format)) 0\<rparr>)"

definition opus_Decode ::
  "(byte list \<Rightarrow> int16 list \<Rightarrow> 'd \<Rightarrow> (string + nat) \<times> int16 list \<times> 'd) \<Rightarrow>
   'd OpusDecoder \<Rightarrow> byte list \<Rightarrow> (codec_error + sample list) \<times> 'd OpusDecoder" where
  "opus_Decode dec d data =
     (case dec data (pcm16Buf d) (opus_dec d) of
        (r, buf, lib) \<Rightarrow>
          (let d' = d\<lparr>opus_dec := lib, pcm16Buf := buf\<rparr>
           in case r of
                Inl err \<Rightarrow> (Inl (LibraryError err), d')
              | Inr n \<Rightarrow>
                  (let actual = n * nat (Channels (opus_format d))
                   in (if actual \<le> length buf
                       then Inr (map (\<lambda>i. SampleFromInt16 (buf ! i)) [0..<actual])
                       else Inl IndexOutOfRange, d'))))"

section \<open>The FLAC encoder\<close>

datatype flac_channels = ChannelsMono | ChannelsLR | ChannelsOf nat

record flac_header =
  fh_BlockSize :: "16 word"
  fh_SampleRate :: "32 word"
  fh_Channels :: flac_channels
  fh_BitsPerSample :: "8 word"

record flac_frame =
  ff_header :: flac_header
  ff_subframes :: "sample list list"

record flac_streaminfo =
  si_BlockSizeMin :: "16 word"
  si_BlockSizeMax :: "16 word"
  si_SampleRate :: "32 word"
  si_NChannels :: "8 word"
  si_BitsPerSample :: "8 word"

record 'f FLACEncoder =
  flac_lib :: 'f
  flac_buf :: "byte list"
  flac_codecHeader :: "byte list"
  flac_sampleRate :: int
  flac_channels :: nat
  flac_bitDepth :: int
  flac_blockSize :: nat

text \<open>
  \<open>new_enc\<close> is \<open>flac.NewEncoder\<close>, which writes the stream header into the buffer; \<open>enable\<close> is
  \<open>EnablePredictionAnalysis(true)\<close>.
\<close>

definition NewFLACEncoder ::
  "(flac_streaminfo \<Rightarrow> string + (byte list \<times> 'f)) \<Rightarrow> ('f \<Rightarrow> 'f) \<Rightarrow>
   int \<Rightarrow> nat \<Rightarrow> int \<Rightarrow> nat \<Rightarrow> codec_error + 'f FLACEncoder" where
  "NewFLACEncoder new_enc enable sampleRate channels bitDepth blockSize =
     (case new_enc \<lparr>si_BlockSizeMin = word_of_nat blockSize, si_BlockSizeMax = word_of_nat blockSize,
                    si_SampleRate = word_of_int sampleRate, si_NChannels = word_of_nat channels,
                    si_BitsPerSample = word_of_int bitDepth\<rparr> of
        Inl e \<Rightarrow> Inl (LibraryError e)
      | Inr (header, enc) \<Rightarrow>
          Inr \<lparr>flac_lib = enable enc, flac_buf = [], flac_codecHeader = header,
               flac_sampleRate = sampleRate, flac_channels = channels,
               flac_bitDepth = bitDepth, flac_blockSize = blockSize\<rparr>)"

definition deinterleave :: "nat \<Rightarrow> nat \<Rightarrow> 'a list \<Rightarrow> 'a list list" where
  "deinterleave channels blockSize samples =
     map (\<lambda>ch. map (\<lambda>i. samples ! (i * channels + ch)) [0..<blockSize]) [0..<channels]"

definition channel_assignment :: "nat \<Rightarrow> flac_channels" where
  "channel_assignment channels =
     (if channels = 1 then ChannelsMono else if channels = 2 then ChannelsLR
      else ChannelsOf channels)"

text \<open>
  \<open>write_frame\<close> is the library's \<open>WriteFrame\<close>: an error or none, the bytes it appended to the
  buffer, and its new state.
\<close>

definition flac_Encode ::
  "(flac_frame \<Rightarrow> 'f \<Rightarrow> string option \<times> byte list \<times> 'f) \<Rightarrow>
   'f FLACEncoder \<Rightarrow> sample list \<Rightarrow> (codec_error + byte list) \<times> 'f FLACEncoder" where
  "flac_Encode write_frame e samples =
     (let expected = flac_blockSize e * flac_channels e
      in if length samples \<noteq> expected
         then (Inl (WrongSampleCount expected (length samples)), e)
         else
           let f = \<lparr>ff_header =
                      \<lparr>fh_BlockSize = word_of_nat (flac_blockSize e),
                       fh_SampleRate = word_of_int (flac_sampleRate e),
                       fh_Channels = channel_assignment (flac_channels e),
                       fh_BitsPerSample = word_of_int (flac_bitDepth e)\<rparr>,
                    ff_subframes = deinterleave (flac_channels e) (flac_blockSize e) samples\<rparr>
           in case write_frame f (flac_lib e) of
                (err, out, lib) \<Rightarrow>
                  (let e' = e\<lparr>flac_lib := lib, flac_buf := out\<rparr>
                   in case err of
                        Some msg \<Rightarrow> (Inl (LibraryError msg), e')
                      | None \<Rightarrow> (Inr (flac_buf e'), e')))"

section \<open>FLAC frames as samples\<close>

definition flac_scale :: "int \<Rightarrow> sample \<Rightarrow> sample" where
  "flac_scale bitDepth sample =
     (if bitDepth = 16 then push_bit 8 sample
      else if bitDepth = 24 then sample
      else let shift = bitDepth - 24
           in if 0 < shift then signed_drop_bit (nat shift) sample
              else push_bit (nat (- shift)) sample)"

definition flac_frame_samples :: "nat \<Rightarrow> int \<Rightarrow> nat \<Rightarrow> sample list list \<Rightarrow> sample list" where
  "flac_frame_samples channels bitDepth blockSize subframes =
     concat (map (\<lambda>i. map (\<lambda>ch. flac_scale bitDepth (subframes ! ch ! i)) [0..<channels])
       [0..<blockSize])"

lemma index_split:
  assumes "k < n * (c :: nat)"
  shows "k div c < n" "k mod c < c" "k div c * c + k mod c = k"
proof -
  have "0 < c" using assms by (cases c) auto
  then show "k div c < n" "k mod c < c" "k div c * c + k mod c = k"
    using assms by (simp_all add: less_mult_imp_div_less)
qed

lemma interleave_deinterleave:
  assumes "length samples = n * c" and "\<And>s. s \<in> set samples \<Longrightarrow> flac_scale d s = s"
  shows "flac_frame_samples c d n (deinterleave c n samples) = samples"
proof (rule nth_equalityI)
  have len: "length (flac_frame_samples c d n (deinterleave c n samples)) = c * n"
    unfolding flac_frame_samples_def by (subst length_concat_uniform [where k = c]) simp_all
  then show "length (flac_frame_samples c d n (deinterleave c n samples)) = length samples"
    using assms by (simp add: mult.commute)
  fix k
  assume "k < length (flac_frame_samples c d n (deinterleave c n samples))"
  then have k: "k < n * c" using len by (simp add: mult.commute)
  note ix = index_split [OF k]
  have "flac_frame_samples c d n (deinterleave c n samples) ! (k div c * c + k mod c)
      = flac_scale d (deinterleave c n samples ! (k mod c) ! (k div c))"
    unfolding flac_frame_samples_def
    by (subst nth_concat_uniform [where k = c]) (use ix in simp_all)
  also have "\<dots> = flac_scale d (samples ! k)"
    using ix by (simp add: deinterleave_def)
  also have "\<dots> = samples ! k"
    using assms k by simp
  finally show "flac_frame_samples c d n (deinterleave c n samples) ! k = samples ! k"
    using ix(3) by simp
qed

lemma flac_scale_24 [simp]: "flac_scale 24 s = s"
  by (simp add: flac_scale_def)

text \<open>
  The FLAC path is lossless on this side of the library: a block is refused exactly when
  its length is not block size times channels; otherwise the subframes handed to the library
  for a 24-bit encoder are turned back by the decoder's frame loop into the block's samples.
\<close>

theorem flac_block_roundtrip:
  "case flac_Encode (\<lambda>f lib. (None, [], f)) e samples of
     (Inl err, e') \<Rightarrow>
       length samples \<noteq> flac_blockSize e * flac_channels e \<and> e' = e \<and>
       err = WrongSampleCount (flac_blockSize e * flac_channels e) (length samples)
   | (Inr out, e') \<Rightarrow>
       flac_frame_samples (flac_channels e) 24 (flac_blockSize e) (ff_subframes (flac_lib e')) = samples"
  by (simp add: flac_Encode_def Let_def interleave_deinterleave)

section \<open>The FLAC decoder\<close>

text \<open>
  \<open>sampleCh\<close> holds the decoded frames that wait for \<open>Decode\<close>, \<open>errCh\<close> at most one start-up
  error. The parser goroutine runs concurrently: \<open>flac_deliver\<close> is its send of one frame
  (possible while the channel has room, otherwise it waits), \<open>flac_init_failed\<close> its report of a
  failed \<open>flac.New\<close>, and \<open>flac_parser_exit\<close> its return, which closes the channel and the pipe.
\<close>

record FLACDecoder =
  fd_format :: Format
  sampleCh :: "sample list chan"
  errCh :: "codec_error chan"
  pipe_closed :: bool
  fd_closed :: bool

definition NewFLAC :: "Format \<Rightarrow> codec_error + FLACDecoder" where
  "NewFLAC format =
     (if Codec format \<noteq> ''flac'' then Inl (InvalidCodec (Codec format))
      else if CodecHeader format = [] then Inl MissingCodecHeader
      else Inr \<lparr>fd_format = format, sampleCh = make_chan 16, errCh = make_chan 1,
                pipe_closed = False, fd_closed = False\<rparr>)"

definition flac_deliver :: "sample list \<Rightarrow> FLACDecoder \<Rightarrow> FLACDecoder option" where
  "flac_deliver frame d =
     (if chan_room (sampleCh d) then Some (d\<lparr>sampleCh := chan_put frame (sampleCh d)\<rparr>) else None)"

definition flac_parser_exit :: "FLACDecoder \<Rightarrow> FLACDecoder" where
  "flac_parser_exit d = d\<lparr>sampleCh := (sampleCh d)\<lparr>chan_closed := True\<rparr>, pipe_closed := True\<rparr>"

definition flac_init_failed :: "string \<Rightarrow> FLACDecoder \<Rightarrow> FLACDecoder" where
  "flac_init_failed err d =
     flac_parser_exit
       (case chan_offer (LibraryError err) (errCh d) of
          None \<Rightarrow> d
        | Some ch \<Rightarrow> d\<lparr>errCh := ch\<rparr>)"

text \<open>
  \<open>Decode\<close> in the order of the source: the closed flag, a pending start-up error, the write to
  the pipe, and at most one frame from the channel. The write returns when the parser has read
  the chunk; \<open>frames\<close> are the frames the parser sends meanwhile. When the channel has no room for
  one of them the parser waits for a receiver and \<open>Decode\<close> for the parser: \<open>None\<close>, the call does
  not return. The result of a call that returns is an error, a frame, or no samples
  (\<open>Inr None\<close>).
\<close>

primrec flac_deliver_all :: "sample list list \<Rightarrow> FLACDecoder \<Rightarrow> FLACDecoder option" where
  "flac_deliver_all [] d = Some d"
| "flac_deliver_all (f # fs) d =
     (case flac_deliver f d of None \<Rightarrow> None | Some d' \<Rightarrow> flac_deliver_all fs d')"

definition flac_poll :: "FLACDecoder \<Rightarrow> (codec_error + sample list option) \<times> FLACDecoder" where
  "flac_poll d =
     (case chan_take (sampleCh d) of
        Some (frame, ch) \<Rightarrow> (Inr (Some frame), d\<lparr>sampleCh := ch\<rparr>)
      | None \<Rightarrow> (if chan_closed (sampleCh d) then Inl (LibraryError ''EOF'') else Inr None, d))"

definition flac_Decode ::
  "sample list list \<Rightarrow> FLACDecoder \<Rightarrow>
   ((codec_error + sample list option) \<times> FLACDecoder) option" where
  "flac_Decode frames d =
     (if fd_closed d then Some (Inl DecoderClosed, d)
      else case chan_take (errCh d) of
        Some (err, ch) \<Rightarrow> Some (Inl err, d\<lparr>errCh := ch\<rparr>)
      | None \<Rightarrow>
          if pipe_closed d then Some (Inl (LibraryError ''write to FLAC pipe''), d)
          else map_option flac_poll (flac_deliver_all frames d))"

definition flac_Close :: "FLACDecoder \<Rightarrow> FLACDecoder" where
  "flac_Close d =
     (if fd_closed d then d
      else d\<lparr>fd_closed := True, pipe_closed := True,
             sampleCh := (sampleCh d)\<lparr>chan_buf := [], chan_closed := True\<rparr>\<rparr>)"

text \<open>A sequence of calls: the frames they returned, in order, and the decoder after them.\<close>

fun flac_session ::
  "sample list list list \<Rightarrow> FLACDecoder \<Rightarrow> (sample list list \<times> FLACDecoder) option" where
  "flac_session [] d = Some ([], d)"
| "flac_session (frames # calls) d =
     (case flac_Decode frames d of
        None \<Rightarrow> None
      | Some (r, d1) \<Rightarrow>
          (case flac_session calls d1 of
             None \<Rightarrow> None
           | Some (out, d2) \<Rightarrow>
               Some (case r of Inr (Some frame) \<Rightarrow> frame # out | _ \<Rightarrow> out, d2)))"

definition flac_running :: "FLACDecoder \<Rightarrow> bool" where
  "flac_running d \<longleftrightarrow> \<not> fd_closed d \<and> \<not> pipe_closed d \<and> chan_buf (errCh d) = [] \<and>
     \<not> chan_closed (sampleCh d) \<and> chan_wf (sampleCh d) \<and> 0 < chan_cap (sampleCh d)"

lemma NewFLAC_running: "NewFLAC format = Inr d \<Longrightarrow> flac_running d \<and> chan_buf (sampleCh d) = []"
  by (auto simp: NewFLAC_def flac_running_def split: if_splits)

lemma flac_deliver_all_running:
  "flac_deliver_all fs d = Some d' \<Longrightarrow> flac_running d \<Longrightarrow>
   flac_running d' \<and> chan_buf (sampleCh d') = chan_buf (sampleCh d) @ fs"
proof (induction fs arbitrary: d)
  case Nil
  then show ?case by simp
next
  case (Cons f fs)
  then obtain d1 where d1: "flac_deliver f d = Some d1" "flac_deliver_all fs d1 = Some d'"
    by (auto split: option.splits)
  then have "flac_running d1 \<and> chan_buf (sampleCh d1) = chan_buf (sampleCh d) @ [f]"
    using Cons.prems(2)
    by (auto simp: flac_deliver_def flac_running_def chan_put_def chan_wf_def chan_room_def
        split: if_splits)
  with Cons.IH [OF d1(2)] show ?case by simp
qed

lemma flac_poll_running:
  assumes "flac_running d"
  shows "(case chan_buf (sampleCh d) of
            [] \<Rightarrow> flac_poll d = (Inr None, d)
          | f # fs \<Rightarrow> (\<exists>d'. flac_poll d = (Inr (Some f), d') \<and> flac_running d' \<and>
                          chan_buf (sampleCh d') = fs \<and>
                          chan_cap (sampleCh d') = chan_cap (sampleCh d)))"
  using assms
  by (auto simp: flac_poll_def chan_take_def flac_running_def chan_wf_def split: list.splits)

lemma flac_Decode_running:
  "flac_running d \<Longrightarrow> flac_Decode fs d = map_option flac_poll (flac_deliver_all fs d)"
  by (simp add: flac_Decode_def flac_running_def chan_take_def)

lemma flac_session_order:
  "flac_session calls d = Some (out, d') \<Longrightarrow> flac_running d \<Longrightarrow>
   chan_buf (sampleCh d) @ concat calls = out @ chan_buf (sampleCh d') \<and> flac_running d'"
proof (induction calls arbitrary: d out)
  case Nil
  then show ?case by simp
next
  case (Cons fs calls)
  then obtain dd where dd: "flac_deliver_all fs d = Some dd"
    by (auto simp: flac_Decode_running split: option.splits)
  note run = flac_deliver_all_running [OF dd Cons.prems(2)]
  obtain r d1 where poll: "flac_poll dd = (r, d1)" by fastforce
  then obtain out1 where s: "flac_session calls d1 = Some (out1, d')"
    "out = (case r of Inr (Some frame) \<Rightarrow> frame # out1 | _ \<Rightarrow> out1)"
    using Cons.prems by (auto simp: flac_Decode_running dd split: option.splits)
  show ?case
  proof (cases "chan_buf (sampleCh dd)")
    case Nil
    with flac_poll_running [of dd] run poll have "r = Inr None" "d1 = dd" by auto
    with Cons.IH [OF s(1)] run s(2) Nil show ?thesis by simp
  next
    case (Cons f rest)
    have r: "r = Inr (Some f)" "flac_running d1" "chan_buf (sampleCh d1) = rest"
      using flac_poll_running [OF conjunct1 [OF run]] poll by (auto simp: Cons)
    have "chan_buf (sampleCh d) @ fs = f # rest" using run Cons by simp
    then have "chan_buf (sampleCh d) @ concat (fs # calls) = f # rest @ concat calls"
      by (metis append.assoc append_Cons concat.simps(2))
    with r Cons.IH [OF s(1)] s(2) show ?thesis by simp
  qed
qed

lemma flac_session_one_frame:
  "list_all (\<lambda>fs. length fs \<le> 1) calls \<Longrightarrow> flac_running d \<Longrightarrow> chan_buf (sampleCh d) = [] \<Longrightarrow>
   \<exists>out d'. flac_session calls d = Some (out, d') \<and> chan_buf (sampleCh d') = []"
proof (induction calls arbitrary: d)
  case Nil
  then show ?case by simp
next
  case (Cons fs calls)
  have room: "chan_room (sampleCh d)"
    using Cons.prems by (simp add: chan_room_def flac_running_def)
  obtain dd where dd: "flac_deliver_all fs d = Some dd"
    using Cons.prems(1) room by (cases fs) (auto simp: flac_deliver_def)
  note run = flac_deliver_all_running [OF dd Cons.prems(2)]
  have "\<exists>r d1. flac_poll dd = (r, d1) \<and> flac_running d1 \<and> chan_buf (sampleCh d1) = []"
    using flac_poll_running [of dd] run Cons.prems(1,3) by (cases fs) auto
  then obtain r d1 where d1: "flac_poll dd = (r, d1)" "flac_running d1" "chan_buf (sampleCh d1) = []"
    by blast
  with Cons.IH [of d1] Cons.prems(1) obtain out d'
    where "flac_session calls d1 = Some (out, d') \<and> chan_buf (sampleCh d') = []" by auto
  with d1 dd Cons.prems(2) show ?case by (simp add: flac_Decode_running)
qed

text \<open>
  With at most one frame per chunk, the server's guarantee, no call of a streaming FLAC
  decoder blocks, and the calls return the frames of the stream, one per call and in order,
  none lost or repeated.
\<close>

theorem flac_decoder_delivers:
  assumes "NewFLAC format = Inr d" and "list_all (\<lambda>fs. length fs \<le> 1) calls"
  shows "\<exists>d'. flac_session calls d = Some (concat calls, d')"
proof -
  have run: "flac_running d" "chan_buf (sampleCh d) = []"
    using NewFLAC_running [OF assms(1)] by auto
  from flac_session_one_frame [OF assms(2) run] obtain out d'
    where s: "flac_session calls d = Some (out, d')" "chan_buf (sampleCh d') = []" by blast
  with flac_session_order [OF s(1) run(1)] run(2) show ?thesis by simp
qed

definition flac_format_example :: Format where
  "flac_format_example =
     \<lparr>Codec = ''flac'', SampleRate = 48000, Channels = 2, BitDepth = 24, CodecHeader = [102]\<rparr>"

definition flac_decoder_example :: FLACDecoder where
  "flac_decoder_example =
     \<lparr>fd_format = flac_format_example, sampleCh = make_chan 16, errCh = make_chan 1,
      pipe_closed = False, fd_closed = False\<rparr>"

theorem flac_decoder_delivers_witness:
  "\<exists>d'. flac_session [[], [[1, 2]], [[3]]] flac_decoder_example = Some (concat [[], [[1, 2]], [[3]]], d')"
  by (rule flac_decoder_delivers [where format = flac_format_example])
    (simp_all add: NewFLAC_def flac_format_example_def flac_decoder_example_def)

text \<open>
  With two frames in every chunk the channel fills up by one frame per call; the sixteenth call
  cannot return, because the parser waits for a receiver that is itself waiting in \<open>Decode\<close>.
\<close>

lemma flac_decoder_blocks:
  "flac_session (replicate 15 [[1], [2]]) flac_decoder_example \<noteq> None"
  "flac_session (replicate 16 [[1], [2]]) flac_decoder_example = None"
  by code_simp+

end
