(* ===== verification/Audio_Math.thy ===== *)
theory Audio_Math
  imports Float64 Sample_Codec
begin

text \<open>
  The linear resampler of \<open>pkg/audio/resample.go\<close> and the volume stage of
  \<open>pkg/audio/output/volume.go\<close>, on the \<open>float64\<close> model. An index outside a slice is a panic,
  the value \<open>None\<close>.
\<close>

section \<open>Volume\<close>

text \<open>
  \<open>math.Pow\<close> is the parameter \<open>pow\<close> of the stage. The gain of a muted output is zero whatever
  the volume.
\<close>

definition getVolumeMultiplier :: "(f64 \<Rightarrow> f64 \<Rightarrow> f64) \<Rightarrow> int \<Rightarrow> bool \<Rightarrow> f64" where
  "getVolumeMultiplier pow volume muted =
     (if muted then Fin 0
      else pow (f64_div (f64_of_int volume) (Fin 100)) (Fin (3 / 2)))"

definition scale_sample :: "f64 \<Rightarrow> sample \<Rightarrow> sample" where
  "scale_sample multiplier s =
     (let scaled = f64_to_int64 (f64_mul (f64_of_int (sint s)) multiplier);
          scaled = (if Max24Bit < scaled then Max24Bit
                    else if scaled < Min24Bit then Min24Bit else scaled)
      in word_of_int scaled)"

definition applyVolume ::
  "(f64 \<Rightarrow> f64 \<Rightarrow> f64) \<Rightarrow> sample list \<Rightarrow> int \<Rightarrow> bool \<Rightarrow> sample list" where
  "applyVolume pow samples volume muted =
     map (scale_sample (getVolumeMultiplier pow volume muted)) samples"

lemma length_applyVolume [simp]: "length (applyVolume pow xs v m) = length xs"
  by (simp add: applyVolume_def)

lemma sint_of_24bit:
  assumes "Min24Bit \<le> n" "n \<le> Max24Bit"
  shows "sint (word_of_int n :: sample) = n"
  using assms
  by (simp add: sint_sbintrunc' signed_take_bit_int_eq_self Min24Bit_def Max24Bit_def)

lemma sint_scale_sample:
  "sint (scale_sample g s) =
     max Min24Bit (min Max24Bit (f64_to_int64 (f64_mul (f64_of_int (sint s)) g)))"
proof -
  have "Min24Bit \<le> Max24Bit" by (simp add: Min24Bit_def Max24Bit_def)
  then show ?thesis
    unfolding scale_sample_def Let_def
    by (subst sint_of_24bit) (auto simp: max_def min_def)
qed

lemma sample_of_int: "f64_of_int (sint (s :: sample)) = Fin (of_int (sint s))"
proof (rule f64_of_int_exact)
  show "\<bar>sint s\<bar> \<le> 2 ^ 53"
    using sint_range_size [of s] by (simp add: word_size abs_le_iff)
qed

lemma sample_representable: "f64_representable (of_int (sint (s :: sample)))"
  using sint_range_size [of s]
  by (intro f64_representable_of_int) (simp add: word_size abs_le_iff)

lemma scaled_sample:
  assumes "f64_representable g" "0 \<le> g" "g \<le> 1"
  shows "\<bar>f64_to_int64 (f64_mul (f64_of_int (sint (s :: sample))) (Fin g))\<bar> \<le> \<bar>sint s\<bar>"
    and "0 \<le> sint s \<Longrightarrow> 0 \<le> f64_to_int64 (f64_mul (f64_of_int (sint s)) (Fin g))"
proof -
  let ?r = "f64_round (of_int (sint s) * g)"
  have r: "\<bar>?r\<bar> \<le> of_int \<bar>sint s\<bar>"
    using f64.rnd_shrink [OF sample_representable assms(2,3), of s] by simp
  have s: "\<bar>sint s\<bar> \<le> 2 ^ 31"
    using sint_range_size [of s] by (simp add: word_size abs_le_iff)
  then have "of_int \<bar>sint s\<bar> \<le> (of_int (2 ^ 31) :: rat)"
    by (simp only: of_int_le_iff)
  with r have "\<bar>?r\<bar> \<le> of_int (2 ^ 31)" by (rule order_trans)
  also have "\<dots> < 2 ^ 1024" by simp
  finally have "\<bar>?r\<bar> < 2 ^ 1024" .
  then have m: "f64_mul (f64_of_int (sint s)) (Fin g) = Fin ?r"
    by (simp add: sample_of_int fl_Fin)
  have t: "\<bar>f64_trunc ?r\<bar> \<le> \<bar>sint s\<bar>"
    by (rule f64_trunc_abs_le [OF r])
  with s have "is_int64 (f64_trunc ?r)"
    by (auto simp: is_int64_def abs_le_iff)
  then have v: "f64_to_int64 (f64_mul (f64_of_int (sint s)) (Fin g)) = f64_trunc ?r"
    by (simp add: m f64_to_int64_def)
  show "\<bar>f64_to_int64 (f64_mul (f64_of_int (sint s)) (Fin g))\<bar> \<le> \<bar>sint s\<bar>"
    using t v by simp
  assume "0 \<le> sint s"
  with assms(2) have "0 \<le> ?r"
    by (intro f64.rnd_nonneg) (simp del: of_int_sint)
  then show "0 \<le> f64_to_int64 (f64_mul (f64_of_int (sint s)) (Fin g))"
    using v f64_trunc_nonneg by simp
qed

text \<open>
  The volume stage keeps the number of samples, silences a muted output, and for a
  gain between zero and one (what \<open>Pow\<close> returns for a volume of 0 to 100) never makes a sample
  louder nor flips its sign; a 24-bit stream stays a 24-bit stream.
\<close>

theorem volume_stage_is_safe:
  assumes "getVolumeMultiplier pow volume muted = Fin g"
    and "f64_representable g" "0 \<le> g" "g \<le> 1" and "list_all in_24bit samples"
  shows "list_all2 (\<lambda>s t. in_24bit t \<and> \<bar>sint t\<bar> \<le> \<bar>sint s\<bar> \<and> 0 \<le> sint s * sint t \<and>
            (muted \<longrightarrow> t = 0))
          samples (applyVolume pow samples volume muted)"
proof -
  have one: "in_24bit t \<and> \<bar>sint t\<bar> \<le> \<bar>sint s\<bar> \<and> 0 \<le> sint s * sint t \<and> (muted \<longrightarrow> t = 0)"
    if s: "in_24bit s" and t: "t = scale_sample (Fin g) s" for s t
  proof -
    define v where "v = f64_to_int64 (f64_mul (f64_of_int (sint s)) (Fin g))"
    have v: "\<bar>v\<bar> \<le> \<bar>sint s\<bar>" "0 \<le> sint s \<Longrightarrow> 0 \<le> v"
      using scaled_sample [OF assms(2-4)] by (simp_all add: v_def)
    have neg: "v \<le> 0" if "sint s \<le> 0"
    proof -
      have "f64_round (of_int (sint s) * g) \<le> 0"
        using that assms(3) by (intro f64.rnd_nonpos) (simp add: mult_nonpos_nonneg del: of_int_sint)
      then have "f64_trunc (f64_round (of_int (sint s) * g)) \<le> 0"
        by (simp add: f64_trunc_def ceiling_le_iff)
      then show ?thesis
        by (auto simp: v_def sample_of_int fl_def Let_def f64_to_int64_def)
    qed
    have st: "sint t = v"
      using v(1) neg v(2) s unfolding t sint_scale_sample v_def [symmetric]
      by (cases "0 \<le> sint s") (auto simp: in_24bit_def Min24Bit_def Max24Bit_def)
    have "t = 0" if muted
    proof -
      have "g = 0" using assms(1) that by (simp add: getVolumeMultiplier_def)
      then have "v = 0" by (simp add: v_def sample_of_int fl_def f64_to_int64_def f64_round_def is_int64_def
            f64_trunc_def)
      with st show ?thesis using signed_eq_0_iff by blast
    qed
    moreover have "0 \<le> sint s * v"
      using v(2) neg by (cases "0 \<le> sint s") (auto simp: zero_le_mult_iff)
    moreover have "in_24bit t"
      using s v(1) neg v(2) st by (cases "0 \<le> sint s") (auto simp: in_24bit_def Min24Bit_def Max24Bit_def)
    ultimately show ?thesis using v(1) st by blast
  qed
  show ?thesis
    using assms(1,5) one by (simp add: applyVolume_def list_all2_conv_all_nth list_all_length)
qed

text \<open>The instance with the volume at 50 and a gain of one half.\<close>

theorem volume_stage_is_safe_witness:
  "list_all2 (\<lambda>s t. in_24bit t \<and> \<bar>sint t\<bar> \<le> \<bar>sint s\<bar> \<and> 0 \<le> sint s * sint t)
      [7, -9 :: sample] (applyVolume (\<lambda>_ _. Fin (1 / 2)) [7, -9] 50 False)"
proof -
  have "f64_representable (1 / 2)"
    unfolding f64_representable_def by (intro exI [of _ 1] exI [of _ "- 1"]) simp
  then show ?thesis
    using volume_stage_is_safe [of "\<lambda>_ _. Fin (1 / 2)" 50 False "1 / 2" "[7, -9]"]
    by (simp add: getVolumeMultiplier_def in_24bit_def Min24Bit_def Max24Bit_def)
qed

section \<open>The resampler\<close>

record Resampler =
  inputRate :: int
  outputRate :: int
  rs_channels :: nat
  ratio :: f64
  position :: f64
  lastSample :: "sample list"

definition NewResampler :: "int \<Rightarrow> int \<Rightarrow> nat \<Rightarrow> Resampler" where
  "NewResampler inRate outRate channels =
     \<lparr>inputRate = inRate, outputRate = outRate, rs_channels = channels,
      ratio = f64_div (f64_of_int inRate) (f64_of_int outRate), position = Fin 0,
      lastSample = replicate channels 0\<rparr>"

definition f64_to_int32 :: "f64 \<Rightarrow> sample" where
  "f64_to_int32 f = word_of_int (f64_to_int64 f)"

definition interpolate :: "sample \<Rightarrow> sample \<Rightarrow> f64 \<Rightarrow> sample" where
  "interpolate sample1 sample2 fraction =
     f64_to_int32 (f64_add (f64_mul (f64_of_int (sint sample1)) (f64_sub (Fin 1) fraction))
                           (f64_mul (f64_of_int (sint sample2)) fraction))"

definition resample_frame ::
  "nat \<Rightarrow> sample list \<Rightarrow> int \<Rightarrow> f64 \<Rightarrow> sample list option" where
  "resample_frame channels input inputIdx fraction =
     (if 0 \<le> inputIdx \<and> (nat inputIdx + 2) * channels \<le> length input
      then Some (map (\<lambda>ch. interpolate (input ! (nat inputIdx * channels + ch))
                              (input ! ((nat inputIdx + 1) * channels + ch)) fraction) [0..<channels])
      else None)"

text \<open>
  The loop, from \<open>outIdx\<close> with \<open>k\<close> output frames still free: the frames produced and the final
  position.
\<close>

fun resample_loop ::
  "Resampler \<Rightarrow> sample list \<Rightarrow> nat \<Rightarrow> f64 \<Rightarrow> (sample list list \<times> f64) option" where
  "resample_loop r input 0 pos = Some ([], pos)"
| "resample_loop r input (Suc k) pos =
     (let inputFrames = length input div rs_channels r;
          inputIdx = f64_to_int64 pos
      in if int inputFrames - 1 \<le> inputIdx then Some ([], pos)
         else
           let fraction = f64_sub pos (f64_of_int inputIdx)
           in case resample_frame (rs_channels r) input inputIdx fraction of
                None \<Rightarrow> None
              | Some frame \<Rightarrow>
                  (case resample_loop r input k (f64_add pos (ratio r)) of
                     None \<Rightarrow> None
                   | Some (frames, pos') \<Rightarrow> Some (frame # frames, pos')))"

text \<open>
  \<open>Resample\<close> returns the number of samples written, the output buffer and the resampler. A
  resampler without channels divides by zero.
\<close>

definition Resample ::
  "Resampler \<Rightarrow> sample list \<Rightarrow> sample list \<Rightarrow> (nat \<times> sample list \<times> Resampler) option" where
  "Resample r input output =
     (if input = [] then Some (0, output, r)
      else if rs_channels r = 0 then None
      else
        let outputFrames = length output div rs_channels r
        in case resample_loop r input outputFrames (position r) of
             None \<Rightarrow> None
           | Some (frames, pos) \<Rightarrow>
               (let n = length frames * rs_channels r
                in Some (n, concat frames @ drop n output,
                         r\<lparr>position := f64_sub pos (f64_of_int (f64_to_int64 pos))\<rparr>)))"

definition resampler_Reset :: "Resampler \<Rightarrow> Resampler" where
  "resampler_Reset r = r\<lparr>position := Fin 0, lastSample := map (\<lambda>_. 0) (lastSample r)\<rparr>"

definition OutputSamplesNeeded :: "Resampler \<Rightarrow> nat \<Rightarrow> int" where
  "OutputSamplesNeeded r inputSamples =
     (let inputFrames = inputSamples div rs_channels r;
          outputFrames = f64_to_int64 (f64_div (f64_of_int (int inputFrames)) (ratio r))
      in wrap64 (outputFrames * int (rs_channels r)))"

definition InputSamplesNeeded :: "Resampler \<Rightarrow> nat \<Rightarrow> int" where
  "InputSamplesNeeded r outputSamples =
     (let outputFrames = outputSamples div rs_channels r;
          inputFrames = f64_to_int64 (f64_mul (f64_of_int (int outputFrames)) (ratio r))
      in wrap64 (inputFrames * int (rs_channels r)))"

section \<open>Interpolation\<close>

lemma sample_scaled_small:
  assumes "in_24bit s" "0 \<le> g" "g \<le> 1"
  shows "\<bar>of_int (sint s) * g\<bar> < pow2 24"
proof -
  have "\<bar>sint s\<bar> \<le> 2 ^ 23"
    using assms(1) by (auto simp: in_24bit_def Min24Bit_def Max24Bit_def abs_le_iff)
  then have "\<bar>of_int (sint s)\<bar> \<le> (of_int (2 ^ 23) :: rat)"
    by (simp only: of_int_le_iff flip: of_int_abs)
  then have "\<bar>of_int (sint s)\<bar> * \<bar>g\<bar> \<le> of_int (2 ^ 23) * 1"
    using assms(2,3) by (intro mult_mono) auto
  then show ?thesis by (simp add: abs_mult power_int_def del: of_int_sint)
qed

lemma interpolate_24bit:
  assumes "in_24bit s1" "in_24bit s2" "0 \<le> f" "f \<le> 1"
  shows "in_24bit (interpolate s1 s2 (Fin f))"
proof -
  define a b where "a = (of_int (sint s1) :: rat)" and "b = (of_int (sint s2) :: rat)"
  have ab: "- 8388608 \<le> a" "a \<le> 8388607" "- 8388608 \<le> b" "b \<le> 8388607"
    using assms(1,2) unfolding in_24bit_def Min24Bit_def Max24Bit_def a_def b_def by linarith+
  define g where "g = f64_round (1 - f)"
  have "\<bar>1 - f\<bar> < pow2 1" using assms(3,4) by simp
  note fl1 = fl_small [OF this, simplified]
  have g: "0 \<le> g" "g \<le> 1" "\<bar>g - (1 - f)\<bar> \<le> pow2 (- 53)"
    using f64.rnd_nonneg [of "1 - f"] f64.rnd_le [OF _ f64_representable_1, of "1 - f"] assms(3,4) fl1
    by (simp_all add: g_def)
  have "\<bar>a * g\<bar> < pow2 24" "\<bar>b * f\<bar> < pow2 24"
    using sample_scaled_small assms g unfolding a_def b_def by blast+
  note sm = this
  define p q where "p = f64_round (a * g)" and "q = f64_round (b * f)"
  have fla: "fl (a * g) = Fin p" "\<bar>p - a * g\<bar> \<le> pow2 (- 30)"
    using fl_small [OF sm(1)] by (simp_all add: p_def)
  have flb: "fl (b * f) = Fin q" "\<bar>q - b * f\<bar> \<le> pow2 (- 30)"
    using fl_small [OF sm(2)] by (simp_all add: q_def)
  have "pow2 (- 30) < 1" "pow2 24 = 16777216" "pow2 26 = 67108864"
    using pow2_less_iff [of "- 30" 0] by (simp_all add: power_int_def)
  then have "\<bar>p + q\<bar> < pow2 26"
    using sm fla(2) flb(2) by linarith
  note sm3 = this
  define r where "r = f64_round (p + q)"
  have fls: "fl (p + q) = Fin r" "\<bar>r - (p + q)\<bar> \<le> pow2 (- 28)"
    using fl_small [OF sm3] by (simp_all add: r_def)
  have eval: "interpolate s1 s2 (Fin f) = word_of_int (f64_to_int64 (Fin r))"
    using fl1(1) fla(1) flb(1) fls(1)
    by (simp add: interpolate_def f64_to_int32_def f64_sub_def sample_of_int a_def b_def g_def)
  have conv: "- 8388608 \<le> a * (1 - f) + b * f" "a * (1 - f) + b * f \<le> 8388607"
    using mult_right_mono [OF ab(1), of "1 - f"] mult_right_mono [OF ab(3), of f]
      mult_right_mono [OF ab(2), of "1 - f"] mult_right_mono [OF ab(4), of f] assms(3,4)
    by (simp_all add: algebra_simps)
  have "\<bar>a * g - a * (1 - f)\<bar> = \<bar>a\<bar> * \<bar>g - (1 - f)\<bar>"
    by (simp flip: abs_mult add: right_diff_distrib)
  also have "\<dots> \<le> pow2 23 * pow2 (- 53)"
    using ab g(3) by (intro mult_mono) (auto simp: power_int_def)
  finally have "\<bar>a * g - a * (1 - f)\<bar> \<le> pow2 (- 30)"
    by (simp flip: power_int_add)
  then have "\<bar>r - (a * (1 - f) + b * f)\<bar> \<le> pow2 (- 30) + pow2 (- 30) + pow2 (- 30) + pow2 (- 28)"
    using fla(2) flb(2) fls(2) by linarith
  also have "\<dots> < 1"
  proof -
    have "pow2 (- 30) < pow2 (- 3)" "pow2 (- 28) < pow2 (- 3)" by (simp_all only: pow2_less_iff)
    moreover have "pow2 (- 3) = 1 / 8" by (simp add: power_int_def power_one_over)
    ultimately show ?thesis by linarith
  qed
  finally have near: "\<bar>r - (a * (1 - f) + b * f)\<bar> < 1" .
  have "- 8388609 < r" "r < 8388608" using near conv by linarith+
  then have "- 8388608 \<le> f64_trunc r" "f64_trunc r \<le> 8388607"
    using f64_trunc_bounds [of "- 8388608" r 8388607] by simp_all
  then show ?thesis
    unfolding eval by (simp add: in_24bit_def sint_of_24bit f64_to_int64_def is_int64_def
        Min24Bit_def Max24Bit_def)
qed

section \<open>The loop\<close>

text \<open>
  A resampler in use: at least one channel, a finite ratio and position. The bounds are far
  above the rates and chunk sizes of the program; they keep the position an exact 64-bit index.
\<close>

definition resampler_ok :: "Resampler \<Rightarrow> bool" where
  "resampler_ok r \<longleftrightarrow> 0 < rs_channels r \<and>
     (\<exists>q. ratio r = Fin q \<and> 0 \<le> q \<and> q \<le> 2 ^ 31) \<and>
     (\<exists>p. position r = Fin p \<and> 0 \<le> p \<and> p \<le> 2 ^ 33)"

lemma position_index:
  assumes "0 \<le> p" "p \<le> 2 ^ 33"
  shows "f64_to_int64 (Fin p) = \<lfloor>p\<rfloor>" "0 \<le> \<lfloor>p\<rfloor>" "\<lfloor>p\<rfloor> \<le> 2 ^ 33"
proof -
  show b: "0 \<le> \<lfloor>p\<rfloor>" "\<lfloor>p\<rfloor> \<le> 2 ^ 33"
    using assms by (simp_all add: floor_le_iff)
  show "f64_to_int64 (Fin p) = \<lfloor>p\<rfloor>"
    using assms b by (simp add: f64_to_int64_def f64_trunc_def is_int64_def)
qed

lemma index_representable: "0 \<le> n \<Longrightarrow> n \<le> 2 ^ 33 \<Longrightarrow> f64_of_int n = Fin (of_int n)"
  by (rule f64_of_int_exact) simp

lemma fractional_part:
  assumes "0 \<le> p" "p \<le> 2 ^ 33"
  shows "\<exists>f. f64_sub (Fin p) (f64_of_int (f64_to_int64 (Fin p))) = Fin f \<and> 0 \<le> f \<and> f \<le> 1"
proof -
  have "of_int 0 \<le> p + - of_int \<lfloor>p\<rfloor>" "p + - of_int \<lfloor>p\<rfloor> \<le> of_int 1"
    using of_int_floor_le [of p] real_of_int_floor_add_one_ge by (simp, linarith)
  from fl_bounded [OF this] show ?thesis
    using position_index [OF assms] by (auto simp: index_representable f64_sub_def)
qed

text \<open>A property of samples that interpolation keeps: being 24-bit audio, or none at all.\<close>

definition closed_under_interpolation :: "(sample \<Rightarrow> bool) \<Rightarrow> bool" where
  "closed_under_interpolation Q \<longleftrightarrow>
     (\<forall>s1 s2 f. Q s1 \<longrightarrow> Q s2 \<longrightarrow> 0 \<le> f \<longrightarrow> f \<le> 1 \<longrightarrow> Q (interpolate s1 s2 (Fin f)))"

lemma closed_24bit: "closed_under_interpolation in_24bit"
  by (simp add: closed_under_interpolation_def interpolate_24bit)

lemma closed_any: "closed_under_interpolation (\<lambda>_. True)"
  by (simp add: closed_under_interpolation_def)

lemma resample_frame_ok:
  assumes "0 \<le> idx" "idx < int (length input div c) - 1" "0 < c"
    and "closed_under_interpolation Q" "list_all Q input" "0 \<le> f" "f \<le> 1"
  shows "\<exists>frame. resample_frame c input idx (Fin f) = Some frame \<and> length frame = c \<and>
           list_all Q frame"
proof -
  have "nat idx + 2 \<le> length input div c"
    using assms(1,2) by linarith
  then have "(nat idx + 2) * c \<le> length input"
    by (metis div_times_less_eq_dividend le_trans mult_le_mono1)
  then have ix: "nat idx * c + ch < length input" "(nat idx + 1) * c + ch < length input"
    if "ch < c" for ch
    using that by (simp_all add: algebra_simps)
  have "Q (interpolate (input ! (nat idx * c + ch)) (input ! ((nat idx + 1) * c + ch)) (Fin f))"
    if "ch < c" for ch
    using ix [OF that] assms(4-7) by (simp add: closed_under_interpolation_def list_all_length)
  with \<open>(nat idx + 2) * c \<le> length input\<close> assms(1) show ?thesis
    by (auto simp: resample_frame_def list_all_iff)
qed

lemma resample_loop_ok:
  assumes "0 < rs_channels r" "ratio r = Fin q" "0 \<le> q" "q \<le> 2 ^ 31"
    and "length input \<le> 2 ^ 32" "list_all Q input" "closed_under_interpolation Q" "0 \<le> p" "p \<le> 2 ^ 33"
  shows "\<exists>frames p'. resample_loop r input k (Fin p) = Some (frames, Fin p') \<and>
           length frames \<le> k \<and> list_all (\<lambda>f. length f = rs_channels r \<and> list_all Q f) frames \<and>
           0 \<le> p' \<and> p' \<le> 2 ^ 33"
  using assms(8,9)
proof (induction k arbitrary: p)
  case 0
  then show ?case by simp
next
  case (Suc k)
  let ?I = "int (length input div rs_channels r)"
  note idx = position_index [OF Suc.prems]
  show ?case
  proof (cases "?I - 1 \<le> \<lfloor>p\<rfloor>")
    case True
    with idx Suc.prems show ?thesis by simp
  next
    case False
    obtain f where f: "f64_sub (Fin p) (f64_of_int \<lfloor>p\<rfloor>) = Fin f" "0 \<le> f" "f \<le> 1"
      using fractional_part [OF Suc.prems] idx by auto
    obtain frame where fr: "resample_frame (rs_channels r) input \<lfloor>p\<rfloor> (Fin f) = Some frame"
        "length frame = rs_channels r" "list_all Q frame"
      using resample_frame_ok [OF idx(2) _ assms(1,7,6) f(2,3)] False by auto
    have "?I \<le> int (length input)" by (simp add: div_le_dividend)
    moreover have "int (length input) \<le> 2 ^ 32" using assms(5) by simp
    ultimately have "\<lfloor>p\<rfloor> \<le> 2 ^ 32"
      using False by linarith
    then have "p \<le> 2 ^ 32 + 1" unfolding floor_le_iff by simp
    with Suc.prems assms(3,4) have "of_int 0 \<le> p + q" "p + q \<le> of_int (2 ^ 33)" by simp_all
    from fl_bounded [OF this] obtain y where y: "fl (p + q) = Fin y" "0 \<le> y" "y \<le> 2 ^ 33"
      by auto
    obtain frames p' where "resample_loop r input k (Fin y) = Some (frames, Fin p')"
        "length frames \<le> k" "list_all (\<lambda>f. length f = rs_channels r \<and> list_all Q f) frames"
        "0 \<le> p'" "p' \<le> 2 ^ 33"
      using Suc.IH [OF y(2,3)] by blast
    with False idx f(1) fr y(1) assms(2) show ?thesis
      by (simp add: Let_def)
  qed
qed

lemma length_concat_frames:
  "list_all (\<lambda>f. length f = c \<and> P f) frames \<Longrightarrow> length (concat frames) = length frames * c"
  by (induction frames) simp_all

lemma resample_safe_run:
  assumes "resampler_ok r" "list_all Q input" "length input \<le> 2 ^ 32" "closed_under_interpolation Q"
  shows "\<exists>n out r'. Resample r input output = Some (n, out, r') \<and> resampler_ok r' \<and>
           n \<le> length output \<and> length out = length output \<and>
           list_all Q (take n out) \<and> drop n out = drop n output"
proof (cases "input = []")
  case True
  then show ?thesis using assms(1) by (simp add: Resample_def)
next
  case False
  obtain q p where q: "ratio r = Fin q" "0 \<le> q" "q \<le> 2 ^ 31"
    and p: "position r = Fin p" "0 \<le> p" "p \<le> 2 ^ 33" and c: "0 < rs_channels r"
    using assms(1) by (auto simp: resampler_ok_def)
  obtain frames p' where l: "resample_loop r input (length output div rs_channels r) (Fin p)
        = Some (frames, Fin p')" "length frames \<le> length output div rs_channels r"
      "list_all (\<lambda>f. length f = rs_channels r \<and> list_all Q f) frames" "0 \<le> p'" "p' \<le> 2 ^ 33"
    using resample_loop_ok [OF c q assms(3,2,4) p(2,3)] by blast
  obtain f where f: "f64_sub (Fin p') (f64_of_int (f64_to_int64 (Fin p'))) = Fin f" "0 \<le> f" "f \<le> 1"
    using fractional_part [OF l(4,5)] by blast
  let ?n = "length frames * rs_channels r"
  let ?r = "r\<lparr>position := Fin f\<rparr>"
  have len: "length (concat frames) = ?n"
    by (rule length_concat_frames [OF l(3)])
  have n: "?n \<le> length output"
    using l(2) by (metis div_times_less_eq_dividend le_trans mult_le_mono1)
  have "Resample r input output = Some (?n, concat frames @ drop ?n output, ?r)"
    using False c p(1) l(1) f(1) by (simp add: Resample_def Let_def)
  moreover have "resampler_ok ?r"
    using c q f(2,3) by (simp add: resampler_ok_def)
  moreover have "list_all Q (concat frames)"
    using l(3) by (auto simp: list_all_iff)
  ultimately have "Resample r input output = Some (?n, concat frames @ drop ?n output, ?r) \<and>
      resampler_ok ?r \<and> ?n \<le> length output \<and>
      length (concat frames @ drop ?n output) = length output \<and>
      list_all Q (take ?n (concat frames @ drop ?n output)) \<and>
      drop ?n (concat frames @ drop ?n output) = drop ?n output"
    using len n by simp
  then show ?thesis by blast
qed

text \<open>
  C39. On any chunk of 24-bit samples the resampler returns: no index is out of range, it writes
  at most the output buffer, what it writes is 24-bit audio and the rest of the buffer is
  untouched; and it is again ready for the next chunk.
\<close>

theorem resample_safe:
  assumes "resampler_ok r" "list_all in_24bit input" "length input \<le> 2 ^ 32"
  shows "\<exists>n out r'. Resample r input output = Some (n, out, r') \<and> resampler_ok r' \<and>
           n \<le> length output \<and> length out = length output \<and>
           list_all in_24bit (take n out) \<and> drop n out = drop n output"
  by (rule resample_safe_run [OF assms closed_24bit])

theorem resample_safe_witness:
  "\<exists>n out r'. Resample \<lparr>inputRate = 1, outputRate = 2, rs_channels = 1, ratio = Fin (1 / 2),
        position = Fin 0, lastSample = [0]\<rparr> [5, -5, 9] (replicate 6 0) = Some (n, out, r') \<and>
      resampler_ok r' \<and> n \<le> length (replicate 6 (0 :: sample)) \<and>
      length out = length (replicate 6 (0 :: sample)) \<and>
      list_all in_24bit (take n out) \<and> drop n out = drop n (replicate 6 0)"
proof (rule resample_safe)
  show "resampler_ok \<lparr>inputRate = 1, outputRate = 2, rs_channels = 1, ratio = Fin (1 / 2),
        position = Fin 0, lastSample = [0]\<rparr>"
    unfolding resampler_ok_def by (intro conjI exI [of _ "1 / 2"] exI [of _ 0]) simp_all
qed (simp_all add: in_24bit_def Min24Bit_def Max24Bit_def)

lemma NewResampler_ok:
  assumes "0 < inRate" "inRate \<le> 2 ^ 31" "0 < outRate" "outRate \<le> 2 ^ 31" "0 < ch"
  shows "resampler_ok (NewResampler inRate outRate ch)"
proof -
  have "of_int 0 \<le> of_int inRate / (of_int outRate :: rat)"
    using assms by simp
  moreover have "of_int inRate / of_int outRate \<le> (of_int (2 ^ 31) :: rat)"
  proof -
    have "(of_int inRate :: rat) \<le> of_int (2 ^ 31) * 1"
      using assms(2) by (simp only: mult_1_right of_int_le_iff)
    also have "\<dots> \<le> of_int (2 ^ 31) * of_int outRate"
      using assms(3) by (intro mult_left_mono) simp_all
    finally show ?thesis
      using assms(3) by (simp add: pos_divide_le_eq)
  qed
  ultimately obtain q where "fl (of_int inRate / of_int outRate) = Fin q" "0 \<le> q" "q \<le> 2 ^ 31"
    using fl_bounded [of 0 "of_int inRate / of_int outRate" "2 ^ 31"] by fastforce
  with assms show ?thesis
    by (simp add: resampler_ok_def NewResampler_def f64_of_int_exact)
qed

text \<open>The use that the server makes of a resampler: the output buffer has the size it asks for.\<close>

lemma Resample_keeps:
  "Resample r input output = Some (n, out, r') \<Longrightarrow> ratio r' = ratio r \<and> rs_channels r' = rs_channels r"
  by (auto simp: Resample_def Let_def split: if_splits option.splits)

lemma OutputSamplesNeeded_nonneg:
  assumes "ratio r = Fin q" "2 powi (- 16) \<le> q" "0 < rs_channels r" "n \<le> 2 ^ 32"
  shows "0 \<le> OutputSamplesNeeded r n"
proof -
  let ?f = "n div rs_channels r"
  have q: "0 < q" using assms(2) by (rule less_le_trans [rotated]) (simp add: power_int_def)
  have f: "?f \<le> n" by (simp add: div_le_dividend)
  then have fb: "int ?f \<le> 2 ^ 32" using le_trans [OF _ assms(4)] by (simp flip: of_nat_le_iff)
  then have fi: "\<bar>int ?f\<bar> \<le> 2 ^ 53" by simp
  have up: "(of_nat ?f :: rat) / q \<le> of_int (int ?f * 2 ^ 16)"
  proof -
    have "1 \<le> 2 ^ 16 * q" using assms(2) by (simp add: power_int_def power_one_over field_simps)
    then have "of_nat ?f * 1 \<le> of_nat ?f * (2 ^ 16 * q)" by (intro mult_left_mono) simp_all
    then show ?thesis using q by (simp add: pos_divide_le_eq ac_simps)
  qed
  have "int ?f * 2 ^ 16 \<le> 2 ^ 32 * 2 ^ 16" using fb by (intro mult_right_mono) simp_all
  then have "\<bar>int ?f * 2 ^ 16\<bar> \<le> 2 ^ 53" by simp
  then obtain y where y: "fl (of_nat ?f / q) = Fin y" "0 \<le> y" "y \<le> of_int (int ?f * 2 ^ 16)"
    using fl_bounded [of 0 "of_nat ?f / q" "int ?f * 2 ^ 16"] up q by auto
  have t: "f64_trunc y = \<lfloor>y\<rfloor>" using y(2) by (simp add: f64_trunc_def)
  have b: "0 \<le> \<lfloor>y\<rfloor>" "\<lfloor>y\<rfloor> \<le> int ?f * 2 ^ 16"
  proof -
    have "of_int \<lfloor>y\<rfloor> \<le> (of_int (int ?f * 2 ^ 16) :: rat)" using of_int_floor_le [of y] y(3) by (rule order_trans)
    then show "\<lfloor>y\<rfloor> \<le> int ?f * 2 ^ 16" by (simp only: of_int_le_iff)
  qed (use y(2) in simp)
  have "int ?f * int (rs_channels r) \<le> int n"
    by (simp flip: of_nat_mult)
  then have "\<lfloor>y\<rfloor> * int (rs_channels r) \<le> int n * 2 ^ 16"
    using b mult_right_mono [OF b(2), of "int (rs_channels r)"] by (simp add: algebra_simps)
  moreover have "int n * 2 ^ 16 \<le> 2 ^ 48" using assms(4) by simp
  moreover have y48: "\<lfloor>y\<rfloor> \<le> 2 ^ 48" by (rule order_trans [OF b(2)]) (use fb in simp)
  moreover have "0 \<le> \<lfloor>y\<rfloor> * int (rs_channels r)" using b(1) by simp
  moreover have "is_int64 x" if "0 \<le> x" "x \<le> 2 ^ 48" for x
    using that by (simp add: is_int64_def)
  ultimately have "is_int64 (\<lfloor>y\<rfloor> * int (rs_channels r))" "is_int64 \<lfloor>y\<rfloor>"
    using b(1) y48 by (meson order_trans)+
  then show ?thesis
    using b q assms(1) y(1) by (simp add: OutputSamplesNeeded_def f64_of_int_exact [OF fi, simplified]
        f64_to_int64_def t wrap64_id Let_def)
qed

definition resampler_fit :: "Resampler \<Rightarrow> bool" where
  "resampler_fit r \<longleftrightarrow> resampler_ok r \<and> (\<exists>q. ratio r = Fin q \<and> 2 powi (- 16) \<le> q)"

lemma resampler_fit_run:
  assumes "resampler_fit r" "length input \<le> 2 ^ 32"
  shows "0 \<le> OutputSamplesNeeded r (length input) \<and>
    (\<exists>n out r'. Resample r input output = Some (n, out, r') \<and> resampler_fit r')"
proof -
  obtain q where q: "ratio r = Fin q" "2 powi (- 16) \<le> q" and ok: "resampler_ok r"
    using assms(1) by (auto simp: resampler_fit_def)
  obtain n out r' where run: "Resample r input output = Some (n, out, r')" "resampler_ok r'"
    using resample_safe_run [OF ok _ assms(2) closed_any] by (fastforce simp: list_all_iff)
  then have "resampler_fit r'" using Resample_keeps [OF run(1)] q by (simp add: resampler_fit_def)
  moreover have "0 < rs_channels r" using ok by (simp add: resampler_ok_def)
  ultimately show ?thesis using OutputSamplesNeeded_nonneg [OF q] assms(2) run(1) by blast
qed

lemma NewResampler_fit:
  assumes "0 < inRate" "inRate \<le> 2 ^ 31" "0 < ch"
  shows "resampler_fit (NewResampler inRate 48000 ch)"
proof -
  have ok: "resampler_ok (NewResampler inRate 48000 ch)" by (rule NewResampler_ok) (use assms in simp_all)
  have rep: "f64_representable (2 powi (- 16))"
    unfolding f64_representable_def by (rule exI [of _ 1], rule exI [of _ "- 16"]) simp
  have "(1 :: rat) \<le> of_int inRate" using assms(1) by simp
  then have "(2 :: rat) powi (- 16) \<le> of_int inRate / 48000"
    by (simp add: power_int_def power_one_over field_simps)
  then have "2 powi (- 16) \<le> f64_round (of_int inRate / 48000)" by (rule f64.rnd_ge [OF _ rep])
  moreover obtain q where q: "ratio (NewResampler inRate 48000 ch) = Fin q"
    using ok by (auto simp: resampler_ok_def)
  moreover have "ratio (NewResampler inRate 48000 ch) = fl (of_int inRate / 48000)"
    using assms by (simp add: NewResampler_def f64_of_int_exact)
  ultimately show ?thesis using ok by (auto simp: resampler_fit_def fl_def Let_def split: if_splits)
qed

text \<open>
  How far the loop gets: \<open>n\<close> frames out of a start position \<open>p\<close> need \<open>p + (n - 1) * q\<close>, up to the
  rounding of the additions, to be an index before the last input frame.
\<close>

lemma resample_loop_length:
  assumes "ratio r = Fin q" "0 \<le> q" "q \<le> 1" "length input div rs_channels r \<le> 1000"
    and "0 \<le> p" "p \<le> 1000"
    and "resample_loop r input k (Fin p) = Some (frames, p')"
  shows "frames = [] \<or>
    p + (of_nat (length frames) - 1) * (q - pow2 (- 43)) < of_nat (length input div rs_channels r) - 1"
  using assms(5-)
proof (induction k arbitrary: p frames)
  case 0
  then show ?case by simp
next
  case (Suc k)
  let ?I = "length input div rs_channels r"
  have p33: "p \<le> 2 ^ 33" using Suc.prems(2) by simp
  note idx = position_index [OF Suc.prems(1) p33]
  show ?case
  proof (cases "int ?I - 1 \<le> \<lfloor>p\<rfloor>")
    case True
    with idx Suc.prems(3) show ?thesis by simp
  next
    case False
    then have "\<lfloor>p\<rfloor> + 2 \<le> int ?I" by linarith
    then have "of_int (\<lfloor>p\<rfloor> + 2) \<le> (of_int (int ?I) :: rat)" by (simp only: of_int_le_iff)
    then have "of_int \<lfloor>p\<rfloor> + 2 \<le> (of_nat ?I :: rat)" by simp
    then have pI: "p < of_nat ?I - 1" by linarith
    have I: "(of_nat ?I :: rat) \<le> 1000"
      using assms(4) by (metis of_nat_le_iff of_nat_numeral)
    have small: "\<bar>p + q\<bar> < pow2 11"
      using pI I Suc.prems(1) assms(2,3) by (simp add: power_int_def)
    define y where "y = f64_round (p + q)"
    have y: "fl (p + q) = Fin y" "\<bar>y - (p + q)\<bar> \<le> pow2 (- 43)"
      using fl_small [OF small] by (simp_all add: y_def)
    have "p + q \<le> of_int 1000" using pI I assms(3) by simp
    then have y2: "0 \<le> y" "y \<le> 1000"
      using f64.rnd_nonneg [of "p + q"] f64.rnd_le [OF _ f64_representable_of_int [of 1000], of "p + q"]
        Suc.prems(1) assms(2) by (simp_all add: y_def)
    obtain frame frames1 where fr: "resample_loop r input k (Fin y) = Some (frames1, p')"
        "frames = frame # frames1"
      using Suc.prems(3) False idx(1) y(1) assms(1) by (auto simp: Let_def split: option.splits)
    show ?thesis
    proof (cases "frames1 = []")
      case True
      with fr(2) pI show ?thesis by simp
    next
      case False
      then have "y + (of_nat (length frames1) - 1) * (q - pow2 (- 43)) < of_nat ?I - 1"
        using Suc.IH [OF y2 fr(1)] by blast
      moreover have "p + (q - pow2 (- 43)) \<le> y" using y(2) by linarith
      moreover have "of_nat (length frames1) * (q - pow2 (- 43))
          = (of_nat (length frames1) - 1) * (q - pow2 (- 43)) + (q - pow2 (- 43))"
        by (simp only: left_diff_distrib mult_1_left diff_add_cancel)
      moreover have "of_nat (length frames) - 1 = (of_nat (length frames1) :: rat)"
        by (simp add: fr(2))
      ultimately have "p + (of_nat (length frames) - 1) * (q - pow2 (- 43)) < of_nat ?I - 1"
        by simp
      then show ?thesis ..
    qed
  qed
qed

text \<open>
  A 20 ms chunk of 44.1 kHz audio is 882 frames and 960 frames of 48 kHz audio, which is
  what \<open>OutputSamplesNeeded\<close> computes; the resampler never produces them: the last input frame is
  only ever an interpolation end point, so every chunk comes out with at most 959 frames, from
  any start position.
\<close>

theorem resample_44100_short:
  assumes "ratio r = ratio (NewResampler 44100 48000 ch)" "position r = Fin p" "0 \<le> p" "p \<le> 1"
    and "rs_channels r = ch" "0 < ch" "length input = 882 * ch"
    and "Resample r input output = Some (n, out, r')"
  shows "OutputSamplesNeeded r (length input) = wrap64 (960 * int ch) \<and> n \<le> 959 * ch"
proof -
  have r0: "f64_round (147 / 160) = 4137682157646643 / 2 ^ 52"
    using f64_round_eval [of "- 1" "147 / 160" 8275364315293286]
    by (simp add: power_int_def power_one_over)
  have r1: "f64_round (882 / (4137682157646643 / 2 ^ 52)) = 960"
    using f64_round_eval [of 9 "882 / (4137682157646643 / 2 ^ 52)" "960 * 2 ^ 43"]
    by (simp add: power_int_def power_one_over)
  define q :: rat where "q = 4137682157646643 / 2 ^ 52"
  have q: "ratio r = Fin q"
    using r0 by (simp add: assms(1) NewResampler_def f64_of_int_exact fl_def q_def)
  have "OutputSamplesNeeded r (length input) = wrap64 (960 * int ch)"
    using assms(5-7) r1 unfolding OutputSamplesNeeded_def q q_def
    by (simp add: f64_of_int_exact fl_def f64_to_int64_def f64_trunc_def is_int64_def)
  moreover have "n \<le> 959 * ch"
  proof (rule ccontr)
    assume big: "\<not> n \<le> 959 * ch"
    obtain k frames p' where l: "resample_loop r input k (Fin p) = Some (frames, p')"
        "n = length frames * ch"
    proof -
      have "input \<noteq> []" using assms(6,7) by auto
      with assms(2,5,6,8) show thesis
        by (auto simp: Resample_def Let_def split: option.splits prod.splits intro: that)
    qed
    have len: "960 \<le> length frames"
    proof (rule ccontr)
      assume "\<not> 960 \<le> length frames"
      then have "length frames * ch \<le> 959 * ch" by (intro mult_le_mono1) simp
      with big l(2) show False by simp
    qed
    have "frames = [] \<or> p + (of_nat (length frames) - 1) * (q - pow2 (- 43)) < of_nat (length input div rs_channels r) - 1"
      by (rule resample_loop_length [OF q _ _ _ assms(3) _ l(1)])
        (use assms(4-7) in \<open>simp_all add: q_def\<close>)
    with len assms(5-7) have "p + (of_nat (length frames) - 1) * (q - pow2 (- 43)) < 881" by auto
    moreover have "(959 :: rat) * (q - pow2 (- 43)) \<le> (of_nat (length frames) - 1) * (q - pow2 (- 43))"
    proof (rule mult_right_mono)
      have "(960 :: rat) \<le> of_nat (length frames)"
        using len by (metis of_nat_le_iff of_nat_numeral)
      then show "(959 :: rat) \<le> of_nat (length frames) - 1" by simp
    qed (simp add: q_def power_int_def power_one_over)
    moreover have "(881 :: rat) \<le> 959 * (q - pow2 (- 43))"
      by (simp add: q_def power_int_def power_one_over)
    ultimately show False using assms(3) by linarith
  qed
  ultimately show ?thesis ..
qed

theorem resample_44100_short_witness:
  "\<exists>n out r'. Resample (NewResampler 44100 48000 1) (replicate 882 0) (replicate 960 0) = Some (n, out, r') \<and>
     OutputSamplesNeeded (NewResampler 44100 48000 1) 882 = wrap64 (960 * int 1) \<and> n \<le> 959 * 1"
proof -
  have "resampler_ok (NewResampler 44100 48000 1)" by (rule NewResampler_ok) simp_all
  then obtain n out r' where
    "Resample (NewResampler 44100 48000 1) (replicate 882 0) (replicate 960 0) = Some (n, out, r')"
    using resample_safe_run [OF _ _ _ closed_any, of "NewResampler 44100 48000 1" "replicate 882 0" "replicate 960 0"]
    by (auto simp: list_all_length)
  moreover have "position (NewResampler 44100 48000 1) = Fin 0"
    "rs_channels (NewResampler 44100 48000 1) = 1" by (simp_all add: NewResampler_def)
  ultimately show ?thesis
    using resample_44100_short [of "NewResampler 44100 48000 1" 1 0 "replicate 882 0"
        "replicate 960 0" n out r'] by auto
qed

end
