(* ===== verification/Messages.thy ===== *)
theory Messages
  imports Float64 "HOL-Library.Monad_Syntax"
begin

text \<open>
  The protocol messages of \<open>pkg/protocol/messages.go\<close> as records, and their JSON encoding as
  \<open>encoding/json\<close> performs it for these types: field names, \<open>omitempty\<close>, \<open>null\<close>, pointers, and the
  key presence that \<open>MetadataState\<close> records. A message is given as its JSON value; reading the
  text is left to the library. Of several equal keys the last one counts.
\<close>

section \<open>JSON values\<close>

datatype json =
    JNull
  | JBool bool
  | JNum rat
  | JStr string
  | JArr "json list"
  | JObj "(string \<times> json) list"

definition ascii_lower :: "char \<Rightarrow> char" where
  "ascii_lower c =
     (let n = of_char c :: nat in if 65 \<le> n \<and> n \<le> 90 then char_of (n + 32) else c)"

text \<open>Keys are matched without regard to case.\<close>

definition key_eq :: "string \<Rightarrow> string \<Rightarrow> bool" where
  "key_eq a b \<longleftrightarrow> map ascii_lower a = map ascii_lower b"

definition or_else :: "'a option \<Rightarrow> 'a option \<Rightarrow> 'a option" where
  "or_else a b = (case a of Some x \<Rightarrow> Some x | None \<Rightarrow> b)"

lemma or_else_simps [simp]: "or_else None b = b" "or_else (Some x) b = Some x" "or_else a None = a"
  "or_else (or_else a b) c = or_else a (or_else b c)"
  by (simp_all add: or_else_def split: option.split)

fun json_lookup :: "string \<Rightarrow> (string \<times> json) list \<Rightarrow> json option" where
  "json_lookup k [] = None"
| "json_lookup k ((k', v) # rest) =
     or_else (json_lookup k rest) (if key_eq k k' then Some v else None)"

type_synonym 'a decoder = "json \<Rightarrow> 'a option"

definition dec_string :: "string decoder" where
  "dec_string j = (case j of JStr s \<Rightarrow> Some s | JNull \<Rightarrow> Some [] | _ \<Rightarrow> None)"

definition dec_int :: "int decoder" where
  "dec_int j =
     (case j of
        JNum r \<Rightarrow> (if of_int \<lfloor>r\<rfloor> = r \<and> is_int64 \<lfloor>r\<rfloor> then Some \<lfloor>r\<rfloor> else None)
      | JNull \<Rightarrow> Some 0
      | _ \<Rightarrow> None)"

definition dec_bool :: "bool decoder" where
  "dec_bool j = (case j of JBool b \<Rightarrow> Some b | JNull \<Rightarrow> Some False | _ \<Rightarrow> None)"

definition dec_ptr :: "'a decoder \<Rightarrow> 'a option decoder" where
  "dec_ptr d j = (if j = JNull then Some None else map_option Some (d j))"

definition dec_list :: "'a decoder \<Rightarrow> 'a list decoder" where
  "dec_list d j = (case j of JArr js \<Rightarrow> those (map d js) | JNull \<Rightarrow> Some [] | _ \<Rightarrow> None)"

definition dec_obj :: "((string \<times> json) list \<Rightarrow> 'a option) \<Rightarrow> 'a decoder" where
  "dec_obj f j = (case j of JObj kvs \<Rightarrow> f kvs | JNull \<Rightarrow> f [] | _ \<Rightarrow> None)"

text \<open>A field that is absent keeps the zero value of its type.\<close>

definition decode_or :: "'a \<Rightarrow> 'a decoder \<Rightarrow> json option \<Rightarrow> 'a option" where
  "decode_or zero d r = (case r of None \<Rightarrow> Some zero | Some v \<Rightarrow> d v)"

definition field :: "string \<Rightarrow> 'a decoder \<Rightarrow> 'a \<Rightarrow> (string \<times> json) list \<Rightarrow> 'a option" where
  "field k d zero kvs = decode_or zero d (json_lookup k kvs)"

lemma decode_or_simps [simp]: "decode_or z d None = Some z" "decode_or z d (Some v) = d v"
  by (simp_all add: decode_or_def)

abbreviation enc_int :: "int \<Rightarrow> json" where "enc_int n \<equiv> JNum (of_int n)"

text \<open>
  A payload that passes through an \<open>interface{}\<close> has its numbers rounded to \<open>float64\<close>.
\<close>

fun through_interface :: "json \<Rightarrow> json" where
  "through_interface (JNum r) = JNum (f64_round r)"
| "through_interface (JArr js) = JArr (map through_interface js)"
| "through_interface (JObj kvs) = JObj (map (\<lambda>(k, v). (k, through_interface v)) kvs)"
| "through_interface j = j"

lemma dec_int_enc [simp]: "is_int64 n \<Longrightarrow> dec_int (enc_int n) = Some n"
  by (simp add: dec_int_def)

lemma dec_int_through:
  assumes "\<bar>n\<bar> \<le> 2 ^ 53"
  shows "dec_int (through_interface (enc_int n)) = Some n"
proof -
  have "f64_round (of_int n) = of_int n"
    by (rule f64.rnd_exact [OF f64_representable_of_int [OF assms]])
  then show ?thesis using assms by (simp add: dec_int_def is_int64_def abs_le_iff)
qed

lemma dec_simps [simp]:
  "dec_string (JStr s) = Some s" "dec_bool (JBool b) = Some b"
  "dec_ptr d JNull = Some None" "dec_obj f (JObj kvs) = f kvs"
  "dec_list d (JArr js) = those (map d js)"
  by (simp_all add: dec_string_def dec_bool_def dec_ptr_def dec_obj_def dec_list_def)

lemma those_map_Some: "(\<And>x. x \<in> set xs \<Longrightarrow> d (e x) = Some x) \<Longrightarrow> those (map (d \<circ> e) xs) = Some xs"
  by (induction xs) simp_all

section \<open>Capabilities and the handshake\<close>

record AudioFormat =
  af_Codec :: string
  af_Channels :: int
  af_SampleRate :: int
  af_BitDepth :: int

record DeviceInfo =
  di_ProductName :: string
  di_Manufacturer :: string
  di_SoftwareVersion :: string

record PlayerV1Support =
  ps_SupportedFormats :: "AudioFormat list"
  ps_BufferCapacity :: int
  ps_SupportedCommands :: "string list"

record ArtworkChannel =
  ac_Source :: string
  ac_Format :: string
  ac_MediaWidth :: int
  ac_MediaHeight :: int

record ArtworkV1Support =
  as_Channels :: "ArtworkChannel list"

record VisualizerV1Support =
  vs_BufferCapacity :: int

record ClientHello =
  ch_ClientID :: string
  ch_Name :: string
  ch_Version :: int
  ch_SupportedRoles :: "string list"
  ch_DeviceInfo :: "DeviceInfo option"
  ch_PlayerV1Support :: "PlayerV1Support option"
  ch_ArtworkV1Support :: "ArtworkV1Support option"
  ch_VisualizerV1Support :: "VisualizerV1Support option"

record ServerHello =
  sh_ServerID :: string
  sh_Name :: string
  sh_Version :: int
  sh_ActiveRoles :: "string list"
  sh_ConnectionReason :: string

definition enc_AudioFormat :: "AudioFormat \<Rightarrow> json" where
  "enc_AudioFormat f =
     JObj [(''codec'', JStr (af_Codec f)), (''channels'', enc_int (af_Channels f)),
           (''sample_rate'', enc_int (af_SampleRate f)), (''bit_depth'', enc_int (af_BitDepth f))]"

definition dec_AudioFormat :: "AudioFormat decoder" where
  "dec_AudioFormat = dec_obj (\<lambda>kv. do {
     c \<leftarrow> field ''codec'' dec_string [] kv;
     ch \<leftarrow> field ''channels'' dec_int 0 kv;
     r \<leftarrow> field ''sample_rate'' dec_int 0 kv;
     b \<leftarrow> field ''bit_depth'' dec_int 0 kv;
     Some \<lparr>af_Codec = c, af_Channels = ch, af_SampleRate = r, af_BitDepth = b\<rparr> })"

definition dec_DeviceInfo :: "DeviceInfo decoder" where
  "dec_DeviceInfo = dec_obj (\<lambda>kv. do {
     p \<leftarrow> field ''product_name'' dec_string [] kv;
     m \<leftarrow> field ''manufacturer'' dec_string [] kv;
     v \<leftarrow> field ''software_version'' dec_string [] kv;
     Some \<lparr>di_ProductName = p, di_Manufacturer = m, di_SoftwareVersion = v\<rparr> })"

definition dec_PlayerV1Support :: "PlayerV1Support decoder" where
  "dec_PlayerV1Support = dec_obj (\<lambda>kv. do {
     f \<leftarrow> field ''supported_formats'' (dec_list dec_AudioFormat) [] kv;
     b \<leftarrow> field ''buffer_capacity'' dec_int 0 kv;
     c \<leftarrow> field ''supported_commands'' (dec_list dec_string) [] kv;
     Some \<lparr>ps_SupportedFormats = f, ps_BufferCapacity = b, ps_SupportedCommands = c\<rparr> })"

definition dec_ArtworkChannel :: "ArtworkChannel decoder" where
  "dec_ArtworkChannel = dec_obj (\<lambda>kv. do {
     s \<leftarrow> field ''source'' dec_string [] kv;
     f \<leftarrow> field ''format'' dec_string [] kv;
     w \<leftarrow> field ''media_width'' dec_int 0 kv;
     h \<leftarrow> field ''media_height'' dec_int 0 kv;
     Some \<lparr>ac_Source = s, ac_Format = f, ac_MediaWidth = w, ac_MediaHeight = h\<rparr> })"

definition dec_ArtworkV1Support :: "ArtworkV1Support decoder" where
  "dec_ArtworkV1Support = dec_obj (\<lambda>kv. do {
     c \<leftarrow> field ''channels'' (dec_list dec_ArtworkChannel) [] kv;
     Some \<lparr>as_Channels = c\<rparr> })"

definition dec_VisualizerV1Support :: "VisualizerV1Support decoder" where
  "dec_VisualizerV1Support = dec_obj (\<lambda>kv. do {
     b \<leftarrow> field ''buffer_capacity'' dec_int 0 kv;
     Some \<lparr>vs_BufferCapacity = b\<rparr> })"

definition dec_ClientHello :: "ClientHello decoder" where
  "dec_ClientHello = dec_obj (\<lambda>kv. do {
     i \<leftarrow> field ''client_id'' dec_string [] kv;
     n \<leftarrow> field ''name'' dec_string [] kv;
     v \<leftarrow> field ''version'' dec_int 0 kv;
     r \<leftarrow> field ''supported_roles'' (dec_list dec_string) [] kv;
     d \<leftarrow> field ''device_info'' (dec_ptr dec_DeviceInfo) None kv;
     p \<leftarrow> field ''player@v1_support'' (dec_ptr dec_PlayerV1Support) None kv;
     a \<leftarrow> field ''artwork@v1_support'' (dec_ptr dec_ArtworkV1Support) None kv;
     z \<leftarrow> field ''visualizer@v1_support'' (dec_ptr dec_VisualizerV1Support) None kv;
     Some \<lparr>ch_ClientID = i, ch_Name = n, ch_Version = v, ch_SupportedRoles = r,
           ch_DeviceInfo = d, ch_PlayerV1Support = p, ch_ArtworkV1Support = a,
           ch_VisualizerV1Support = z\<rparr> })"

definition enc_ServerHello :: "ServerHello \<Rightarrow> json" where
  "enc_ServerHello h =
     JObj [(''server_id'', JStr (sh_ServerID h)), (''name'', JStr (sh_Name h)),
           (''version'', enc_int (sh_Version h)),
           (''active_roles'', JArr (map JStr (sh_ActiveRoles h))),
           (''connection_reason'', JStr (sh_ConnectionReason h))]"

definition dec_ServerHello :: "ServerHello decoder" where
  "dec_ServerHello = dec_obj (\<lambda>kv. do {
     i \<leftarrow> field ''server_id'' dec_string [] kv;
     n \<leftarrow> field ''name'' dec_string [] kv;
     v \<leftarrow> field ''version'' dec_int 0 kv;
     r \<leftarrow> field ''active_roles'' (dec_list dec_string) [] kv;
     c \<leftarrow> field ''connection_reason'' dec_string [] kv;
     Some \<lparr>sh_ServerID = i, sh_Name = n, sh_Version = v, sh_ActiveRoles = r,
           sh_ConnectionReason = c\<rparr> })"

section \<open>Optional fields\<close>

definition enc_opt :: "string \<Rightarrow> ('a \<Rightarrow> json) \<Rightarrow> 'a option \<Rightarrow> (string \<times> json) list" where
  "enc_opt k e v = (case v of None \<Rightarrow> [] | Some x \<Rightarrow> [(k, e x)])"

definition omit_int :: "string \<Rightarrow> int \<Rightarrow> (string \<times> json) list" where
  "omit_int k n = (if n = 0 then [] else [(k, enc_int n)])"

definition omit_bool :: "string \<Rightarrow> bool \<Rightarrow> (string \<times> json) list" where
  "omit_bool k b = (if b then [(k, JBool True)] else [])"

definition omit_string :: "string \<Rightarrow> string \<Rightarrow> (string \<times> json) list" where
  "omit_string k s = (if s = [] then [] else [(k, JStr s)])"

definition omit_strings :: "string \<Rightarrow> string list \<Rightarrow> (string \<times> json) list" where
  "omit_strings k ss = (if ss = [] then [] else [(k, JArr (map JStr ss))])"

lemma json_lookup_append:
  "json_lookup k (xs @ ys) = or_else (json_lookup k ys) (json_lookup k xs)"
  by (induction xs) auto

lemma json_lookup_opt:
  "json_lookup k (enc_opt k' e v) = (if key_eq k k' then map_option e v else None)"
  "json_lookup k (omit_int k' n) = (if key_eq k k' \<and> n \<noteq> 0 then Some (enc_int n) else None)"
  "json_lookup k (omit_bool k' b) = (if key_eq k k' \<and> b then Some (JBool True) else None)"
  "json_lookup k (omit_string k' s) = (if key_eq k k' \<and> s \<noteq> [] then Some (JStr s) else None)"
  "json_lookup k (omit_strings k' ss) = (if key_eq k k' \<and> ss \<noteq> [] then Some (JArr (map JStr ss)) else None)"
  by (simp_all add: enc_opt_def omit_int_def omit_bool_def omit_string_def omit_strings_def split: option.splits)

lemmas json_lookup_simps = json_lookup_append json_lookup_opt

text \<open>Lower-case keys are compared as they are.\<close>

definition lower_case :: "string \<Rightarrow> bool" where
  "lower_case s \<longleftrightarrow> map ascii_lower s = s"

lemma key_eq_lower: "lower_case a \<Longrightarrow> lower_case b \<Longrightarrow> key_eq a b \<longleftrightarrow> a = b"
  by (simp add: key_eq_def lower_case_def)

lemma lower_case_Cons: "lower_case (c # s) \<longleftrightarrow> ascii_lower c = c \<and> lower_case s"
  by (simp add: lower_case_def)

lemma field_opt:
  "(\<And>x. v = Some x \<Longrightarrow> d (e x) = Some x \<and> e x \<noteq> JNull) \<Longrightarrow>
   decode_or None (dec_ptr d) (map_option e v) = Some v"
  by (cases v) (simp_all add: dec_ptr_def)

section \<open>Server to client\<close>

record StreamStartPlayer =
  sp_Codec :: string
  sp_SampleRate :: int
  sp_Channels :: int
  sp_BitDepth :: int
  sp_CodecHeader :: string

record ArtworkStreamChannel =
  asc_Source :: string
  asc_Format :: string
  asc_Width :: int
  asc_Height :: int

record StreamStartArtwork =
  sa_Channels :: "ArtworkStreamChannel list"

record StreamStart =
  ss_Player :: "StreamStartPlayer option"
  ss_Artwork :: "StreamStartArtwork option"

record ProgressState =
  TrackProgress :: int
  TrackDuration :: int
  PlaybackSpeed :: int

record MetadataState =
  md_Timestamp :: int
  md_Title :: "string option"
  md_Artist :: "string option"
  md_AlbumArtist :: "string option"
  md_Album :: "string option"
  md_ArtworkURL :: "string option"
  md_Year :: "int option"
  md_Track :: "int option"
  md_Progress :: "ProgressState option"
  md_Repeat :: "string option"
  md_Shuffle :: "bool option"
  md_presentKeys :: "string list option"

record ControllerState =
  cs_SupportedCommands :: "string list"
  cs_Volume :: int
  cs_Muted :: bool
  cs_Repeat :: string
  cs_Shuffle :: bool

record ServerStateMessage =
  ssm_Metadata :: "MetadataState option"
  ssm_Controller :: "ControllerState option"

record GroupUpdate =
  gu_PlaybackState :: "string option"
  gu_GroupID :: "string option"
  gu_GroupName :: "string option"

record ServerTime =
  st_ClientTransmitted :: int
  st_ServerReceived :: int
  st_ServerTransmitted :: int

record PlayerCommand =
  pc_Command :: string
  pc_Volume :: int
  pc_Mute :: bool

definition enc_StreamStartPlayer :: "StreamStartPlayer \<Rightarrow> json" where
  "enc_StreamStartPlayer p =
     JObj ([(''codec'', JStr (sp_Codec p)), (''sample_rate'', enc_int (sp_SampleRate p)),
            (''channels'', enc_int (sp_Channels p)), (''bit_depth'', enc_int (sp_BitDepth p))]
           @ omit_string ''codec_header'' (sp_CodecHeader p))"

definition dec_StreamStartPlayer :: "StreamStartPlayer decoder" where
  "dec_StreamStartPlayer = dec_obj (\<lambda>kv. do {
     c \<leftarrow> field ''codec'' dec_string [] kv;
     r \<leftarrow> field ''sample_rate'' dec_int 0 kv;
     ch \<leftarrow> field ''channels'' dec_int 0 kv;
     b \<leftarrow> field ''bit_depth'' dec_int 0 kv;
     h \<leftarrow> field ''codec_header'' dec_string [] kv;
     Some \<lparr>sp_Codec = c, sp_SampleRate = r, sp_Channels = ch, sp_BitDepth = b,
           sp_CodecHeader = h\<rparr> })"

definition dec_ArtworkStreamChannel :: "ArtworkStreamChannel decoder" where
  "dec_ArtworkStreamChannel = dec_obj (\<lambda>kv. do {
     s \<leftarrow> field ''source'' dec_string [] kv;
     f \<leftarrow> field ''format'' dec_string [] kv;
     w \<leftarrow> field ''width'' dec_int 0 kv;
     h \<leftarrow> field ''height'' dec_int 0 kv;
     Some \<lparr>asc_Source = s, asc_Format = f, asc_Width = w, asc_Height = h\<rparr> })"

definition enc_ArtworkStreamChannel :: "ArtworkStreamChannel \<Rightarrow> json" where
  "enc_ArtworkStreamChannel c =
     JObj [(''source'', JStr (asc_Source c)), (''format'', JStr (asc_Format c)),
           (''width'', enc_int (asc_Width c)), (''height'', enc_int (asc_Height c))]"

definition enc_StreamStart :: "StreamStart \<Rightarrow> json" where
  "enc_StreamStart s =
     JObj (enc_opt ''player'' enc_StreamStartPlayer (ss_Player s)
           @ enc_opt ''artwork''
               (\<lambda>a. JObj [(''channels'', JArr (map enc_ArtworkStreamChannel (sa_Channels a)))])
               (ss_Artwork s))"

definition dec_StreamStartArtwork :: "StreamStartArtwork decoder" where
  "dec_StreamStartArtwork = dec_obj (\<lambda>kv. do {
     c \<leftarrow> field ''channels'' (dec_list dec_ArtworkStreamChannel) [] kv;
     Some \<lparr>sa_Channels = c\<rparr> })"

definition dec_StreamStart :: "StreamStart decoder" where
  "dec_StreamStart = dec_obj (\<lambda>kv. do {
     p \<leftarrow> field ''player'' (dec_ptr dec_StreamStartPlayer) None kv;
     a \<leftarrow> field ''artwork'' (dec_ptr dec_StreamStartArtwork) None kv;
     Some \<lparr>ss_Player = p, ss_Artwork = a\<rparr> })"

definition enc_ProgressState :: "ProgressState \<Rightarrow> json" where
  "enc_ProgressState p =
     JObj [(''track_progress'', enc_int (TrackProgress p)),
           (''track_duration'', enc_int (TrackDuration p)),
           (''playback_speed'', enc_int (PlaybackSpeed p))]"

definition dec_ProgressState :: "ProgressState decoder" where
  "dec_ProgressState = dec_obj (\<lambda>kv. do {
     a \<leftarrow> field ''track_progress'' dec_int 0 kv;
     b \<leftarrow> field ''track_duration'' dec_int 0 kv;
     c \<leftarrow> field ''playback_speed'' dec_int 0 kv;
     Some \<lparr>TrackProgress = a, TrackDuration = b, PlaybackSpeed = c\<rparr> })"

definition enc_MetadataState :: "MetadataState \<Rightarrow> json" where
  "enc_MetadataState m =
     JObj ((''timestamp'', enc_int (md_Timestamp m)) #
           enc_opt ''title'' JStr (md_Title m) @ enc_opt ''artist'' JStr (md_Artist m)
           @ enc_opt ''album_artist'' JStr (md_AlbumArtist m) @ enc_opt ''album'' JStr (md_Album m)
           @ enc_opt ''artwork_url'' JStr (md_ArtworkURL m) @ enc_opt ''year'' enc_int (md_Year m)
           @ enc_opt ''track'' enc_int (md_Track m)
           @ enc_opt ''progress'' enc_ProgressState (md_Progress m)
           @ enc_opt ''repeat'' JStr (md_Repeat m) @ enc_opt ''shuffle'' JBool (md_Shuffle m))"

text \<open>\<open>UnmarshalJSON\<close>: the known fields, and the keys that were present.\<close>

definition dec_MetadataState :: "MetadataState decoder" where
  "dec_MetadataState = dec_obj (\<lambda>kv. do {
     ts \<leftarrow> field ''timestamp'' dec_int 0 kv;
     ti \<leftarrow> field ''title'' (dec_ptr dec_string) None kv;
     ar \<leftarrow> field ''artist'' (dec_ptr dec_string) None kv;
     aa \<leftarrow> field ''album_artist'' (dec_ptr dec_string) None kv;
     al \<leftarrow> field ''album'' (dec_ptr dec_string) None kv;
     u \<leftarrow> field ''artwork_url'' (dec_ptr dec_string) None kv;
     y \<leftarrow> field ''year'' (dec_ptr dec_int) None kv;
     t \<leftarrow> field ''track'' (dec_ptr dec_int) None kv;
     p \<leftarrow> field ''progress'' (dec_ptr dec_ProgressState) None kv;
     r \<leftarrow> field ''repeat'' (dec_ptr dec_string) None kv;
     s \<leftarrow> field ''shuffle'' (dec_ptr dec_bool) None kv;
     Some \<lparr>md_Timestamp = ts, md_Title = ti, md_Artist = ar, md_AlbumArtist = aa, md_Album = al,
           md_ArtworkURL = u, md_Year = y, md_Track = t, md_Progress = p, md_Repeat = r,
           md_Shuffle = s, md_presentKeys = Some (map fst kv)\<rparr> })"

definition HasField :: "MetadataState \<Rightarrow> string \<Rightarrow> bool" where
  "HasField m jsonKey =
     (case md_presentKeys m of None \<Rightarrow> True | Some ks \<Rightarrow> jsonKey \<in> set ks)"

definition enc_ControllerState :: "ControllerState \<Rightarrow> json" where
  "enc_ControllerState c =
     JObj [(''supported_commands'', JArr (map JStr (cs_SupportedCommands c))),
           (''volume'', enc_int (cs_Volume c)), (''muted'', JBool (cs_Muted c)),
           (''repeat'', JStr (cs_Repeat c)), (''shuffle'', JBool (cs_Shuffle c))]"

definition dec_ControllerState :: "ControllerState decoder" where
  "dec_ControllerState = dec_obj (\<lambda>kv. do {
     c \<leftarrow> field ''supported_commands'' (dec_list dec_string) [] kv;
     v \<leftarrow> field ''volume'' dec_int 0 kv;
     m \<leftarrow> field ''muted'' dec_bool False kv;
     r \<leftarrow> field ''repeat'' dec_string [] kv;
     s \<leftarrow> field ''shuffle'' dec_bool False kv;
     Some \<lparr>cs_SupportedCommands = c, cs_Volume = v, cs_Muted = m, cs_Repeat = r,
           cs_Shuffle = s\<rparr> })"

definition enc_ServerStateMessage :: "ServerStateMessage \<Rightarrow> json" where
  "enc_ServerStateMessage m =
     JObj (enc_opt ''metadata'' enc_MetadataState (ssm_Metadata m)
           @ enc_opt ''controller'' enc_ControllerState (ssm_Controller m))"

definition dec_ServerStateMessage :: "ServerStateMessage decoder" where
  "dec_ServerStateMessage = dec_obj (\<lambda>kv. do {
     m \<leftarrow> field ''metadata'' (dec_ptr dec_MetadataState) None kv;
     c \<leftarrow> field ''controller'' (dec_ptr dec_ControllerState) None kv;
     Some \<lparr>ssm_Metadata = m, ssm_Controller = c\<rparr> })"

definition enc_GroupUpdate :: "GroupUpdate \<Rightarrow> json" where
  "enc_GroupUpdate g =
     JObj (enc_opt ''playback_state'' JStr (gu_PlaybackState g)
           @ enc_opt ''group_id'' JStr (gu_GroupID g) @ enc_opt ''group_name'' JStr (gu_GroupName g))"

definition dec_GroupUpdate :: "GroupUpdate decoder" where
  "dec_GroupUpdate = dec_obj (\<lambda>kv. do {
     p \<leftarrow> field ''playback_state'' (dec_ptr dec_string) None kv;
     i \<leftarrow> field ''group_id'' (dec_ptr dec_string) None kv;
     n \<leftarrow> field ''group_name'' (dec_ptr dec_string) None kv;
     Some \<lparr>gu_PlaybackState = p, gu_GroupID = i, gu_GroupName = n\<rparr> })"

definition enc_roles :: "string list \<Rightarrow> json" where
  "enc_roles roles = JObj (omit_strings ''roles'' roles)"

text \<open>\<open>StreamClear\<close> and \<open>StreamEnd\<close> carry a list of roles each.\<close>

definition dec_roles :: "string list decoder" where
  "dec_roles = dec_obj (field ''roles'' (dec_list dec_string) [])"

definition enc_ServerTime :: "ServerTime \<Rightarrow> json" where
  "enc_ServerTime t =
     JObj [(''client_transmitted'', enc_int (st_ClientTransmitted t)),
           (''server_received'', enc_int (st_ServerReceived t)),
           (''server_transmitted'', enc_int (st_ServerTransmitted t))]"

definition dec_ServerTime :: "ServerTime decoder" where
  "dec_ServerTime = dec_obj (\<lambda>kv. do {
     a \<leftarrow> field ''client_transmitted'' dec_int 0 kv;
     b \<leftarrow> field ''server_received'' dec_int 0 kv;
     c \<leftarrow> field ''server_transmitted'' dec_int 0 kv;
     Some \<lparr>st_ClientTransmitted = a, st_ServerReceived = b, st_ServerTransmitted = c\<rparr> })"

definition enc_PlayerCommand :: "PlayerCommand \<Rightarrow> json" where
  "enc_PlayerCommand c =
     JObj ([(''command'', JStr (pc_Command c))] @ omit_int ''volume'' (pc_Volume c)
           @ omit_bool ''mute'' (pc_Mute c))"

definition dec_PlayerCommand :: "PlayerCommand decoder" where
  "dec_PlayerCommand = dec_obj (\<lambda>kv. do {
     c \<leftarrow> field ''command'' dec_string [] kv;
     v \<leftarrow> field ''volume'' dec_int 0 kv;
     m \<leftarrow> field ''mute'' dec_bool False kv;
     Some \<lparr>pc_Command = c, pc_Volume = v, pc_Mute = m\<rparr> })"

text \<open>\<open>ServerCommandMessage\<close> has the player's command as its only field.\<close>

definition dec_ServerCommandMessage :: "PlayerCommand option decoder" where
  "dec_ServerCommandMessage = dec_obj (field ''player'' (dec_ptr dec_PlayerCommand) None)"

section \<open>Client to server\<close>

record PlayerState =
  pst_State :: string
  pst_Volume :: int
  pst_Muted :: bool

record RequestFormatPlayer =
  rf_Codec :: string
  rf_Channels :: int
  rf_SampleRate :: int
  rf_BitDepth :: int

definition enc_PlayerState :: "PlayerState \<Rightarrow> json" where
  "enc_PlayerState p =
     JObj ([(''state'', JStr (pst_State p))] @ omit_int ''volume'' (pst_Volume p)
           @ omit_bool ''muted'' (pst_Muted p))"

definition dec_PlayerState :: "PlayerState decoder" where
  "dec_PlayerState = dec_obj (\<lambda>kv. do {
     s \<leftarrow> field ''state'' dec_string [] kv;
     v \<leftarrow> field ''volume'' dec_int 0 kv;
     m \<leftarrow> field ''muted'' dec_bool False kv;
     Some \<lparr>pst_State = s, pst_Volume = v, pst_Muted = m\<rparr> })"

text \<open>\<open>ClientStateMessage\<close> has the player's state as its only field.\<close>

definition dec_ClientStateMessage :: "PlayerState option decoder" where
  "dec_ClientStateMessage = dec_obj (field ''player'' (dec_ptr dec_PlayerState) None)"

definition enc_ClientStateMessage :: "PlayerState \<Rightarrow> json" where
  "enc_ClientStateMessage p = JObj [(''player'', enc_PlayerState p)]"

definition dec_ClientGoodbye :: "string decoder" where
  "dec_ClientGoodbye = dec_obj (field ''reason'' dec_string [])"

definition dec_ClientTime :: "int decoder" where
  "dec_ClientTime = dec_obj (field ''client_transmitted'' dec_int 0)"

definition enc_ClientTime :: "int \<Rightarrow> json" where
  "enc_ClientTime t = JObj [(''client_transmitted'', enc_int t)]"

section \<open>Envelopes\<close>

text \<open>An envelope: the type and the payload as it passes through \<open>interface{}\<close>.\<close>

definition dec_Message :: "(string \<times> json) decoder" where
  "dec_Message = dec_obj (\<lambda>kv. do {
     t \<leftarrow> field ''type'' dec_string [] kv;
     Some (t, through_interface (case json_lookup ''payload'' kv of None \<Rightarrow> JNull | Some p \<Rightarrow> p)) })"

definition enc_Message :: "string \<Rightarrow> json \<Rightarrow> json" where
  "enc_Message t p = JObj [(''type'', JStr t), (''payload'', p)]"

section \<open>Round trips\<close>

text \<open>Values whose numbers survive the detour over \<open>interface{}\<close>.\<close>

fun float_safe :: "json \<Rightarrow> bool" where
  "float_safe (JNum r) \<longleftrightarrow> f64_representable r"
| "float_safe (JArr js) \<longleftrightarrow> list_all float_safe js"
| "float_safe (JObj kvs) \<longleftrightarrow> list_all (\<lambda>(k, v). float_safe v) kvs"
| "float_safe _ \<longleftrightarrow> True"

lemma through_interface_id: "float_safe j \<Longrightarrow> through_interface j = j"
proof (induction j rule: through_interface.induct)
  case (1 r)
  then show ?case by (simp add: f64.rnd_exact)
next
  case (2 js)
  then show ?case by (simp add: list_all_iff map_idI)
next
  case (3 kvs)
  then have "map (\<lambda>(k, v). (k, through_interface v)) kvs = kvs"
    by (intro map_idI) (auto simp: list_all_iff)
  then show ?case by simp
qed simp_all

definition small_int :: "int \<Rightarrow> bool" where
  "small_int n \<longleftrightarrow> \<bar>n\<bar> \<le> 2 ^ 53"

lemma small_int_facts:
  "small_int n \<Longrightarrow> f64_representable (of_int n)" "small_int n \<Longrightarrow> is_int64 n"
  by (auto simp: small_int_def is_int64_def abs_le_iff intro: f64_representable_of_int)

lemma list_all_enc_opt:
  "list_all (\<lambda>(k, v). float_safe v) (enc_opt k e v) \<longleftrightarrow> pred_option (\<lambda>x. float_safe (e x)) v"
  "list_all (\<lambda>(k, v). float_safe v) (omit_int k n) \<longleftrightarrow> (n \<noteq> 0 \<longrightarrow> f64_representable (of_int n))"
  "list_all (\<lambda>(k, v). float_safe v) (omit_bool k b)"
  "list_all (\<lambda>(k, v). float_safe v) (omit_string k s)"
  "list_all (\<lambda>(k, v). float_safe v) (omit_strings k ss)"
  by (cases v; simp add: enc_opt_def omit_int_def omit_bool_def omit_string_def omit_strings_def
      list_all_iff)+

lemma dec_opt_string:
  "decode_or None (dec_ptr dec_string) (map_option JStr v) = Some v"
  by (rule field_opt) simp_all

lemma dec_opt_bool:
  "decode_or None (dec_ptr dec_bool) (map_option JBool v) = Some v"
  by (rule field_opt) simp_all

lemma dec_opt_int:
  "pred_option small_int v \<Longrightarrow>
   decode_or None (dec_ptr dec_int) (map_option (\<lambda>x. enc_int x) v) = Some v"
  by (rule field_opt) (auto simp: small_int_facts)

lemma those_JStr [simp]: "those (map (dec_string \<circ> JStr) ss) = Some ss"
  by (rule those_map_Some) simp

lemma lower_keys [simp]:
  "lower_case ''active_roles''"
  "lower_case ''album''"
  "lower_case ''album_artist''"
  "lower_case ''artist''"
  "lower_case ''artwork''"
  "lower_case ''artwork@v1_support''"
  "lower_case ''artwork_url''"
  "lower_case ''bit_depth''"
  "lower_case ''buffer_capacity''"
  "lower_case ''channels''"
  "lower_case ''client_id''"
  "lower_case ''client_transmitted''"
  "lower_case ''codec''"
  "lower_case ''codec_header''"
  "lower_case ''command''"
  "lower_case ''connection_reason''"
  "lower_case ''controller''"
  "lower_case ''device_info''"
  "lower_case ''format''"
  "lower_case ''group_id''"
  "lower_case ''group_name''"
  "lower_case ''height''"
  "lower_case ''manufacturer''"
  "lower_case ''media_height''"
  "lower_case ''media_width''"
  "lower_case ''metadata''"
  "lower_case ''mute''"
  "lower_case ''muted''"
  "lower_case ''name''"
  "lower_case ''payload''"
  "lower_case ''playback_speed''"
  "lower_case ''playback_state''"
  "lower_case ''player''"
  "lower_case ''player@v1_support''"
  "lower_case ''product_name''"
  "lower_case ''progress''"
  "lower_case ''reason''"
  "lower_case ''repeat''"
  "lower_case ''roles''"
  "lower_case ''sample_rate''"
  "lower_case ''server_id''"
  "lower_case ''server_received''"
  "lower_case ''server_transmitted''"
  "lower_case ''shuffle''"
  "lower_case ''software_version''"
  "lower_case ''source''"
  "lower_case ''state''"
  "lower_case ''supported_commands''"
  "lower_case ''supported_formats''"
  "lower_case ''supported_roles''"
  "lower_case ''timestamp''"
  "lower_case ''title''"
  "lower_case ''track''"
  "lower_case ''track_duration''"
  "lower_case ''track_progress''"
  "lower_case ''type''"
  "lower_case ''version''"
  "lower_case ''visualizer@v1_support''"
  "lower_case ''volume''"
  "lower_case ''width''"
  "lower_case ''year''"
  by (simp_all add: lower_case_def ascii_lower_def)

lemmas json_eval = field_def json_lookup_simps key_eq_lower

definition small_progress :: "ProgressState \<Rightarrow> bool" where
  "small_progress p \<longleftrightarrow>
     small_int (TrackProgress p) \<and> small_int (TrackDuration p) \<and> small_int (PlaybackSpeed p)"

definition small_metadata :: "MetadataState \<Rightarrow> bool" where
  "small_metadata m \<longleftrightarrow> small_int (md_Timestamp m) \<and> pred_option small_int (md_Year m) \<and>
     pred_option small_int (md_Track m) \<and> pred_option small_progress (md_Progress m)"

lemma dec_enc_ProgressState:
  "small_progress p \<Longrightarrow> dec_ProgressState (enc_ProgressState p) = Some p"
  "small_progress p \<Longrightarrow> float_safe (enc_ProgressState p)"
  by (simp_all add: small_progress_def dec_ProgressState_def enc_ProgressState_def json_eval
      small_int_facts)

lemma dec_opt_progress:
  "pred_option small_progress v \<Longrightarrow>
   decode_or None (dec_ptr dec_ProgressState) (map_option enc_ProgressState v) = Some v"
  by (rule field_opt) (auto simp: dec_enc_ProgressState, simp add: enc_ProgressState_def)

text \<open>The keys that an encoded state carries: the time stamp and the fields that are set.\<close>

definition metadata_keys :: "MetadataState \<Rightarrow> string list" where
  "metadata_keys m =
     (case enc_MetadataState m of JObj kvs \<Rightarrow> map fst kvs | _ \<Rightarrow> [])"

lemma dec_enc_MetadataState:
  assumes "small_metadata m"
  shows "dec_MetadataState (enc_MetadataState m) = Some (m\<lparr>md_presentKeys := Some (metadata_keys m)\<rparr>)"
    "float_safe (enc_MetadataState m)"
proof -
  show "dec_MetadataState (enc_MetadataState m)
      = Some (m\<lparr>md_presentKeys := Some (metadata_keys m)\<rparr>)"
    using assms
    by (simp add: small_metadata_def dec_MetadataState_def enc_MetadataState_def json_eval
        dec_opt_string dec_opt_bool dec_opt_int dec_opt_progress small_int_facts metadata_keys_def)
  have "pred_option (\<lambda>x. float_safe (enc_ProgressState x)) (md_Progress m)"
    "pred_option (\<lambda>x. f64_representable (of_int x)) (md_Year m)"
    "pred_option (\<lambda>x. f64_representable (of_int x)) (md_Track m)"
    using assms by (auto simp: small_metadata_def dec_enc_ProgressState small_int_facts
        intro: option.pred_mono_strong)
  then show "float_safe (enc_MetadataState m)"
    using assms
    by (simp add: small_metadata_def enc_MetadataState_def list_all_enc_opt small_int_facts
        option.pred_True)
qed

definition small_controller :: "ControllerState \<Rightarrow> bool" where
  "small_controller c \<longleftrightarrow> small_int (cs_Volume c)"

definition small_player :: "StreamStartPlayer \<Rightarrow> bool" where
  "small_player p \<longleftrightarrow> small_int (sp_SampleRate p) \<and> small_int (sp_Channels p) \<and> small_int (sp_BitDepth p)"

lemma float_safe_strings [simp]: "list_all float_safe (map JStr ss)"
  by (simp add: list_all_iff)

lemma dec_enc_ControllerState:
  "small_controller c \<Longrightarrow> dec_ControllerState (enc_ControllerState c) = Some c"
  "small_controller c \<Longrightarrow> float_safe (enc_ControllerState c)"
  by (simp_all add: small_controller_def dec_ControllerState_def enc_ControllerState_def json_eval
      small_int_facts)

lemma dec_enc_StreamStartPlayer:
  "small_player p \<Longrightarrow> dec_StreamStartPlayer (enc_StreamStartPlayer p) = Some p"
  "small_player p \<Longrightarrow> float_safe (enc_StreamStartPlayer p)"
  by (auto simp: small_player_def dec_StreamStartPlayer_def enc_StreamStartPlayer_def json_eval
      small_int_facts list_all_enc_opt)

lemma enc_not_null:
  "enc_MetadataState m \<noteq> JNull" "enc_ControllerState c \<noteq> JNull" "enc_StreamStartPlayer p \<noteq> JNull"
  by (simp_all add: enc_MetadataState_def enc_ControllerState_def enc_StreamStartPlayer_def)

text \<open>The state as the receiver sees it: the same, with the keys that were present.\<close>

definition received_state :: "ServerStateMessage \<Rightarrow> ServerStateMessage" where
  "received_state s =
     s\<lparr>ssm_Metadata := map_option (\<lambda>m. m\<lparr>md_presentKeys := Some (metadata_keys m)\<rparr>) (ssm_Metadata s)\<rparr>"

definition sets_field :: "MetadataState \<Rightarrow> string \<Rightarrow> bool" where
  "sets_field m k \<longleftrightarrow>
     k = ''timestamp'' \<or> k = ''title'' \<and> md_Title m \<noteq> None \<or> k = ''artist'' \<and> md_Artist m \<noteq> None \<or>
     k = ''album_artist'' \<and> md_AlbumArtist m \<noteq> None \<or> k = ''album'' \<and> md_Album m \<noteq> None \<or>
     k = ''artwork_url'' \<and> md_ArtworkURL m \<noteq> None \<or> k = ''year'' \<and> md_Year m \<noteq> None \<or>
     k = ''track'' \<and> md_Track m \<noteq> None \<or> k = ''progress'' \<and> md_Progress m \<noteq> None \<or>
     k = ''repeat'' \<and> md_Repeat m \<noteq> None \<or> k = ''shuffle'' \<and> md_Shuffle m \<noteq> None"

lemma keys_enc_opt: "k \<in> fst ` set (enc_opt k' e v) \<longleftrightarrow> k = k' \<and> v \<noteq> None"
  by (cases v) (simp_all add: enc_opt_def)

lemma metadata_keys_set:
  "k \<in> set (metadata_keys m) \<longleftrightarrow> sets_field (m\<lparr>md_presentKeys := p\<rparr>) k"
proof -
  have "sets_field (m\<lparr>md_presentKeys := p\<rparr>) k = sets_field m k"
    by (simp add: sets_field_def)
  moreover have "k \<in> set (metadata_keys m) \<longleftrightarrow> sets_field m k"
    unfolding metadata_keys_def enc_MetadataState_def sets_field_def
    by (simp only: json.case list.map set_simps set_map set_append insert_iff image_Un Un_iff
        keys_enc_opt fst_conv)
  ultimately show ?thesis by simp
qed

lemma decode_or_ptr_map:
  assumes "\<And>x. v = Some x \<Longrightarrow> d (e x) = Some (g x) \<and> e x \<noteq> JNull"
  shows "decode_or None (dec_ptr d) (map_option e v) = Some (map_option g v)"
  using assms by (cases v) (simp_all add: dec_ptr_def)

lemma server_state_received:
  assumes "pred_option small_metadata (ssm_Metadata s)" "pred_option small_controller (ssm_Controller s)"
  shows "dec_ServerStateMessage (through_interface (enc_ServerStateMessage s)) = Some (received_state s) \<and>
    pred_option (\<lambda>m. \<forall>k. HasField m k \<longleftrightarrow> sets_field m k) (ssm_Metadata (received_state s))"
proof -
  have "pred_option (\<lambda>m. float_safe (enc_MetadataState m)) (ssm_Metadata s)"
    "pred_option (\<lambda>c. float_safe (enc_ControllerState c)) (ssm_Controller s)"
    using assms by (auto simp: dec_enc_MetadataState dec_enc_ControllerState
        intro: option.pred_mono_strong)
  then have "float_safe (enc_ServerStateMessage s)"
    by (simp add: enc_ServerStateMessage_def list_all_enc_opt)
  then have "through_interface (enc_ServerStateMessage s) = enc_ServerStateMessage s"
    by (rule through_interface_id)
  moreover have "decode_or None (dec_ptr dec_MetadataState) (map_option enc_MetadataState (ssm_Metadata s))
      = Some (map_option (\<lambda>m. m\<lparr>md_presentKeys := Some (metadata_keys m)\<rparr>) (ssm_Metadata s))"
    by (rule decode_or_ptr_map) (use assms in \<open>auto simp: dec_enc_MetadataState enc_not_null\<close>)
  moreover have "decode_or None (dec_ptr dec_ControllerState) (map_option enc_ControllerState (ssm_Controller s))
      = Some (map_option (\<lambda>c. c) (ssm_Controller s))"
    by (rule decode_or_ptr_map) (use assms in \<open>auto simp: dec_enc_ControllerState enc_not_null\<close>)
  ultimately have "dec_ServerStateMessage (through_interface (enc_ServerStateMessage s))
      = Some (received_state s)"
    by (simp add: dec_ServerStateMessage_def enc_ServerStateMessage_def json_eval received_state_def
        option.map_ident)
  moreover have "HasField (m\<lparr>md_presentKeys := Some (metadata_keys m)\<rparr>) k
      \<longleftrightarrow> sets_field (m\<lparr>md_presentKeys := Some (metadata_keys m)\<rparr>) k" for m k
    by (simp add: HasField_def metadata_keys_set)
  ultimately show ?thesis
    by (simp add: received_state_def option.pred_map comp_def option.pred_True)
qed

text \<open>
  A \<open>server/state\<close> that the server sends is read back by the client with the same metadata and
  controller state, and the client's \<open>HasField\<close> holds exactly for the metadata fields that were set
  (and the time stamp); numbers of up to 53 bits survive the detour over \<open>interface{}\<close>.
\<close>

theorem server_state_roundtrip:
  assumes "pred_option small_metadata (ssm_Metadata s)" "pred_option small_controller (ssm_Controller s)"
  shows "dec_ServerStateMessage (through_interface (enc_ServerStateMessage s)) = Some (received_state s) \<and>
    pred_option (\<lambda>m. \<forall>k. HasField m k \<longleftrightarrow> sets_field m k) (ssm_Metadata (received_state s))"
  using assms by (rule server_state_received)

definition metadata_example :: MetadataState where
  "metadata_example =
     \<lparr>md_Timestamp = 5000000, md_Title = Some ''T'', md_Artist = None, md_AlbumArtist = None,
      md_Album = Some [], md_ArtworkURL = None, md_Year = Some 1999, md_Track = None,
      md_Progress = None, md_Repeat = None, md_Shuffle = Some False, md_presentKeys = None\<rparr>"

definition state_example :: ServerStateMessage where
  "state_example = \<lparr>ssm_Metadata = Some metadata_example, ssm_Controller = None\<rparr>"

theorem server_state_roundtrip_witness:
  "dec_ServerStateMessage (through_interface (enc_ServerStateMessage state_example))
     = Some (received_state state_example)"
proof -
  have "pred_option small_metadata (ssm_Metadata state_example)"
    "pred_option small_controller (ssm_Controller state_example)"
    by (simp_all add: state_example_def metadata_example_def small_metadata_def small_int_def)
  from server_state_roundtrip [OF this] show ?thesis by (rule conjunct1)
qed

lemma stream_start_roundtrip:
  assumes "small_player p"
  shows "dec_StreamStart (through_interface (enc_StreamStart \<lparr>ss_Player = Some p, ss_Artwork = None\<rparr>))
    = Some \<lparr>ss_Player = Some p, ss_Artwork = None\<rparr>"
proof -
  have "float_safe (enc_StreamStart \<lparr>ss_Player = Some p, ss_Artwork = None\<rparr>)"
    using assms by (simp add: enc_StreamStart_def list_all_enc_opt dec_enc_StreamStartPlayer)
  with assms show ?thesis
    by (simp add: through_interface_id)
      (simp add: dec_StreamStart_def enc_StreamStart_def json_eval dec_ptr_def
        dec_enc_StreamStartPlayer enc_not_null)
qed

lemma group_update_roundtrip:
  "dec_GroupUpdate (through_interface (enc_GroupUpdate g)) = Some g"
proof -
  have "float_safe (enc_GroupUpdate g)"
    by (simp add: enc_GroupUpdate_def list_all_enc_opt option.pred_True)
  then show ?thesis
    by (simp add: through_interface_id)
      (simp add: dec_GroupUpdate_def enc_GroupUpdate_def json_eval dec_opt_string)
qed

lemma server_time_roundtrip:
  assumes "small_int (st_ClientTransmitted t)" "small_int (st_ServerReceived t)"
    "small_int (st_ServerTransmitted t)"
  shows "dec_ServerTime (through_interface (enc_ServerTime t)) = Some t"
proof -
  have "float_safe (enc_ServerTime t)"
    using assms by (simp add: enc_ServerTime_def small_int_facts)
  with assms show ?thesis
    by (simp add: through_interface_id)
      (simp add: dec_ServerTime_def enc_ServerTime_def json_eval small_int_facts)
qed

lemma client_time_roundtrip:
  assumes "small_int t"
  shows "dec_ClientTime (through_interface (enc_ClientTime t)) = Some t"
proof -
  have "float_safe (enc_ClientTime t)"
    using assms by (simp add: enc_ClientTime_def small_int_facts)
  with assms show ?thesis
    by (simp add: through_interface_id)
      (simp add: dec_ClientTime_def enc_ClientTime_def json_eval small_int_facts)
qed

lemma client_state_roundtrip:
  assumes "small_int (pst_Volume p)"
  shows "dec_ClientStateMessage (through_interface (enc_ClientStateMessage p)) = Some (Some p)"
proof -
  have "float_safe (enc_ClientStateMessage p)"
    using assms
    by (simp add: enc_ClientStateMessage_def enc_PlayerState_def list_all_enc_opt small_int_facts)
  moreover have "dec_PlayerState (enc_PlayerState p) = Some p"
    using assms by (simp add: dec_PlayerState_def enc_PlayerState_def json_eval small_int_facts)
  moreover have "enc_PlayerState p \<noteq> JNull" by (simp add: enc_PlayerState_def)
  ultimately show ?thesis
    by (simp add: through_interface_id)
      (simp add: dec_ClientStateMessage_def enc_ClientStateMessage_def json_eval dec_ptr_def)
qed

lemma roles_roundtrip: "dec_roles (through_interface (enc_roles roles)) = Some roles"
proof -
  have "float_safe (enc_roles roles)" by (simp add: enc_roles_def list_all_enc_opt)
  then show ?thesis
    by (simp add: through_interface_id) (simp add: dec_roles_def enc_roles_def json_eval)
qed

lemma server_hello_roundtrip:
  assumes "small_int (sh_Version h)"
  shows "dec_ServerHello (through_interface (enc_ServerHello h)) = Some h"
proof -
  have "float_safe (enc_ServerHello h)"
    using assms by (simp add: enc_ServerHello_def small_int_facts)
  with assms show ?thesis
    by (simp add: through_interface_id)
      (simp add: dec_ServerHello_def enc_ServerHello_def json_eval small_int_facts)
qed

lemma dec_enc_Message [simp]: "dec_Message (enc_Message t p) = Some (t, through_interface p)"
  by (simp add: dec_Message_def enc_Message_def json_eval)

end
