(* ===== verification/Base64.thy ===== *)
theory Base64
  imports Wire_Frames
begin

text \<open>
  \<open>base64.StdEncoding\<close>, which carries the FLAC codec header in \<open>stream/start\<close>: three bytes are
  four characters of six bits each, with \<open>=\<close> as padding. Decoding rejects characters outside the
  alphabet, wrong padding and trailing input; line breaks are skipped as the library does.
\<close>

definition b64_alphabet :: string where
  "b64_alphabet = ''ABCDEFGHIJKLMNOPQRSTUVWXYZabcdefghijklmnopqrstuvwxyz0123456789+/''"

definition b64_char :: "nat \<Rightarrow> char" where
  "b64_char n = b64_alphabet ! n"

fun list_index :: "'a \<Rightarrow> 'a list \<Rightarrow> nat option" where
  "list_index x [] = None"
| "list_index x (y # ys) = (if x = y then Some 0 else map_option Suc (list_index x ys))"

definition b64_value :: "char \<Rightarrow> nat option" where
  "b64_value c = list_index c b64_alphabet"

fun b64_encode :: "byte list \<Rightarrow> string" where
  "b64_encode [] = []"
| "b64_encode [a] =
     (let v = unat a * 16 in [b64_char (v div 64), b64_char (v mod 64), CHR ''='', CHR ''=''])"
| "b64_encode [a, b] =
     (let v = (unat a * 256 + unat b) * 4
      in [b64_char (v div 4096), b64_char (v div 64 mod 64), b64_char (v mod 64), CHR ''=''])"
| "b64_encode (a # b # c # rest) =
     (let v = (unat a * 256 + unat b) * 256 + unat c
      in [b64_char (v div 262144), b64_char (v div 4096 mod 64), b64_char (v div 64 mod 64),
          b64_char (v mod 64)] @ b64_encode rest)"

text \<open>A quantum of four characters; the padded forms end the input.\<close>

definition b64_quantum :: "char \<Rightarrow> char \<Rightarrow> char \<Rightarrow> char \<Rightarrow> bool \<Rightarrow> byte list option" where
  "b64_quantum p q r s final =
     (case (b64_value p, b64_value q) of
        (Some i, Some j) \<Rightarrow>
          (if r = CHR ''='' \<and> s = CHR ''='' then
             (if final then Some [word_of_nat ((i * 64 + j) div 16)] else None)
           else case b64_value r of
             None \<Rightarrow> None
           | Some k \<Rightarrow>
               if s = CHR ''='' then
                 (if final
                  then (let v = (i * 64 + j) * 64 + k
                        in Some [word_of_nat (v div 1024), word_of_nat (v div 4 mod 256)])
                  else None)
               else case b64_value s of
                 None \<Rightarrow> None
               | Some l \<Rightarrow>
                   (let v = ((i * 64 + j) * 64 + k) * 64 + l
                    in Some [word_of_nat (v div 65536), word_of_nat (v div 256 mod 256),
                             word_of_nat (v mod 256)]))
      | _ \<Rightarrow> None)"

fun b64_decode_loop :: "string \<Rightarrow> byte list option" where
  "b64_decode_loop [] = Some []"
| "b64_decode_loop (p # q # r # s # rest) =
     (case b64_quantum p q r s (rest = []) of
        None \<Rightarrow> None
      | Some bs \<Rightarrow> map_option (\<lambda>cs. bs @ cs) (b64_decode_loop rest))"
| "b64_decode_loop _ = None"

definition b64_decode :: "string \<Rightarrow> byte list option" where
  "b64_decode s = b64_decode_loop (filter (\<lambda>c. c \<noteq> CHR 0x0A \<and> c \<noteq> CHR 0x0D) s)"

section \<open>The round trip\<close>

lemma list_index_nth: "distinct xs \<Longrightarrow> n < length xs \<Longrightarrow> list_index (xs ! n) xs = Some n"
proof (induction xs arbitrary: n)
  case (Cons x xs)
  then show ?case by (cases n) (auto simp: nth_mem)
qed simp

lemma alphabet: "distinct b64_alphabet" "length b64_alphabet = 64" "CHR ''='' \<notin> set b64_alphabet"
  "CHR 0x0A \<notin> set b64_alphabet" "CHR 0x0D \<notin> set b64_alphabet"
  by (simp_all add: b64_alphabet_def)

lemma b64_value_char [simp]: "n < 64 \<Longrightarrow> b64_value (b64_char n) = Some n"
  by (simp add: b64_value_def b64_char_def list_index_nth alphabet)

lemma b64_char_in: "n < 64 \<Longrightarrow> b64_char n \<in> set b64_alphabet"
  by (simp add: b64_char_def alphabet)

lemma b64_char_plain [simp]:
  "n < 64 \<Longrightarrow> b64_char n \<noteq> CHR ''=''" "n < 64 \<Longrightarrow> b64_char n \<noteq> CHR 0x0A"
  "n < 64 \<Longrightarrow> b64_char n \<noteq> CHR 0x0D"
  using b64_char_in alphabet by metis+

lemma byte_less: "unat (b :: byte) < 256"
  using unsigned_less [of b] by simp

text \<open>Digits to base 64 put together again, and the bytes of a number.\<close>

lemma join64: "(v :: nat) div 64 * 64 + v mod 64 = v"
  by simp

lemma div64s: "(v :: nat) div 4096 = v div 64 div 64" "v div 262144 = v div 64 div 64 div 64"
  by (simp_all flip: div_mult2_eq)

lemma div256s: "(v :: nat) div 65536 = v div 256 div 256" "v div 1024 = v div 4 div 256"
  by (simp_all flip: div_mult2_eq)

lemma digits3:
  fixes x y z v :: nat
  assumes "x < 256" "y < 256" "z < 256" "v = (x * 256 + y) * 256 + z"
  shows "v div 262144 < 64"
    "((v div 262144 * 64 + v div 4096 mod 64) * 64 + v div 64 mod 64) * 64 + v mod 64 = v"
    "v div 65536 = x" "v div 256 mod 256 = y" "v mod 256 = z"
proof -
  have "x * 65536 \<le> 255 * 65536" "y * 256 \<le> 255 * 256" using assms(1,2) by simp_all
  moreover have "v = x * 65536 + y * 256 + z" using assms(4) by (simp add: algebra_simps)
  ultimately have "v < 64 * 262144" using assms(3) by simp
  then show "v div 262144 < 64" by (rule less_mult_imp_div_less)
  show "((v div 262144 * 64 + v div 4096 mod 64) * 64 + v div 64 mod 64) * 64 + v mod 64 = v"
    unfolding div64s join64 ..
  have "v div 256 = x * 256 + y" using assms(3,4) by simp
  with assms(2) show "v div 65536 = x" "v div 256 mod 256 = y"
    unfolding div256s by simp_all
  show "v mod 256 = z"
    unfolding assms(4) mod_mult_self3 using assms(3) by simp
qed

lemma digits2:
  fixes x y v :: nat
  assumes "x < 256" "y < 256" "v = (x * 256 + y) * 4"
  shows "v div 4096 < 64" "(v div 4096 * 64 + v div 64 mod 64) * 64 + v mod 64 = v"
    "v div 1024 = x" "v div 4 mod 256 = y"
proof -
  have "x * 1024 \<le> 255 * 1024" "y * 4 \<le> 255 * 4" using assms(1,2) by simp_all
  moreover have "v = x * 1024 + y * 4" using assms(3) by (simp add: algebra_simps)
  ultimately have "v < 64 * 4096" by simp
  then show "v div 4096 < 64" by (rule less_mult_imp_div_less)
  show "(v div 4096 * 64 + v div 64 mod 64) * 64 + v mod 64 = v"
    unfolding div64s join64 ..
  have "v div 4 = x * 256 + y" using assms(3) by simp
  with assms(2) show "v div 1024 = x" "v div 4 mod 256 = y"
    unfolding div256s by simp_all
qed

lemma digits1:
  fixes x v :: nat
  assumes "x < 256" "v = x * 16"
  shows "v div 64 < 64" "(v div 64 * 64 + v mod 64) div 16 = x"
proof -
  have "v < 64 * 64" using assms by linarith
  then show "v div 64 < 64" by (rule less_mult_imp_div_less)
  show "(v div 64 * 64 + v mod 64) div 16 = x"
    unfolding join64 using assms(2) by simp
qed

lemma b64_decode_loop_encode: "b64_decode_loop (b64_encode bs) = Some bs"
proof (induction bs rule: b64_encode.induct)
  case 1
  then show ?case by simp
next
  case (2 a)
  define v where "v = unat a * 16"
  note d = digits1 [OF byte_less [of a] v_def]
  have "b64_encode [a] = [b64_char (v div 64), b64_char (v mod 64), CHR ''='', CHR ''='']"
    by (simp add: v_def Let_def)
  with d show ?case by (simp add: b64_quantum_def)
next
  case (3 a b)
  define v where "v = (unat a * 256 + unat b) * 4"
  note d = digits2 [OF byte_less [of a] byte_less [of b] v_def]
  have "b64_encode [a, b]
      = [b64_char (v div 4096), b64_char (v div 64 mod 64), b64_char (v mod 64), CHR ''='']"
    unfolding v_def b64_encode.simps Let_def ..
  with d show ?case by (simp add: b64_quantum_def Let_def)
next
  case (4 a b c rest)
  define v where "v = (unat a * 256 + unat b) * 256 + unat c"
  note d = digits3 [OF byte_less [of a] byte_less [of b] byte_less [of c] v_def]
  have "b64_encode (a # b # c # rest)
      = [b64_char (v div 262144), b64_char (v div 4096 mod 64), b64_char (v div 64 mod 64),
         b64_char (v mod 64)] @ b64_encode rest"
    unfolding v_def b64_encode.simps Let_def ..
  with d 4 show ?case by (simp add: b64_quantum_def Let_def)
qed

lemma b64_encode_plain: "c \<in> set (b64_encode bs) \<Longrightarrow> c \<noteq> CHR 0x0A \<and> c \<noteq> CHR 0x0D"
proof (induction bs rule: b64_encode.induct)
  case (2 a)
  have "unat a * 16 div 64 < 64" by (rule digits1 [OF byte_less refl])
  with 2 show ?case by (auto simp: Let_def)
next
  case (3 a b)
  have "(unat a * 256 + unat b) * 4 div 4096 < 64" by (rule digits2 [OF byte_less byte_less refl])
  with 3 show ?case unfolding b64_encode.simps Let_def by auto
next
  case (4 a b c rest)
  have "((unat a * 256 + unat b) * 256 + unat c) div 262144 < 64"
    by (rule digits3 [OF byte_less byte_less byte_less refl])
  with 4 show ?case unfolding b64_encode.simps Let_def by auto
qed simp

lemma b64_roundtrip: "b64_decode (b64_encode bs) = Some bs"
proof -
  have "filter (\<lambda>c. c \<noteq> CHR 0x0A \<and> c \<noteq> CHR 0x0D) (b64_encode bs) = b64_encode bs"
    using b64_encode_plain by (simp add: filter_id_conv)
  then show ?thesis by (simp add: b64_decode_def b64_decode_loop_encode)
qed

end
