(* ===== verification/Stream_Constants.thy ===== *)
theory Stream_Constants
  imports Main
begin

text \<open>
  The wire and pipeline constants of \<open>pkg/sendspin/constants.go\<close> that the server and the client
  share.
\<close>

definition ProtocolVersion :: int where "ProtocolVersion = 1"
definition DefaultSampleRate :: int where "DefaultSampleRate = 192000"
definition DefaultChannels :: int where "DefaultChannels = 2"
definition DefaultBitDepth :: int where "DefaultBitDepth = 24"
definition ChunkDurationMs :: int where "ChunkDurationMs = 20"
definition BufferAheadMs :: int where "BufferAheadMs = 500"

end
