(* ===== verification/Server_Client.thy ===== *)
theory Server_Client
  imports Buffer_Tracker Codecs Audio_Math Messages Base64 Stream_Constants
begin

text \<open>
  One client of the server (\<open>pkg/sendspin/server_client.go\<close>), the set-up of its stream by the
  player role (\<open>role_player.go\<close>, \<open>negotiateCodec\<close>), and the part of the audio pipeline that is run
  for it on every tick (\<open>generateAndSendChunk\<close> of \<open>server_stream.go\<close>). The codec libraries are
  parameters, gathered in \<open>stream_libs\<close>.
\<close>

section \<open>Messages and the send channel\<close>

datatype payload =
    ServerHelloP ServerHello
  | GroupUpdateP GroupUpdate
  | StreamStartP StreamStart
  | ServerStateP ServerStateMessage
  | ServerTimeP ServerTime
  | StreamEndP "string list"
  | OtherP json

datatype outgoing = Control string payload | Frame "byte list"

record ('o, 'f) ServerClient =
  sc_id :: string
  sc_name :: string
  sc_roles :: "string list"
  sc_capabilities :: "PlayerV1Support option"
  sc_state :: string
  sc_volume :: int
  sc_muted :: bool
  sc_goodbyeReason :: string
  sc_codec :: string
  sc_opusEncoder :: "'o OpusEncoder option"
  sc_flacEncoder :: "'f FLACEncoder option"
  sc_resampler :: "Resampler option"
  sc_bufferTracker :: "BufferTracker option"
  sc_sendChan :: "outgoing chan"
  sc_done :: bool

definition new_client :: "string \<Rightarrow> string \<Rightarrow> string list \<Rightarrow> PlayerV1Support option \<Rightarrow> ('o, 'f) ServerClient" where
  "new_client i name roles caps =
     \<lparr>sc_id = i, sc_name = name, sc_roles = roles, sc_capabilities = caps,
      sc_state = ''synchronized'', sc_volume = 100, sc_muted = False, sc_goodbyeReason = [],
      sc_codec = [], sc_opusEncoder = None, sc_flacEncoder = None, sc_resampler = None,
      sc_bufferTracker = None, sc_sendChan = make_chan 100, sc_done = False\<rparr>"

definition HasRole :: "('o, 'f) ServerClient \<Rightarrow> string \<Rightarrow> bool" where
  "HasRole c role \<longleftrightarrow> list_ex (\<lambda>r. r = role \<or> prefix (role @ ''@'') r) (sc_roles c)"

text \<open>The two sends; \<open>None\<close> is the error \<open>client send buffer full\<close>.\<close>

definition send_outgoing :: "outgoing \<Rightarrow> ('o, 'f) ServerClient \<Rightarrow> ('o, 'f) ServerClient option" where
  "send_outgoing m c = map_option (\<lambda>ch. c\<lparr>sc_sendChan := ch\<rparr>) (chan_offer m (sc_sendChan c))"

definition Send :: "string \<Rightarrow> payload \<Rightarrow> ('o, 'f) ServerClient \<Rightarrow> ('o, 'f) ServerClient option" where
  "Send msgType p c = send_outgoing (Control msgType p) c"

definition SendBinary :: "byte list \<Rightarrow> ('o, 'f) ServerClient \<Rightarrow> ('o, 'f) ServerClient option" where
  "SendBinary data c = send_outgoing (Frame data) c"

text \<open>A send whose error is only logged.\<close>

definition try_send :: "string \<Rightarrow> payload \<Rightarrow> ('o, 'f) ServerClient \<Rightarrow> ('o, 'f) ServerClient" where
  "try_send msgType p c = (case Send msgType p c of None \<Rightarrow> c | Some c' \<Rightarrow> c')"

definition setGoodbyeReason :: "string \<Rightarrow> ('o, 'f) ServerClient \<Rightarrow> ('o, 'f) ServerClient" where
  "setGoodbyeReason reason c = c\<lparr>sc_goodbyeReason := reason\<rparr>"

definition sc_Close :: "('o, 'f) ServerClient \<Rightarrow> ('o, 'f) ServerClient" where
  "sc_Close c = (if sc_done c then c else c\<lparr>sc_done := True\<rparr>)"

text \<open>
  One turn of the writer goroutine on a message: it takes the oldest one and writes it; a failed
  write ends the writer.
\<close>

definition writer_turn :: "bool \<Rightarrow> ('o, 'f) ServerClient \<Rightarrow> (outgoing \<times> bool \<times> ('o, 'f) ServerClient) option" where
  "writer_turn write_ok c =
     map_option (\<lambda>(m, ch). (m, write_ok, c\<lparr>sc_sendChan := ch\<rparr>)) (chan_take (sc_sendChan c))"

section \<open>Codec negotiation and stream set-up\<close>

fun negotiate_loop :: "AudioFormat list \<Rightarrow> int \<Rightarrow> string" where
  "negotiate_loop [] rate = ''pcm''"
| "negotiate_loop (f # formats) rate =
     (if af_Codec f = ''pcm''
      then (if af_SampleRate f = rate \<and> af_BitDepth f = DefaultBitDepth then ''pcm''
            else negotiate_loop formats rate)
      else if af_Codec f = ''flac'' then ''flac''
      else if af_Codec f = ''opus'' then ''opus''
      else negotiate_loop formats rate)"

definition negotiateCodec :: "('o, 'f) ServerClient \<Rightarrow> int \<Rightarrow> string" where
  "negotiateCodec c sourceSampleRate =
     (case sc_capabilities c of
        None \<Rightarrow> ''pcm''
      | Some caps \<Rightarrow> negotiate_loop (ps_SupportedFormats caps) sourceSampleRate)"

record ('o, 'f) PlayerRoleConfig =
  prc_SampleRate :: int
  prc_Channels :: nat
  prc_BitDepth :: int
  prc_NewEncoder :: "(int \<Rightarrow> nat \<Rightarrow> nat \<Rightarrow> codec_error + 'o OpusEncoder) option"
  prc_NewFLACEncoder :: "(int \<Rightarrow> nat \<Rightarrow> int \<Rightarrow> nat \<Rightarrow> codec_error + 'f FLACEncoder) option"

text \<open>The codec that is used in the end, its encoder and resampler.\<close>

definition setup_codec ::
  "('o, 'f) PlayerRoleConfig \<Rightarrow> string \<Rightarrow>
   string \<times> 'o OpusEncoder option \<times> 'f FLACEncoder option \<times> Resampler option" where
  "setup_codec cfg codec =
     (if codec = ''opus'' then
        (let resampler = (if prc_SampleRate cfg \<noteq> 48000
                          then Some (NewResampler (prc_SampleRate cfg) 48000 (prc_Channels cfg))
                          else None)
         in case prc_NewEncoder cfg of
              None \<Rightarrow> (''pcm'', None, None, None)
            | Some new \<Rightarrow>
                (case new 48000 (prc_Channels cfg) 960 of
                   Inl err \<Rightarrow> (''pcm'', None, None, None)
                 | Inr enc \<Rightarrow> (''opus'', Some enc, None, resampler)))
      else if codec = ''flac'' then
        (case prc_NewFLACEncoder cfg of
           None \<Rightarrow> (''pcm'', None, None, None)
         | Some new \<Rightarrow>
             (case new (prc_SampleRate cfg) (prc_Channels cfg) (prc_BitDepth cfg)
                     (nat (go_quot (wrap64 (prc_SampleRate cfg * ChunkDurationMs)) 1000)) of
                Inl err \<Rightarrow> (''pcm'', None, None, None)
              | Inr enc \<Rightarrow> (''flac'', None, Some enc, None)))
      else (codec, None, None, None))"

definition stream_start_for ::
  "('o, 'f) PlayerRoleConfig \<Rightarrow> string \<Rightarrow> 'f FLACEncoder option \<Rightarrow> StreamStartPlayer" where
  "stream_start_for cfg codec flac =
     \<lparr>sp_Codec = codec,
      sp_SampleRate = (if codec = ''opus'' then 48000 else prc_SampleRate cfg),
      sp_Channels = int (prc_Channels cfg),
      sp_BitDepth = (if codec = ''opus'' then 16 else prc_BitDepth cfg),
      sp_CodecHeader =
        (case flac of
           Some e \<Rightarrow> if codec = ''flac'' then b64_encode (flac_codecHeader e) else []
         | None \<Rightarrow> [])\<rparr>"

definition player_OnClientJoin ::
  "('o, 'f) PlayerRoleConfig \<Rightarrow> ('o, 'f) ServerClient \<Rightarrow> ('o, 'f) ServerClient" where
  "player_OnClientJoin cfg c =
     (if \<not> HasRole c ''player'' then c
      else
        case setup_codec cfg (negotiateCodec c (prc_SampleRate cfg)) of
          (codec, opus, flac, resampler) \<Rightarrow>
            (let capacity = (case sc_capabilities c of
                               Some caps \<Rightarrow> if 0 < ps_BufferCapacity caps then ps_BufferCapacity caps
                                           else 1048576
                             | None \<Rightarrow> 1048576);
                 c = c\<lparr>sc_codec := codec, sc_opusEncoder := opus, sc_flacEncoder := flac,
                       sc_resampler := resampler,
                       sc_bufferTracker := Some (NewBufferTracker capacity)\<rparr>
             in try_send ''stream/start''
                  (StreamStartP \<lparr>ss_Player = Some (stream_start_for cfg codec flac),
                                 ss_Artwork = None\<rparr>) c))"

section \<open>One tick for one client\<close>

record ('o, 'f) stream_libs =
  lib_opus_encode :: "int16 list \<Rightarrow> byte list \<Rightarrow> 'o \<Rightarrow> (string + nat) \<times> byte list \<times> 'o"
  lib_flac_write :: "flac_frame \<Rightarrow> 'f \<Rightarrow> string option \<times> byte list \<times> 'f"

text \<open>
  The \<open>switch\<close> over the codec: the encoded bytes, or \<open>Inr None\<close> when the client is skipped for this
  tick. A panic of the resampler is \<open>None\<close>.
\<close>

definition opus_input ::
  "Resampler option \<Rightarrow> sample list \<Rightarrow> (sample list \<times> Resampler option) option" where
  "opus_input resampler samples =
     (case resampler of
        None \<Rightarrow> Some (samples, None)
      | Some r \<Rightarrow>
          (let outputSamples = OutputSamplesNeeded r (length samples)
           in if outputSamples < 0 then None
              else case Resample r samples (replicate (nat outputSamples) 0) of
                None \<Rightarrow> None
              | Some (written, resampled, r') \<Rightarrow> Some (take written resampled, Some r')))"

definition encode_chunk ::
  "('o, 'f) stream_libs \<Rightarrow> sample list \<Rightarrow> ('o, 'f) ServerClient \<Rightarrow>
   (byte list option \<times> ('o, 'f) ServerClient) option" where
  "encode_chunk libs samples c =
     (if sc_codec c = ''opus'' then
        (case sc_opusEncoder c of
           None \<Rightarrow> Some (None, c)
         | Some e \<Rightarrow>
             (case opus_input (sc_resampler c) samples of
                None \<Rightarrow> None
              | Some (input, r') \<Rightarrow>
                  (case opus_Encode (lib_opus_encode libs) e (convertToInt16 input) of
                     (result, e') \<Rightarrow>
                       (let c' = c\<lparr>sc_opusEncoder := Some e', sc_resampler := r'\<rparr>
                        in case result of
                             Inl err \<Rightarrow> Some (None, c')
                           | Inr data \<Rightarrow> Some (Some data, c')))))
      else if sc_codec c = ''flac'' then
        (case sc_flacEncoder c of
           None \<Rightarrow> Some (None, c)
         | Some e \<Rightarrow>
             (case flac_Encode (lib_flac_write libs) e samples of
                (result, e') \<Rightarrow>
                  (let c' = c\<lparr>sc_flacEncoder := Some e'\<rparr>
                   in case result of
                        Inl err \<Rightarrow> Some (None, c')
                      | Inr data \<Rightarrow> Some (Some data, c'))))
      else Some (Some (encodePCM samples), c))"

text \<open>The rest of the loop body: pacing, sending and registering of the encoded chunk.\<close>

definition send_chunk ::
  "int \<Rightarrow> int \<Rightarrow> byte list \<Rightarrow> ('o, 'f) ServerClient \<Rightarrow> ('o, 'f) ServerClient" where
  "send_chunk currentTime playbackTime audioData c =
     (let chunk = CreateAudioChunk playbackTime audioData;
          len = int (length chunk);
          dur = ChunkDurationMs * 1000
      in case sc_bufferTracker c of
           None \<Rightarrow> (case SendBinary chunk c of None \<Rightarrow> c | Some c' \<Rightarrow> c')
         | Some t0 \<Rightarrow>
             (let t = PruneConsumed currentTime t0;
                  c = c\<lparr>sc_bufferTracker := Some t\<rparr>
              in if \<not> CanSend t len dur then c
                 else case SendBinary chunk c of
                   None \<Rightarrow> c
                 | Some c' \<Rightarrow>
                     c'\<lparr>sc_bufferTracker := Some (Register (wrap64 (playbackTime + dur)) len dur t)\<rparr>))"

definition stream_to_client ::
  "('o, 'f) stream_libs \<Rightarrow> int \<Rightarrow> int \<Rightarrow> sample list \<Rightarrow> ('o, 'f) ServerClient \<Rightarrow>
   ('o, 'f) ServerClient option" where
  "stream_to_client libs currentTime playbackTime samples c =
     (case encode_chunk libs samples c of
        None \<Rightarrow> None
      | Some (None, c') \<Rightarrow> Some c'
      | Some (Some data, c') \<Rightarrow> Some (send_chunk currentTime playbackTime data c'))"

section \<open>Sending\<close>

lemma send_outgoing_Some:
  "send_outgoing m c = Some c' \<longleftrightarrow>
     chan_room (sc_sendChan c) \<and> c' = c\<lparr>sc_sendChan := chan_put m (sc_sendChan c)\<rparr>"
  by (auto simp: send_outgoing_def chan_offer_def)

lemma send_outgoing_None: "send_outgoing m c = None \<longleftrightarrow> \<not> chan_room (sc_sendChan c)"
  by (simp add: send_outgoing_def chan_offer_def)

lemma try_send_eq:
  "try_send msgType p c =
     (if chan_room (sc_sendChan c)
      then c\<lparr>sc_sendChan := chan_put (Control msgType p) (sc_sendChan c)\<rparr> else c)"
  by (simp add: try_send_def Send_def send_outgoing_def chan_offer_def)

lemma chan_put_fields [simp]:
  "chan_buf (chan_put x ch) = chan_buf ch @ [x]" "chan_cap (chan_put x ch) = chan_cap ch"
  "chan_closed (chan_put x ch) = chan_closed ch"
  by (simp_all add: chan_put_def)

section \<open>The codec of a client\<close>

lemma negotiate_loop_known: "negotiate_loop fs rate \<in> {''pcm'', ''flac'', ''opus''}"
  by (induction fs) auto

text \<open>A format that the server can stream: any FLAC or Opus, and PCM as the source has it.\<close>

definition streamable :: "int \<Rightarrow> AudioFormat \<Rightarrow> bool" where
  "streamable rate f \<longleftrightarrow>
     af_Codec f = ''flac'' \<or> af_Codec f = ''opus'' \<or>
     (af_Codec f = ''pcm'' \<and> af_SampleRate f = rate \<and> af_BitDepth f = DefaultBitDepth)"

lemma negotiate_loop_first:
  "negotiate_loop fs rate =
     (case find (streamable rate) fs of None \<Rightarrow> ''pcm'' | Some f \<Rightarrow> af_Codec f)"
  by (induction fs) (auto simp: streamable_def)

text \<open>The encoder, the resampler and the codec of a client agree.\<close>

definition codec_ready :: "('o, 'f) ServerClient \<Rightarrow> bool" where
  "codec_ready c \<longleftrightarrow>
     (sc_codec c = ''opus'' \<longleftrightarrow> sc_opusEncoder c \<noteq> None) \<and>
     (sc_codec c = ''flac'' \<longleftrightarrow> sc_flacEncoder c \<noteq> None) \<and>
     (sc_codec c \<noteq> ''opus'' \<longrightarrow> sc_resampler c = None)"

lemma setup_codec_cases:
  assumes "codec \<in> {''pcm'', ''flac'', ''opus''}"
    and "setup_codec cfg codec = (used, opus, flac, resampler)"
  shows "(used = ''opus'' \<longleftrightarrow> opus \<noteq> None) \<and> (used = ''flac'' \<longleftrightarrow> flac \<noteq> None) \<and>
    (used \<noteq> ''opus'' \<longrightarrow> resampler = None) \<and> used \<in> {codec, ''pcm''} \<and>
    (used = ''opus'' \<longrightarrow> (resampler = None \<longleftrightarrow> prc_SampleRate cfg = 48000))"
  using assms
  by (auto simp: setup_codec_def Let_def split: if_splits option.splits sum.splits)

lemma negotiateCodec_known: "negotiateCodec c rate \<in> {''pcm'', ''flac'', ''opus''}"
  using negotiate_loop_known by (auto simp: negotiateCodec_def split: option.splits)

text \<open>What the join of a player client leaves behind.\<close>

lemma player_OnClientJoin_cases:
  assumes "HasRole c ''player''"
  obtains codec opus flac resampler capacity where
    "setup_codec cfg (negotiateCodec c (prc_SampleRate cfg)) = (codec, opus, flac, resampler)"
    "0 < capacity"
    "capacity = 1048576 \<or> (\<exists>caps. sc_capabilities c = Some caps \<and> capacity = ps_BufferCapacity caps)"
    "player_OnClientJoin cfg c = try_send ''stream/start''
       (StreamStartP \<lparr>ss_Player = Some (stream_start_for cfg codec flac), ss_Artwork = None\<rparr>)
       (c\<lparr>sc_codec := codec, sc_opusEncoder := opus, sc_flacEncoder := flac,
          sc_resampler := resampler, sc_bufferTracker := Some (NewBufferTracker capacity)\<rparr>)"
proof -
  obtain codec opus flac resampler where
    s: "setup_codec cfg (negotiateCodec c (prc_SampleRate cfg)) = (codec, opus, flac, resampler)"
    by (cases "setup_codec cfg (negotiateCodec c (prc_SampleRate cfg))")
  define capacity where "capacity = (case sc_capabilities c of
      Some caps \<Rightarrow> if 0 < ps_BufferCapacity caps then ps_BufferCapacity caps else 1048576
    | None \<Rightarrow> (1048576 :: int))"
  have cap: "0 < capacity"
    "capacity = 1048576 \<or> (\<exists>caps. sc_capabilities c = Some caps \<and> capacity = ps_BufferCapacity caps)"
    by (auto simp: capacity_def split: option.splits)
  have "player_OnClientJoin cfg c = try_send ''stream/start''
       (StreamStartP \<lparr>ss_Player = Some (stream_start_for cfg codec flac), ss_Artwork = None\<rparr>)
       (c\<lparr>sc_codec := codec, sc_opusEncoder := opus, sc_flacEncoder := flac,
          sc_resampler := resampler, sc_bufferTracker := Some (NewBufferTracker capacity)\<rparr>)"
    using assms unfolding player_OnClientJoin_def capacity_def Let_def by (simp add: s)
  with s cap show ?thesis by (rule that)
qed

lemma player_OnClientJoin_ready:
  "codec_ready c \<or> HasRole c ''player'' \<Longrightarrow> codec_ready (player_OnClientJoin cfg c)"
proof (cases "HasRole c ''player''")
  case True
  then show ?thesis
  proof (rule player_OnClientJoin_cases [where cfg = cfg])
    fix codec opus flac resampler capacity
    assume s: "setup_codec cfg (negotiateCodec c (prc_SampleRate cfg)) = (codec, opus, flac, resampler)"
      and j: "player_OnClientJoin cfg c = try_send ''stream/start''
       (StreamStartP \<lparr>ss_Player = Some (stream_start_for cfg codec flac), ss_Artwork = None\<rparr>)
       (c\<lparr>sc_codec := codec, sc_opusEncoder := opus, sc_flacEncoder := flac,
          sc_resampler := resampler, sc_bufferTracker := Some (NewBufferTracker capacity)\<rparr>)"
    show "codec_ready (player_OnClientJoin cfg c)"
      using setup_codec_cases [OF negotiateCodec_known s] unfolding j
      by (simp add: try_send_eq codec_ready_def)
  qed
next
  case False
  then show "codec_ready c \<or> HasRole c ''player'' \<Longrightarrow> ?thesis"
    by (simp add: player_OnClientJoin_def)
qed

text \<open>
  C17. A joining player gets exactly one \<open>stream/start\<close>, and it announces what the audio pipeline
  will do for this client: the codec that is stored with the client (the first of its formats the
  server can stream, or PCM when no encoder could be made), an encoder and a resampler for that
  codec and no other, the rate and depth of that codec, and a FLAC header from which the client
  reads back the encoder's own header.
\<close>

theorem stream_start_announces_codec:
  assumes "HasRole c ''player''" and "chan_room (sc_sendChan c)"
  shows "let c' = player_OnClientJoin cfg c;
             offered = (case sc_capabilities c of None \<Rightarrow> [] | Some caps \<Rightarrow> ps_SupportedFormats caps);
             wanted = (case find (streamable (prc_SampleRate cfg)) offered of
                         None \<Rightarrow> ''pcm'' | Some f \<Rightarrow> af_Codec f)
    in \<exists>ss. chan_buf (sc_sendChan c') = chan_buf (sc_sendChan c) @
              [Control ''stream/start'' (StreamStartP \<lparr>ss_Player = Some ss, ss_Artwork = None\<rparr>)] \<and>
         sp_Codec ss = sc_codec c' \<and> sc_codec c' \<in> {wanted, ''pcm''} \<and> codec_ready c' \<and>
         sp_SampleRate ss = (if sc_codec c' = ''opus'' then 48000 else prc_SampleRate cfg) \<and>
         sp_BitDepth ss = (if sc_codec c' = ''opus'' then 16 else prc_BitDepth cfg) \<and>
         (sc_codec c' = ''opus'' \<longrightarrow> (sc_resampler c' = None \<longleftrightarrow> prc_SampleRate cfg = 48000)) \<and>
         b64_decode (sp_CodecHeader ss) =
           Some (case sc_flacEncoder c' of None \<Rightarrow> [] | Some e \<Rightarrow> flac_codecHeader e)"
proof -
  obtain codec opus flac resampler capacity where
    s: "setup_codec cfg (negotiateCodec c (prc_SampleRate cfg)) = (codec, opus, flac, resampler)"
    and j: "player_OnClientJoin cfg c = try_send ''stream/start''
       (StreamStartP \<lparr>ss_Player = Some (stream_start_for cfg codec flac), ss_Artwork = None\<rparr>)
       (c\<lparr>sc_codec := codec, sc_opusEncoder := opus, sc_flacEncoder := flac,
          sc_resampler := resampler, sc_bufferTracker := Some (NewBufferTracker capacity)\<rparr>)"
    by (rule player_OnClientJoin_cases [OF assms(1), where cfg = cfg])
  note k = setup_codec_cases [OF negotiateCodec_known s]
  have w: "negotiateCodec c (prc_SampleRate cfg) =
      (case find (streamable (prc_SampleRate cfg))
              (case sc_capabilities c of None \<Rightarrow> [] | Some caps \<Rightarrow> ps_SupportedFormats caps) of
         None \<Rightarrow> ''pcm'' | Some f \<Rightarrow> af_Codec f)"
    by (simp add: negotiateCodec_def negotiate_loop_first split: option.split)
  have h: "b64_decode (sp_CodecHeader (stream_start_for cfg codec flac)) =
      Some (case flac of None \<Rightarrow> [] | Some e \<Rightarrow> flac_codecHeader e)"
  proof (cases flac)
    case None
    with b64_roundtrip [of "[]"] show ?thesis
      by (simp add: stream_start_for_def b64_encode.simps)
  next
    case (Some e)
    with k show ?thesis by (simp add: stream_start_for_def b64_roundtrip)
  qed
  show ?thesis
    unfolding Let_def j try_send_eq
    by (rule exI [of _ "stream_start_for cfg codec flac"])
      (use assms(2) k w h in \<open>simp add: codec_ready_def stream_start_for_def\<close>)
qed

section \<open>The effect of a tick\<close>

definition tracker_ok :: "('o, 'f) ServerClient \<Rightarrow> bool" where
  "tracker_ok c \<longleftrightarrow> (case sc_bufferTracker c of None \<Rightarrow> True | Some t \<Rightarrow> tracker_inv t)"

definition client_wf :: "('o, 'f) ServerClient \<Rightarrow> bool" where
  "client_wf c \<longleftrightarrow> chan_wf (sc_sendChan c) \<and> chan_cap (sc_sendChan c) = 100 \<and>
     tracker_ok c \<and> codec_ready c"

lemma encode_chunk_keeps:
  assumes "encode_chunk libs samples c = Some (r, c')"
  shows "sc_sendChan c' = sc_sendChan c \<and> sc_bufferTracker c' = sc_bufferTracker c \<and>
    sc_codec c' = sc_codec c \<and> sc_roles c' = sc_roles c \<and> sc_id c' = sc_id c \<and>
    (codec_ready c \<longrightarrow> codec_ready c')"
  using assms
  by (auto simp: encode_chunk_def codec_ready_def Let_def opus_input_def
      split: if_splits option.splits prod.splits sum.splits)

lemma encode_chunk_pcm:
  "sc_codec c \<noteq> ''opus'' \<Longrightarrow> sc_codec c \<noteq> ''flac'' \<Longrightarrow>
   encode_chunk libs samples c = Some (Some (encodePCM samples), c)"
  by (simp add: encode_chunk_def)

text \<open>
  The frame, the tracker and the queue of one tick: dropped by the pacing, dropped because the
  queue is full, or queued and registered.
\<close>

lemma send_chunk_cases:
  obtains (paced) t where "sc_bufferTracker c = Some t"
      "\<not> CanSend (PruneConsumed now t) (int (length (CreateAudioChunk pt d))) 20000"
      "send_chunk now pt d c = c\<lparr>sc_bufferTracker := Some (PruneConsumed now t)\<rparr>"
  | (full) "\<not> chan_room (sc_sendChan c)"
      "send_chunk now pt d c = c\<lparr>sc_bufferTracker := map_option (PruneConsumed now) (sc_bufferTracker c)\<rparr>"
  | (sent) "chan_room (sc_sendChan c)"
      "\<forall>t. sc_bufferTracker c = Some t \<longrightarrow>
         CanSend (PruneConsumed now t) (int (length (CreateAudioChunk pt d))) 20000"
      "send_chunk now pt d c =
        c\<lparr>sc_sendChan := chan_put (Frame (CreateAudioChunk pt d)) (sc_sendChan c),
          sc_bufferTracker := map_option (\<lambda>t. Register (wrap64 (pt + 20000))
            (int (length (CreateAudioChunk pt d))) 20000 (PruneConsumed now t)) (sc_bufferTracker c)\<rparr>"
proof -
  have dur: "ChunkDurationMs * 1000 = 20000" by (simp add: ChunkDurationMs_def)
  note eq = send_chunk_def Let_def SendBinary_def send_outgoing_def chan_offer_def dur
  show ?thesis
  proof (cases "sc_bufferTracker c")
    case None
    then show ?thesis
      by (cases "chan_room (sc_sendChan c)") (auto simp: eq intro: full sent)
  next
    case (Some t)
    show ?thesis
    proof (cases "CanSend (PruneConsumed now t) (int (length (CreateAudioChunk pt d))) 20000")
      case True
      with Some show ?thesis
        by (cases "chan_room (sc_sendChan c)") (auto simp: eq intro: full sent)
    next
      case False
      with Some show ?thesis by (auto simp: eq intro: paced)
    qed
  qed
qed

lemma send_chunk_wf:
  assumes "client_wf c" "int (length d) < 2 ^ 61"
  shows "client_wf (send_chunk now pt d c)"
proof -
  have len: "op_sane (TSend e (int (length (CreateAudioChunk pt d))) 20000)" for e
    using assms(2) by (simp add: length_CreateAudioChunk BinaryMessageHeaderSize_def)
  show ?thesis
  proof (rule send_chunk_cases [of c now pt d])
    fix t assume "sc_bufferTracker c = Some t"
      "send_chunk now pt d c = c\<lparr>sc_bufferTracker := Some (PruneConsumed now t)\<rparr>"
    with assms(1) show ?thesis
      by (simp add: client_wf_def tracker_ok_def codec_ready_def tracker_inv_prune)
  next
    assume "send_chunk now pt d c =
        c\<lparr>sc_bufferTracker := map_option (PruneConsumed now) (sc_bufferTracker c)\<rparr>"
    with assms(1) show ?thesis
      by (auto simp: client_wf_def tracker_ok_def codec_ready_def tracker_inv_prune split: option.splits)
  next
    assume "chan_room (sc_sendChan c)"
      and can: "\<forall>t. sc_bufferTracker c = Some t \<longrightarrow>
         CanSend (PruneConsumed now t) (int (length (CreateAudioChunk pt d))) 20000"
      and eq: "send_chunk now pt d c =
        c\<lparr>sc_sendChan := chan_put (Frame (CreateAudioChunk pt d)) (sc_sendChan c),
          sc_bufferTracker := map_option (\<lambda>t. Register (wrap64 (pt + 20000))
            (int (length (CreateAudioChunk pt d))) 20000 (PruneConsumed now t)) (sc_bufferTracker c)\<rparr>"
    then have "chan_wf (chan_put (Frame (CreateAudioChunk pt d)) (sc_sendChan c))"
      using assms(1) by (simp add: client_wf_def chan.wf_push)
    then show ?thesis
      using assms(1) can len unfolding eq
      by (auto simp: client_wf_def tracker_ok_def codec_ready_def tracker_inv_send tracker_inv_prune
          split: option.splits)
  qed
qed

text \<open>
  C7. What the server has queued for a client and what it has accounted for never come apart: a tick
  queues at most one frame, stamped with the playback time, and the chunk with its size and end
  time is in the tracker exactly when that frame is in the queue; a tick whose frame is refused by
  the pacing or by a full queue, or whose encoder fails, only prunes. The client stays well formed:
  at most 100 messages are queued, the totals are right and within the client's capacity, and the
  codec still has its encoder.
\<close>

theorem tick_queues_and_registers_together:
  assumes wf: "client_wf c"
    and size: "\<forall>data c2. encode_chunk libs samples c = Some (Some data, c2) \<longrightarrow> int (length data) < 2 ^ 61"
    and run: "stream_to_client libs now pt samples c = Some c'"
  shows "client_wf c' \<and>
    (\<exists>frames. chan_buf (sc_sendChan c') = chan_buf (sc_sendChan c) @ map Frame frames \<and>
      (frames = [] \<or> (\<exists>data. frames = [CreateAudioChunk pt data])) \<and>
      (\<forall>t. sc_bufferTracker c = Some t \<longrightarrow>
        (\<exists>t'. sc_bufferTracker c' = Some t' \<and>
          (if frames = []
           then chunks t' \<in> {chunks t, dropWhile (\<lambda>x. endTimeUs x \<le> now) (chunks t)}
           else chunks t' = dropWhile (\<lambda>x. endTimeUs x \<le> now) (chunks t) @
             [\<lparr>endTimeUs = wrap64 (pt + 20000), byteCount = int (length (hd frames)),
               durationUs = 20000\<rparr>]))))"
proof -
  obtain r c1 where enc: "encode_chunk libs samples c = Some (r, c1)"
    using run by (auto simp: stream_to_client_def split: option.splits)
  note keeps = encode_chunk_keeps [OF enc]
  have wf1: "client_wf c1"
    using wf keeps by (simp add: client_wf_def tracker_ok_def)
  have t_wf: "tracker_wf t" if "sc_bufferTracker c = Some t" for t
    using wf that by (simp add: client_wf_def tracker_ok_def tracker_inv_def)
  show ?thesis
  proof (cases r)
    case None
    with run enc have "c' = c1" by (simp add: stream_to_client_def)
    with wf1 keeps show ?thesis by (intro conjI exI [of _ "[]"]) auto
  next
    case (Some data)
    with run enc have c': "c' = send_chunk now pt data c1" by (simp add: stream_to_client_def)
    have "int (length data) < 2 ^ 61" using size enc Some by blast
    then have wf': "client_wf (send_chunk now pt data c1)" by (rule send_chunk_wf [OF wf1])
    have pruned: "chunks (PruneConsumed now t) = dropWhile (\<lambda>x. endTimeUs x \<le> now) (chunks t) \<and>
        tracker_wf (PruneConsumed now t)" if "sc_bufferTracker c = Some t" for t
      by (rule PruneConsumed_chunks [OF t_wf [OF that]])
    show ?thesis
    proof (cases rule: send_chunk_cases [of c1 now pt data, consumes 0, case_names paced full sent])
      case (paced t)
      show ?thesis
        unfolding c' by (intro conjI wf' exI [of _ "[]"]) (use paced keeps pruned in auto)
    next
      case full
      show ?thesis
        unfolding c' by (intro conjI wf' exI [of _ "[]"]) (use full keeps pruned in auto)
    next
      case sent
      show ?thesis
        unfolding c' by (intro conjI wf' exI [of _ "[CreateAudioChunk pt data]"])
          (use sent keeps pruned in \<open>auto simp: Register_chunks\<close>)
    qed
  qed
qed

section \<open>A stream and its writer\<close>

text \<open>
  Ticks of the audio pipeline and turns of the writer goroutine, in any order; the run yields what
  was written to the connection. Between them other goroutines may queue control messages.
\<close>

datatype stream_event = Tick int "sample list" | WriterTurn | Queue string payload

definition playback_time :: "int \<Rightarrow> int" where
  "playback_time currentTime = wrap64 (currentTime + BufferAheadMs * 1000)"

fun client_run ::
  "('o, 'f) stream_libs \<Rightarrow> stream_event list \<Rightarrow> ('o, 'f) ServerClient \<Rightarrow>
   (outgoing list \<times> ('o, 'f) ServerClient) option" where
  "client_run libs [] c = Some ([], c)"
| "client_run libs (Tick now samples # evs) c =
     Option.bind (stream_to_client libs now (playback_time now) samples c) (client_run libs evs)"
| "client_run libs (Queue ty p # evs) c = client_run libs evs (try_send ty p c)"
| "client_run libs (WriterTurn # evs) c =
     (case writer_turn True c of
        None \<Rightarrow> client_run libs evs c
      | Some (m, _, c') \<Rightarrow> map_option (\<lambda>(wire, c''). (m # wire, c'')) (client_run libs evs c'))"

fun audio_of_event :: "stream_event \<Rightarrow> byte list list" where
  "audio_of_event (Tick now samples) = [CreateAudioChunk (playback_time now) (encodePCM samples)]"
| "audio_of_event _ = []"

fun frame_of :: "outgoing \<Rightarrow> byte list option" where
  "frame_of (Frame data) = Some data"
| "frame_of (Control _ _) = None"

abbreviation frames_of :: "outgoing list \<Rightarrow> byte list list" where
  "frames_of ms \<equiv> List.map_filter frame_of ms"

lemma map_filter_append: "List.map_filter f (xs @ ys) = List.map_filter f xs @ List.map_filter f ys"
  by (simp add: List.map_filter_def)

lemma map_filter_simps': "List.map_filter f [] = []"
  "List.map_filter f (x # xs) = (case f x of None \<Rightarrow> List.map_filter f xs | Some y \<Rightarrow> y # List.map_filter f xs)"
  by (simp_all add: List.map_filter_def split: option.split)

lemma writer_turn_Some:
  "writer_turn ok c = Some (m, b, c') \<longleftrightarrow>
     b = ok \<and> (\<exists>ms. chan_buf (sc_sendChan c) = m # ms \<and>
       c' = c\<lparr>sc_sendChan := (sc_sendChan c)\<lparr>chan_buf := ms\<rparr>\<rparr>)"
  by (auto simp: writer_turn_def chan_take_def split: list.splits)

lemma send_chunk_pcm:
  "sc_codec (send_chunk now pt d c) = sc_codec c \<and>
   (chan_buf (sc_sendChan (send_chunk now pt d c)) = chan_buf (sc_sendChan c) \<or>
    chan_buf (sc_sendChan (send_chunk now pt d c)) =
      chan_buf (sc_sendChan c) @ [Frame (CreateAudioChunk pt d)])"
  by (rule send_chunk_cases [of c now pt d]) simp_all

text \<open>
  For a PCM client no event panics, and what is written plus what is still queued is what was
  queued before followed by some of the ticks' frames, in order.
\<close>

lemma client_run_pcm:
  assumes "sc_codec c \<noteq> ''opus''" "sc_codec c \<noteq> ''flac''"
  shows "\<exists>wire c' sent. client_run libs evs c = Some (wire, c') \<and>
    wire @ chan_buf (sc_sendChan c') = chan_buf (sc_sendChan c) @ sent \<and>
    subseq (frames_of sent) (concat (map audio_of_event evs))"
  using assms
proof (induction evs arbitrary: c)
  case Nil
  show ?case by (intro exI [of _ "[]"] exI [of _ c]) (simp add: map_filter_simps')
next
  case (Cons ev evs)
  have step: ?case
    if run: "client_run libs (ev # evs) c = client_run libs evs c1"
      and codec: "sc_codec c1 = sc_codec c"
      and new: "chan_buf (sc_sendChan c1) = chan_buf (sc_sendChan c) @ new"
      and sub: "subseq (frames_of new) (audio_of_event ev)" for c1 new
  proof -
    obtain wire c' sent where "client_run libs evs c1 = Some (wire, c')"
      "wire @ chan_buf (sc_sendChan c') = chan_buf (sc_sendChan c1) @ sent"
      "subseq (frames_of sent) (concat (map audio_of_event evs))"
      using Cons.IH [of c1] Cons.prems codec by auto
    with run codec new sub show ?thesis
      by (intro exI [of _ wire] exI [of _ c'] exI [of _ "new @ sent"])
        (simp add: map_filter_append list_emb_append_mono)
  qed
  show ?case
  proof (cases ev)
    case (Tick now samples)
    let ?c1 = "send_chunk now (playback_time now) (encodePCM samples) c"
    have run: "client_run libs (ev # evs) c = client_run libs evs ?c1"
      using Tick Cons.prems by (simp add: stream_to_client_def encode_chunk_pcm)
    note eff = send_chunk_pcm [of now "playback_time now" "encodePCM samples" c]
    show ?thesis
    proof (cases "chan_buf (sc_sendChan ?c1) = chan_buf (sc_sendChan c)")
      case True
      then show ?thesis
        using eff by (intro step [OF run, of "[]"]) (simp_all add: map_filter_simps')
    next
      case False
      then show ?thesis
        using eff Tick
        by (intro step [OF run, of "[Frame (CreateAudioChunk (playback_time now) (encodePCM samples))]"])
          (simp_all add: map_filter_simps')
    qed
  next
    case (Queue ty p)
    show ?thesis
    proof (cases "chan_room (sc_sendChan c)")
      case True
      with Queue show ?thesis
        by (intro step [of "try_send ty p c" "[Control ty p]"]) (simp_all add: try_send_eq map_filter_simps')
    next
      case False
      with Queue show ?thesis
        by (intro step [of "try_send ty p c" "[]"]) (simp_all add: try_send_eq map_filter_simps')
    qed
  next
    case WriterTurn
    show ?thesis
    proof (cases "writer_turn True c")
      case None
      with WriterTurn show ?thesis by (intro step [of c "[]"]) (simp_all add: map_filter_simps')
    next
      case (Some x)
      then obtain m ms where w: "writer_turn True c = Some (m, True, c\<lparr>sc_sendChan := (sc_sendChan c)\<lparr>chan_buf := ms\<rparr>\<rparr>)"
        and buf: "chan_buf (sc_sendChan c) = m # ms"
        by (cases x) (auto simp: writer_turn_Some)
      obtain wire c' sent where "client_run libs evs (c\<lparr>sc_sendChan := (sc_sendChan c)\<lparr>chan_buf := ms\<rparr>\<rparr>) = Some (wire, c')"
        "wire @ chan_buf (sc_sendChan c') = ms @ sent"
        "subseq (frames_of sent) (concat (map audio_of_event evs))"
        using Cons.IH [of "c\<lparr>sc_sendChan := (sc_sendChan c)\<lparr>chan_buf := ms\<rparr>\<rparr>"] Cons.prems by auto
      with WriterTurn w buf show ?thesis
        by (intro exI [of _ "m # wire"] exI [of _ c'] exI [of _ sent]) simp
    qed
  qed
qed

section \<open>Concrete runs\<close>

definition cfg_example :: "(unit, unit) PlayerRoleConfig" where
  "cfg_example =
     \<lparr>prc_SampleRate = 44100, prc_Channels = 1, prc_BitDepth = 24, prc_NewEncoder = None,
      prc_NewFLACEncoder = Some (\<lambda>rate ch depth n. Inr \<lparr>flac_lib = (), flac_buf = [],
        flac_codecHeader = [102, 76, 97, 67], flac_sampleRate = rate, flac_channels = ch,
        flac_bitDepth = depth, flac_blockSize = n\<rparr>)\<rparr>"

definition client_example :: "(unit, unit) ServerClient" where
  "client_example = new_client ''id'' ''speaker'' [''player@v1'']
     (Some \<lparr>ps_SupportedFormats =
              [\<lparr>af_Codec = ''pcm'', af_Channels = 2, af_SampleRate = 48000, af_BitDepth = 24\<rparr>,
               \<lparr>af_Codec = ''flac'', af_Channels = 2, af_SampleRate = 48000, af_BitDepth = 24\<rparr>],
            ps_BufferCapacity = 5000, ps_SupportedCommands = []\<rparr>)"

definition libs_example :: "(unit, unit) stream_libs" where
  "libs_example = \<lparr>lib_opus_encode = \<lambda>pcm out e. (Inr 3, out, e),
                   lib_flac_write = \<lambda>f e. (None, [1, 2, 3], e)\<rparr>"

theorem stream_start_announces_codec_witness:
  "\<exists>ss. chan_buf (sc_sendChan (player_OnClientJoin cfg_example client_example)) =
      [Control ''stream/start'' (StreamStartP \<lparr>ss_Player = Some ss, ss_Artwork = None\<rparr>)] \<and>
    sp_Codec ss = ''flac'' \<and> sp_SampleRate ss = 44100 \<and>
    b64_decode (sp_CodecHeader ss) = Some [102, 76, 97, 67]"
proof -
  have role: "HasRole client_example ''player''" and room: "chan_room (sc_sendChan client_example)"
    by code_simp+
  have made: "setup_codec cfg_example (negotiateCodec client_example 44100) =
      (''flac'', None, Some \<lparr>flac_lib = (), flac_buf = [], flac_codecHeader = [102, 76, 97, 67],
         flac_sampleRate = 44100, flac_channels = 1, flac_bitDepth = 24, flac_blockSize = 882\<rparr>, None)"
    by code_simp
  have rate: "prc_SampleRate cfg_example = 44100" and buf: "chan_buf (sc_sendChan client_example) = []"
    by code_simp+
  have codec: "sc_codec (player_OnClientJoin cfg_example client_example) = ''flac''"
    and enc: "map_option flac_codecHeader (sc_flacEncoder (player_OnClientJoin cfg_example client_example))
      = Some [102, 76, 97, 67]"
    by (simp_all add: player_OnClientJoin_def role rate made try_send_eq Let_def)
  from enc obtain e where e: "sc_flacEncoder (player_OnClientJoin cfg_example client_example) = Some e"
    "flac_codecHeader e = [102, 76, 97, 67]" by blast
  show ?thesis
    using stream_start_announces_codec [OF role room, of cfg_example] codec e buf rate
    by (auto simp: Let_def)
qed

theorem tick_queues_and_registers_together_witness:
  "\<exists>c' t'. stream_to_client libs_example 5 500005 [1, 2, 3]
      (new_client ''id'' ''speaker'' [''player@v1''] None \<lparr>sc_bufferTracker := Some (NewBufferTracker 5000)\<rparr>)
      = Some (c' :: (unit, unit) ServerClient) \<and> client_wf c' \<and> sc_bufferTracker c' = Some t' \<and>
      chunks t' = [\<lparr>endTimeUs = 520005, byteCount = 18, durationUs = 20000\<rparr>]"
proof -
  let ?c = "new_client ''id'' ''speaker'' [''player@v1''] None
      \<lparr>sc_bufferTracker := Some (NewBufferTracker 5000)\<rparr> :: (unit, unit) ServerClient"
  have wf: "client_wf ?c"
    by (simp add: client_wf_def new_client_def tracker_ok_def tracker_inv_new codec_ready_def)
  have size: "\<forall>data c2. encode_chunk libs_example [1, 2, 3] ?c = Some (Some data, c2)
      \<longrightarrow> int (length data) < 2 ^ 61"
    by (simp add: encode_chunk_def new_client_def)
  obtain c' where run: "stream_to_client libs_example 5 500005 [1, 2, 3] ?c = Some c'"
    by (simp add: stream_to_client_def encode_chunk_def new_client_def)
  have len: "length (CreateAudioChunk 500005 (encodePCM [1, 2, 3])) = 18"
    by (simp add: length_CreateAudioChunk BinaryMessageHeaderSize_def)
  have prune: "PruneConsumed 5 (NewBufferTracker 5000) = NewBufferTracker 5000"
    by (subst PruneConsumed.simps) (simp add: NewBufferTracker_def)
  have can: "CanSend (NewBufferTracker 5000) 18 20000"
    by (simp add: CanSend_def NewBufferTracker_def wrap64_id is_int64_def DefaultMaxBufferDurationUs_def)
  have queued: "map_option (\<lambda>c. chan_buf (sc_sendChan c)) (stream_to_client libs_example 5 500005 [1, 2, 3] ?c)
      = Some [Frame (CreateAudioChunk 500005 (encodePCM [1, 2, 3]))]"
    by (simp add: stream_to_client_def encode_chunk_def new_client_def send_chunk_def Let_def len prune can
        ChunkDurationMs_def SendBinary_def send_outgoing_def chan_offer_def chan_room_def)
  have t0: "sc_bufferTracker ?c = Some (NewBufferTracker 5000)" "chan_buf (sc_sendChan ?c) = []"
    "chunks (NewBufferTracker 5000) = []"
    by (simp_all add: new_client_def new_tracker)
  have "wrap64 (500005 + 20000) = 520005"
    by (simp add: wrap64_id is_int64_def)
  with len tick_queues_and_registers_together [OF wf size run] queued t0 run
  show ?thesis by auto
qed

end
