(* ===== verification/Group_Bus.thy ===== *)
theory Group_Bus
  imports Server_Client
begin

text \<open>
  The playback group of \<open>pkg/sendspin/group.go\<close>: its clients and its event bus. Clients live in a
  heap (a list, a pointer is an index), so that the group, the server and the events share them.
  Every operation runs under the group's mutex, so any schedule of the goroutines is a sequence of
  the operations. Sending on a closed channel and closing one twice panic in Go; here such an
  operation has no result.
\<close>

section \<open>State\<close>

type_synonym ref = nat
type_synonym ('o, 'f) heap = "('o, 'f) ServerClient list"

datatype Event =
    ClientJoinedEvent ref
  | ClientLeftEvent string string
  | ClientStateChangedEvent ref string int bool
  | GroupPlaybackStateChangedEvent string string

text \<open>
  The map from subscription to channel is kept as the list of active subscriptions and the store
  of all channels made so far: a receiver keeps its channel after it has left the map. The role
  handlers are a type parameter.
\<close>

record 'r Group =
  g_id :: string
  g_playbackState :: string
  g_clients :: "(string \<times> ref) list"
  g_subs :: "nat list"
  g_chans :: "nat \<Rightarrow> Event chan"
  g_nextSub :: nat
  g_closed :: bool
  g_roles :: "(string \<times> 'r) list"
  g_roleDispatchStarted :: bool

definition NewGroup :: "string \<Rightarrow> 'r Group" where
  "NewGroup gid =
     \<lparr>g_id = gid, g_playbackState = ''playing'', g_clients = [], g_subs = [],
      g_chans = (\<lambda>_. make_chan 0), g_nextSub = 0, g_closed = False, g_roles = [],
      g_roleDispatchStarted = False\<rparr>"

section \<open>Operations\<close>

definition chan_try_send :: "'a \<Rightarrow> 'a chan \<Rightarrow> 'a chan option" where
  "chan_try_send x c =
     (if chan_closed c then None else Some (if chan_room c then chan_put x c else c))"

definition chan_close :: "'a chan \<Rightarrow> 'a chan option" where
  "chan_close c = (if chan_closed c then None else Some (c\<lparr>chan_closed := True\<rparr>))"

text \<open>\<open>Subscribe\<close> and \<open>subscribeInternal\<close>; no subscription stands for the pre-closed channel.\<close>

definition Subscribe :: "'r Group \<Rightarrow> nat option \<times> 'r Group" where
  "Subscribe g =
     (if g_closed g then (None, g)
      else (Some (g_nextSub g),
            g\<lparr>g_nextSub := g_nextSub g + 1,
              g_chans := (g_chans g)(g_nextSub g := make_chan 32),
              g_subs := g_subs g @ [g_nextSub g]\<rparr>))"

definition unsubscribe :: "nat \<Rightarrow> 'r Group \<Rightarrow> 'r Group option" where
  "unsubscribe i g =
     (if i \<in> set (g_subs g)
      then map_option (\<lambda>ch. g\<lparr>g_subs := removeAll i (g_subs g), g_chans := (g_chans g)(i := ch)\<rparr>)
             (chan_close (g_chans g i))
      else Some g)"

fun fan_out :: "Event \<Rightarrow> nat list \<Rightarrow> (nat \<Rightarrow> Event chan) \<Rightarrow> (nat \<Rightarrow> Event chan) option" where
  "fan_out evt [] chans = Some chans"
| "fan_out evt (i # ids) chans =
     (case chan_try_send evt (chans i) of
        None \<Rightarrow> None
      | Some ch \<Rightarrow> fan_out evt ids (chans(i := ch)))"

definition publishLocked :: "Event \<Rightarrow> 'r Group \<Rightarrow> 'r Group option" where
  "publishLocked evt g =
     (if g_closed g then Some g
      else map_option (\<lambda>chans. g\<lparr>g_chans := chans\<rparr>) (fan_out evt (g_subs g) (g_chans g)))"

text \<open>\<open>addClient\<close> also queues the client's \<open>group/update\<close>, whose failure is ignored.\<close>

definition group_update :: "'r Group \<Rightarrow> GroupUpdate" where
  "group_update g =
     \<lparr>gu_PlaybackState =
        Some (if g_playbackState g = [] then ''playing'' else g_playbackState g),
      gu_GroupID = Some (g_id g), gu_GroupName = None\<rparr>"

definition addClient ::
  "ref \<Rightarrow> ('o, 'f) heap \<times> 'r Group \<Rightarrow> (('o, 'f) heap \<times> 'r Group) option" where
  "addClient r s =
     (case s of (h, g) \<Rightarrow>
        if g_closed g then Some (h, g)
        else if map_of (g_clients g) (sc_id (h ! r)) \<noteq> None then Some (h, g)
        else
          let g1 = g\<lparr>g_clients := g_clients g @ [(sc_id (h ! r), r)]\<rparr>;
              h1 = h[r := try_send ''group/update'' (GroupUpdateP (group_update g1)) (h ! r)]
          in map_option (\<lambda>g2. (h1, g2)) (publishLocked (ClientJoinedEvent r) g1))"

definition group_removeClient :: "ref \<Rightarrow> ('o, 'f) heap \<Rightarrow> 'r Group \<Rightarrow> 'r Group option" where
  "group_removeClient r h g =
     (if map_of (g_clients g) (sc_id (h ! r)) = None then Some g
      else publishLocked (ClientLeftEvent (sc_id (h ! r)) (sc_name (h ! r)))
             (g\<lparr>g_clients := AList.delete (sc_id (h ! r)) (g_clients g)\<rparr>))"

definition group_Clients :: "'r Group \<Rightarrow> ref list" where
  "group_Clients g = map snd (g_clients g)"

fun close_all :: "nat list \<Rightarrow> (nat \<Rightarrow> Event chan) \<Rightarrow> (nat \<Rightarrow> Event chan) option" where
  "close_all [] chans = Some chans"
| "close_all (i # ids) chans =
     (case chan_close (chans i) of
        None \<Rightarrow> None
      | Some ch \<Rightarrow> close_all ids (chans(i := ch)))"

definition group_Close :: "'r Group \<Rightarrow> 'r Group option" where
  "group_Close g =
     (if g_closed g then Some g
      else map_option
        (\<lambda>chans. g\<lparr>g_closed := True, g_chans := chans, g_subs := [], g_clients := []\<rparr>)
        (close_all (g_subs g) (g_chans g)))"

definition SetPlaybackState :: "string \<Rightarrow> 'r Group \<Rightarrow> 'r Group option" where
  "SetPlaybackState state g =
     (if g_playbackState g = state then Some g
      else publishLocked (GroupPlaybackStateChangedEvent (g_playbackState g) state)
             (g\<lparr>g_playbackState := state\<rparr>))"

text \<open>A receive by the holder of channel \<open>i\<close> that does not block.\<close>

definition receive_event :: "nat \<Rightarrow> 'r Group \<Rightarrow> (Event \<times> 'r Group) option" where
  "receive_event i g =
     map_option (\<lambda>(e, ch). (e, g\<lparr>g_chans := (g_chans g)(i := ch)\<rparr>)) (chan_take (g_chans g i))"

section \<open>Well-formed groups\<close>

definition group_wf :: "'r Group \<Rightarrow> bool" where
  "group_wf g \<longleftrightarrow> distinct (g_subs g) \<and>
     (\<forall>i\<in>set (g_subs g). i < g_nextSub g \<and> \<not> chan_closed (g_chans g i)) \<and>
     (\<forall>i < g_nextSub g. chan_wf (g_chans g i) \<and> chan_cap (g_chans g i) = 32) \<and>
     (\<forall>i < g_nextSub g. i \<notin> set (g_subs g) \<longrightarrow> chan_closed (g_chans g i)) \<and>
     (g_closed g \<longrightarrow> g_subs g = [] \<and> g_clients g = []) \<and>
     distinct (map fst (g_clients g))"

lemma NewGroup_wf [simp]: "group_wf (NewGroup gid)"
  by (simp add: group_wf_def NewGroup_def)

text \<open>A non-blocking delivery to a channel.\<close>

definition deliver :: "'a \<Rightarrow> 'a chan \<Rightarrow> 'a chan" where
  "deliver x c = (if chan_room c then chan_put x c else c)"

lemma deliver_fields [simp]:
  "chan_cap (deliver x c) = chan_cap c" "chan_closed (deliver x c) = chan_closed c"
  by (simp_all add: deliver_def chan_put_def)

lemma deliver_wf [simp]: "chan_wf c \<Longrightarrow> chan_wf (deliver x c)"
  by (simp add: deliver_def chan.wf_push)

lemma fan_out_open:
  assumes "distinct ids" "\<forall>i\<in>set ids. \<not> chan_closed (chans i)"
  shows "fan_out evt ids chans = Some (\<lambda>i. if i \<in> set ids then deliver evt (chans i) else chans i)"
  using assms
proof (induction ids arbitrary: chans)
  case Nil
  show ?case by simp
next
  case (Cons i ids)
  have "fan_out evt (i # ids) chans = fan_out evt ids (chans(i := deliver evt (chans i)))"
    using Cons.prems by (simp add: chan_try_send_def deliver_def)
  also have "\<dots> = Some (\<lambda>j. if j \<in> set ids then deliver evt ((chans(i := deliver evt (chans i))) j)
      else (chans(i := deliver evt (chans i))) j)"
    using Cons.prems by (intro Cons.IH) auto
  finally show ?case using Cons.prems(1) by (auto intro!: ext)
qed

lemma close_all_open:
  assumes "distinct ids" "\<forall>i\<in>set ids. \<not> chan_closed (chans i)"
  shows "close_all ids chans =
    Some (\<lambda>i. if i \<in> set ids then (chans i)\<lparr>chan_closed := True\<rparr> else chans i)"
  using assms
proof (induction ids arbitrary: chans)
  case Nil
  show ?case by simp
next
  case (Cons i ids)
  have "close_all (i # ids) chans = close_all ids (chans(i := (chans i)\<lparr>chan_closed := True\<rparr>))"
    using Cons.prems by (simp add: chan_close_def)
  also have "\<dots> = Some (\<lambda>j. if j \<in> set ids
      then ((chans(i := (chans i)\<lparr>chan_closed := True\<rparr>)) j)\<lparr>chan_closed := True\<rparr>
      else (chans(i := (chans i)\<lparr>chan_closed := True\<rparr>)) j)"
    using Cons.prems by (intro Cons.IH) auto
  finally show ?case using Cons.prems(1) by (auto intro!: ext)
qed

text \<open>The group after an event was published.\<close>

definition published :: "Event \<Rightarrow> 'r Group \<Rightarrow> 'r Group" where
  "published evt g =
     g\<lparr>g_chans := (\<lambda>i. if i \<in> set (g_subs g) then deliver evt (g_chans g i) else g_chans g i)\<rparr>"

text \<open>What publishing needs: the channels of the active subscriptions are open.\<close>

definition subs_open :: "'r Group \<Rightarrow> bool" where
  "subs_open g \<longleftrightarrow> distinct (g_subs g) \<and> (\<forall>i\<in>set (g_subs g). \<not> chan_closed (g_chans g i))"

lemma group_wf_subs_open: "group_wf g \<Longrightarrow> subs_open g"
  by (simp add: group_wf_def subs_open_def)

lemma publishLocked_open:
  "subs_open g \<Longrightarrow> publishLocked evt g = Some (if g_closed g then g else published evt g)"
  by (simp add: publishLocked_def published_def fan_out_open subs_open_def)

lemma published_fields [simp]:
  "g_id (published e g) = g_id g" "g_playbackState (published e g) = g_playbackState g"
  "g_clients (published e g) = g_clients g" "g_subs (published e g) = g_subs g"
  "g_nextSub (published e g) = g_nextSub g" "g_closed (published e g) = g_closed g"
  "g_roles (published e g) = g_roles g"
  "g_roleDispatchStarted (published e g) = g_roleDispatchStarted g"
  "subs_open (published e g) = subs_open g"
  by (simp_all add: published_def subs_open_def)

lemma published_chan:
  "g_chans (published e g) i = (if i \<in> set (g_subs g) then deliver e (g_chans g i) else g_chans g i)"
  by (simp add: published_def)

lemma published_buf:
  "chan_cap (g_chans g i) = 32 \<Longrightarrow> g_chans g1 = g_chans g \<Longrightarrow> g_subs g1 = g_subs g \<Longrightarrow>
   chan_buf (g_chans (published e g1) i) = chan_buf (g_chans g i) @
     (if i \<in> set (g_subs g) \<and> length (chan_buf (g_chans g i)) < 32 then [e] else [])"
  by (simp add: published_chan deliver_def chan_room_def chan_put_def)

lemma published_wf [wf_intros]: "group_wf g \<Longrightarrow> group_wf (published e g)"
  by (auto simp: group_wf_def published_chan)

lemma Subscribe_wf:
  assumes "group_wf g" "Subscribe g = (r, g')"
  shows "group_wf g'"
proof (cases "g_closed g")
  case False
  with assms show ?thesis
    by (fastforce simp: Subscribe_def group_wf_def less_Suc_eq)
qed (use assms in \<open>simp add: Subscribe_def\<close>)

lemma group_wf_chan_update:
  assumes "group_wf g" "chan_wf c" "chan_cap c = 32" "chan_closed c = chan_closed (g_chans g i)"
  shows "group_wf (g\<lparr>g_chans := (g_chans g)(i := c)\<rparr>)"
  using assms by (simp add: group_wf_def)

lemma unsubscribe_eq:
  "group_wf g \<Longrightarrow> unsubscribe i g = Some (if i \<in> set (g_subs g)
     then g\<lparr>g_subs := removeAll i (g_subs g),
            g_chans := (g_chans g)(i := (g_chans g i)\<lparr>chan_closed := True\<rparr>)\<rparr> else g)"
  by (auto simp: unsubscribe_def chan_close_def group_wf_def)

lemma chan_wf_closed [simp]: "chan_wf (c\<lparr>chan_closed := b\<rparr>) = chan_wf c"
  by (simp add: chan_wf_def)

lemma unsubscribe_wf:
  assumes "group_wf g" "unsubscribe i g = Some g'"
  shows "group_wf g'"
proof (cases "i \<in> set (g_subs g)")
  case True
  then have "\<not> g_closed g" using assms(1) by (auto simp: group_wf_def)
  have g': "g' = g\<lparr>g_subs := removeAll i (g_subs g),
      g_chans := (g_chans g)(i := (g_chans g i)\<lparr>chan_closed := True\<rparr>)\<rparr>"
    using assms True by (simp add: unsubscribe_eq)
  have subs: "g_subs g' = removeAll i (g_subs g)" "g_nextSub g' = g_nextSub g"
    "g_closed g' = g_closed g" "g_clients g' = g_clients g"
    "g_chans g' j = (if j = i then (g_chans g i)\<lparr>chan_closed := True\<rparr> else g_chans g j)" for j
    by (simp_all add: g')
  show ?thesis
    using assms(1) \<open>\<not> g_closed g\<close> unfolding group_wf_def subs
    by (simp add: distinct_removeAll)
qed (use assms in \<open>simp add: unsubscribe_eq\<close>)

lemma group_Close_eq:
  "group_wf g \<Longrightarrow> group_Close g = Some (if g_closed g then g
     else g\<lparr>g_closed := True, g_chans := (\<lambda>i. if i \<in> set (g_subs g)
              then (g_chans g i)\<lparr>chan_closed := True\<rparr> else g_chans g i),
            g_subs := [], g_clients := []\<rparr>)"
  by (simp add: group_Close_def group_wf_def close_all_open)

lemma group_Close_wf: "group_wf g \<Longrightarrow> group_Close g = Some g' \<Longrightarrow> group_wf g'"
  by (auto simp: group_Close_eq group_wf_def split: if_splits)

lemma group_wf_clients:
  "group_wf g \<Longrightarrow> \<not> g_closed g \<Longrightarrow> distinct (map fst cs) \<Longrightarrow> group_wf (g\<lparr>g_clients := cs\<rparr>)"
  by (simp add: group_wf_def)

lemma group_wf_state [simp]: "group_wf (g\<lparr>g_playbackState := s\<rparr>) = group_wf g"
  by (simp add: group_wf_def)

lemma map_of_None_fst: "map_of xs k = None \<longleftrightarrow> k \<notin> fst ` set xs"
  by (rule map_of_eq_None_iff)

lemma addClient_eq:
  assumes "group_wf g"
  shows "addClient r (h, g) = Some
    (if g_closed g \<or> map_of (g_clients g) (sc_id (h ! r)) \<noteq> None then (h, g)
     else (h[r := try_send ''group/update'' (GroupUpdateP (group_update g)) (h ! r)],
           published (ClientJoinedEvent r) (g\<lparr>g_clients := g_clients g @ [(sc_id (h ! r), r)]\<rparr>)))"
proof -
  have "subs_open (g\<lparr>g_clients := cs\<rparr>)" for cs
    using group_wf_subs_open [OF assms] by (simp add: subs_open_def)
  then show ?thesis
    by (auto simp: addClient_def Let_def publishLocked_open group_update_def)
qed

lemma addClient_wf:
  assumes "group_wf g" "addClient r (h, g) = Some (h', g')"
  shows "group_wf g'"
proof (cases "g_closed g \<or> map_of (g_clients g) (sc_id (h ! r)) \<noteq> None")
  case True
  with assms show ?thesis by (simp add: addClient_eq)
next
  case False
  then have "group_wf (g\<lparr>g_clients := g_clients g @ [(sc_id (h ! r), r)]\<rparr>)"
    using assms(1) by (intro group_wf_clients) (auto simp: group_wf_def map_of_None_fst)
  then show ?thesis using assms False published_wf by (auto simp: addClient_eq)
qed

lemma group_removeClient_eq:
  assumes "group_wf g"
  shows "group_removeClient r h g = Some
    (if map_of (g_clients g) (sc_id (h ! r)) = None then g
     else published (ClientLeftEvent (sc_id (h ! r)) (sc_name (h ! r)))
       (g\<lparr>g_clients := AList.delete (sc_id (h ! r)) (g_clients g)\<rparr>))"
proof -
  have "subs_open (g\<lparr>g_clients := cs\<rparr>)" for cs
    using group_wf_subs_open [OF assms] by (simp add: subs_open_def)
  moreover have "g_clients g \<noteq> [] \<Longrightarrow> \<not> g_closed g"
    using assms by (auto simp: group_wf_def)
  ultimately show ?thesis
    by (cases "g_clients g = []") (auto simp: group_removeClient_def publishLocked_open)
qed

lemma group_removeClient_wf:
  assumes "group_wf g" "group_removeClient r h g = Some g'"
  shows "group_wf g'"
proof (cases "map_of (g_clients g) (sc_id (h ! r)) = None")
  case False
  then have "\<not> g_closed g" using assms(1) by (auto simp: group_wf_def)
  then have "group_wf (g\<lparr>g_clients := AList.delete (sc_id (h ! r)) (g_clients g)\<rparr>)"
    using assms(1) by (intro group_wf_clients) (simp_all add: group_wf_def distinct_delete)
  then show ?thesis using assms False published_wf by (auto simp: group_removeClient_eq)
qed (use assms in \<open>simp add: group_removeClient_eq\<close>)

lemma SetPlaybackState_eq:
  assumes "group_wf g"
  shows "SetPlaybackState s g = Some
    (if g_playbackState g = s then g
     else if g_closed g then g\<lparr>g_playbackState := s\<rparr>
     else published (GroupPlaybackStateChangedEvent (g_playbackState g) s) (g\<lparr>g_playbackState := s\<rparr>))"
  using group_wf_subs_open [of "g\<lparr>g_playbackState := s\<rparr>"] assms
  by (simp add: SetPlaybackState_def publishLocked_open)

lemma SetPlaybackState_wf:
  "group_wf g \<Longrightarrow> SetPlaybackState s g = Some g' \<Longrightarrow> group_wf g'"
  by (auto simp: SetPlaybackState_eq published_wf split: if_splits)

lemma receive_event_Some:
  "receive_event i g = Some (e, g') \<longleftrightarrow>
     (\<exists>es. chan_buf (g_chans g i) = e # es \<and>
       g' = g\<lparr>g_chans := (g_chans g)(i := (g_chans g i)\<lparr>chan_buf := es\<rparr>)\<rparr>)"
  by (auto simp: receive_event_def chan_take_def split: list.splits)

lemma receive_event_wf: "group_wf g \<Longrightarrow> receive_event i g = Some (e, g') \<Longrightarrow> group_wf g'"
proof -
  assume wf: "group_wf g" and r: "receive_event i g = Some (e, g')"
  obtain es where es: "chan_buf (g_chans g i) = e # es"
    and g': "g' = g\<lparr>g_chans := (g_chans g)(i := (g_chans g i)\<lparr>chan_buf := es\<rparr>)\<rparr>"
    using r by (auto simp: receive_event_Some)
  show "group_wf g'"
  proof (cases "i < g_nextSub g")
    case True
    then have "chan_wf (g_chans g i)" "chan_cap (g_chans g i) = 32"
      using wf by (simp_all add: group_wf_def)
    with es have "chan_wf ((g_chans g i)\<lparr>chan_buf := es\<rparr>)" by (simp add: chan_wf_def)
    with \<open>chan_cap (g_chans g i) = 32\<close> show ?thesis
      unfolding g' by (intro group_wf_chan_update [OF wf]) simp_all
  next
    case False
    then have "i \<notin> set (g_subs g)" using wf by (auto simp: group_wf_def)
    with False wf show ?thesis unfolding g' by (auto simp: group_wf_def)
  qed
qed

section \<open>Runs\<close>

datatype group_op =
    OpSubscribe
  | OpUnsubscribe nat
  | OpPublish Event
  | OpAdd ref
  | OpRemove ref
  | OpSetPlayback string
  | OpClose
  | OpReceive nat

fun group_step ::
  "group_op \<Rightarrow> ('o, 'f) heap \<times> 'r Group \<Rightarrow> (('o, 'f) heap \<times> 'r Group) option" where
  "group_step OpSubscribe (h, g) = Some (h, snd (Subscribe g))"
| "group_step (OpUnsubscribe i) (h, g) = map_option (Pair h) (unsubscribe i g)"
| "group_step (OpPublish e) (h, g) = map_option (Pair h) (publishLocked e g)"
| "group_step (OpAdd r) (h, g) = addClient r (h, g)"
| "group_step (OpRemove r) (h, g) = map_option (Pair h) (group_removeClient r h g)"
| "group_step (OpSetPlayback s) (h, g) = map_option (Pair h) (SetPlaybackState s g)"
| "group_step OpClose (h, g) = map_option (Pair h) (group_Close g)"
| "group_step (OpReceive i) (h, g) =
     Some (h, case receive_event i g of None \<Rightarrow> g | Some (_, g') \<Rightarrow> g')"

text \<open>What an operation puts on the bus.\<close>

fun published_by :: "group_op \<Rightarrow> ('o, 'f) heap \<Rightarrow> 'r Group \<Rightarrow> Event list" where
  "published_by (OpPublish e) h g = (if g_closed g then [] else [e])"
| "published_by (OpAdd r) h g =
     (if g_closed g \<or> map_of (g_clients g) (sc_id (h ! r)) \<noteq> None then [] else [ClientJoinedEvent r])"
| "published_by (OpRemove r) h g =
     (if map_of (g_clients g) (sc_id (h ! r)) = None then []
      else [ClientLeftEvent (sc_id (h ! r)) (sc_name (h ! r))])"
| "published_by (OpSetPlayback s) h g =
     (if g_playbackState g = s \<or> g_closed g then []
      else [GroupPlaybackStateChangedEvent (g_playbackState g) s])"
| "published_by _ h g = []"

text \<open>A run, with the log of published events and what the holder of channel \<open>i\<close> received.\<close>

fun received_by :: "nat \<Rightarrow> group_op \<Rightarrow> 'r Group \<Rightarrow> Event list" where
  "received_by i (OpReceive j) g =
     (if j = i then (case receive_event i g of None \<Rightarrow> [] | Some (e, _) \<Rightarrow> [e]) else [])"
| "received_by i _ g = []"

fun group_run ::
  "nat \<Rightarrow> group_op list \<Rightarrow> ('o, 'f) heap \<times> 'r Group \<Rightarrow>
   (Event list \<times> Event list \<times> ('o, 'f) heap \<times> 'r Group) option" where
  "group_run i [] s = Some ([], [], s)"
| "group_run i (op # ops) s =
     (case group_step op s of
        None \<Rightarrow> None
      | Some s' \<Rightarrow>
          map_option
            (\<lambda>(log, rcv, s''). (published_by op (fst s) (snd s) @ log, received_by i op (snd s) @ rcv, s''))
            (group_run i ops s'))"

lemma group_step_total:
  assumes "group_wf g"
  obtains h' g' where "group_step op (h, g) = Some (h', g')" "group_wf g'"
proof -
  have "\<exists>h' g'. group_step op (h, g) = Some (h', g') \<and> group_wf g'"
  proof (cases op)
    case OpSubscribe
    then show ?thesis using Subscribe_wf [OF assms, of "fst (Subscribe g)" "snd (Subscribe g)"] by simp
  next
    case (OpUnsubscribe i)
    then show ?thesis
      using unsubscribe_eq [OF assms, of i] unsubscribe_wf [OF assms, of i] by auto
  next
    case (OpPublish e)
    then show ?thesis
      using publishLocked_open [OF group_wf_subs_open [OF assms], of e] published_wf [OF assms, of e] assms
      by auto
  next
    case (OpAdd r)
    then show ?thesis
      using addClient_eq [OF assms, of r h] addClient_wf [OF assms, of r h] by auto
  next
    case (OpRemove r)
    then show ?thesis
      using group_removeClient_eq [OF assms, of r h] group_removeClient_wf [OF assms, of r h] by auto
  next
    case (OpSetPlayback s)
    then show ?thesis
      using SetPlaybackState_eq [OF assms, of s] SetPlaybackState_wf [OF assms, of s] by auto
  next
    case OpClose
    then show ?thesis using group_Close_eq [OF assms] group_Close_wf [OF assms] by auto
  next
    case (OpReceive i)
    then show ?thesis
      using receive_event_wf [OF assms, of i] assms by (auto split: option.splits)
  qed
  with that show ?thesis by blast
qed

text \<open>The effect of a step on the buffer of one channel.\<close>

lemma group_step_channel:
  assumes wf: "group_wf g" and i: "i < g_nextSub g" and step: "group_step op (h, g) = Some (h', g')"
  shows "i < g_nextSub g' \<and> (i \<in> set (g_subs g') \<longrightarrow> i \<in> set (g_subs g)) \<and>
    received_by i op g @ chan_buf (g_chans g' i) =
      chan_buf (g_chans g i) @
      (if i \<in> set (g_subs g) \<and> length (chan_buf (g_chans g i)) < 32 then published_by op h g else [])"
proof -
  have cap: "chan_cap (g_chans g i) = 32" using wf i by (simp add: group_wf_def)
  note pub = published_buf [OF cap]
  show ?thesis
  proof (cases op)
    case OpSubscribe
    with step i show ?thesis by (cases "g_closed g") (auto simp: Subscribe_def)
  next
    case (OpUnsubscribe j)
    with step i show ?thesis by (auto simp: unsubscribe_eq [OF wf] split: if_splits)
  next
    case (OpPublish e)
    with step i show ?thesis
      by (auto simp: publishLocked_open [OF group_wf_subs_open [OF wf]] pub split: if_splits)
  next
    case (OpAdd r)
    with step i show ?thesis by (auto simp: addClient_eq [OF wf] pub split: if_splits)
  next
    case (OpRemove r)
    with step i show ?thesis by (auto simp: group_removeClient_eq [OF wf] pub split: if_splits)
  next
    case (OpSetPlayback s)
    with step i show ?thesis by (auto simp: SetPlaybackState_eq [OF wf] pub split: if_splits)
  next
    case OpClose
    with step i show ?thesis by (auto simp: group_Close_eq [OF wf] split: if_splits)
  next
    case (OpReceive j)
    with step i show ?thesis
      by (cases "chan_buf (g_chans g j)") (auto simp: receive_event_def chan_take_def)
  qed
qed

text \<open>
  C34. The event bus. In no sequence of subscribing, unsubscribing, joins, leaves, state changes,
  publishing, receiving and closing does the group send on a closed channel or close one twice. The
  holder of a subscription receives, in publication order, events that were published while it was
  subscribed; none is lost as long as no more than 32 have been published.
\<close>

theorem bus_delivers_in_order:
  assumes "group_wf g" and "i < g_nextSub g"
  shows "\<exists>log rcv h' g' acc. group_run i ops (h, g) = Some (log, rcv, h', g') \<and> group_wf g' \<and>
    subseq acc log \<and> chan_buf (g_chans g i) @ acc = rcv @ chan_buf (g_chans g' i) \<and>
    (i \<in> set (g_subs g') \<and> length (chan_buf (g_chans g i)) + length log \<le> 32 \<longrightarrow> acc = log) \<and>
    (i \<in> set (g_subs g') \<longrightarrow> i \<in> set (g_subs g)) \<and> length (chan_buf (g_chans g' i)) \<le> 32"
  using assms
proof (induction ops arbitrary: h g)
  case Nil
  have "chan_wf (g_chans g i)" "chan_cap (g_chans g i) = 32" using Nil by (simp_all add: group_wf_def)
  with Nil show ?case by (simp add: chan_wf_def)
next
  case (Cons op ops)
  obtain h1 g1 where step: "group_step op (h, g) = Some (h1, g1)" and wf1: "group_wf g1"
    by (rule group_step_total [OF Cons.prems(1)])
  note ch = group_step_channel [OF Cons.prems step]
  obtain log rcv h' g' acc where run: "group_run i ops (h1, g1) = Some (log, rcv, h', g')"
    and wf': "group_wf g'" and sub: "subseq acc log"
    and eq: "chan_buf (g_chans g1 i) @ acc = rcv @ chan_buf (g_chans g' i)"
    and all: "i \<in> set (g_subs g') \<and> length (chan_buf (g_chans g1 i)) + length log \<le> 32 \<longrightarrow> acc = log"
    and subs: "i \<in> set (g_subs g') \<longrightarrow> i \<in> set (g_subs g1)"
    and len: "length (chan_buf (g_chans g' i)) \<le> 32"
    using Cons.IH [OF wf1] ch by blast
  define new where "new = (if i \<in> set (g_subs g) \<and> length (chan_buf (g_chans g i)) < 32
    then published_by op h g else [])"
  have ch': "received_by i op g @ chan_buf (g_chans g1 i) = chan_buf (g_chans g i) @ new"
    using ch by (simp add: new_def)
  have "subseq (new @ acc) (published_by op h g @ log)"
    using sub by (intro list_emb_append_mono) (auto simp: new_def)
  moreover have "chan_buf (g_chans g i) @ new @ acc = (received_by i op g @ rcv) @ chan_buf (g_chans g' i)"
    using ch' eq by (metis append.assoc)
  moreover have "new @ acc = published_by op h g @ log"
    if "i \<in> set (g_subs g')" "length (chan_buf (g_chans g i)) + length (published_by op h g @ log) \<le> 32"
  proof -
    have "new = published_by op h g"
      using that subs ch by (cases "published_by op h g") (auto simp: new_def)
    moreover have "length (received_by i op g @ chan_buf (g_chans g1 i)) =
        length (chan_buf (g_chans g i) @ new)" using ch' by simp
    ultimately show ?thesis using all that by simp
  qed
  ultimately show ?case
    using step run wf' subs ch len
    by (intro exI [of _ "published_by op h g @ log"] exI [of _ "received_by i op g @ rcv"]
        exI [of _ h'] exI [of _ g'] exI [of _ "new @ acc"]) simp
qed

section \<open>Joins and leaves\<close>

text \<open>
  Reading the published events as a history of one client id: a join of a member or a leave of a
  non-member makes the history inconsistent.
\<close>

fun member_after :: "(ref \<Rightarrow> string) \<Rightarrow> string \<Rightarrow> Event list \<Rightarrow> bool \<Rightarrow> bool option" where
  "member_after ids x [] m = Some m"
| "member_after ids x (ClientJoinedEvent r # es) m =
     (if ids r = x then (if m then None else member_after ids x es True) else member_after ids x es m)"
| "member_after ids x (ClientLeftEvent i n # es) m =
     (if i = x then (if m then member_after ids x es False else None) else member_after ids x es m)"
| "member_after ids x (_ # es) m = member_after ids x es m"

fun membership_event :: "Event \<Rightarrow> bool" where
  "membership_event (ClientJoinedEvent r) = True"
| "membership_event (ClientLeftEvent i n) = True"
| "membership_event _ = False"

text \<open>
  \<open>publish\<close> is private to the package and its one caller publishes a state change; joins and leaves
  reach the bus through \<open>addClient\<close> and \<open>removeClient\<close> only.
\<close>

fun op_publishes_state :: "group_op \<Rightarrow> bool" where
  "op_publishes_state (OpPublish e) = (\<not> membership_event e)"
| "op_publishes_state _ = True"

abbreviation is_member :: "'r Group \<Rightarrow> string \<Rightarrow> bool" where
  "is_member g x \<equiv> map_of (g_clients g) x \<noteq> None"

lemma member_after_other: "\<not> membership_event e \<Longrightarrow> member_after ids x (e # es) m = member_after ids x es m"
  by (cases e) auto

lemma member_after_append:
  "member_after ids x es m = Some m' \<Longrightarrow> member_after ids x (es @ fs) m = member_after ids x fs m'"
  by (induction ids x es m rule: member_after.induct) (auto split: if_splits)

lemma try_send_fields [simp]:
  "sc_id (try_send ty p c) = sc_id c" "sc_name (try_send ty p c) = sc_name c"
  "sc_roles (try_send ty p c) = sc_roles c" "sc_bufferTracker (try_send ty p c) = sc_bufferTracker c"
  "sc_codec (try_send ty p c) = sc_codec c" "sc_done (try_send ty p c) = sc_done c"
  by (simp_all add: try_send_eq)

lemma nth_update_keeps: "f (e (h ! r)) = f (h ! r) \<Longrightarrow> f (h[r := e (h ! r)] ! k) = f (h ! k)"
  by (cases "r < length h") (auto simp: nth_list_update list_update_beyond)

lemma delete_member [simp]:
  "is_member (g\<lparr>g_clients := AList.delete i (g_clients g)\<rparr>) x \<longleftrightarrow> x \<noteq> i \<and> is_member g x"
  by (auto simp: delete_conv')

text \<open>
  What the history of a client id says of a group: that it is a member, or, when the group has been
  closed, nothing; a closed group has no members, and closing publishes no leave.
\<close>

definition history_agrees :: "bool \<Rightarrow> 'r Group \<Rightarrow> string \<Rightarrow> bool" where
  "history_agrees m g x \<longleftrightarrow> (if g_closed g then \<not> is_member g x else m = is_member g x)"

lemma closed_no_members: "group_wf g \<Longrightarrow> g_closed g \<Longrightarrow> \<not> is_member g x"
  by (simp add: group_wf_def)

lemma group_step_ids: "group_step op (h, g) = Some (h', g') \<Longrightarrow> group_wf g \<Longrightarrow> sc_id (h' ! r) = sc_id (h ! r)"
proof (cases op)
  case (OpAdd k)
  assume step: "group_step op (h, g) = Some (h', g')" and wf: "group_wf g"
  have "sc_id (h[k := try_send ty p (h ! k)] ! r) = sc_id (h ! r)" for ty p
    by (rule nth_update_keeps) simp
  with OpAdd step show ?thesis by (auto simp: addClient_eq [OF wf] split: if_splits)
qed auto

lemma closed_step:
  assumes wf: "group_wf g" and "g_closed g" "group_step op (h, g) = Some (h', g')"
  shows "g_closed g' \<and> published_by op h g = []"
proof -
  have "g_clients g = []" using assms(1,2) by (simp add: group_wf_def)
  with assms(2,3) show ?thesis
    by (cases op) (auto simp: Subscribe_def unsubscribe_eq [OF wf] publishLocked_def addClient_eq [OF wf]
        group_removeClient_eq [OF wf] SetPlaybackState_eq [OF wf] group_Close_eq [OF wf]
        receive_event_Some split: if_splits option.splits)
qed

lemma open_step:
  assumes wf: "group_wf g" and op: "op_publishes_state op" and opn: "\<not> g_closed g"
    and step: "group_step op (h, g) = Some (h', g')"
  shows "member_after (\<lambda>r. sc_id (h ! r)) x (published_by op h g) (is_member g x) =
      Some (if op = OpClose then is_member g x else is_member g' x) \<and> (op = OpClose \<longleftrightarrow> g_closed g')"
proof (cases op)
  case OpSubscribe
  with step opn show ?thesis by (auto simp: Subscribe_def)
next
  case (OpUnsubscribe j)
  with step opn show ?thesis by (auto simp: unsubscribe_eq [OF wf] split: if_splits)
next
  case (OpPublish e)
  with step opn op show ?thesis
    by (auto simp: publishLocked_open [OF group_wf_subs_open [OF wf]] member_after_other)
next
  case (OpAdd r)
  with step opn show ?thesis
    by (auto simp: addClient_eq [OF wf] map_add_def split: if_splits option.splits)
next
  case (OpRemove r)
  with step opn show ?thesis
    by (auto simp: group_removeClient_eq [OF wf] delete_conv' split: if_splits)
next
  case (OpSetPlayback s)
  with step opn show ?thesis by (auto simp: SetPlaybackState_eq [OF wf] split: if_splits)
next
  case OpClose
  with step opn show ?thesis by (auto simp: group_Close_eq [OF wf])
next
  case (OpReceive j)
  with step opn show ?thesis by (auto simp: receive_event_Some split: option.splits)
qed

lemma group_step_members:
  assumes wf: "group_wf g" and op: "op_publishes_state op" and m: "history_agrees m g x"
    and step: "group_step op (h, g) = Some (h', g')"
  obtains m' where "member_after (\<lambda>r. sc_id (h ! r)) x (published_by op h g) m = Some m'"
    "history_agrees m' g' x"
proof (cases "g_closed g")
  case True
  obtain h1 g1 where "group_step op (h, g) = Some (h1, g1)" "group_wf g1" by (rule group_step_total [OF wf])
  with closed_step [OF wf True step] closed_no_members [of g' x] step that [of m] show thesis
    by (simp add: history_agrees_def)
next
  case False
  obtain h1 g1 where "group_step op (h, g) = Some (h1, g1)" "group_wf g1" by (rule group_step_total [OF wf])
  with open_step [OF wf op False step, of x] closed_no_members [of g' x] step m False that show thesis
    by (auto simp: history_agrees_def split: if_splits)
qed


section \<open>Concrete runs\<close>

definition bus_example :: "unit Group" where
  "bus_example = snd (Subscribe (NewGroup ''g''))"

definition bus_heap_example :: "(unit, unit) heap" where
  "bus_heap_example = [new_client ''a'' ''A'' [] None, new_client ''b'' ''B'' [] None]"

definition bus_ops_example :: "group_op list" where
  "bus_ops_example =
     [OpAdd 0, OpAdd 0, OpReceive 0, OpAdd 1, OpRemove 0, OpRemove 0, OpSetPlayback ''stopped'', OpAdd 0]"

lemma bus_example_wf: "group_wf bus_example" "0 < g_nextSub bus_example" "\<not> g_closed bus_example"
  using Subscribe_wf [of "NewGroup ''g''" "fst (Subscribe (NewGroup ''g''))" bus_example]
  by (simp_all add: bus_example_def) (simp_all add: Subscribe_def NewGroup_def)

lemma bus_run_example:
  "map_option (\<lambda>(evs, rcv, h, g). (evs, rcv, chan_buf (g_chans g 0), g_subs g, g_clients g))
     (group_run 0 bus_ops_example (bus_heap_example, bus_example)) =
   Some ([ClientJoinedEvent 0, ClientJoinedEvent 1, ClientLeftEvent ''a'' ''A'',
          GroupPlaybackStateChangedEvent ''playing'' ''stopped'', ClientJoinedEvent 0],
         [ClientJoinedEvent 0],
         [ClientJoinedEvent 1, ClientLeftEvent ''a'' ''A'',
          GroupPlaybackStateChangedEvent ''playing'' ''stopped'', ClientJoinedEvent 0],
         [0], [(''b'', 1), (''a'', 0)])"
  by code_simp

theorem bus_delivers_in_order_witness:
  "\<exists>evs rcv h' g' acc. group_run 0 bus_ops_example (bus_heap_example, bus_example) = Some (evs, rcv, h', g') \<and>
     group_wf g' \<and> acc = evs \<and> length evs = 5 \<and> acc = rcv @ chan_buf (g_chans g' 0)"
proof -
  have buf: "chan_buf (g_chans bus_example 0) = []" by code_simp
  obtain evs rcv h' g' acc where run: "group_run 0 bus_ops_example (bus_heap_example, bus_example) = Some (evs, rcv, h', g')"
    and wf: "group_wf g'" and eq: "chan_buf (g_chans bus_example 0) @ acc = rcv @ chan_buf (g_chans g' 0)"
    and all: "0 \<in> set (g_subs g') \<and> length (chan_buf (g_chans bus_example 0)) + length evs \<le> 32 \<longrightarrow> acc = evs"
    using bus_delivers_in_order [OF bus_example_wf(1,2), of bus_ops_example bus_heap_example] by blast
  from bus_run_example run have "0 \<in> set (g_subs g')" "length evs = 5" by auto
  with run wf eq all buf show ?thesis by auto
qed

text \<open>A run that closes the group while it has members.\<close>

lemma closed_run_example:
  "map_option (\<lambda>(evs, rcv, h, g). (evs, g_closed g, g_clients g))
     (group_run 0 [OpAdd 0, OpAdd 1, OpRemove 1, OpClose, OpRemove 0, OpAdd 1] (bus_heap_example, bus_example)) =
   Some ([ClientJoinedEvent 0, ClientJoinedEvent 1, ClientLeftEvent ''b'' ''B''], True, [])"
  by code_simp


end
