(* ===== verification/Group_Roles.thy ===== *)
theory Group_Roles
  imports Group_Bus
begin

text \<open>
  The role handlers of a group (\<open>group_role.go\<close>, \<open>role_controller.go\<close>, \<open>role_metadata.go\<close>): their
  registration, the dispatch of the group's events to them, the routing of role messages, and what
  the controller and metadata roles send. The player role is in \<open>Server_Client\<close>. Callbacks that the
  roles read (the clock, the current track) are arguments; calls of \<open>OnCommand\<close> are returned.
\<close>

section \<open>Roles\<close>

record MetadataGroupRole =
  mr_GetMetadata :: bool
  mr_ClockMicros :: bool
  mr_group :: bool

record ControllerGroupRole =
  cr_SupportedCommands :: "string list"
  cr_OnCommand :: bool
  cr_ClockMicros :: bool
  cr_repeat :: string
  cr_shuffle :: bool
  cr_group :: bool

datatype ('o, 'f) GroupRole =
    PlayerRole "('o, 'f) PlayerRoleConfig"
  | MetadataRole MetadataGroupRole
  | ControllerRole ControllerGroupRole

text \<open>What the callbacks return at the time of the call.\<close>

record role_env =
  env_metadata :: "string \<times> string \<times> string"
  env_clock :: int

definition NewMetadataRole :: "bool \<Rightarrow> bool \<Rightarrow> MetadataGroupRole" where
  "NewMetadataRole get clock = \<lparr>mr_GetMetadata = get, mr_ClockMicros = clock, mr_group = False\<rparr>"

definition NewControllerRole ::
  "string list \<Rightarrow> bool \<Rightarrow> string \<Rightarrow> bool \<Rightarrow> bool \<Rightarrow> ControllerGroupRole" where
  "NewControllerRole commands on_command initial_repeat initial_shuffle clock =
     \<lparr>cr_SupportedCommands = commands, cr_OnCommand = on_command, cr_ClockMicros = clock,
      cr_repeat = (if initial_repeat = [] then ''off'' else initial_repeat),
      cr_shuffle = initial_shuffle, cr_group = False\<rparr>"

fun role_family :: "('o, 'f) GroupRole \<Rightarrow> string" where
  "role_family (PlayerRole cfg) = ''player''"
| "role_family (MetadataRole m) = ''metadata''"
| "role_family (ControllerRole c) = ''controller''"

fun attachToGroup :: "('o, 'f) GroupRole \<Rightarrow> ('o, 'f) GroupRole" where
  "attachToGroup (PlayerRole cfg) = PlayerRole cfg"
| "attachToGroup (MetadataRole m) = MetadataRole (m\<lparr>mr_group := True\<rparr>)"
| "attachToGroup (ControllerRole c) = ControllerRole (c\<lparr>cr_group := True\<rparr>)"

type_synonym ('o, 'f) role_group = "('o, 'f) GroupRole Group"

text \<open>The first registration subscribes the role dispatcher to the bus.\<close>

definition RegisterRole :: "('o, 'f) GroupRole \<Rightarrow> ('o, 'f) role_group \<Rightarrow> ('o, 'f) role_group" where
  "RegisterRole role g =
     (let g1 = g\<lparr>g_roles := AList.update (role_family role) (attachToGroup role) (g_roles g)\<rparr>
      in if g_roleDispatchStarted g1 then g1
         else snd (Subscribe (g1\<lparr>g_roleDispatchStarted := True\<rparr>)))"

definition GetRole :: "string \<Rightarrow> ('o, 'f) role_group \<Rightarrow> ('o, 'f) GroupRole option" where
  "GetRole family g = map_of (g_roles g) family"

section \<open>Sending to members\<close>

text \<open>One non-blocking send to each client that \<open>pick\<close> has a message for.\<close>

definition send_picked ::
  "(('o, 'f) ServerClient \<Rightarrow> payload option) \<Rightarrow> ref \<Rightarrow> ('o, 'f) heap \<Rightarrow> ('o, 'f) heap" where
  "send_picked pick r h =
     (case pick (h ! r) of None \<Rightarrow> h | Some p \<Rightarrow> h[r := try_send ''server/state'' p (h ! r)])"

definition send_to_members ::
  "(('o, 'f) ServerClient \<Rightarrow> payload option) \<Rightarrow> ref list \<Rightarrow> ('o, 'f) heap \<Rightarrow> ('o, 'f) heap" where
  "send_to_members pick rs h = fold (send_picked pick) rs h"

section \<open>The controller role\<close>

definition controllerStateMessage :: "ControllerGroupRole \<Rightarrow> ServerStateMessage" where
  "controllerStateMessage c =
     \<lparr>ssm_Metadata = None,
      ssm_Controller = Some \<lparr>cs_SupportedCommands = cr_SupportedCommands c, cs_Volume = 0,
        cs_Muted = False, cs_Repeat = cr_repeat c, cs_Shuffle = cr_shuffle c\<rparr>\<rparr>"

definition empty_metadata :: "int \<Rightarrow> MetadataState" where
  "empty_metadata ts =
     \<lparr>md_Timestamp = ts, md_Title = None, md_Artist = None, md_AlbumArtist = None, md_Album = None,
      md_ArtworkURL = None, md_Year = None, md_Track = None, md_Progress = None, md_Repeat = None,
      md_Shuffle = None, md_presentKeys = None\<rparr>"

definition legacy_mirror :: "role_env \<Rightarrow> ControllerGroupRole \<Rightarrow> ServerStateMessage option" where
  "legacy_mirror env c =
     (if cr_ClockMicros c
      then Some \<lparr>ssm_Metadata = Some ((empty_metadata (env_clock env))
               \<lparr>md_Repeat := Some (cr_repeat c), md_Shuffle := Some (cr_shuffle c)\<rparr>),
             ssm_Controller = None\<rparr>
      else None)"

definition controller_pick ::
  "role_env \<Rightarrow> ControllerGroupRole \<Rightarrow> ('o, 'f) ServerClient \<Rightarrow> payload option" where
  "controller_pick env c client =
     (if HasRole client ''controller'' then Some (ServerStateP (controllerStateMessage c))
      else if HasRole client ''metadata'' then map_option ServerStateP (legacy_mirror env c)
      else None)"

definition broadcastState ::
  "role_env \<Rightarrow> ref list \<Rightarrow> ControllerGroupRole \<Rightarrow> ('o, 'f) heap \<Rightarrow> ('o, 'f) heap" where
  "broadcastState env members c h =
     (if \<not> cr_group c then h else send_to_members (controller_pick env c) members h)"

definition SetRepeat ::
  "role_env \<Rightarrow> ref list \<Rightarrow> string \<Rightarrow> ControllerGroupRole \<times> ('o, 'f) heap \<Rightarrow>
   ControllerGroupRole \<times> ('o, 'f) heap" where
  "SetRepeat env members mode s =
     (case s of (c, h) \<Rightarrow>
        if cr_repeat c = mode then (c, h)
        else let c' = c\<lparr>cr_repeat := mode\<rparr> in (c', broadcastState env members c' h))"

definition SetShuffle ::
  "role_env \<Rightarrow> ref list \<Rightarrow> bool \<Rightarrow> ControllerGroupRole \<times> ('o, 'f) heap \<Rightarrow>
   ControllerGroupRole \<times> ('o, 'f) heap" where
  "SetShuffle env members on s =
     (case s of (c, h) \<Rightarrow>
        if cr_shuffle c = on then (c, h)
        else let c' = c\<lparr>cr_shuffle := on\<rparr> in (c', broadcastState env members c' h))"

definition controller_OnClientJoin ::
  "ControllerGroupRole \<Rightarrow> ('o, 'f) ServerClient \<Rightarrow> ('o, 'f) ServerClient" where
  "controller_OnClientJoin c client =
     (if \<not> HasRole client ''controller'' then client
      else try_send ''server/state'' (ServerStateP (controllerStateMessage c)) client)"

datatype role_error =
    NoRoleRegistered string
  | RoleHandlesNoMessages string
  | InvalidCommand
  | MissingCommand

definition dec_command :: "string decoder" where
  "dec_command = dec_obj (field ''command'' dec_string [])"

text \<open>The commands handed to \<open>OnCommand\<close>, or the error.\<close>

definition controller_HandleMessage ::
  "ControllerGroupRole \<Rightarrow> json \<Rightarrow> role_error + string list" where
  "controller_HandleMessage c p =
     (case dec_command p of
        None \<Rightarrow> Inl InvalidCommand
      | Some cmd \<Rightarrow>
          if cmd = [] then Inl MissingCommand
          else Inr (if cr_OnCommand c then [cmd] else []))"

section \<open>The metadata role\<close>

definition snapshotMessage :: "role_env \<Rightarrow> MetadataGroupRole \<Rightarrow> ServerStateMessage option" where
  "snapshotMessage env m =
     (if \<not> mr_GetMetadata m then None
      else case env_metadata env of (title, artist, album) \<Rightarrow>
        Some \<lparr>ssm_Metadata = Some ((empty_metadata (if mr_ClockMicros m then env_clock env else 0))
                \<lparr>md_Title := Some title, md_Artist := Some artist, md_Album := Some album\<rparr>),
              ssm_Controller = None\<rparr>)"

definition metadata_OnClientJoin ::
  "role_env \<Rightarrow> MetadataGroupRole \<Rightarrow> ('o, 'f) ServerClient \<Rightarrow> ('o, 'f) ServerClient" where
  "metadata_OnClientJoin env m client =
     (if \<not> HasRole client ''metadata'' then client
      else case snapshotMessage env m of
        None \<Rightarrow> client
      | Some state \<Rightarrow> try_send ''server/state'' (ServerStateP state) client)"

definition metadata_pick ::
  "role_env \<Rightarrow> MetadataGroupRole \<Rightarrow> ('o, 'f) ServerClient \<Rightarrow> payload option" where
  "metadata_pick env m client =
     (if \<not> HasRole client ''metadata'' then None else map_option ServerStateP (snapshotMessage env m))"

definition metadata_broadcast ::
  "role_env \<Rightarrow> ref list \<Rightarrow> MetadataGroupRole \<Rightarrow> ('o, 'f) heap \<Rightarrow> ('o, 'f) heap" where
  "metadata_broadcast env members m h =
     (if \<not> mr_group m then h
      else if snapshotMessage env m = None then h
      else send_to_members (metadata_pick env m) members h)"

definition OnPlaybackStateChanged ::
  "role_env \<Rightarrow> ref list \<Rightarrow> string \<Rightarrow> string \<Rightarrow> MetadataGroupRole \<Rightarrow> ('o, 'f) heap \<Rightarrow> ('o, 'f) heap" where
  "OnPlaybackStateChanged env members oldState newState m h =
     (if newState \<noteq> ''playing'' \<or> oldState = ''playing'' then h
      else metadata_broadcast env members m h)"

section \<open>Dispatch and routing\<close>

fun role_OnClientJoin ::
  "role_env \<Rightarrow> ('o, 'f) GroupRole \<Rightarrow> ('o, 'f) ServerClient \<Rightarrow> ('o, 'f) ServerClient" where
  "role_OnClientJoin env (PlayerRole cfg) c = player_OnClientJoin cfg c"
| "role_OnClientJoin env (MetadataRole m) c = metadata_OnClientJoin env m c"
| "role_OnClientJoin env (ControllerRole ct) c = controller_OnClientJoin ct c"

text \<open>No role does anything when a client leaves.\<close>

fun role_handle_event ::
  "role_env \<Rightarrow> ref list \<Rightarrow> Event \<Rightarrow> ('o, 'f) GroupRole \<Rightarrow> ('o, 'f) heap \<Rightarrow> ('o, 'f) heap" where
  "role_handle_event env members (ClientJoinedEvent r) role h = h[r := role_OnClientJoin env role (h ! r)]"
| "role_handle_event env members (ClientLeftEvent i n) role h = h"
| "role_handle_event env members (GroupPlaybackStateChangedEvent old new) role h =
     (case role of MetadataRole m \<Rightarrow> OnPlaybackStateChanged env members old new m h | _ \<Rightarrow> h)"
| "role_handle_event env members (ClientStateChangedEvent r s v m) role h = h"

text \<open>One turn of the dispatcher, which listens on the first subscription; \<open>None\<close> while it waits.\<close>

definition dispatchRoleEvent ::
  "role_env \<Rightarrow> nat \<Rightarrow> ('o, 'f) heap \<times> ('o, 'f) role_group \<Rightarrow>
   (('o, 'f) heap \<times> ('o, 'f) role_group) option" where
  "dispatchRoleEvent env i s =
     (case s of (h, g) \<Rightarrow>
        map_option
          (\<lambda>(e, g'). (fold (role_handle_event env (group_Clients g') e) (map snd (g_roles g')) h, g'))
          (receive_event i g))"

definition RouteMessage ::
  "string \<Rightarrow> json \<Rightarrow> ('o, 'f) role_group \<Rightarrow> role_error + string list" where
  "RouteMessage family p g =
     (case map_of (g_roles g) family of
        None \<Rightarrow> Inl (NoRoleRegistered family)
      | Some role \<Rightarrow>
          (case role of
             ControllerRole c \<Rightarrow> controller_HandleMessage c p
           | _ \<Rightarrow> Inl (RoleHandlesNoMessages family)))"

section \<open>Broadcasts\<close>

lemma send_picked_length [simp]: "length (send_picked pick r h) = length h"
  by (simp add: send_picked_def split: option.split)

lemma send_to_members_length [simp]: "length (send_to_members pick rs h) = length h"
  unfolding send_to_members_def by (induction rs arbitrary: h) simp_all

lemma send_picked_nth:
  "k < length h \<Longrightarrow> send_picked pick r h ! k =
     (if k = r then (case pick (h ! r) of None \<Rightarrow> h ! r
                     | Some p \<Rightarrow> try_send ''server/state'' p (h ! r)) else h ! k)"
  by (auto simp: send_picked_def split: option.split)

text \<open>Every member gets its message once and nobody else is touched.\<close>

lemma send_to_members_nth:
  assumes "distinct rs" "k < length h"
  shows "send_to_members pick rs h ! k =
    (if k \<in> set rs then (case pick (h ! k) of None \<Rightarrow> h ! k
                        | Some p \<Rightarrow> try_send ''server/state'' p (h ! k)) else h ! k)"
  using assms
proof (induction rs arbitrary: h)
  case Nil
  then show ?case by (simp add: send_to_members_def)
next
  case (Cons r rs)
  have "send_to_members pick (r # rs) h ! k = send_to_members pick rs (send_picked pick r h) ! k"
    by (simp add: send_to_members_def)
  also have "\<dots> = (if k \<in> set rs then (case pick (send_picked pick r h ! k) of
        None \<Rightarrow> send_picked pick r h ! k
      | Some p \<Rightarrow> try_send ''server/state'' p (send_picked pick r h ! k)) else send_picked pick r h ! k)"
    using Cons.prems by (intro Cons.IH) simp_all
  finally show ?case
    using Cons.prems by (auto simp: send_picked_nth split: option.split)
qed

lemma try_send_buf:
  "chan_room (sc_sendChan c) \<Longrightarrow>
   chan_buf (sc_sendChan (try_send ty p c)) = chan_buf (sc_sendChan c) @ [Control ty p]"
  by (simp add: try_send_eq)

text \<open>What a client reads from the controller's state and from the legacy mirror.\<close>

lemma controller_state_read:
  "\<exists>q. dec_ServerStateMessage (through_interface (enc_ServerStateMessage (controllerStateMessage c))) = Some q \<and>
     ssm_Metadata q = None \<and> ssm_Controller q = ssm_Controller (controllerStateMessage c)"
  using server_state_received [of "controllerStateMessage c"]
  by (simp add: controllerStateMessage_def small_controller_def small_int_def received_state_def)

lemma legacy_mirror_read:
  assumes "legacy_mirror env c = Some s" "small_int (env_clock env)"
  shows "\<exists>q m. dec_ServerStateMessage (through_interface (enc_ServerStateMessage s)) = Some q \<and>
    ssm_Metadata q = Some m \<and> md_Repeat m = Some (cr_repeat c) \<and> md_Shuffle m = Some (cr_shuffle c) \<and>
    \<not> HasField m ''title'' \<and> \<not> HasField m ''progress''"
proof -
  have s: "s = \<lparr>ssm_Metadata = Some ((empty_metadata (env_clock env))
               \<lparr>md_Repeat := Some (cr_repeat c), md_Shuffle := Some (cr_shuffle c)\<rparr>), ssm_Controller = None\<rparr>"
    using assms(1) by (simp add: legacy_mirror_def split: if_splits)
  have "pred_option small_metadata (ssm_Metadata s)" "pred_option small_controller (ssm_Controller s)"
    using assms(2) by (simp_all add: s small_metadata_def empty_metadata_def)
  from server_state_received [OF this] show ?thesis
    by (simp add: s received_state_def sets_field_def empty_metadata_def)
qed

text \<open>
  A change of the repeat mode reaches every member. Each controller client is sent one
  \<open>server/state\<close> from which it reads the new mode and the current shuffle state; each client that has
  only the metadata role reads them from the mirrored metadata, in which no track field is present
  (so that nothing else of its display changes); nobody else is sent anything, and setting the same
  mode again sends nothing.
\<close>

theorem SetRepeat_reaches_members:
  assumes "distinct members" and "k < length h" and "k \<in> set members"
    and "cr_group c" and "cr_repeat c \<noteq> mode" and "small_int (env_clock env)"
    and "chan_room (sc_sendChan (h ! k))"
    and "SetRepeat env members mode (c, h) = (c', h')"
  shows "cr_repeat c' = mode \<and> SetRepeat env members mode (c', h') = (c', h') \<and>
    (if HasRole (h ! k) ''controller'' then
       \<exists>p q st. chan_buf (sc_sendChan (h' ! k)) = chan_buf (sc_sendChan (h ! k)) @ [Control ''server/state'' (ServerStateP p)] \<and>
         dec_ServerStateMessage (through_interface (enc_ServerStateMessage p)) = Some q \<and>
         ssm_Controller q = Some st \<and> cs_Repeat st = mode \<and> cs_Shuffle st = cr_shuffle c
     else if HasRole (h ! k) ''metadata'' \<and> cr_ClockMicros c then
       \<exists>p q m. chan_buf (sc_sendChan (h' ! k)) = chan_buf (sc_sendChan (h ! k)) @ [Control ''server/state'' (ServerStateP p)] \<and>
         dec_ServerStateMessage (through_interface (enc_ServerStateMessage p)) = Some q \<and>
         ssm_Metadata q = Some m \<and> md_Repeat m = Some mode \<and> md_Shuffle m = Some (cr_shuffle c) \<and>
         \<not> HasField m ''title'' \<and> \<not> HasField m ''progress''
     else h' ! k = h ! k)"
proof -
  let ?c = "c\<lparr>cr_repeat := mode\<rparr>"
  have c': "c' = ?c" and h': "h' = send_to_members (controller_pick env ?c) members h"
    using assms(4,5,8) by (auto simp: SetRepeat_def Let_def broadcastState_def)
  have nth: "h' ! k = (case controller_pick env ?c (h ! k) of None \<Rightarrow> h ! k
      | Some p \<Rightarrow> try_send ''server/state'' p (h ! k))"
    using send_to_members_nth [OF assms(1,2), of "controller_pick env ?c"] assms(3) by (simp add: h')
  have again: "SetRepeat env members mode (c', h') = (c', h')"
    by (simp add: c' SetRepeat_def)
  consider (controller) "HasRole (h ! k) ''controller''"
    | (metadata) "\<not> HasRole (h ! k) ''controller''" "HasRole (h ! k) ''metadata''" "cr_ClockMicros c"
    | (neither) "\<not> HasRole (h ! k) ''controller''" "\<not> (HasRole (h ! k) ''metadata'' \<and> cr_ClockMicros c)"
    by blast
  then show ?thesis
  proof cases
    case controller
    then show ?thesis
      using controller_state_read [of ?c] nth again c' try_send_buf [OF assms(7)]
      by (auto simp: controller_pick_def controllerStateMessage_def)
  next
    case metadata
    then obtain s where s: "legacy_mirror env ?c = Some s" by (simp add: legacy_mirror_def)
    then show ?thesis
      using metadata legacy_mirror_read [OF s assms(6)] nth again c' try_send_buf [OF assms(7)]
      by (auto simp: controller_pick_def)
  next
    case neither
    then show ?thesis
      using nth again c' by (auto simp: controller_pick_def legacy_mirror_def)
  qed
qed

text \<open>
  A role message reaches the application's callback, unchanged and once, exactly when a controller
  with a callback is registered for its family and its payload has a non-empty \<open>command\<close> string;
  in every other case nothing is called, and an unknown family, a role without message handling and
  an ill-formed or empty command are told apart as errors.
\<close>

lemma RouteMessage_outcomes:
  "RouteMessage family p g =
     (if family \<notin> fst ` set (g_roles g) then Inl (NoRoleRegistered family)
      else if \<not> (\<exists>c. GetRole family g = Some (ControllerRole c)) then Inl (RoleHandlesNoMessages family)
      else if dec_command p = None then Inl InvalidCommand
      else if dec_command p = Some [] then Inl MissingCommand
      else Inr (if \<exists>c. GetRole family g = Some (ControllerRole c) \<and> cr_OnCommand c
                then [the (dec_command p)] else []))"
proof (cases "map_of (g_roles g) family")
  case None
  then show ?thesis by (simp add: RouteMessage_def) (simp add: map_of_eq_None_iff)
next
  case (Some role)
  then have "family \<in> fst ` set (g_roles g)" by (force dest: map_of_SomeD)
  with Some show ?thesis
    by (cases role) (auto simp: RouteMessage_def GetRole_def controller_HandleMessage_def split: option.splits)
qed

section \<open>A concrete broadcast\<close>

definition controller_example :: ControllerGroupRole where
  "controller_example =
     (NewControllerRole [''play''] False [] True True)\<lparr>cr_group := True\<rparr>"

definition roles_heap_example :: "(unit, unit) heap" where
  "roles_heap_example =
     [new_client ''a'' ''A'' [''controller@v1''] None, new_client ''b'' ''B'' [''metadata@v1''] None]"

theorem SetRepeat_reaches_members_witness:
  "\<exists>c' h' p q m. SetRepeat \<lparr>env_metadata = ([], [], []), env_clock = 7\<rparr> [0, 1] ''all''
       (controller_example, roles_heap_example) = (c', h') \<and>
     chan_buf (sc_sendChan (h' ! 1)) = [Control ''server/state'' (ServerStateP p)] \<and>
     dec_ServerStateMessage (through_interface (enc_ServerStateMessage p)) = Some q \<and>
     ssm_Metadata q = Some m \<and> md_Repeat m = Some ''all'' \<and> md_Shuffle m = Some True"
proof -
  obtain c' h' where run: "SetRepeat \<lparr>env_metadata = ([], [], []), env_clock = 7\<rparr> [0, 1] ''all''
       (controller_example, roles_heap_example) = (c', h')"
    by fastforce
  have hyps: "distinct [0, 1 :: nat]" "1 < length roles_heap_example" "1 \<in> set [0, 1 :: nat]"
    "cr_group controller_example" "cr_repeat controller_example \<noteq> ''all''"
    "small_int (env_clock \<lparr>env_metadata = ([], [], []), env_clock = 7\<rparr>)"
    "chan_room (sc_sendChan (roles_heap_example ! 1))"
    by (simp_all add: roles_heap_example_def controller_example_def NewControllerRole_def small_int_def
        new_client_def chan_room_def)
  have roles: "\<not> HasRole (roles_heap_example ! 1) ''controller''" "HasRole (roles_heap_example ! 1) ''metadata''"
    "cr_ClockMicros controller_example" "cr_shuffle controller_example"
    "chan_buf (sc_sendChan (roles_heap_example ! 1)) = []"
    by code_simp+
  show ?thesis
    using SetRepeat_reaches_members [OF hyps run] roles run by auto
qed

end
