(* ===== verification/Server_Model.thy ===== *)
theory Server_Model
  imports Group_Roles
begin

text \<open>
  The server of \<open>server.go\<close>, \<open>server_dispatch.go\<close> and the loop of \<open>server_stream.go\<close>: the handshake
  of a connection, the dispatch of its messages, its removal, and the ticks of the audio pipeline.
  A connection goroutine is cut at its critical sections; \<open>conn_pc\<close> says where it stands, so that
  goroutines interleave in every order their locks allow. As in \<open>Group_Bus\<close>, no result is a panic.
\<close>

section \<open>State\<close>

datatype conn_pc =
    Registered  \<comment> \<open>in the server's map, nothing sent\<close>
  | Greeted     \<comment> \<open>\<open>server/hello\<close> queued, writer started\<close>
  | Serving     \<comment> \<open>added to the group, reading messages\<close>
  | Leaving     \<comment> \<open>about to run \<open>removeClient\<close>\<close>
  | Cleared     \<comment> \<open>encoders released\<close>
  | Unlisted    \<comment> \<open>out of the server's map\<close>
  | Ungrouped   \<comment> \<open>out of the group\<close>
  | Gone        \<comment> \<open>\<open>done\<close> closed\<close>

record ('o, 'f) Server =
  srv_Name :: string
  srv_serverID :: string
  srv_SupportedRoles :: "string list"
  srv_heap :: "('o, 'f) heap"
  srv_pcs :: "conn_pc list"
  srv_clients :: "(string \<times> ref) list"
  srv_group :: "('o, 'f) role_group"
  srv_consecutiveReadErrs :: int
  srv_isShutdown :: bool

record server_config =
  cfg_Name :: string
  cfg_SupportedRoles :: "string list option"
  cfg_SourceRate :: int
  cfg_SourceChannels :: nat

text \<open>
  \<open>NewServer\<close> with a source (a nil source is an error); \<open>serverID\<close> is the new UUID, and the encoder
  factories are those of the codec packages.
\<close>

definition NewServer ::
  "server_config \<Rightarrow> string \<Rightarrow> (int \<Rightarrow> nat \<Rightarrow> nat \<Rightarrow> codec_error + 'o OpusEncoder) \<Rightarrow>
   (int \<Rightarrow> nat \<Rightarrow> int \<Rightarrow> nat \<Rightarrow> codec_error + 'f FLACEncoder) \<Rightarrow> ('o, 'f) Server" where
  "NewServer cfg serverID new_opus new_flac =
     \<lparr>srv_Name = (if cfg_Name cfg = [] then ''Sendspin Server'' else cfg_Name cfg),
      srv_serverID = serverID,
      srv_SupportedRoles = (case cfg_SupportedRoles cfg of
                              None \<Rightarrow> [''player'', ''metadata''] | Some roles \<Rightarrow> roles),
      srv_heap = [], srv_pcs = [], srv_clients = [],
      srv_group =
        RegisterRole (PlayerRole \<lparr>prc_SampleRate = cfg_SourceRate cfg, prc_Channels = cfg_SourceChannels cfg,
            prc_BitDepth = DefaultBitDepth, prc_NewEncoder = Some new_opus, prc_NewFLACEncoder = Some new_flac\<rparr>)
          (RegisterRole (MetadataRole (NewMetadataRole True True)) (NewGroup serverID)),
      srv_consecutiveReadErrs = 0, srv_isShutdown = False\<rparr>"

section \<open>The handshake\<close>

datatype hello_error =
    HelloUnreadable
  | HelloMalformed
  | HelloWrongType string
  | HelloMissingFields
  | HelloTooLarge

text \<open>The checks of \<open>handleConnection\<close> on the first message; \<open>None\<close> is a read error.\<close>

definition parse_hello :: "json option \<Rightarrow> hello_error + ClientHello" where
  "parse_hello data =
     (case data of
        None \<Rightarrow> Inl HelloUnreadable
      | Some j \<Rightarrow>
          (case dec_Message j of
             None \<Rightarrow> Inl HelloMalformed
           | Some (t, p) \<Rightarrow>
               if t \<noteq> ''client/hello'' then Inl (HelloWrongType t)
               else case dec_ClientHello p of
                 None \<Rightarrow> Inl HelloMalformed
               | Some hello \<Rightarrow>
                   if ch_ClientID hello = [] \<or> ch_Name hello = [] then Inl HelloMissingFields
                   else if 256 < length (ch_ClientID hello) \<or> 256 < length (ch_Name hello)
                     \<or> 20 < length (ch_SupportedRoles hello) then Inl HelloTooLarge
                   else Inr hello))"

definition accept_hello :: "ClientHello \<Rightarrow> ('o, 'f) Server \<Rightarrow> ('o, 'f) Server" where
  "accept_hello hello s =
     (if map_of (srv_clients s) (ch_ClientID hello) \<noteq> None then s
      else
        let c = new_client (ch_ClientID hello) (ch_Name hello) (ch_SupportedRoles hello)
                  (ch_PlayerV1Support hello)
        in s\<lparr>srv_heap := srv_heap s @ [c], srv_pcs := srv_pcs s @ [Registered],
             srv_clients := srv_clients s @ [(ch_ClientID hello, length (srv_heap s))]\<rparr>)"

text \<open>
  \<open>admitted\<close> is the outcome of the shutdown check, which was made when the connection came in, before
  its first message was read.
\<close>

definition handle_hello :: "bool \<Rightarrow> json option \<Rightarrow> ('o, 'f) Server \<Rightarrow> ('o, 'f) Server" where
  "handle_hello admitted data s =
     (if \<not> admitted then s
      else case parse_hello data of Inl e \<Rightarrow> s | Inr hello \<Rightarrow> accept_hello hello s)"

definition at_family :: "string \<Rightarrow> string" where
  "at_family role =
     (if CHR ''@'' \<in> set role \<and> hd role \<noteq> CHR ''@'' then takeWhile (\<lambda>ch. ch \<noteq> CHR ''@'') role
      else role)"

fun activate_loop :: "string list \<Rightarrow> string list \<Rightarrow> string list \<Rightarrow> string list" where
  "activate_loop allowed seen [] = []"
| "activate_loop allowed seen (role # roles) =
     (if at_family role \<in> set seen then activate_loop allowed seen roles
      else if at_family role \<in> set allowed
      then role # activate_loop allowed (at_family role # seen) roles
      else activate_loop allowed seen roles)"

definition activateRoles :: "('o, 'f) Server \<Rightarrow> string list \<Rightarrow> string list" where
  "activateRoles s roles =
     activate_loop (srv_SupportedRoles s @ map fst (g_roles (srv_group s))) [] roles"

definition server_hello :: "('o, 'f) Server \<Rightarrow> ('o, 'f) ServerClient \<Rightarrow> ServerHello" where
  "server_hello s c =
     \<lparr>sh_ServerID = srv_serverID s, sh_Name = srv_Name s, sh_Version = ProtocolVersion,
      sh_ActiveRoles = activateRoles s (sc_roles c), sh_ConnectionReason = ''playback''\<rparr>"

definition greet :: "ref \<Rightarrow> ('o, 'f) Server \<Rightarrow> ('o, 'f) Server" where
  "greet r s =
     (let c = srv_heap s ! r
      in case Send ''server/hello'' (ServerHelloP (server_hello s c)) c of
           None \<Rightarrow> s\<lparr>srv_pcs := (srv_pcs s)[r := Leaving]\<rparr>
         | Some c' \<Rightarrow> s\<lparr>srv_heap := (srv_heap s)[r := c'], srv_pcs := (srv_pcs s)[r := Greeted]\<rparr>)"

definition join_group :: "ref \<Rightarrow> ('o, 'f) Server \<Rightarrow> ('o, 'f) Server option" where
  "join_group r s =
     map_option (\<lambda>(h, g). s\<lparr>srv_heap := h, srv_group := g, srv_pcs := (srv_pcs s)[r := Serving]\<rparr>)
       (addClient r (srv_heap s, srv_group s))"

section \<open>Messages of a client\<close>

definition upd_client ::
  "ref \<Rightarrow> (('o, 'f) ServerClient \<Rightarrow> ('o, 'f) ServerClient) \<Rightarrow> ('o, 'f) Server \<Rightarrow> ('o, 'f) Server" where
  "upd_client r f s = s\<lparr>srv_heap := (srv_heap s)[r := f (srv_heap s ! r)]\<rparr>"

text \<open>\<open>recv\<close> and \<open>sent\<close> are the two readings of the clock.\<close>

definition handleTimeSync :: "int \<Rightarrow> int \<Rightarrow> ref \<Rightarrow> json \<Rightarrow> ('o, 'f) Server \<Rightarrow> ('o, 'f) Server" where
  "handleTimeSync recv sent r p s =
     (case dec_ClientTime p of
        None \<Rightarrow> s
      | Some t \<Rightarrow> upd_client r (try_send ''server/time'' (ServerTimeP
          \<lparr>st_ClientTransmitted = t, st_ServerReceived = recv, st_ServerTransmitted = sent\<rparr>)) s)"

definition handleClientState :: "ref \<Rightarrow> json \<Rightarrow> ('o, 'f) Server \<Rightarrow> ('o, 'f) Server option" where
  "handleClientState r p s =
     (case dec_ClientStateMessage p of
        None \<Rightarrow> Some s
      | Some None \<Rightarrow> Some s
      | Some (Some ps) \<Rightarrow>
          let s1 = upd_client r (\<lambda>c. c\<lparr>sc_state := pst_State ps, sc_volume := pst_Volume ps,
                                     sc_muted := pst_Muted ps\<rparr>) s
          in map_option (\<lambda>g. s1\<lparr>srv_group := g\<rparr>)
               (publishLocked (ClientStateChangedEvent r (pst_State ps) (pst_Volume ps) (pst_Muted ps))
                  (srv_group s1)))"

definition dec_ClientCommand :: "(string \<times> json) list decoder" where
  "dec_ClientCommand j = (case j of JObj kvs \<Rightarrow> Some (AList.clearjunk (rev kvs)) | JNull \<Rightarrow> Some [] | _ \<Rightarrow> None)"

text \<open>The commands that reach the application.\<close>

definition handleClientCommand :: "json \<Rightarrow> ('o, 'f) Server \<Rightarrow> string list" where
  "handleClientCommand p s =
     (case dec_ClientCommand p of
        None \<Rightarrow> []
      | Some kvs \<Rightarrow>
          concat (map (\<lambda>(family, v). case RouteMessage family v (srv_group s) of
                                     Inl e \<Rightarrow> [] | Inr cmds \<Rightarrow> cmds) kvs))"

definition handleClientGoodbye :: "ref \<Rightarrow> json \<Rightarrow> ('o, 'f) Server \<Rightarrow> ('o, 'f) Server" where
  "handleClientGoodbye r p s =
     (case dec_ClientGoodbye p of
        None \<Rightarrow> s
      | Some reason \<Rightarrow> upd_client r (setGoodbyeReason reason) s)"

definition handleClientMessage ::
  "int \<Rightarrow> int \<Rightarrow> ref \<Rightarrow> json option \<Rightarrow> ('o, 'f) Server \<Rightarrow> (string list \<times> ('o, 'f) Server) option" where
  "handleClientMessage recv sent r data s =
     (case Option.bind data dec_Message of
        None \<Rightarrow> Some ([], s)
      | Some (t, p) \<Rightarrow>
          if t = ''client/time'' then Some ([], handleTimeSync recv sent r p s)
          else if t = ''client/state'' then map_option (Pair []) (handleClientState r p s)
          else if t = ''client/goodbye'' then Some ([], handleClientGoodbye r p s)
          else if t = ''client/command'' then Some (handleClientCommand p s, s)
          else Some ([], s))"

definition goodbyeReasonRestart :: string where "goodbyeReasonRestart = ''restart''"

text \<open>The result of \<open>handleConnection\<close>.\<close>

definition retry_flag :: "ref \<Rightarrow> ('o, 'f) Server \<Rightarrow> bool" where
  "retry_flag r s \<longleftrightarrow> sc_goodbyeReason (srv_heap s ! r) = goodbyeReasonRestart"

section \<open>Removal\<close>

definition set_pc :: "ref \<Rightarrow> conn_pc \<Rightarrow> ('o, 'f) Server \<Rightarrow> ('o, 'f) Server" where
  "set_pc r pc s = s\<lparr>srv_pcs := (srv_pcs s)[r := pc]\<rparr>"

text \<open>The critical sections of \<open>removeClient\<close>, in order.\<close>

definition remove_encoders :: "ref \<Rightarrow> ('o, 'f) Server \<Rightarrow> ('o, 'f) Server" where
  "remove_encoders r s =
     set_pc r Cleared
       (upd_client r (\<lambda>c. c\<lparr>sc_opusEncoder := None, sc_flacEncoder := None, sc_resampler := None\<rparr>) s)"

definition remove_listing :: "ref \<Rightarrow> ('o, 'f) Server \<Rightarrow> ('o, 'f) Server" where
  "remove_listing r s =
     set_pc r Unlisted (s\<lparr>srv_clients := AList.delete (sc_id (srv_heap s ! r)) (srv_clients s)\<rparr>)"

definition remove_from_group :: "ref \<Rightarrow> ('o, 'f) Server \<Rightarrow> ('o, 'f) Server option" where
  "remove_from_group r s =
     map_option (\<lambda>g. set_pc r Ungrouped (s\<lparr>srv_group := g\<rparr>))
       (group_removeClient r (srv_heap s) (srv_group s))"

definition remove_done :: "ref \<Rightarrow> ('o, 'f) Server \<Rightarrow> ('o, 'f) Server option" where
  "remove_done r s =
     (if sc_done (srv_heap s ! r) then None
      else Some (set_pc r Gone (upd_client r (\<lambda>c. c\<lparr>sc_done := True\<rparr>) s)))"

section \<open>The audio pipeline\<close>

definition notifyStreamEnd :: "('o, 'f) Server \<Rightarrow> ('o, 'f) Server" where
  "notifyStreamEnd s =
     s\<lparr>srv_heap := fold (\<lambda>r h. if HasRole (h ! r) ''player''
          then h[r := try_send ''stream/end'' (StreamEndP [''player'']) (h ! r)] else h)
        (map snd (srv_clients s)) (srv_heap s)\<rparr>"

fun stream_all ::
  "('o, 'f) stream_libs \<Rightarrow> int \<Rightarrow> int \<Rightarrow> sample list \<Rightarrow> ref list \<Rightarrow> ('o, 'f) heap \<Rightarrow> ('o, 'f) heap option" where
  "stream_all libs now pt samples [] h = Some h"
| "stream_all libs now pt samples (r # rs) h =
     (case stream_to_client libs now pt samples (h ! r) of
        None \<Rightarrow> None
      | Some c \<Rightarrow> stream_all libs now pt samples rs (h[r := c]))"

text \<open>\<open>input\<close> is what the source's \<open>Read\<close> returned: an error, or the samples read.\<close>

definition generateAndSendChunk ::
  "('o, 'f) stream_libs \<Rightarrow> int \<Rightarrow> string + sample list \<Rightarrow> ('o, 'f) Server \<Rightarrow> ('o, 'f) Server option" where
  "generateAndSendChunk libs currentTime input s =
     (case input of
        Inl err \<Rightarrow>
          (let s1 = s\<lparr>srv_consecutiveReadErrs := srv_consecutiveReadErrs s + 1\<rparr>
           in Some (if srv_consecutiveReadErrs s1 = 50 then notifyStreamEnd s1 else s1))
      | Inr samples \<Rightarrow>
          map_option (\<lambda>h. s\<lparr>srv_consecutiveReadErrs := 0, srv_heap := h\<rparr>)
            (stream_all libs currentTime (playback_time currentTime) samples
               (map snd (srv_clients s)) (srv_heap s)))"

text \<open>The end of \<open>Start\<close>: new connections are refused and the group is closed.\<close>

definition begin_shutdown :: "('o, 'f) Server \<Rightarrow> ('o, 'f) Server" where
  "begin_shutdown s = s\<lparr>srv_isShutdown := True\<rparr>"

definition close_group :: "('o, 'f) Server \<Rightarrow> ('o, 'f) Server option" where
  "close_group s = map_option (\<lambda>g. s\<lparr>srv_group := g\<rparr>) (group_Close (srv_group s))"

record ClientInfo =
  ci_ID :: string
  ci_Name :: string
  ci_State :: string
  ci_Volume :: int
  ci_Muted :: bool
  ci_Codec :: string

definition Clients_info :: "('o, 'f) Server \<Rightarrow> ClientInfo list" where
  "Clients_info s =
     map (\<lambda>(i, r). let c = srv_heap s ! r
                   in \<lparr>ci_ID = sc_id c, ci_Name = sc_name c, ci_State = sc_state c,
                       ci_Volume = sc_volume c, ci_Muted = sc_muted c, ci_Codec = sc_codec c\<rparr>)
       (srv_clients s)"

end
