(* ===== verification/Server_Audio.thy ===== *)
theory Server_Audio
  imports Server_Model
begin

text \<open>
  The audio ticks of the server return: every resampler that a client holds comes from the player role,
  which makes it for the rate and the channels of the source, and stays usable from one chunk to the
  next; so no tick asks for a buffer of negative size or reads its chunk out of range. The lemmas here
  say that each operation of the server keeps the resamplers usable; \<open>Server_System\<close> puts them together.
\<close>

section \<open>Usable resamplers\<close>

definition resampler_ready :: "('o, 'f) ServerClient \<Rightarrow> bool" where
  "resampler_ready c \<longleftrightarrow> pred_option resampler_fit (sc_resampler c)"

fun role_fit :: "('o, 'f) GroupRole \<Rightarrow> bool" where
  "role_fit (PlayerRole cfg) =
     (0 < prc_SampleRate cfg \<and> prc_SampleRate cfg \<le> 2 ^ 31 \<and> 0 < prc_Channels cfg)"
| "role_fit _ = True"

definition roles_fit :: "('o, 'f) role_group \<Rightarrow> bool" where
  "roles_fit g \<longleftrightarrow> list_all (\<lambda>x. role_fit (snd x)) (g_roles g)"

definition audio_ready :: "('o, 'f) Server \<Rightarrow> bool" where
  "audio_ready s \<longleftrightarrow> list_all resampler_ready (srv_heap s) \<and> roles_fit (srv_group s)"

lemma list_all_replace:
  "list_all P h \<Longrightarrow> (r < length h \<Longrightarrow> P (h ! r) \<Longrightarrow> P c) \<Longrightarrow> list_all P (h[r := c])"
  by (cases "r < length h") (auto simp: list_all_length nth_list_update list_update_beyond)

lemma list_all_fold:
  assumes "\<And>x h. x \<in> set xs \<Longrightarrow> list_all P h \<Longrightarrow> list_all P (f x h)" "list_all P h"
  shows "list_all P (fold f xs h)"
  using assms by (induction xs arbitrary: h) simp_all

lemma resampler_kept: "sc_resampler c' = sc_resampler c \<Longrightarrow> resampler_ready c' = resampler_ready c"
  by (simp add: resampler_ready_def)

lemma try_send_ready [simp]: "resampler_ready (try_send ty p c) = resampler_ready c"
  by (rule resampler_kept) (simp add: try_send_eq)

section \<open>A client and a chunk\<close>

lemma setup_codec_resampler:
  "setup_codec cfg codec = (codec', opus, flac, resampler) \<Longrightarrow>
   resampler = None \<or> resampler = Some (NewResampler (prc_SampleRate cfg) 48000 (prc_Channels cfg))"
  by (auto simp: setup_codec_def Let_def split: if_splits option.splits sum.splits)

lemma player_join_ready:
  assumes "role_fit (PlayerRole cfg)" "resampler_ready c"
  shows "resampler_ready (player_OnClientJoin cfg c)"
proof (cases "HasRole c ''player''")
  case True
  obtain codec opus flac resampler capacity where
    s: "setup_codec cfg (negotiateCodec c (prc_SampleRate cfg)) = (codec, opus, flac, resampler)"
    "player_OnClientJoin cfg c = try_send ''stream/start''
       (StreamStartP \<lparr>ss_Player = Some (stream_start_for cfg codec flac), ss_Artwork = None\<rparr>)
       (c\<lparr>sc_codec := codec, sc_opusEncoder := opus, sc_flacEncoder := flac,
          sc_resampler := resampler, sc_bufferTracker := Some (NewBufferTracker capacity)\<rparr>)"
    by (rule player_OnClientJoin_cases [OF True, of cfg]) blast
  have "pred_option resampler_fit resampler"
    using setup_codec_resampler [OF s(1)] NewResampler_fit assms(1) by auto
  then show ?thesis unfolding s(2) try_send_ready by (simp add: resampler_ready_def)
qed (use assms in \<open>simp add: player_OnClientJoin_def\<close>)

lemma role_join_ready: "role_fit role \<Longrightarrow> resampler_ready c \<Longrightarrow> resampler_ready (role_OnClientJoin env role c)"
  by (cases role) (simp_all add: player_join_ready metadata_OnClientJoin_def controller_OnClientJoin_def
      split: option.split)

lemma opus_input_ready:
  assumes "pred_option resampler_fit r" "int (length samples) \<le> 2 ^ 32"
  obtains input r' where "opus_input r samples = Some (input, r')" "pred_option resampler_fit r'"
proof (cases r)
  case None
  with that show thesis by (simp add: opus_input_def)
next
  case (Some rs)
  have len: "length samples \<le> 2 ^ 32" using assms(2) by simp
  define out where "out = replicate (nat (OutputSamplesNeeded rs (length samples))) (0 :: sample)"
  have "resampler_fit rs" using Some assms(1) by simp
  then obtain n res rs' where "0 \<le> OutputSamplesNeeded rs (length samples)"
    "Resample rs samples out = Some (n, res, rs')" "resampler_fit rs'"
    using resampler_fit_run [OF _ len, of rs out] by blast
  with Some that [of "take n res" "Some rs'"] show thesis by (simp add: opus_input_def Let_def out_def)
qed

lemma encode_chunk_ready:
  assumes "resampler_ready c" "int (length samples) \<le> 2 ^ 32"
  obtains res c' where "encode_chunk libs samples c = Some (res, c')" "resampler_ready c'"
proof -
  obtain input r' where i: "opus_input (sc_resampler c) samples = Some (input, r')" "pred_option resampler_fit r'"
    using opus_input_ready assms unfolding resampler_ready_def by blast
  have "\<exists>res c'. encode_chunk libs samples c = Some (res, c') \<and> resampler_ready c'"
    using assms(1) i
    by (auto simp: encode_chunk_def resampler_ready_def Let_def split: option.split prod.split sum.split)
  with that show thesis by blast
qed

lemma send_chunk_ready [simp]: "resampler_ready (send_chunk now pt d c) = resampler_ready c"
  by (rule resampler_kept)
    (auto simp: send_chunk_def SendBinary_def send_outgoing_def Let_def split: option.split)

lemma stream_to_client_ready:
  assumes "resampler_ready c" "int (length samples) \<le> 2 ^ 32"
  obtains c' where "stream_to_client libs now pt samples c = Some c'" "resampler_ready c'"
proof -
  obtain res c' where "encode_chunk libs samples c = Some (res, c')" "resampler_ready c'"
    by (rule encode_chunk_ready [OF assms])
  with that show thesis by (cases res) (simp_all add: stream_to_client_def)
qed

lemma stream_all_ready:
  assumes "list_all resampler_ready h" "\<forall>r\<in>set rs. r < length h" "int (length samples) \<le> 2 ^ 32"
  shows "\<exists>h'. stream_all libs now pt samples rs h = Some h' \<and> list_all resampler_ready h'"
  using assms(1,2)
proof (induction rs arbitrary: h)
  case (Cons r rs)
  then have "resampler_ready (h ! r)" by (simp add: list_all_length)
  then obtain c where c: "stream_to_client libs now pt samples (h ! r) = Some c" "resampler_ready c"
    by (rule stream_to_client_ready [OF _ assms(3)])
  from Cons.IH [of "h[r := c]"] list_all_replace [OF Cons.prems(1), of r c] c Cons.prems(2)
  show ?case by simp
qed simp

section \<open>The operations of the group\<close>

lemma published_roles:
  "publishLocked e g = Some g' \<Longrightarrow> g_roles g' = g_roles g"
  by (auto simp: publishLocked_def split: if_splits)

lemma group_roles_kept:
  "addClient r (h, g) = Some (h', g') \<Longrightarrow> g_roles g' = g_roles g"
  "group_removeClient r h g = Some g' \<Longrightarrow> g_roles g' = g_roles g"
  "SetPlaybackState st g = Some g' \<Longrightarrow> g_roles g' = g_roles g"
  "group_Close g = Some g' \<Longrightarrow> g_roles g' = g_roles g"
  "receive_event i g = Some (e, g') \<Longrightarrow> g_roles g' = g_roles g"
  by (auto simp: addClient_def group_removeClient_def SetPlaybackState_def group_Close_def
      receive_event_def Let_def dest: published_roles split: if_splits)

lemma roles_fit_kept: "g_roles g' = g_roles g \<Longrightarrow> roles_fit g' = roles_fit g"
  by (simp add: roles_fit_def)

lemma addClient_ready:
  "addClient r (h, g) = Some (h', g') \<Longrightarrow> list_all resampler_ready h \<Longrightarrow> list_all resampler_ready h'"
  by (auto simp: addClient_def Let_def intro: list_all_replace split: if_splits)

lemma send_to_members_ready:
  "list_all resampler_ready h \<Longrightarrow> list_all resampler_ready (send_to_members pick rs h)"
  unfolding send_to_members_def
  by (rule list_all_fold) (auto simp: send_picked_def intro: list_all_replace split: option.split)

lemma role_event_ready:
  assumes "role_fit role" "list_all resampler_ready h"
  shows "list_all resampler_ready (role_handle_event env members e role h)"
proof (cases e)
  case (ClientJoinedEvent r)
  with assms role_join_ready [of role "h ! r" env] show ?thesis by (auto intro: list_all_replace)
next
  case (GroupPlaybackStateChangedEvent old new)
  with assms show ?thesis
    by (auto simp: OnPlaybackStateChanged_def metadata_broadcast_def send_to_members_ready split: GroupRole.split)
qed (use assms in simp_all)

section \<open>The operations of the server\<close>

lemma audio_ready_handshake:
  assumes "audio_ready s"
  shows "audio_ready (handle_hello admitted data s)" "audio_ready (greet r s)"
proof -
  have "resampler_ready (new_client i n roles caps)" for i n roles caps
    by (simp add: resampler_ready_def new_client_def)
  with assms show "audio_ready (handle_hello admitted data s)"
    by (auto simp: audio_ready_def handle_hello_def accept_hello_def Let_def split: sum.split)
  have "Send ty p c = Some c' \<Longrightarrow> resampler_ready c' = resampler_ready c" for ty p and c c' :: "('a, 'b) ServerClient"
    by (auto simp: Send_def send_outgoing_def intro!: resampler_kept)
  with assms show "audio_ready (greet r s)"
    by (auto simp: audio_ready_def greet_def Let_def intro!: list_all_replace split: option.split)
qed

lemma audio_ready_join: "audio_ready s \<Longrightarrow> join_group r s = Some s' \<Longrightarrow> audio_ready s'"
  using group_roles_kept(1) addClient_ready
  by (fastforce simp: audio_ready_def join_group_def roles_fit_def)

lemma audio_ready_upd:
  "audio_ready s \<Longrightarrow> (\<And>c. resampler_ready c \<Longrightarrow> resampler_ready (f c)) \<Longrightarrow> audio_ready (upd_client r f s)"
  by (auto simp: audio_ready_def upd_client_def intro: list_all_replace)

lemma audio_ready_pc [simp]: "audio_ready (set_pc r pc s) = audio_ready s"
  by (simp add: audio_ready_def set_pc_def)

lemma audio_ready_group: "audio_ready s \<Longrightarrow> g_roles g = g_roles (srv_group s) \<Longrightarrow> audio_ready (s\<lparr>srv_group := g\<rparr>)"
  by (simp add: audio_ready_def roles_fit_def)

lemma audio_ready_message:
  assumes "audio_ready s" "handleClientMessage recv sent r data s = Some (cmds, s')"
  shows "audio_ready s'"
proof -
  have time: "audio_ready (handleTimeSync recv sent r p s)" for p
    using assms(1) by (auto simp: handleTimeSync_def intro: audio_ready_upd split: option.split)
  have bye: "audio_ready (handleClientGoodbye r p s)" for p
    using assms(1) by (auto simp: handleClientGoodbye_def setGoodbyeReason_def resampler_ready_def
        intro!: audio_ready_upd split: option.split)
  have state: "audio_ready s1" if "handleClientState r p s = Some s1" for p s1
  proof -
    have "audio_ready (upd_client r (\<lambda>c. c\<lparr>sc_state := a, sc_volume := v, sc_muted := m\<rparr>) s)" for a v m
      by (rule audio_ready_upd [OF assms(1)]) (simp add: resampler_ready_def)
    with assms(1) that show ?thesis
      by (auto simp: handleClientState_def Let_def dest!: published_roles intro: audio_ready_group
          split: option.splits)
  qed
  show ?thesis
    using assms time bye state
    by (auto simp: handleClientMessage_def split: option.splits prod.splits if_splits)
qed

lemma audio_ready_removal:
  assumes "audio_ready s"
  shows "audio_ready (remove_encoders r s)" "audio_ready (remove_listing r s)"
    "remove_from_group r s = Some s' \<Longrightarrow> audio_ready s'" "remove_done r s = Some s' \<Longrightarrow> audio_ready s'"
proof -
  show "audio_ready (remove_encoders r s)"
    unfolding remove_encoders_def audio_ready_pc
    by (rule audio_ready_upd [OF assms]) (simp add: resampler_ready_def)
  show "audio_ready (remove_listing r s)"
    using assms by (simp add: remove_listing_def audio_ready_def set_pc_def)
  show "remove_from_group r s = Some s' \<Longrightarrow> audio_ready s'"
    using assms by (auto simp: remove_from_group_def dest!: group_roles_kept(2) intro: audio_ready_group)
  have "audio_ready (upd_client r (\<lambda>c. c\<lparr>sc_done := True\<rparr>) s)"
    by (rule audio_ready_upd [OF assms]) (simp add: resampler_ready_def)
  then show "remove_done r s = Some s' \<Longrightarrow> audio_ready s'"
    by (auto simp: remove_done_def split: if_splits)
qed

lemma audio_ready_notify:
  assumes "audio_ready s"
  shows "audio_ready (notifyStreamEnd s)"
proof -
  have "list_all resampler_ready (fold (\<lambda>r h. if HasRole (h ! r) ''player''
      then h[r := try_send ''stream/end'' (StreamEndP [''player'']) (h ! r)] else h) rs (srv_heap s))" for rs
    by (rule list_all_fold) (use assms in \<open>auto simp: audio_ready_def intro: list_all_replace\<close>)
  with assms show ?thesis by (simp add: audio_ready_def notifyStreamEnd_def)
qed

lemma audio_ready_tick:
  assumes "audio_ready s" "\<forall>(x, r)\<in>set (srv_clients s). r < length (srv_heap s)"
    and "case input of Inl err \<Rightarrow> True | Inr samples \<Rightarrow> int (length samples) \<le> 2 ^ 32"
  obtains s' where "generateAndSendChunk libs now input s = Some s'" "audio_ready s'"
proof (cases input)
  case (Inl err)
  let ?s = "s\<lparr>srv_consecutiveReadErrs := srv_consecutiveReadErrs s + 1\<rparr>"
  have "audio_ready ?s" using assms(1) by (simp add: audio_ready_def)
  with audio_ready_notify [OF this]
  have "audio_ready (if srv_consecutiveReadErrs ?s = 50 then notifyStreamEnd ?s else ?s)" by (simp only: if_split) blast
  moreover have "generateAndSendChunk libs now input s =
      Some (if srv_consecutiveReadErrs ?s = 50 then notifyStreamEnd ?s else ?s)"
    unfolding generateAndSendChunk_def Inl Let_def by simp
  ultimately show thesis using that by blast
next
  case (Inr samples)
  have "\<forall>r\<in>set (map snd (srv_clients s)). r < length (srv_heap s)" using assms(2) by auto
  moreover have "list_all resampler_ready (srv_heap s)" "int (length samples) \<le> 2 ^ 32"
    using assms(1,3) Inr by (simp_all add: audio_ready_def)
  ultimately obtain h where h: "list_all resampler_ready h"
    "stream_all libs now (playback_time now) samples (map snd (srv_clients s)) (srv_heap s) = Some h"
    using stream_all_ready by blast
  have "audio_ready (s\<lparr>srv_consecutiveReadErrs := 0, srv_heap := h\<rparr>)"
    using assms(1) h(1) by (simp add: audio_ready_def)
  with that h(2) Inr show thesis by (simp add: generateAndSendChunk_def)
qed

lemma audio_ready_dispatch:
  assumes "audio_ready s" "dispatchRoleEvent env i (srv_heap s, srv_group s) = Some (h, g)"
  shows "audio_ready (s\<lparr>srv_heap := h, srv_group := g\<rparr>)"
proof -
  obtain e where e: "receive_event i (srv_group s) = Some (e, g)"
    and h: "h = fold (role_handle_event env (group_Clients g) e) (map snd (g_roles g)) (srv_heap s)"
    using assms(2) by (auto simp: dispatchRoleEvent_def)
  have fit: "roles_fit g" using assms(1) group_roles_kept(5) [OF e] by (simp add: audio_ready_def roles_fit_def)
  have "list_all resampler_ready h"
    unfolding h
  proof (rule list_all_fold)
    fix role and h :: "('a, 'b) heap"
    assume "role \<in> set (map snd (g_roles g))" "list_all resampler_ready h"
    then show "list_all resampler_ready (role_handle_event env (group_Clients g) e role h)"
      using fit by (intro role_event_ready) (auto simp: roles_fit_def list_all_iff)
  qed (use assms(1) in \<open>simp add: audio_ready_def\<close>)
  with fit show ?thesis by (simp add: audio_ready_def)
qed

lemma audio_ready_start:
  assumes "0 < cfg_SourceRate cfg" "cfg_SourceRate cfg \<le> 2 ^ 31" "0 < cfg_SourceChannels cfg"
  shows "audio_ready (NewServer cfg serverID new_opus new_flac)"
proof -
  have "roles_fit (RegisterRole role g)" if "role_fit role" "roles_fit g" for role and g :: "('a, 'b) role_group"
  proof -
    have "role_fit (attachToGroup role)" using that(1) by (cases role) simp_all
    moreover have "list_all P (AList.update k v xs)" if "list_all P xs" "P (k, v)" for P k v and xs :: "(string \<times> ('a, 'b) GroupRole) list"
      using that by (induction xs) auto
    ultimately have "list_all (\<lambda>x. role_fit (snd x)) (AList.update (role_family role) (attachToGroup role) (g_roles g))"
      using that(2) by (simp add: roles_fit_def)
    then show ?thesis by (simp add: RegisterRole_def Subscribe_def Let_def roles_fit_def)
  qed
  with assms show ?thesis by (simp add: audio_ready_def NewServer_def) (simp add: roles_fit_def NewGroup_def)
qed

end
