(* ===== verification/Server_System.thy ===== *)
theory Server_System
  imports Server_Audio
begin

text \<open>
  The server as a whole: every interleaving of handshakes, messages, disconnections, writers, ticks,
  the role dispatcher, the application and the shutdown, with the invariant that all of them keep.
  The messages each writer has taken are recorded beside the server's state, so that the history of
  a client's send channel can be spoken of.
\<close>

section \<open>The system\<close>

record ('o, 'f) srv_sys =
  y_srv :: "('o, 'f) Server"
  y_taken :: "outgoing list list"  \<comment> \<open>messages taken by each writer\<close>
  y_failed :: "bool list"          \<comment> \<open>writers whose last write failed\<close>

datatype srv_event =
    EvHello bool "json option"
  | EvGreet ref
  | EvJoin ref
  | EvMessage ref int int "json option"
  | EvClosed ref
  | EvRemoveEncoders ref
  | EvRemoveListing ref
  | EvRemoveFromGroup ref
  | EvRemoveDone ref
  | EvWriter ref bool
  | EvTick int "string + sample list"
  | EvDispatch role_env
  | EvSetPlayback string
  | EvShutdown
  | EvCloseGroup

abbreviation pc_of :: "('o, 'f) srv_sys \<Rightarrow> ref \<Rightarrow> conn_pc" where
  "pc_of y r \<equiv> srv_pcs (y_srv y) ! r"

definition at_pc :: "('o, 'f) srv_sys \<Rightarrow> ref \<Rightarrow> conn_pc \<Rightarrow> bool" where
  "at_pc y r pc \<longleftrightarrow> r < length (srv_heap (y_srv y)) \<and> pc_of y r = pc"

text \<open>
  Which goroutine steps are possible. The role dispatcher listens on subscription 0. A source returns no
  more samples than the buffer of 20 ms that it is given holds, which is far below the bound.
\<close>

fun srv_enabled :: "srv_event \<Rightarrow> ('o, 'f) srv_sys \<Rightarrow> bool" where
  "srv_enabled (EvGreet r) y = at_pc y r Registered"
| "srv_enabled (EvJoin r) y = at_pc y r Greeted"
| "srv_enabled (EvMessage r recv sent data) y = at_pc y r Serving"
| "srv_enabled (EvClosed r) y = at_pc y r Serving"
| "srv_enabled (EvRemoveEncoders r) y = at_pc y r Leaving"
| "srv_enabled (EvRemoveListing r) y = at_pc y r Cleared"
| "srv_enabled (EvRemoveFromGroup r) y = at_pc y r Unlisted"
| "srv_enabled (EvRemoveDone r) y = at_pc y r Ungrouped"
| "srv_enabled (EvWriter r ok) y =
     (r < length (srv_heap (y_srv y)) \<and> pc_of y r \<noteq> Registered \<and> \<not> y_failed y ! r \<and>
      chan_buf (sc_sendChan (srv_heap (y_srv y) ! r)) \<noteq> [])"
| "srv_enabled (EvDispatch env) y = (chan_buf (g_chans (srv_group (y_srv y)) 0) \<noteq> [])"
| "srv_enabled (EvTick now input) y =
     (case input of Inl err \<Rightarrow> True | Inr samples \<Rightarrow> int (length samples) \<le> 2 ^ 32)"
| "srv_enabled _ y = True"

definition on_srv :: "('o, 'f) srv_sys \<Rightarrow> ('o, 'f) Server option \<Rightarrow> ('o, 'f) srv_sys option" where
  "on_srv y r = map_option (\<lambda>s. y\<lparr>y_srv := s\<rparr>) r"

fun srv_do :: "('o, 'f) stream_libs \<Rightarrow> srv_event \<Rightarrow> ('o, 'f) srv_sys \<Rightarrow> ('o, 'f) srv_sys option" where
  "srv_do libs (EvHello admitted data) y =
     (let s = handle_hello admitted data (y_srv y)
      in Some (if length (srv_heap s) = length (srv_heap (y_srv y)) then y\<lparr>y_srv := s\<rparr>
               else y\<lparr>y_srv := s, y_taken := y_taken y @ [[]], y_failed := y_failed y @ [False]\<rparr>))"
| "srv_do libs (EvGreet r) y = Some (y\<lparr>y_srv := greet r (y_srv y)\<rparr>)"
| "srv_do libs (EvJoin r) y = on_srv y (join_group r (y_srv y))"
| "srv_do libs (EvMessage r recv sent data) y =
     on_srv y (map_option snd (handleClientMessage recv sent r data (y_srv y)))"
| "srv_do libs (EvClosed r) y = Some (y\<lparr>y_srv := set_pc r Leaving (y_srv y)\<rparr>)"
| "srv_do libs (EvRemoveEncoders r) y = Some (y\<lparr>y_srv := remove_encoders r (y_srv y)\<rparr>)"
| "srv_do libs (EvRemoveListing r) y = Some (y\<lparr>y_srv := remove_listing r (y_srv y)\<rparr>)"
| "srv_do libs (EvRemoveFromGroup r) y = on_srv y (remove_from_group r (y_srv y))"
| "srv_do libs (EvRemoveDone r) y = on_srv y (remove_done r (y_srv y))"
| "srv_do libs (EvWriter r ok) y =
     (case writer_turn ok (srv_heap (y_srv y) ! r) of
        None \<Rightarrow> Some y
      | Some (m, alive, c) \<Rightarrow>
          Some (y\<lparr>y_srv := upd_client r (\<lambda>_. c) (y_srv y),
                  y_taken := (y_taken y)[r := y_taken y ! r @ [m]],
                  y_failed := (y_failed y)[r := \<not> alive]\<rparr>))"
| "srv_do libs (EvTick now input) y = on_srv y (generateAndSendChunk libs now input (y_srv y))"
| "srv_do libs (EvDispatch env) y =
     on_srv y (map_option (\<lambda>(h, g). (y_srv y)\<lparr>srv_heap := h, srv_group := g\<rparr>)
       (dispatchRoleEvent env 0 (srv_heap (y_srv y), srv_group (y_srv y))))"
| "srv_do libs (EvSetPlayback st) y =
     on_srv y (map_option (\<lambda>g. (y_srv y)\<lparr>srv_group := g\<rparr>) (SetPlaybackState st (srv_group (y_srv y))))"
| "srv_do libs EvShutdown y = Some (y\<lparr>y_srv := begin_shutdown (y_srv y)\<rparr>)"
| "srv_do libs EvCloseGroup y = on_srv y (close_group (y_srv y))"

definition srv_start :: "('o, 'f) Server \<Rightarrow> ('o, 'f) srv_sys" where
  "srv_start s = \<lparr>y_srv = s, y_taken = [], y_failed = []\<rparr>"

inductive srv_reachable :: "('o, 'f) stream_libs \<Rightarrow> ('o, 'f) srv_sys \<Rightarrow> ('o, 'f) srv_sys \<Rightarrow> bool"
  for libs y0 where
  start: "srv_reachable libs y0 y0"
| step: "srv_reachable libs y0 y \<Longrightarrow> srv_enabled ev y \<Longrightarrow> srv_do libs ev y = Some y' \<Longrightarrow>
    srv_reachable libs y0 y'"

section \<open>Histories\<close>

text \<open>Everything ever queued for a client, and what has been written to its connection.\<close>

definition history :: "('o, 'f) srv_sys \<Rightarrow> ref \<Rightarrow> outgoing list" where
  "history y r = y_taken y ! r @ chan_buf (sc_sendChan (srv_heap (y_srv y) ! r))"

definition written :: "('o, 'f) srv_sys \<Rightarrow> ref \<Rightarrow> outgoing list" where
  "written y r = (if y_failed y ! r then butlast (y_taken y ! r) else y_taken y ! r)"

text \<open>
  The session messages are all messages but those of the audio goroutine, which sends audio frames and
  \<open>stream/end\<close> to every client that is listed, greeted or not.
\<close>

fun session_type :: "outgoing \<Rightarrow> string option" where
  "session_type (Control ty p) =
     (if ty = ''stream/end'' then None else Some ty)"
| "session_type (Frame d) = None"

abbreviation session :: "outgoing list \<Rightarrow> string list" where
  "session ms \<equiv> List.map_filter session_type ms"

abbreviation queued_session :: "('o, 'f) ServerClient \<Rightarrow> string list" where
  "queued_session c \<equiv> session (chan_buf (sc_sendChan c))"

text \<open>What follows the greeting and \<open>group/update\<close>: the messages of the roles, and the answers to the clock.\<close>

definition session_types :: "string set" where
  "session_types = {''stream/start'', ''server/state'', ''server/time''}"

lemma session_types_members [simp]:
  "''stream/start'' \<in> session_types" "''server/state'' \<in> session_types" "''server/time'' \<in> session_types"
  "''server/hello'' \<notin> session_types" "''group/update'' \<notin> session_types"
  by (simp_all add: session_types_def)

text \<open>A heap changes without touching identities; such messages go to the clients in \<open>J\<close> only.\<close>

definition client_step :: "bool \<Rightarrow> ('o, 'f) ServerClient \<Rightarrow> ('o, 'f) ServerClient \<Rightarrow> bool" where
  "client_step joined c c' \<longleftrightarrow> sc_id c' = sc_id c \<and> sc_name c' = sc_name c \<and>
     sc_roles c' = sc_roles c \<and> sc_done c' = sc_done c \<and>
     (\<exists>extra. queued_session c' = queued_session c @ extra \<and>
        set extra \<subseteq> session_types \<and> (\<not> joined \<longrightarrow> extra = []))"

definition heap_step :: "ref set \<Rightarrow> ('o, 'f) heap \<Rightarrow> ('o, 'f) heap \<Rightarrow> bool" where
  "heap_step J h h' \<longleftrightarrow> length h' = length h \<and> (\<forall>r < length h. client_step (r \<in> J) (h ! r) (h' ! r))"

lemma client_step_refl [simp]: "client_step j c c"
  by (simp add: client_step_def)

lemma client_step_trans: "client_step j a b \<Longrightarrow> client_step j b c \<Longrightarrow> client_step j a c"
proof -
  assume ab: "client_step j a b" and bc: "client_step j b c"
  from ab obtain e1 where e1: "queued_session b = queued_session a @ e1"
    "set e1 \<subseteq> session_types" "\<not> j \<longrightarrow> e1 = []"
    by (auto simp: client_step_def)
  from bc obtain e2 where e2: "queued_session c = queued_session b @ e2"
    "set e2 \<subseteq> session_types" "\<not> j \<longrightarrow> e2 = []"
    by (auto simp: client_step_def)
  have "\<exists>extra. queued_session c = queued_session a @ extra \<and>
      set extra \<subseteq> session_types \<and> (\<not> j \<longrightarrow> extra = [])"
    using e1 e2 by (intro exI [of _ "e1 @ e2"]) simp
  with ab bc show ?thesis by (simp add: client_step_def)
qed

lemma heap_step_refl [simp]: "heap_step J h h"
  by (simp add: heap_step_def)

lemma client_step_mono: "client_step j c c' \<Longrightarrow> j \<longrightarrow> j' \<Longrightarrow> client_step j' c c'"
  unfolding client_step_def by blast

lemma heap_step_mono: "heap_step J h h' \<Longrightarrow> J \<subseteq> J' \<Longrightarrow> heap_step J' h h'"
  unfolding heap_step_def using client_step_mono by blast

lemma heap_step_trans: "heap_step J a b \<Longrightarrow> heap_step J b c \<Longrightarrow> heap_step J a c"
  by (auto simp: heap_step_def intro: client_step_trans)

lemma heap_step_update:
  "client_step (r \<in> J) (h ! r) c \<Longrightarrow> heap_step J h (h[r := c])"
proof -
  assume c: "client_step (r \<in> J) (h ! r) c"
  have "client_step (k \<in> J) (h ! k) (h[r := c] ! k)" if "k < length h" for k
    using c that by (cases "k = r") simp_all
  then show ?thesis by (simp add: heap_step_def)
qed

lemma heap_step_fold:
  assumes "\<And>x h. x \<in> set xs \<Longrightarrow> heap_step J h (f x h)"
  shows "heap_step J h (fold f xs h)"
  using assms
proof (induction xs arbitrary: h)
  case (Cons x xs)
  then show ?case by (auto intro: heap_step_trans)
qed simp

lemma client_step_same_queue:
  "sc_sendChan c' = sc_sendChan c \<Longrightarrow> sc_id c' = sc_id c \<Longrightarrow> sc_name c' = sc_name c \<Longrightarrow>
   sc_roles c' = sc_roles c \<Longrightarrow> sc_done c' = sc_done c \<Longrightarrow> client_step j c c'"
  by (simp add: client_step_def)

lemma session_snoc [simp]:
  "session (ms @ [m]) = session ms @ (case session_type m of None \<Rightarrow> [] | Some ty \<Rightarrow> [ty])"
  by (simp add: map_filter_append map_filter_simps' split: option.split)

lemma client_step_try_send:
  assumes "session_type (Control ty p) = None \<or> (j \<and> ty \<in> session_types)"
  shows "client_step j c (try_send ty p c)"
  using assms by (auto simp: client_step_def try_send_eq)

lemma client_step_role_message: "j \<Longrightarrow> ty \<in> session_types \<Longrightarrow> client_step j c (try_send ty p c)"
  by (rule client_step_try_send) simp

lemma client_step_player_join: "client_step True c (player_OnClientJoin cfg c)"
proof (cases "HasRole c ''player''")
  case True
  then show ?thesis
    by (rule player_OnClientJoin_cases [where cfg = cfg])
      (auto intro!: client_step_trans [OF client_step_same_queue client_step_try_send])
qed (simp add: player_OnClientJoin_def)

lemma client_step_role_join: "client_step True c (role_OnClientJoin env role c)"
proof (cases role)
  case (PlayerRole cfg)
  then show ?thesis by (simp add: client_step_player_join)
next
  case (MetadataRole m)
  then show ?thesis
    by (auto simp: metadata_OnClientJoin_def intro: client_step_role_message split: option.split)
next
  case (ControllerRole c')
  then show ?thesis by (auto simp: controller_OnClientJoin_def intro: client_step_role_message)
qed

lemma heap_step_send_picked: "r \<in> J \<Longrightarrow> heap_step J h (send_picked pick r h)"
  by (auto simp: send_picked_def intro!: heap_step_update client_step_try_send split: option.split)

lemma heap_step_send_to_members: "set rs \<subseteq> J \<Longrightarrow> heap_step J h (send_to_members pick rs h)"
  unfolding send_to_members_def by (rule heap_step_fold) (auto intro: heap_step_send_picked)

text \<open>The clients a bus event speaks of.\<close>

fun joins_of :: "Event \<Rightarrow> ref set" where
  "joins_of (ClientJoinedEvent r) = {r}"
| "joins_of _ = {}"

lemma heap_step_role_event:
  assumes "set members \<subseteq> J" "joins_of e \<subseteq> J"
  shows "heap_step J h (role_handle_event env members e role h)"
proof (cases e)
  case (ClientJoinedEvent r)
  with assms(2) client_step_role_join [of "h ! r" env role] show ?thesis
    by (auto intro!: heap_step_update)
next
  case (GroupPlaybackStateChangedEvent old new)
  with assms(1) show ?thesis
    by (auto simp: OnPlaybackStateChanged_def metadata_broadcast_def intro: heap_step_send_to_members
        split: GroupRole.split)
qed simp_all

lemma client_step_chunk: "client_step j c (send_chunk now pt d c)"
  by (rule send_chunk_cases [of c now pt d]) (auto simp: client_step_def)

lemma encode_chunk_identity:
  "encode_chunk libs samples c = Some (r, c') \<Longrightarrow> sc_name c' = sc_name c \<and> sc_done c' = sc_done c"
  by (auto simp: encode_chunk_def Let_def opus_input_def split: if_splits option.splits prod.splits sum.splits)

lemma client_step_stream:
  assumes "stream_to_client libs now pt samples c = Some c'"
  shows "client_step j c c'"
proof -
  obtain r c1 where enc: "encode_chunk libs samples c = Some (r, c1)"
    using assms by (auto simp: stream_to_client_def split: option.splits)
  have "client_step j c c1"
    using encode_chunk_keeps [OF enc] encode_chunk_identity [OF enc] by (intro client_step_same_queue) simp_all
  moreover have "client_step j c1 c'"
    using assms enc by (cases r) (auto simp: stream_to_client_def client_step_chunk)
  ultimately show ?thesis by (rule client_step_trans)
qed

lemma heap_step_stream_all:
  "stream_all libs now pt samples rs h = Some h' \<Longrightarrow> heap_step J h h'"
proof (induction rs arbitrary: h)
  case Nil
  then show ?case by simp
next
  case (Cons r rs)
  then obtain c where c: "stream_to_client libs now pt samples (h ! r) = Some c"
    and rest: "stream_all libs now pt samples rs (h[r := c]) = Some h'"
    by (auto split: option.splits)
  have "heap_step J h (h[r := c])" by (rule heap_step_update) (rule client_step_stream [OF c])
  with Cons.IH [OF rest] show ?case by (blast intro: heap_step_trans)
qed

lemma heap_step_notify: "heap_step J (srv_heap s) (srv_heap (notifyStreamEnd s))"
  unfolding notifyStreamEnd_def
  by (auto intro!: heap_step_fold heap_step_update client_step_try_send)

lemma heap_step_tick:
  "generateAndSendChunk libs now input s = Some s' \<Longrightarrow> heap_step J (srv_heap s) (srv_heap s') \<and>
     srv_pcs s' = srv_pcs s \<and> srv_clients s' = srv_clients s \<and> srv_group s' = srv_group s"
  using heap_step_notify [of J "s\<lparr>srv_consecutiveReadErrs := srv_consecutiveReadErrs s + 1\<rparr>"]
  by (auto simp: generateAndSendChunk_def Let_def heap_step_stream_all notifyStreamEnd_def split: sum.splits)

section \<open>The invariant\<close>

definition listed_pcs :: "conn_pc set" where
  "listed_pcs = {Registered, Greeted, Serving, Leaving, Cleared}"

text \<open>The clients that role messages may go to: the members, and those whose join is on the bus.\<close>

definition joined :: "'r Group \<Rightarrow> ref set" where
  "joined g = snd ` set (g_clients g) \<union> (\<Union>i. \<Union>e\<in>set (chan_buf (g_chans g i)). joins_of e)"

text \<open>Where a connection stands while it can be a member of the group.\<close>

definition member_pcs :: "conn_pc set" where
  "member_pcs = {Serving, Leaving, Cleared, Unlisted}"

text \<open>The order of the session messages of a connection.\<close>

definition session_ok :: "conn_pc \<Rightarrow> string list \<Rightarrow> bool" where
  "session_ok pc ss \<longleftrightarrow>
     (pc = Registered \<longrightarrow> ss = []) \<and> (pc = Greeted \<longrightarrow> ss = [''server/hello'']) \<and>
     (pc = Serving \<longrightarrow> ss \<noteq> []) \<and>
     (ss = [] \<or> (\<exists>rest. ss = ''server/hello'' # rest \<and> ''server/hello'' \<notin> set rest \<and>
        (''group/update'' \<notin> set rest \<or>
         (\<exists>rest'. rest = ''group/update'' # rest' \<and> ''group/update'' \<notin> set rest'))))"

definition inv_shape :: "('o, 'f) srv_sys \<Rightarrow> bool" where
  "inv_shape y \<longleftrightarrow> length (srv_pcs (y_srv y)) = length (srv_heap (y_srv y)) \<and>
     length (y_taken y) = length (srv_heap (y_srv y)) \<and> length (y_failed y) = length (srv_heap (y_srv y))"

definition inv_listed :: "('o, 'f) srv_sys \<Rightarrow> bool" where
  "inv_listed y \<longleftrightarrow> distinct (map fst (srv_clients (y_srv y))) \<and>
     (\<forall>x r. (x, r) \<in> set (srv_clients (y_srv y)) \<longleftrightarrow>
        r < length (srv_heap (y_srv y)) \<and> pc_of y r \<in> listed_pcs \<and> sc_id (srv_heap (y_srv y) ! r) = x)"

definition inv_done :: "('o, 'f) srv_sys \<Rightarrow> bool" where
  "inv_done y \<longleftrightarrow> (\<forall>r < length (srv_heap (y_srv y)). sc_done (srv_heap (y_srv y) ! r) \<longleftrightarrow> pc_of y r = Gone)"

definition inv_group :: "('o, 'f) srv_sys \<Rightarrow> bool" where
  "inv_group y \<longleftrightarrow> group_wf (srv_group (y_srv y)) \<and> 0 < g_nextSub (srv_group (y_srv y)) \<and>
     (\<forall>(x, r) \<in> set (g_clients (srv_group (y_srv y))).
        r < length (srv_heap (y_srv y)) \<and> sc_id (srv_heap (y_srv y) ! r) = x \<and> pc_of y r \<in> member_pcs)"

definition greeted :: "('o, 'f) srv_sys \<Rightarrow> ref set" where
  "greeted y = {r. r < length (srv_heap (y_srv y)) \<and> pc_of y r \<notin> {Registered, Greeted} \<and>
     session (history y r) \<noteq> []}"

definition inv_joined :: "('o, 'f) srv_sys \<Rightarrow> bool" where
  "inv_joined y \<longleftrightarrow> (\<forall>r \<in> joined (srv_group (y_srv y)). r < length (srv_heap (y_srv y)) \<and>
     pc_of y r \<notin> {Registered, Greeted} \<and> session (history y r) \<noteq> [])"

definition inv_session :: "('o, 'f) srv_sys \<Rightarrow> bool" where
  "inv_session y \<longleftrightarrow> (\<forall>r < length (srv_heap (y_srv y)). session_ok (pc_of y r) (session (history y r)))"

definition sys_inv :: "('o, 'f) srv_sys \<Rightarrow> bool" where
  "sys_inv y \<longleftrightarrow> inv_shape y \<and> inv_listed y \<and> inv_done y \<and> inv_group y \<and> inv_joined y \<and> inv_session y"

lemmas inv_defs = inv_shape_def inv_listed_def inv_done_def inv_group_def

text \<open>What the groups of the operations bring to the bus.\<close>

lemma joined_published: "joined (published e g) \<subseteq> joined g \<union> joins_of e"
  by (auto simp: joined_def published_chan deliver_def chan_put_def split: if_splits)

lemma joined_sub_clients:
  "set cs \<subseteq> set (g_clients g) \<Longrightarrow> joined (g\<lparr>g_clients := cs\<rparr>) \<subseteq> joined g"
  by (auto simp: joined_def)

lemma joined_state [simp]: "joined (g\<lparr>g_playbackState := st\<rparr>) = joined g"
  by (simp add: joined_def)

lemma joined_mono:
  assumes "\<And>j. set (chan_buf (g_chans g' j)) \<subseteq> set (chan_buf (g_chans g j))"
    and "set (g_clients g') \<subseteq> set (g_clients g)"
  shows "joined g' \<subseteq> joined g"
  unfolding joined_def using assms by blast

lemma joined_receive:
  assumes "receive_event i g = Some (e, g')"
  shows "joined g' \<subseteq> joined g" "joins_of e \<subseteq> joined g" "g_clients g' = g_clients g"
    "g_nextSub g' = g_nextSub g" "snd ` set (g_clients g) \<subseteq> joined g"
proof -
  obtain es where es: "chan_buf (g_chans g i) = e # es"
    and g': "g' = g\<lparr>g_chans := (g_chans g)(i := (g_chans g i)\<lparr>chan_buf := es\<rparr>)\<rparr>"
    using assms by (auto simp: receive_event_Some)
  have "set (chan_buf (g_chans g' j)) \<subseteq> set (chan_buf (g_chans g j))" for j
    using es by (auto simp: g')
  then show "joined g' \<subseteq> joined g"
    by (rule joined_mono) (simp add: g')
  have "e \<in> set (chan_buf (g_chans g i))" using es by simp
  then show "joins_of e \<subseteq> joined g" by (auto simp: joined_def)
  show "g_clients g' = g_clients g" "g_nextSub g' = g_nextSub g" by (simp_all add: g')
  show "snd ` set (g_clients g) \<subseteq> joined g" by (auto simp: joined_def)
qed

lemma session_ok_append:
  assumes "session_ok pc ss" "ss \<noteq> []" "pc \<notin> {Registered, Greeted}"
    and "set extra \<subseteq> session_types"
  shows "session_ok pc (ss @ extra)"
proof -
  have no: "''server/hello'' \<notin> set extra" "''group/update'' \<notin> set extra"
    using assms(4) session_types_members(4,5) by blast+
  obtain rest where rest: "ss = ''server/hello'' # rest" "''server/hello'' \<notin> set rest"
    "''group/update'' \<notin> set rest \<or> (\<exists>rest'. rest = ''group/update'' # rest' \<and> ''group/update'' \<notin> set rest')"
    using assms(1,2) by (auto simp: session_ok_def)
  then have "''group/update'' \<notin> set (rest @ extra) \<or>
      (\<exists>rest'. rest @ extra = ''group/update'' # rest' \<and> ''group/update'' \<notin> set rest')"
    using no by auto
  with rest no assms(3) show ?thesis by (simp add: session_ok_def)
qed

lemma session_ok_pc:
  "session_ok pc ss \<Longrightarrow> pc' \<notin> {Registered, Greeted} \<Longrightarrow> pc' = Serving \<longrightarrow> pc = Greeted \<Longrightarrow> session_ok pc' ss"
  by (simp add: session_ok_def)

lemma session_history: "session (history y r) = session (y_taken y ! r) @ queued_session (srv_heap (y_srv y) ! r)"
  by (simp add: history_def map_filter_append)

text \<open>
  Operations that leave the connections where they are, send role messages to joined clients only
  and bring no new join to the bus keep the invariant.
\<close>

lemma sys_inv_transfer:
  assumes inv: "sys_inv y"
    and hs: "heap_step (greeted y) (srv_heap (y_srv y)) (srv_heap (y_srv y'))"
    and same: "srv_pcs (y_srv y') = srv_pcs (y_srv y)" "srv_clients (y_srv y') = srv_clients (y_srv y)"
      "y_taken y' = y_taken y" "y_failed y' = y_failed y"
    and grp: "group_wf (srv_group (y_srv y'))" "0 < g_nextSub (srv_group (y_srv y'))"
      "set (g_clients (srv_group (y_srv y'))) \<subseteq> set (g_clients (srv_group (y_srv y)))"
      "joined (srv_group (y_srv y')) \<subseteq> joined (srv_group (y_srv y))"
  shows "sys_inv y'"
proof -
  have len: "length (srv_heap (y_srv y')) = length (srv_heap (y_srv y))"
    using hs by (simp add: heap_step_def)
  have keep: "sc_id (srv_heap (y_srv y') ! r) = sc_id (srv_heap (y_srv y) ! r)"
    "sc_done (srv_heap (y_srv y') ! r) = sc_done (srv_heap (y_srv y) ! r)"
    if "r < length (srv_heap (y_srv y))" for r
    using hs that by (simp_all add: heap_step_def client_step_def)
  have shape: "inv_shape y'" using inv same len by (simp add: sys_inv_def inv_shape_def)
  have "(r < length (srv_heap (y_srv y')) \<and> pc_of y' r \<in> listed_pcs \<and> sc_id (srv_heap (y_srv y') ! r) = x) =
      (r < length (srv_heap (y_srv y)) \<and> pc_of y r \<in> listed_pcs \<and> sc_id (srv_heap (y_srv y) ! r) = x)" for x r
    using same(1) len keep(1) by auto
  then have listed: "inv_listed y'"
    using inv same(2) unfolding sys_inv_def inv_listed_def by simp
  have fin: "inv_done y'" using inv same len keep by (simp add: sys_inv_def inv_done_def)
  have "\<forall>(x, r) \<in> set (g_clients (srv_group (y_srv y'))).
        r < length (srv_heap (y_srv y)) \<and> sc_id (srv_heap (y_srv y) ! r) = x \<and> pc_of y r \<in> member_pcs"
    using inv grp(3) unfolding sys_inv_def inv_group_def by blast
  then have group: "inv_group y'"
    using grp(1,2) len keep(1) same(1) unfolding inv_group_def by auto
  have extra: "\<exists>extra. session (history y' r) = session (history y r) @ extra \<and>
      set extra \<subseteq> session_types \<and> (r \<notin> greeted y \<longrightarrow> extra = [])"
    if "r < length (srv_heap (y_srv y))" for r
    using hs that same by (auto simp: heap_step_def client_step_def session_history)
  have joined: "inv_joined y'"
    unfolding inv_joined_def
  proof
    fix r assume "r \<in> joined (srv_group (y_srv y'))"
    then have "r \<in> joined (srv_group (y_srv y))" using grp(4) by blast
    then have "r < length (srv_heap (y_srv y)) \<and> pc_of y r \<notin> {Registered, Greeted} \<and> session (history y r) \<noteq> []"
      using inv by (simp add: sys_inv_def inv_joined_def)
    with extra [of r] same len
    show "r < length (srv_heap (y_srv y')) \<and> pc_of y' r \<notin> {Registered, Greeted} \<and> session (history y' r) \<noteq> []"
      by auto
  qed
  have session: "inv_session y'"
    unfolding inv_session_def
  proof (intro allI impI)
    fix r assume r: "r < length (srv_heap (y_srv y'))"
    then have ok: "session_ok (pc_of y r) (session (history y r))"
      using inv len by (simp add: sys_inv_def inv_session_def)
    obtain extra where e: "session (history y' r) = session (history y r) @ extra"
      "set extra \<subseteq> session_types"
      "r \<notin> greeted y \<longrightarrow> extra = []"
      using extra [of r] r len by auto
    show "session_ok (pc_of y' r) (session (history y' r))"
    proof (cases "r \<in> greeted y")
      case True
      then have "pc_of y r \<notin> {Registered, Greeted}" "session (history y r) \<noteq> []"
        by (simp_all add: greeted_def)
      with ok e same show ?thesis by (simp add: session_ok_append)
    next
      case False
      with ok e same show ?thesis by simp
    qed
  qed
  show ?thesis
    using shape listed fin group joined session by (simp add: sys_inv_def)
qed

section \<open>Every step keeps it\<close>

text \<open>A goroutine that moves on without leaving the server's map or finishing.\<close>

lemma set_pc_simps [simp]:
  "srv_heap (set_pc r pc s) = srv_heap s" "srv_clients (set_pc r pc s) = srv_clients s"
  "srv_group (set_pc r pc s) = srv_group s" "srv_pcs (set_pc r pc s) = (srv_pcs s)[r := pc]"
  by (simp_all add: set_pc_def)

lemma upd_client_simps [simp]:
  "srv_heap (upd_client r f s) = (srv_heap s)[r := f (srv_heap s ! r)]"
  "srv_clients (upd_client r f s) = srv_clients s" "srv_group (upd_client r f s) = srv_group s"
  "srv_pcs (upd_client r f s) = srv_pcs s"
  by (simp_all add: upd_client_def)

lemma sys_inv_pc:
  assumes inv: "sys_inv y" and r: "at_pc y r old"
    and new: "new \<notin> {Registered, Greeted}" "new \<in> listed_pcs \<longleftrightarrow> old \<in> listed_pcs" "new = Gone \<longleftrightarrow> old = Gone"
      "new = Serving \<longrightarrow> old = Greeted"
      "new \<in> member_pcs \<or> r \<notin> snd ` set (g_clients (srv_group (y_srv y)))"
  shows "sys_inv (y\<lparr>y_srv := set_pc r new (y_srv y)\<rparr>)"
proof -
  let ?y = "y\<lparr>y_srv := set_pc r new (y_srv y)\<rparr>"
  have len: "r < length (srv_pcs (y_srv y))" and old: "pc_of y r = old"
    using inv r by (simp_all add: sys_inv_def inv_shape_def at_pc_def)
  have pc: "(srv_pcs (y_srv y))[r := new] ! k = (if k = r then new else pc_of y k)" for k
    using len by (cases "k = r") simp_all
  have hist: "history ?y k = history y k" for k by (simp add: history_def)
  have shape: "inv_shape ?y" using inv by (simp add: sys_inv_def inv_shape_def)
  have "pc_of ?y k \<in> listed_pcs \<longleftrightarrow> pc_of y k \<in> listed_pcs" for k
    using new(2) old by (simp add: pc)
  then have listed: "inv_listed ?y"
    using inv unfolding sys_inv_def inv_listed_def by simp
  have "pc_of ?y k = Gone \<longleftrightarrow> pc_of y k = Gone" for k
    using new(3) old by (simp add: pc)
  then have fin: "inv_done ?y"
    using inv unfolding sys_inv_def inv_done_def by simp
  have group: "inv_group ?y"
    using inv new(5) unfolding sys_inv_def inv_group_def by (auto simp: pc image_iff)
  have joined: "inv_joined ?y"
    using inv new(1) unfolding sys_inv_def inv_joined_def hist by (simp add: pc)
  have session: "inv_session ?y"
    using inv session_ok_pc [OF _ new(1)] new(4) old unfolding sys_inv_def inv_session_def hist
    by (auto simp: pc)
  show ?thesis using shape listed fin group joined session by (simp add: sys_inv_def)
qed

lemma sys_inv_group_wf: "sys_inv y \<Longrightarrow> group_wf (srv_group (y_srv y))"
  by (simp add: sys_inv_def inv_group_def)

lemma sys_inv_sub: "sys_inv y \<Longrightarrow> 0 < g_nextSub (srv_group (y_srv y))"
  by (simp add: sys_inv_def inv_group_def)

lemma joined_greeted: "sys_inv y \<Longrightarrow> joined (srv_group (y_srv y)) \<subseteq> greeted y"
  by (auto simp: sys_inv_def inv_joined_def greeted_def)

lemma serving_greeted: "sys_inv y \<Longrightarrow> at_pc y r Serving \<Longrightarrow> r \<in> greeted y"
  by (auto simp: sys_inv_def inv_session_def session_ok_def at_pc_def greeted_def)

lemma heap_step_upd:
  "client_step (r \<in> J) (h ! r) (f (h ! r)) \<Longrightarrow> heap_step J h (h[r := f (h ! r)])"
  by (rule heap_step_update)

text \<open>Messages.\<close>

lemma handleClientMessage_total:
  assumes "group_wf (srv_group s)" "r \<in> J"
  obtains cmds s' where "handleClientMessage recv sent r data s = Some (cmds, s')"
    "heap_step J (srv_heap s) (srv_heap s')" "srv_pcs s' = srv_pcs s" "srv_clients s' = srv_clients s"
    "group_wf (srv_group s')" "g_nextSub (srv_group s') = g_nextSub (srv_group s)"
    "g_clients (srv_group s') = g_clients (srv_group s)" "joined (srv_group s') \<subseteq> joined (srv_group s)"
proof -
  let ?ok = "\<lambda>s'. heap_step J (srv_heap s) (srv_heap s') \<and> srv_pcs s' = srv_pcs s \<and>
    srv_clients s' = srv_clients s \<and> group_wf (srv_group s') \<and>
    g_nextSub (srv_group s') = g_nextSub (srv_group s) \<and>
    g_clients (srv_group s') = g_clients (srv_group s) \<and> joined (srv_group s') \<subseteq> joined (srv_group s)"
  have refl: "?ok s" using assms(1) by simp
  have time: "?ok (handleTimeSync recv sent r p s)" for p
    using assms
    by (auto simp: handleTimeSync_def intro!: heap_step_upd client_step_role_message split: option.split)
  have bye: "?ok (handleClientGoodbye r p s)" for p
    using assms by (auto simp: handleClientGoodbye_def setGoodbyeReason_def
        intro!: heap_step_upd client_step_same_queue split: option.split)
  have state: "\<exists>s'. handleClientState r p s = Some s' \<and> ?ok s'" for p
  proof (cases "dec_ClientStateMessage p")
    case None
    with refl show ?thesis by (simp add: handleClientState_def)
  next
    case (Some ops)
    show ?thesis
    proof (cases ops)
      case None
      with Some refl show ?thesis by (simp add: handleClientState_def)
    next
      case (Some ps)
      let ?e = "ClientStateChangedEvent r (pst_State ps) (pst_Volume ps) (pst_Muted ps)"
      let ?s = "upd_client r (\<lambda>c. c\<lparr>sc_state := pst_State ps, sc_volume := pst_Volume ps, sc_muted := pst_Muted ps\<rparr>) s"
      have pub: "publishLocked ?e (srv_group s)
          = Some (if g_closed (srv_group s) then srv_group s else published ?e (srv_group s))"
        by (rule publishLocked_open [OF group_wf_subs_open [OF assms(1)]])
      have "heap_step J (srv_heap s) (srv_heap ?s)"
        by (auto intro!: heap_step_upd client_step_same_queue)
      with pub Some \<open>dec_ClientStateMessage p = Some ops\<close> show ?thesis
        using assms published_wf [OF assms(1), of ?e] joined_published [of ?e "srv_group s"]
        by (auto simp: handleClientState_def Let_def)
    qed
  qed
  have "\<exists>cmds s'. handleClientMessage recv sent r data s = Some (cmds, s') \<and> ?ok s'"
  proof (cases "Option.bind data dec_Message")
    case None
    with refl show ?thesis by (simp add: handleClientMessage_def)
  next
    case (Some m)
    obtain t p where "m = (t, p)" by (cases m)
    with Some refl time [of p] bye [of p] state [of p] show ?thesis
      unfolding handleClientMessage_def by simp
  qed
  with that show ?thesis by blast
qed

text \<open>A new connection.\<close>

lemma sys_inv_hello:
  assumes inv: "sys_inv y"
  shows "sys_inv (the (srv_do libs (EvHello admitted data) y))"
proof (cases "\<exists>hello. admitted \<and> parse_hello data = Inr hello \<and>
    map_of (srv_clients (y_srv y)) (ch_ClientID hello) = None")
  case False
  then have "handle_hello admitted data (y_srv y) = y_srv y"
    by (auto simp: handle_hello_def accept_hello_def split: sum.splits)
  with inv show ?thesis by simp
next
  case True
  then obtain hello where h: "admitted" "parse_hello data = Inr hello"
    and fresh: "map_of (srv_clients (y_srv y)) (ch_ClientID hello) = None" by blast
  let ?s = "y_srv y" and ?n = "length (srv_heap (y_srv y))"
  define c :: "('a, 'b) ServerClient" where
    "c = new_client (ch_ClientID hello) (ch_Name hello) (ch_SupportedRoles hello) (ch_PlayerV1Support hello)"
  define y' where "y' = y\<lparr>y_srv := ?s\<lparr>srv_heap := srv_heap ?s @ [c], srv_pcs := srv_pcs ?s @ [Registered],
      srv_clients := srv_clients ?s @ [(ch_ClientID hello, ?n)]\<rparr>,
      y_taken := y_taken y @ [[]], y_failed := y_failed y @ [False]\<rparr>"
  have do: "the (srv_do libs (EvHello admitted data) y) = y'"
    using h fresh by (simp add: handle_hello_def accept_hello_def Let_def y'_def c_def)
  have lens: "length (srv_pcs ?s) = ?n" "length (y_taken y) = ?n" "length (y_failed y) = ?n"
    using inv by (simp_all add: sys_inv_def inv_shape_def)
  have nth: "srv_heap (y_srv y') ! r = (if r < ?n then srv_heap ?s ! r else c)"
    "pc_of y' r = (if r < ?n then pc_of y r else Registered)"
    "y_taken y' ! r = (if r < ?n then y_taken y ! r else [])" if "r < Suc ?n" for r
    using that lens by (auto simp: y'_def nth_append less_Suc_eq)
  have c: "sc_id c = ch_ClientID hello" "\<not> sc_done c" "queued_session c = []"
    by (simp_all add: c_def new_client_def map_filter_simps')
  have fields: "length (srv_heap (y_srv y')) = Suc ?n" "srv_group (y_srv y') = srv_group ?s"
    "srv_clients (y_srv y') = srv_clients ?s @ [(ch_ClientID hello, ?n)]"
    by (simp_all add: y'_def)
  have hist: "session (history y' r) = (if r < ?n then session (history y r) else [])" if "r < Suc ?n" for r
    using nth [OF that] c by (simp add: session_history map_filter_simps')
  have "inv_shape y'" using lens by (simp add: inv_shape_def y'_def)
  moreover have "inv_listed y'"
    unfolding inv_listed_def
  proof (intro conjI allI)
    show "distinct (map fst (srv_clients (y_srv y')))"
      using inv fresh by (simp add: fields sys_inv_def inv_listed_def map_of_eq_None_iff)
  next
    fix x r
    have old: "(x, r) \<in> set (srv_clients ?s) \<longleftrightarrow> r < ?n \<and> pc_of y r \<in> listed_pcs \<and> sc_id (srv_heap ?s ! r) = x"
      using inv by (simp add: sys_inv_def inv_listed_def)
    show "(x, r) \<in> set (srv_clients (y_srv y')) \<longleftrightarrow>
        r < length (srv_heap (y_srv y')) \<and> pc_of y' r \<in> listed_pcs \<and> sc_id (srv_heap (y_srv y') ! r) = x"
    proof (cases "r < Suc ?n")
      case True
      then show ?thesis
        using old nth [OF True] c(1) unfolding fields
        by (cases "r < ?n") (auto simp: listed_pcs_def)
    next
      case False
      with old show ?thesis by (simp add: fields)
    qed
  qed
  moreover have "inv_done y'"
    unfolding inv_done_def fields
  proof (intro allI impI)
    fix r assume r: "r < Suc ?n"
    show "sc_done (srv_heap (y_srv y') ! r) \<longleftrightarrow> pc_of y' r = Gone"
      using inv c(2) unfolding nth [OF r] by (simp add: sys_inv_def inv_done_def)
  qed
  moreover have "inv_group y'"
    unfolding inv_group_def fields
  proof (intro conjI ballI)
    fix xr assume "xr \<in> set (g_clients (srv_group ?s))"
    then have "case xr of (x, r) \<Rightarrow> r < ?n \<and> sc_id (srv_heap ?s ! r) = x \<and> pc_of y r \<in> member_pcs"
      using inv unfolding sys_inv_def inv_group_def by blast
    then show "case xr of (x, r) \<Rightarrow> r < Suc ?n \<and> sc_id (srv_heap (y_srv y') ! r) = x \<and> pc_of y' r \<in> member_pcs"
      using nth by (cases xr) simp
  qed (use inv in \<open>simp_all add: sys_inv_def inv_group_def\<close>)
  moreover have "inv_joined y'"
    using inv nth(2) hist unfolding sys_inv_def inv_joined_def fields by force
  moreover have "inv_session y'"
    unfolding inv_session_def fields
  proof (intro allI impI)
    fix r assume r: "r < Suc ?n"
    show "session_ok (pc_of y' r) (session (history y' r))"
      using inv unfolding nth(2) [OF r] hist [OF r]
      by (simp add: sys_inv_def inv_session_def session_ok_def)
  qed
  ultimately show ?thesis unfolding do by (simp add: sys_inv_def)
qed

text \<open>The greeting, the join and the writer.\<close>

lemma sys_inv_greet:
  assumes inv: "sys_inv y" and r: "at_pc y r Registered"
  shows "sys_inv (y\<lparr>y_srv := greet r (y_srv y)\<rparr>)"
proof (cases "chan_room (sc_sendChan (srv_heap (y_srv y) ! r))")
  case False
  then have "greet r (y_srv y) = set_pc r Leaving (y_srv y)"
    by (simp add: greet_def Send_def send_outgoing_def chan_offer_def set_pc_def)
  moreover have "Leaving \<notin> {Registered, Greeted}" "Leaving \<in> listed_pcs \<longleftrightarrow> Registered \<in> listed_pcs"
    "Leaving = Gone \<longleftrightarrow> Registered = Gone" "Leaving = Serving \<longrightarrow> Registered = Greeted"
    "Leaving \<in> member_pcs" by (simp_all add: listed_pcs_def member_pcs_def)
  ultimately show ?thesis using sys_inv_pc [OF inv r] by simp
next
  case True
  let ?s = "y_srv y"
  define m where "m = Control ''server/hello'' (ServerHelloP (server_hello ?s (srv_heap ?s ! r)))"
  define c where "c = (srv_heap ?s ! r)\<lparr>sc_sendChan := chan_put m (sc_sendChan (srv_heap ?s ! r))\<rparr>"
  define y' where "y' = y\<lparr>y_srv := ?s\<lparr>srv_heap := (srv_heap ?s)[r := c], srv_pcs := (srv_pcs ?s)[r := Greeted]\<rparr>\<rparr>"
  have do: "y\<lparr>y_srv := greet r ?s\<rparr> = y'"
    using True by (simp add: greet_def Send_def send_outgoing_def chan_offer_def y'_def c_def m_def Let_def)
  have rn: "r < length (srv_heap ?s)" and old: "pc_of y r = Registered"
    and lens: "length (srv_pcs ?s) = length (srv_heap ?s)"
    using inv r by (simp_all add: at_pc_def sys_inv_def inv_shape_def)
  have nth: "srv_heap (y_srv y') ! k = (if k = r then c else srv_heap ?s ! k)"
    "pc_of y' k = (if k = r then Greeted else pc_of y k)" for k
    using rn lens by (simp_all add: y'_def)
  have fields: "length (srv_heap (y_srv y')) = length (srv_heap ?s)" "srv_group (y_srv y') = srv_group ?s"
    "srv_clients (y_srv y') = srv_clients ?s" "y_taken y' = y_taken y"
    by (simp_all add: y'_def)
  have empty: "session (history y r) = []"
    using inv rn old by (simp add: sys_inv_def inv_session_def session_ok_def)
  have keep: "sc_id c = sc_id (srv_heap ?s ! r)" "sc_done c = sc_done (srv_heap ?s ! r)"
    by (simp_all add: c_def)
  have "history y' r = history y r @ [m]"
    by (simp add: history_def fields nth c_def)
  then have hello: "session (history y' r) = [''server/hello'']"
    using empty by (simp add: m_def)
  have other: "session (history y' k) = session (history y k)" if "k \<noteq> r" for k
    using that by (simp add: history_def fields nth)
  have "inv_shape y'" using inv lens by (simp add: sys_inv_def inv_shape_def y'_def)
  moreover have "inv_listed y'"
    using inv old keep(1) unfolding sys_inv_def inv_listed_def fields nth by (auto simp: listed_pcs_def)
  moreover have "inv_done y'"
    using inv old keep(2) rn unfolding sys_inv_def inv_done_def fields nth by auto
  moreover have "inv_group y'"
    using inv keep(1) old unfolding sys_inv_def inv_group_def fields nth by (auto simp: member_pcs_def)
  moreover have "inv_joined y'"
    using inv old other unfolding sys_inv_def inv_joined_def fields nth by force
  moreover have "inv_session y'"
    using inv hello other unfolding sys_inv_def inv_session_def fields nth(2) by (auto simp: session_ok_def)
  ultimately show ?thesis unfolding do by (simp add: sys_inv_def)
qed

lemma sys_inv_writer:
  assumes inv: "sys_inv y" and rn: "r < length (srv_heap (y_srv y))"
    and m: "chan_buf (sc_sendChan (srv_heap (y_srv y) ! r)) = m # ms"
  shows "sys_inv (y\<lparr>y_srv := upd_client r (\<lambda>c. c\<lparr>sc_sendChan := (sc_sendChan c)\<lparr>chan_buf := ms\<rparr>\<rparr>) (y_srv y),
    y_taken := (y_taken y)[r := y_taken y ! r @ [m]], y_failed := (y_failed y)[r := b]\<rparr>)"
    (is "sys_inv ?y'")
proof -
  let ?s = "y_srv y"
  define c where "c = (srv_heap ?s ! r)\<lparr>sc_sendChan := (sc_sendChan (srv_heap ?s ! r))\<lparr>chan_buf := ms\<rparr>\<rparr>"
  have lens: "length (y_taken y) = length (srv_heap ?s)" using inv by (simp add: sys_inv_def inv_shape_def)
  have nth: "(srv_heap ?s)[r := c] ! k = (if k = r then c else srv_heap ?s ! k)"
    "(y_taken y)[r := y_taken y ! r @ [m]] ! k = (if k = r then y_taken y ! r @ [m] else y_taken y ! k)" for k
    using rn lens by simp_all
  have keep: "sc_id c = sc_id (srv_heap ?s ! r)" "sc_done c = sc_done (srv_heap ?s ! r)"
    by (simp_all add: c_def)
  have y': "?y' = y\<lparr>y_srv := ?s\<lparr>srv_heap := (srv_heap ?s)[r := c]\<rparr>,
      y_taken := (y_taken y)[r := y_taken y ! r @ [m]], y_failed := (y_failed y)[r := b]\<rparr>"
    by (simp add: upd_client_def c_def)
  have hist: "history ?y' k = history y k" for k
    unfolding y' history_def using m nth [of k] by (cases "k = r") (simp_all add: c_def)
  have "inv_shape ?y'" using inv unfolding y' by (simp add: sys_inv_def inv_shape_def)
  moreover have "inv_listed ?y'"
    using inv keep(1) unfolding y' sys_inv_def inv_listed_def by (auto simp: nth)
  moreover have "inv_done ?y'"
    using inv keep(2) unfolding y' sys_inv_def inv_done_def by (auto simp: nth)
  moreover have "inv_group ?y'"
    using inv keep(1) unfolding y' sys_inv_def inv_group_def by (auto simp: nth)
  moreover have "inv_joined ?y'"
    using inv unfolding sys_inv_def inv_joined_def hist by simp
  moreover have "inv_session ?y'"
    using inv unfolding sys_inv_def inv_session_def hist by simp
  ultimately show ?thesis by (simp add: sys_inv_def)
qed

lemma at_pc_new:
  "sys_inv y \<Longrightarrow> r < length (srv_heap (y_srv y)) \<Longrightarrow>
   (srv_pcs (y_srv y))[r := pc] ! k = (if k = r then pc else pc_of y k)"
  by (cases "k = r") (simp_all add: sys_inv_def inv_shape_def)

lemma sys_inv_join:
  assumes inv: "sys_inv y" and r: "at_pc y r Greeted"
  obtains y' where "srv_do libs (EvJoin r) y = Some y'" "sys_inv y'"
proof -
  let ?s = "y_srv y" and ?h = "srv_heap (y_srv y)" and ?g = "srv_group (y_srv y)"
  have wf: "group_wf ?g" using inv by (rule sys_inv_group_wf)
  have rn: "r < length ?h" and old: "pc_of y r = Greeted" using r by (simp_all add: at_pc_def)
  note pc = at_pc_new [OF inv rn]
  show ?thesis
  proof (cases "g_closed ?g \<or> map_of (g_clients ?g) (sc_id (?h ! r)) \<noteq> None")
    case True
    then have "srv_do libs (EvJoin r) y = Some (y\<lparr>y_srv := set_pc r Serving ?s\<rparr>)"
      by (simp add: on_srv_def join_group_def addClient_eq [OF wf] set_pc_def)
    moreover have "sys_inv (y\<lparr>y_srv := set_pc r Serving ?s\<rparr>)"
      by (rule sys_inv_pc [OF inv r]) (simp_all add: listed_pcs_def member_pcs_def)
    ultimately show ?thesis by (rule that)
  next
    case False
    define c where "c = try_send ''group/update'' (GroupUpdateP (group_update ?g)) (?h ! r)"
    define g1 where "g1 = ?g\<lparr>g_clients := g_clients ?g @ [(sc_id (?h ! r), r)]\<rparr>"
    define g' where "g' = published (ClientJoinedEvent r) g1"
    define y' where "y' = y\<lparr>y_srv := ?s\<lparr>srv_heap := ?h[r := c], srv_group := g', srv_pcs := (srv_pcs ?s)[r := Serving]\<rparr>\<rparr>"
    have do: "srv_do libs (EvJoin r) y = Some y'"
      using False by (simp add: on_srv_def join_group_def addClient_eq [OF wf] y'_def g'_def g1_def c_def)
    have g': "group_wf g'" "g_nextSub g' = g_nextSub ?g" "g_clients g' = g_clients ?g @ [(sc_id (?h ! r), r)]"
      using addClient_wf [OF wf, of r ?h "?h[r := c]" g'] False
      by (simp_all add: addClient_eq [OF wf] g'_def g1_def c_def)
    have "joined g1 \<subseteq> joined ?g \<union> {r}" by (auto simp: joined_def g1_def)
    then have j: "joined g' \<subseteq> joined ?g \<union> {r}"
      using joined_published [of "ClientJoinedEvent r" g1] by (auto simp: g'_def)
    have nth: "?h[r := c] ! k = (if k = r then c else ?h ! k)" for k using rn by simp
    have keep: "sc_id c = sc_id (?h ! r)" "sc_done c = sc_done (?h ! r)" by (simp_all add: c_def)
    have fields: "srv_heap (y_srv y') = ?h[r := c]" "srv_group (y_srv y') = g'"
      "srv_pcs (y_srv y') = (srv_pcs ?s)[r := Serving]" "srv_clients (y_srv y') = srv_clients ?s"
      "y_taken y' = y_taken y" "y_failed y' = y_failed y"
      by (simp_all add: y'_def)
    have "session (history y r) = [''server/hello'']"
      using inv rn old by (simp add: sys_inv_def inv_session_def session_ok_def)
    then have hr: "session (history y' r) \<in> {[''server/hello''], [''server/hello'', ''group/update'']}"
      using rn by (auto simp: session_history fields c_def try_send_eq)
    have other: "session (history y' k) = session (history y k)" if "k \<noteq> r" for k
      using that by (simp add: history_def fields)
    have "inv_shape y'" using inv unfolding sys_inv_def inv_shape_def fields by simp
    moreover have "inv_listed y'"
      using inv old keep(1) unfolding sys_inv_def inv_listed_def fields by (auto simp: nth pc listed_pcs_def)
    moreover have "inv_done y'"
      using inv old keep(2) rn unfolding sys_inv_def inv_done_def fields by (auto simp: nth pc)
    moreover have "inv_group y'"
      using inv keep(1) g' rn unfolding sys_inv_def inv_group_def fields pc by (auto simp: nth member_pcs_def)
    moreover have "inv_joined y'"
      unfolding inv_joined_def fields
    proof
      fix k assume "k \<in> joined g'"
      then have "k = r \<or> k \<in> joined ?g" using j by blast
      moreover have "k \<in> joined ?g \<Longrightarrow> k < length ?h \<and> pc_of y k \<notin> {Registered, Greeted} \<and> session (history y k) \<noteq> []"
        using inv by (simp add: sys_inv_def inv_joined_def)
      ultimately show "k < length (?h[r := c]) \<and> (srv_pcs ?s)[r := Serving] ! k \<notin> {Registered, Greeted} \<and>
          session (history y' k) \<noteq> []"
        using rn hr other [of k] by (cases "k = r") (auto simp: pc)
    qed
    moreover have "inv_session y'"
      using inv hr other unfolding sys_inv_def inv_session_def fields by (auto simp: pc session_ok_def)
    ultimately have "sys_inv y'" by (simp add: sys_inv_def)
    with do show ?thesis by (rule that)
  qed
qed

lemma sys_inv_unlist:
  assumes inv: "sys_inv y" and r: "at_pc y r Cleared"
  shows "sys_inv (y\<lparr>y_srv := remove_listing r (y_srv y)\<rparr>)"
proof -
  let ?s = "y_srv y" and ?h = "srv_heap (y_srv y)"
  have rn: "r < length ?h" and old: "pc_of y r = Cleared" using r by (simp_all add: at_pc_def)
  note pc = at_pc_new [OF inv rn]
  define y' where "y' = y\<lparr>y_srv := remove_listing r ?s\<rparr>"
  have fields: "srv_heap (y_srv y') = ?h" "srv_group (y_srv y') = srv_group ?s"
    "srv_pcs (y_srv y') = (srv_pcs ?s)[r := Unlisted]"
    "srv_clients (y_srv y') = AList.delete (sc_id (?h ! r)) (srv_clients ?s)"
    "y_taken y' = y_taken y" "y_failed y' = y_failed y"
    by (simp_all add: y'_def remove_listing_def)
  have hist: "history y' k = history y k" for k by (simp add: history_def fields)
  have dist: "distinct (map fst (srv_clients ?s))"
    and mem: "(x, k) \<in> set (srv_clients ?s) \<longleftrightarrow> k < length ?h \<and> pc_of y k \<in> listed_pcs \<and> sc_id (?h ! k) = x" for x k
    using inv by (simp_all add: sys_inv_def inv_listed_def)
  have self: "(sc_id (?h ! r), r) \<in> set (srv_clients ?s)"
    using mem rn old by (simp add: listed_pcs_def)
  have uniq: "k = r" if "k < length ?h" "pc_of y k \<in> listed_pcs" "sc_id (?h ! k) = sc_id (?h ! r)" for k
    using eq_key_imp_eq_value [OF dist self, of k] mem that by metis
  have "inv_shape y'" using inv unfolding sys_inv_def inv_shape_def fields by simp
  moreover have "inv_listed y'"
    unfolding inv_listed_def fields
  proof (intro conjI allI)
    show "distinct (map fst (AList.delete (sc_id (?h ! r)) (srv_clients ?s)))"
      using dist by (rule distinct_delete)
  next
    fix x k
    have "(x, k) \<in> set (AList.delete (sc_id (?h ! r)) (srv_clients ?s)) \<longleftrightarrow>
        (x, k) \<in> set (srv_clients ?s) \<and> x \<noteq> sc_id (?h ! r)"
      by (auto simp: AList.delete_eq)
    then show "(x, k) \<in> set (AList.delete (sc_id (?h ! r)) (srv_clients ?s)) \<longleftrightarrow>
        k < length ?h \<and> (srv_pcs ?s)[r := Unlisted] ! k \<in> listed_pcs \<and> sc_id (?h ! k) = x"
      using mem uniq by (auto simp: pc listed_pcs_def)
  qed
  moreover have "inv_done y'"
    using inv old rn unfolding sys_inv_def inv_done_def fields by (auto simp: pc)
  moreover have "inv_group y'"
    using inv unfolding sys_inv_def inv_group_def fields pc by (auto simp: member_pcs_def)
  moreover have "inv_joined y'"
    using inv unfolding sys_inv_def inv_joined_def fields hist by (auto simp: pc)
  moreover have "inv_session y'"
    using inv session_ok_pc [of _ _ Unlisted] unfolding sys_inv_def inv_session_def fields hist by (auto simp: pc)
  ultimately show ?thesis unfolding y'_def by (simp add: sys_inv_def)
qed

lemma sys_inv_finish:
  assumes inv: "sys_inv y" and r: "at_pc y r Ungrouped"
  obtains y' where "srv_do libs (EvRemoveDone r) y = Some y'" "sys_inv y'"
proof -
  let ?s = "y_srv y" and ?h = "srv_heap (y_srv y)"
  have rn: "r < length ?h" and old: "pc_of y r = Ungrouped" using r by (simp_all add: at_pc_def)
  note pc = at_pc_new [OF inv rn]
  have nd: "\<not> sc_done (?h ! r)" using inv rn old by (simp add: sys_inv_def inv_done_def)
  define c where "c = (?h ! r)\<lparr>sc_done := True\<rparr>"
  define y' where "y' = y\<lparr>y_srv := ?s\<lparr>srv_heap := ?h[r := c], srv_pcs := (srv_pcs ?s)[r := Gone]\<rparr>\<rparr>"
  have do: "srv_do libs (EvRemoveDone r) y = Some y'"
    using nd by (simp add: on_srv_def remove_done_def y'_def c_def set_pc_def upd_client_def)
  have nth: "?h[r := c] ! k = (if k = r then c else ?h ! k)" for k using rn by simp
  have fields: "srv_heap (y_srv y') = ?h[r := c]" "srv_group (y_srv y') = srv_group ?s"
    "srv_pcs (y_srv y') = (srv_pcs ?s)[r := Gone]" "srv_clients (y_srv y') = srv_clients ?s"
    "y_taken y' = y_taken y" "y_failed y' = y_failed y"
    by (simp_all add: y'_def)
  have hist: "history y' k = history y k" for k
    unfolding history_def fields nth by (simp add: c_def)
  have keep: "sc_id c = sc_id (?h ! r)" "sc_done c" by (simp_all add: c_def)
  have "inv_shape y'" using inv unfolding sys_inv_def inv_shape_def fields by simp
  moreover have "inv_listed y'"
    using inv old keep(1) unfolding sys_inv_def inv_listed_def fields by (auto simp: nth pc listed_pcs_def)
  moreover have "inv_done y'"
    using inv old keep(2) rn unfolding sys_inv_def inv_done_def fields by (auto simp: nth pc)
  moreover have "inv_group y'"
    using inv keep(1) old unfolding sys_inv_def inv_group_def fields pc by (auto simp: nth member_pcs_def)
  moreover have "inv_joined y'"
    using inv unfolding sys_inv_def inv_joined_def fields hist by (auto simp: pc)
  moreover have "inv_session y'"
    using inv session_ok_pc [of _ _ Gone] unfolding sys_inv_def inv_session_def fields hist by (auto simp: pc)
  ultimately have "sys_inv y'" by (simp add: sys_inv_def)
  with do show ?thesis by (rule that)
qed

lemma on_srv_Some: "on_srv y r = Some y' \<longleftrightarrow> (\<exists>s. r = Some s \<and> y' = y\<lparr>y_srv := s\<rparr>)"
  by (auto simp: on_srv_def)

text \<open>The steps that only send, publish or change the group's state.\<close>

lemma sys_inv_group_change:
  assumes inv: "sys_inv y" and g: "group_wf g'" "g_nextSub g' = g_nextSub (srv_group (y_srv y))"
    "set (g_clients g') \<subseteq> set (g_clients (srv_group (y_srv y)))" "joined g' \<subseteq> joined (srv_group (y_srv y))"
  shows "sys_inv (y\<lparr>y_srv := (y_srv y)\<lparr>srv_group := g'\<rparr>\<rparr>)"
  by (rule sys_inv_transfer [OF inv]) (use g sys_inv_sub [OF inv] in simp_all)

lemma SetPlaybackState_effect:
  assumes "group_wf g"
  obtains g' where "SetPlaybackState st g = Some g'" "group_wf g'" "g_nextSub g' = g_nextSub g"
    "g_clients g' = g_clients g" "joined g' \<subseteq> joined g"
proof -
  obtain g' where g': "SetPlaybackState st g = Some g'" using SetPlaybackState_eq [OF assms] by blast
  have "joined (published (GroupPlaybackStateChangedEvent a st) (g\<lparr>g_playbackState := st\<rparr>)) \<subseteq> joined g" for a
    using joined_published [of "GroupPlaybackStateChangedEvent a st" "g\<lparr>g_playbackState := st\<rparr>"] by simp
  then show ?thesis
    using that [OF g' SetPlaybackState_wf [OF assms g']] g'
    by (auto simp: SetPlaybackState_eq [OF assms] split: if_splits)
qed

lemma group_Close_effect:
  assumes "group_wf g"
  obtains g' where "group_Close g = Some g'" "group_wf g'" "g_nextSub g' = g_nextSub g"
    "set (g_clients g') \<subseteq> set (g_clients g)" "joined g' \<subseteq> joined g"
proof -
  obtain g' where g': "group_Close g = Some g'" using group_Close_eq [OF assms] by blast
  have fields: "set (g_clients g') \<subseteq> set (g_clients g)" "g_nextSub g' = g_nextSub g"
    "chan_buf (g_chans g' j) = chan_buf (g_chans g j)" for j
    using g' by (auto simp: group_Close_eq [OF assms] split: if_splits)
  have "joined g' \<subseteq> joined g" by (rule joined_mono) (simp_all add: fields)
  with that [OF g' group_Close_wf [OF assms g']] fields show ?thesis by blast
qed

lemma group_removeClient_effect:
  assumes "group_wf g"
  obtains g' where "group_removeClient r h g = Some g'" "group_wf g'" "g_nextSub g' = g_nextSub g"
    "set (g_clients g') \<subseteq> set (g_clients g)" "joined g' \<subseteq> joined g"
    "sc_id (h ! r) \<notin> fst ` set (g_clients g')"
proof -
  obtain g' where g': "group_removeClient r h g = Some g'" using group_removeClient_eq [OF assms] by blast
  have sub: "set (AList.delete i (g_clients g)) \<subseteq> set (g_clients g)" for i
    by (auto simp: AList.delete_eq)
  have "joined (published (ClientLeftEvent i n) (g\<lparr>g_clients := AList.delete i (g_clients g)\<rparr>)) \<subseteq> joined g" for i n
    using joined_published [of "ClientLeftEvent i n" "g\<lparr>g_clients := AList.delete i (g_clients g)\<rparr>"]
      joined_sub_clients [OF sub] by auto
  moreover have "sc_id (h ! r) \<notin> fst ` set (g_clients g')"
    using g' by (auto simp: group_removeClient_eq [OF assms] map_of_eq_None_iff AList.delete_eq split: if_splits)
  ultimately show ?thesis
    using that [OF g' group_removeClient_wf [OF assms g']] g' sub
    by (auto simp: group_removeClient_eq [OF assms] split: if_splits)
qed

lemma sys_inv_dispatch:
  assumes inv: "sys_inv y" and en: "srv_enabled (EvDispatch env) y"
  obtains y' where "srv_do libs (EvDispatch env) y = Some y'" "sys_inv y'"
proof -
  let ?s = "y_srv y"
  obtain e es where "chan_buf (g_chans (srv_group ?s) 0) = e # es"
    using en by (cases "chan_buf (g_chans (srv_group ?s) 0)") auto
  then obtain g' where rc: "receive_event 0 (srv_group ?s) = Some (e, g')"
    by (simp add: receive_event_Some)
  define h' where "h' = fold (role_handle_event env (group_Clients g') e) (map snd (g_roles g')) (srv_heap ?s)"
  note j = joined_receive [OF rc]
  have "heap_step (joined (srv_group ?s)) (srv_heap ?s) h'"
    unfolding h'_def using j
    by (intro heap_step_fold heap_step_role_event) (auto simp: group_Clients_def)
  moreover have "group_wf g'" by (rule receive_event_wf [OF sys_inv_group_wf [OF inv] rc])
  ultimately have "sys_inv (y\<lparr>y_srv := ?s\<lparr>srv_heap := h', srv_group := g'\<rparr>\<rparr>)"
    using j sys_inv_sub [OF inv] heap_step_mono [OF _ joined_greeted [OF inv]]
    by (intro sys_inv_transfer [OF inv]) simp_all
  moreover have "srv_do libs (EvDispatch env) y = Some (y\<lparr>y_srv := ?s\<lparr>srv_heap := h', srv_group := g'\<rparr>\<rparr>)"
    by (simp add: on_srv_def dispatchRoleEvent_def rc h'_def)
  ultimately show ?thesis using that by blast
qed

lemma sys_inv_message:
  assumes inv: "sys_inv y" and r: "at_pc y r Serving"
  obtains y' where "srv_do libs (EvMessage r recv sent data) y = Some y'" "sys_inv y'"
proof -
  obtain cmds s' where m: "handleClientMessage recv sent r data (y_srv y) = Some (cmds, s')"
    "heap_step (greeted y) (srv_heap (y_srv y)) (srv_heap s')"
    "srv_pcs s' = srv_pcs (y_srv y)" "srv_clients s' = srv_clients (y_srv y)"
    "group_wf (srv_group s')" "g_nextSub (srv_group s') = g_nextSub (srv_group (y_srv y))"
    "g_clients (srv_group s') = g_clients (srv_group (y_srv y))"
    "joined (srv_group s') \<subseteq> joined (srv_group (y_srv y))"
    by (rule handleClientMessage_total [OF sys_inv_group_wf [OF inv] serving_greeted [OF inv r]])
  then have "sys_inv (y\<lparr>y_srv := s'\<rparr>)"
    using sys_inv_sub [OF inv] by (intro sys_inv_transfer [OF inv]) simp_all
  with m(1) show ?thesis by (intro that) (simp_all add: on_srv_def)
qed

text \<open>A step that is not a tick succeeds and keeps the invariant.\<close>

fun is_tick :: "srv_event \<Rightarrow> bool" where
  "is_tick (EvTick now input) = True"
| "is_tick _ = False"

lemma sys_step_total:
  assumes inv: "sys_inv y" and en: "srv_enabled ev y" and nt: "\<not> is_tick ev"
  shows "\<exists>y'. srv_do libs ev y = Some y' \<and> sys_inv y'"
proof (cases ev)
  case (EvHello admitted data)
  then show ?thesis using sys_inv_hello [OF inv, of libs admitted data] by (simp add: Let_def)
next
  case (EvGreet r)
  then show ?thesis using sys_inv_greet [OF inv, of r] en by simp
next
  case (EvJoin r)
  then show ?thesis using sys_inv_join [OF inv, of r libs] en by auto
next
  case (EvMessage r recv sent data)
  with en have "at_pc y r Serving" by simp
  then show ?thesis using sys_inv_message [OF inv, of r libs recv sent data] EvMessage by blast
next
  case (EvClosed r)
  with en have "at_pc y r Serving" by simp
  from sys_inv_pc [OF inv this, of Leaving] EvClosed show ?thesis by (simp add: listed_pcs_def member_pcs_def)
next
  case (EvRemoveEncoders r)
  with en have pc: "at_pc y r Leaving" by simp
  define y1 where "y1 = y\<lparr>y_srv := upd_client r (\<lambda>c. c\<lparr>sc_opusEncoder := None, sc_flacEncoder := None,
    sc_resampler := None\<rparr>) (y_srv y)\<rparr>"
  have i1: "sys_inv y1"
    unfolding y1_def using sys_inv_sub [OF inv] sys_inv_group_wf [OF inv]
    by (intro sys_inv_transfer [OF inv]) (auto intro!: heap_step_upd client_step_same_queue)
  have p1: "at_pc y1 r Leaving" using pc by (simp add: y1_def at_pc_def)
  have "sys_inv (y1\<lparr>y_srv := set_pc r Cleared (y_srv y1)\<rparr>)"
    by (rule sys_inv_pc [OF i1 p1]) (simp_all add: listed_pcs_def member_pcs_def)
  with EvRemoveEncoders show ?thesis by (simp add: y1_def remove_encoders_def)
next
  case (EvRemoveListing r)
  then show ?thesis using sys_inv_unlist [OF inv, of r] en by simp
next
  case (EvRemoveFromGroup r)
  with en have pc: "at_pc y r Unlisted" by simp
  obtain g' where g': "group_removeClient r (srv_heap (y_srv y)) (srv_group (y_srv y)) = Some g'"
    "group_wf g'" "g_nextSub g' = g_nextSub (srv_group (y_srv y))"
    "set (g_clients g') \<subseteq> set (g_clients (srv_group (y_srv y)))" "joined g' \<subseteq> joined (srv_group (y_srv y))"
    "sc_id (srv_heap (y_srv y) ! r) \<notin> fst ` set (g_clients g')"
    by (rule group_removeClient_effect [OF sys_inv_group_wf [OF inv]])
  define y1 where "y1 = y\<lparr>y_srv := (y_srv y)\<lparr>srv_group := g'\<rparr>\<rparr>"
  have i1: "sys_inv y1" unfolding y1_def by (rule sys_inv_group_change [OF inv g'(2-5)])
  have p1: "at_pc y1 r Unlisted" using pc by (simp add: y1_def at_pc_def)
  have "r \<notin> snd ` set (g_clients g')"
    using i1 g'(6) unfolding sys_inv_def inv_group_def y1_def by force
  then have "sys_inv (y1\<lparr>y_srv := set_pc r Ungrouped (y_srv y1)\<rparr>)"
    by (intro sys_inv_pc [OF i1 p1]) (simp_all add: listed_pcs_def y1_def)
  with EvRemoveFromGroup g'(1) show ?thesis by (simp add: y1_def remove_from_group_def on_srv_def)
next
  case (EvRemoveDone r)
  then show ?thesis using sys_inv_finish [OF inv, of r libs] en by auto
next
  case (EvWriter r ok)
  then obtain m ms where m: "chan_buf (sc_sendChan (srv_heap (y_srv y) ! r)) = m # ms"
    using en by (cases "chan_buf (sc_sendChan (srv_heap (y_srv y) ! r))") auto
  then have "writer_turn ok (srv_heap (y_srv y) ! r) = Some (m, ok, (srv_heap (y_srv y) ! r)
      \<lparr>sc_sendChan := (sc_sendChan (srv_heap (y_srv y) ! r))\<lparr>chan_buf := ms\<rparr>\<rparr>)"
    by (simp add: writer_turn_def chan_take_def)
  with EvWriter sys_inv_writer [OF inv _ m, of "\<not> ok"] en show ?thesis
    by (simp add: upd_client_def)
next
  case (EvDispatch env)
  then show ?thesis using sys_inv_dispatch [OF inv, of env libs] en by blast
next
  case (EvSetPlayback st)
  obtain g' where g': "SetPlaybackState st (srv_group (y_srv y)) = Some g'"
    "group_wf g'" "g_nextSub g' = g_nextSub (srv_group (y_srv y))"
    "g_clients g' = g_clients (srv_group (y_srv y))" "joined g' \<subseteq> joined (srv_group (y_srv y))"
    by (rule SetPlaybackState_effect [OF sys_inv_group_wf [OF inv]])
  then have "sys_inv (y\<lparr>y_srv := (y_srv y)\<lparr>srv_group := g'\<rparr>\<rparr>)"
    by (intro sys_inv_group_change [OF inv]) simp_all
  with EvSetPlayback g'(1) show ?thesis by (simp add: on_srv_def)
next
  case EvShutdown
  have "sys_inv (y\<lparr>y_srv := begin_shutdown (y_srv y)\<rparr>)"
    by (rule sys_inv_transfer [OF inv])
      (use sys_inv_sub [OF inv] sys_inv_group_wf [OF inv] in \<open>simp_all add: begin_shutdown_def\<close>)
  with EvShutdown show ?thesis by simp
next
  case EvCloseGroup
  obtain g' where g': "group_Close (srv_group (y_srv y)) = Some g'"
    "group_wf g'" "g_nextSub g' = g_nextSub (srv_group (y_srv y))"
    "set (g_clients g') \<subseteq> set (g_clients (srv_group (y_srv y)))" "joined g' \<subseteq> joined (srv_group (y_srv y))"
    by (rule group_Close_effect [OF sys_inv_group_wf [OF inv]])
  with EvCloseGroup sys_inv_group_change [OF inv g'(2-)] show ?thesis by (simp add: close_group_def on_srv_def)
qed (use nt in simp)

lemma sys_inv_tick:
  assumes inv: "sys_inv y" and tick: "srv_do libs (EvTick now input) y = Some y'"
  shows "sys_inv y'"
proof -
  obtain s' where s': "generateAndSendChunk libs now input (y_srv y) = Some s'" "y' = y\<lparr>y_srv := s'\<rparr>"
    using tick by (auto simp: on_srv_Some)
  show ?thesis
    using heap_step_tick [OF s'(1), of "greeted y"] sys_inv_sub [OF inv] sys_inv_group_wf [OF inv]
    unfolding s'(2) by (intro sys_inv_transfer [OF inv]) simp_all
qed

lemma sys_inv_step:
  assumes "sys_inv y" "srv_enabled ev y" "srv_do libs ev y = Some y'"
  shows "sys_inv y'"
proof (cases ev)
  case (EvTick now input)
  with assms sys_inv_tick show ?thesis by simp
qed (use sys_step_total [OF assms(1,2), of libs] assms(3) in auto)

lemma RegisterRole_group:
  assumes "group_wf g" "\<And>i. chan_buf (g_chans g i) = []" "\<not> g_closed g"
  shows "group_wf (RegisterRole role g) \<and> (\<forall>i. chan_buf (g_chans (RegisterRole role g) i) = []) \<and>
    \<not> g_closed (RegisterRole role g) \<and> g_clients (RegisterRole role g) = g_clients g \<and>
    (g_roleDispatchStarted g \<longrightarrow> g_nextSub (RegisterRole role g) = g_nextSub g) \<and>
    (\<not> g_roleDispatchStarted g \<longrightarrow> g_nextSub (RegisterRole role g) = Suc (g_nextSub g)) \<and>
    g_roleDispatchStarted (RegisterRole role g)"
proof -
  let ?g = "g\<lparr>g_roles := AList.update (role_family role) (attachToGroup role) (g_roles g)\<rparr>"
  have wf: "group_wf ?g" "group_wf (?g\<lparr>g_roleDispatchStarted := True\<rparr>)"
    using assms(1) by (simp_all add: group_wf_def)
  show ?thesis
    using wf assms(2,3) Subscribe_wf [OF wf(2), of "fst (Subscribe (?g\<lparr>g_roleDispatchStarted := True\<rparr>))"
        "snd (Subscribe (?g\<lparr>g_roleDispatchStarted := True\<rparr>))"]
    by (auto simp: RegisterRole_def Let_def Subscribe_def)
qed

lemma sys_inv_start: "sys_inv (srv_start (NewServer cfg serverID new_opus new_flac))"
proof -
  let ?g0 = "NewGroup serverID :: ('a, 'b) role_group"
  let ?g1 = "RegisterRole (MetadataRole (NewMetadataRole True True)) ?g0"
  have g0: "group_wf ?g0" "chan_buf (g_chans ?g0 i) = []" "\<not> g_closed ?g0" "g_clients ?g0 = []"
    "\<not> g_roleDispatchStarted ?g0" for i
    by (simp_all add: NewGroup_def NewGroup_wf [unfolded NewGroup_def])
  note r1 = RegisterRole_group [OF g0(1-3), of "MetadataRole (NewMetadataRole True True)"]
  have g1: "group_wf ?g1" "chan_buf (g_chans ?g1 i) = []" "\<not> g_closed ?g1" for i using r1 by simp_all
  note r2 = RegisterRole_group [OF g1]
  have "joined g = {}" if "g_clients g = []" "\<forall>i. chan_buf (g_chans g i) = []" for g :: "('a, 'b) role_group"
    using that by (simp add: joined_def)
  then show ?thesis
    using r1 r2 g0
    by (simp add: sys_inv_def inv_shape_def inv_listed_def inv_done_def inv_group_def inv_joined_def
        inv_session_def srv_start_def NewServer_def)
qed

lemma reachable_sys_inv:
  "srv_reachable libs y0 y \<Longrightarrow> sys_inv y0 \<Longrightarrow> sys_inv y"
  by (induction rule: srv_reachable.induct) (auto intro: sys_inv_step)

section \<open>What the invariant gives\<close>

lemma written_prefix: "prefix (written y r) (history y r)"
  by (auto simp: written_def history_def intro: prefix_prefix prefixeq_butlast)

lemma session_prefix: "prefix xs ys \<Longrightarrow> prefix (session xs) (session ys)"
  by (auto simp: prefix_def map_filter_append)

definition session_order :: "string list \<Rightarrow> bool" where
  "session_order ss \<longleftrightarrow> ss = [] \<or> (\<exists>rest. ss = ''server/hello'' # rest \<and> ''server/hello'' \<notin> set rest \<and>
     (''group/update'' \<notin> set rest \<or>
      (\<exists>rest'. rest = ''group/update'' # rest' \<and> ''group/update'' \<notin> set rest')))"

lemma session_order_prefix:
  assumes "session_order ys" "prefix xs ys"
  shows "session_order xs"
proof (cases xs)
  case Nil
  then show ?thesis by (simp add: session_order_def)
next
  case (Cons x xs')
  obtain zs where ys: "ys = xs @ zs" using assms(2) by (auto simp: prefix_def)
  with assms(1) Cons have x: "x = ''server/hello''" "''server/hello'' \<notin> set xs'"
    "''group/update'' \<notin> set (xs' @ zs) \<or>
     (\<exists>rest'. xs' @ zs = ''group/update'' # rest' \<and> ''group/update'' \<notin> set rest')"
    by (auto simp: session_order_def)
  then have "''group/update'' \<notin> set xs' \<or> (\<exists>rest'. xs' = ''group/update'' # rest' \<and> ''group/update'' \<notin> set rest')"
    by (cases xs') auto
  with x Cons show ?thesis by (simp add: session_order_def)
qed

text \<open>
  C2. The session a client sees. In every interleaving of the server's goroutines, of all that has been
  written to a connection apart from what the audio goroutine sends (audio frames and \<open>stream/end\<close>, which
  can precede the greeting), \<open>server/hello\<close> is the first message and is sent once; \<open>group/update\<close> is sent
  at most once and then directly after the greeting; every other message, of a role or an answer to the
  clock, comes after them. And nothing is written, audio included, that was not queued before, in the
  order it was queued.
\<close>

theorem session_messages_in_order:
  assumes "srv_reachable libs (srv_start (NewServer cfg serverID new_opus new_flac)) y"
    and "r < length (srv_heap (y_srv y))"
  shows "session_order (session (written y r)) \<and> prefix (written y r) (history y r)"
proof -
  have "sys_inv y" by (rule reachable_sys_inv [OF assms(1) sys_inv_start])
  then have "session_order (session (history y r))"
    using assms(2) by (simp add: sys_inv_def inv_session_def session_ok_def session_order_def)
  then show ?thesis
    using session_order_prefix session_prefix [OF written_prefix] written_prefix by blast
qed

lemma audio_ready_step:
  assumes "audio_ready (y_srv y)" "srv_enabled ev y" "srv_do libs ev y = Some y'" "sys_inv y"
  shows "audio_ready (y_srv y')"
proof (cases ev)
  case (EvHello admitted data)
  with assms audio_ready_handshake(1) [OF assms(1), of admitted data] show ?thesis by (auto simp: Let_def)
next
  case (EvGreet r)
  with assms audio_ready_handshake(2) [OF assms(1), of r] show ?thesis by auto
next
  case (EvWriter r ok)
  have "audio_ready (upd_client r (\<lambda>_. c) (y_srv y))"
    if "writer_turn ok (srv_heap (y_srv y) ! r) = Some (m, alive, c)" for m alive c
  proof -
    have "sc_resampler c = sc_resampler (srv_heap (y_srv y) ! r)"
      using that by (auto simp: writer_turn_def split: option.splits prod.splits)
    with assms(1) show ?thesis
      by (auto simp: audio_ready_def upd_client_def resampler_ready_def intro: list_all_replace)
  qed
  with EvWriter assms(1,3) show ?thesis by (auto split: option.splits)
next
  case (EvTick now input)
  have "\<forall>(x, r)\<in>set (srv_clients (y_srv y)). r < length (srv_heap (y_srv y))"
    using assms(4) by (auto simp: sys_inv_def inv_listed_def)
  then obtain s' where "generateAndSendChunk libs now input (y_srv y) = Some s'" "audio_ready s'"
    by (rule audio_ready_tick [OF assms(1)]) (use EvTick assms(2) in simp)
  with EvTick assms(3) show ?thesis by (auto simp: on_srv_def)
next
  case (EvDispatch env)
  with assms(3) obtain h g where d: "dispatchRoleEvent env 0 (srv_heap (y_srv y), srv_group (y_srv y)) = Some (h, g)"
    "y' = y\<lparr>y_srv := (y_srv y)\<lparr>srv_heap := h, srv_group := g\<rparr>\<rparr>"
    by (auto simp: on_srv_Some)
  from audio_ready_dispatch [OF assms(1) d(1)] show ?thesis by (simp add: d(2))
next
  case (EvSetPlayback st)
  with assms(3) obtain g where g: "SetPlaybackState st (srv_group (y_srv y)) = Some g"
    "y' = y\<lparr>y_srv := (y_srv y)\<lparr>srv_group := g\<rparr>\<rparr>"
    by (auto simp: on_srv_Some)
  from audio_ready_group [OF assms(1) group_roles_kept(3) [OF g(1)]] show ?thesis by (simp add: g(2))
next
  case EvCloseGroup
  with assms(3) obtain g where g: "group_Close (srv_group (y_srv y)) = Some g"
    "y' = y\<lparr>y_srv := (y_srv y)\<lparr>srv_group := g\<rparr>\<rparr>"
    by (auto simp: on_srv_Some close_group_def)
  from audio_ready_group [OF assms(1) group_roles_kept(4) [OF g(1)]] show ?thesis by (simp add: g(2))
next
  case EvShutdown
  with assms(1,3) show ?thesis by (auto simp: begin_shutdown_def audio_ready_def)
next
  case (EvJoin r)
  with assms(1,3) audio_ready_join show ?thesis by (auto simp: on_srv_Some)
next
  case (EvMessage r recv sent data)
  with assms(1,3) audio_ready_message show ?thesis by (auto simp: on_srv_Some)
next
  case (EvClosed r)
  with assms(1,3) show ?thesis by auto
next
  case (EvRemoveEncoders r)
  with assms(1,3) audio_ready_removal(1) show ?thesis by auto
next
  case (EvRemoveListing r)
  with assms(1,3) audio_ready_removal(2) show ?thesis by auto
next
  case (EvRemoveFromGroup r)
  with assms(1,3) audio_ready_removal(3) show ?thesis by (auto simp: on_srv_Some)
next
  case (EvRemoveDone r)
  with assms(1,3) audio_ready_removal(4) show ?thesis by (auto simp: on_srv_Some)
qed

lemma reachable_audio_ready:
  "srv_reachable libs y0 y \<Longrightarrow> sys_inv y0 \<Longrightarrow> audio_ready (y_srv y0) \<Longrightarrow> audio_ready (y_srv y)"
  by (induction rule: srv_reachable.induct) (auto intro: audio_ready_step reachable_sys_inv)

lemma tick_total:
  assumes "sys_inv y" "audio_ready (y_srv y)" "srv_enabled (EvTick now input) y"
  shows "srv_do libs (EvTick now input) y \<noteq> None"
proof -
  have "\<forall>(x, r)\<in>set (srv_clients (y_srv y)). r < length (srv_heap (y_srv y))"
    using assms(1) by (auto simp: sys_inv_def inv_listed_def)
  then obtain s' where "generateAndSendChunk libs now input (y_srv y) = Some s'"
    by (rule audio_ready_tick [OF assms(2)]) (use assms(3) in simp)
  then show ?thesis by (simp add: on_srv_def)
qed

text \<open>
  C4. No interleaving of the server's goroutines makes it panic, the audio goroutine included, for a
  source with a positive rate of at most \<open>2^31\<close> and at least one channel and for every behaviour of the
  codec libraries: no send on a closed channel, no channel closed twice, no index out of range in the
  resampler and no buffer of negative size. At every moment at most one connection per client id is
  registered, the server's list holds exactly the registered connections, and every member of the group
  is a connection with that id that has been greeted and has not yet left the group. (Not every such
  connection is a member, as \<open>reconnect_leaves_client_outside_group\<close> shows.)
\<close>

theorem server_goroutines_safe:
  assumes "srv_reachable libs (srv_start (NewServer cfg serverID new_opus new_flac)) y"
    and "0 < cfg_SourceRate cfg" "cfg_SourceRate cfg \<le> 2 ^ 31" "0 < cfg_SourceChannels cfg"
  shows "(\<forall>ev. srv_enabled ev y \<longrightarrow> srv_do libs ev y \<noteq> None) \<and>
    distinct (map fst (srv_clients (y_srv y))) \<and>
    (\<forall>x r. (x, r) \<in> set (srv_clients (y_srv y)) \<longleftrightarrow>
       r < length (srv_heap (y_srv y)) \<and> pc_of y r \<in> listed_pcs \<and> sc_id (srv_heap (y_srv y) ! r) = x) \<and>
    (\<forall>(x, r) \<in> set (g_clients (srv_group (y_srv y))).
       r < length (srv_heap (y_srv y)) \<and> sc_id (srv_heap (y_srv y) ! r) = x \<and> pc_of y r \<in> member_pcs) \<and>
    (\<forall>r < length (srv_heap (y_srv y)). sc_done (srv_heap (y_srv y) ! r) \<longleftrightarrow> pc_of y r = Gone)"
proof -
  have inv: "sys_inv y" by (rule reachable_sys_inv [OF assms(1) sys_inv_start])
  have "audio_ready (y_srv (srv_start (NewServer cfg serverID new_opus new_flac)))"
    by (simp add: srv_start_def audio_ready_start [OF assms(2-4)])
  then have ready: "audio_ready (y_srv y)" by (rule reachable_audio_ready [OF assms(1) sys_inv_start])
  have "srv_do libs ev y \<noteq> None" if "srv_enabled ev y" for ev
  proof (cases "is_tick ev")
    case True
    then obtain now input where "ev = EvTick now input" by (cases ev) simp_all
    with tick_total [OF inv ready] that show ?thesis by simp
  next
    case False
    from sys_step_total [OF inv that False, of libs] show ?thesis by auto
  qed
  with inv show ?thesis
    unfolding sys_inv_def inv_listed_def inv_group_def inv_done_def by blast
qed

section \<open>Concrete runs\<close>

fun srv_run :: "('o, 'f) stream_libs \<Rightarrow> srv_event list \<Rightarrow> ('o, 'f) srv_sys \<Rightarrow> ('o, 'f) srv_sys option" where
  "srv_run libs [] y = Some y"
| "srv_run libs (ev # evs) y =
     (if srv_enabled ev y then Option.bind (srv_do libs ev y) (srv_run libs evs) else None)"

lemma srv_run_reachable:
  "srv_reachable libs y0 y \<Longrightarrow> srv_run libs evs y = Some y' \<Longrightarrow> srv_reachable libs y0 y'"
proof (induction evs arbitrary: y)
  case (Cons ev evs)
  then obtain y1 where "srv_enabled ev y" "srv_do libs ev y = Some y1" "srv_run libs evs y1 = Some y'"
    by (auto split: if_splits Option.bind_splits)
  with Cons show ?case by (blast intro: srv_reachable.step)
qed simp

definition hello_json :: json where
  "hello_json = JObj [(''type'', JStr ''client/hello''), (''payload'', JObj
     [(''client_id'', JStr ''a''), (''name'', JStr ''A''), (''version'', JNum 1),
      (''supported_roles'', JArr [JStr ''metadata@v1''])])]"

definition start_example :: "(unit, unit) srv_sys" where
  "start_example = srv_start (NewServer
     \<lparr>cfg_Name = ''s'', cfg_SupportedRoles = None, cfg_SourceRate = 48000, cfg_SourceChannels = 2\<rparr> ''uuid''
     (\<lambda>_ _ _. Inl (LibraryError [])) (\<lambda>_ _ _ _. Inl (LibraryError [])))"

definition env_example :: role_env where
  "env_example = \<lparr>env_metadata = (''T'', [], []), env_clock = 5\<rparr>"

definition run_example :: "srv_event list" where
  "run_example = [EvHello True (Some hello_json), EvGreet 0, EvJoin 0, EvDispatch env_example,
     EvWriter 0 True, EvWriter 0 True, EvWriter 0 True]"

definition hello_example :: ClientHello where
  "hello_example =
     \<lparr>ch_ClientID = ''a'', ch_Name = ''A'', ch_Version = 1, ch_SupportedRoles = [''metadata@v1''],
      ch_DeviceInfo = None, ch_PlayerV1Support = None, ch_ArtworkV1Support = None,
      ch_VisualizerV1Support = None\<rparr>"

lemma hello_example_parsed: "parse_hello (Some hello_json) = Inr hello_example"
proof -
  have "f64_round 1 = 1" using f64.rnd_exact [OF f64_representable_of_int [of 1]] by simp
  then show ?thesis
    by (simp add: parse_hello_def hello_json_def dec_Message_def dec_ClientHello_def field_def
        key_eq_def ascii_lower_def dec_int_def is_int64_def hello_example_def Let_def)
qed

text \<open>The state after the first message of a connection with that hello.\<close>

definition hello_arrives :: "(unit, unit) srv_sys \<Rightarrow> (unit, unit) srv_sys" where
  "hello_arrives y =
     (let s = accept_hello hello_example (y_srv y)
      in if length (srv_heap s) = length (srv_heap (y_srv y)) then y\<lparr>y_srv := s\<rparr>
         else y\<lparr>y_srv := s, y_taken := y_taken y @ [[]], y_failed := y_failed y @ [False]\<rparr>)"

lemma srv_run_hello:
  "srv_run libs (EvHello True (Some hello_json) # evs) y = srv_run libs evs (hello_arrives y)"
  by (simp add: handle_hello_def hello_example_parsed hello_arrives_def Let_def)

lemma srv_run_hello_fun:
  "srv_run libs (EvHello True (Some hello_json) # evs) = (\<lambda>y. srv_run libs evs (hello_arrives y))"
  by (rule ext) (rule srv_run_hello)

lemma srv_run_append:
  "srv_run libs (xs @ ys) y = Option.bind (srv_run libs xs y) (srv_run libs ys)"
proof (induction xs arbitrary: y)
  case (Cons ev xs)
  then show ?case by (cases "srv_do libs ev y") simp_all
qed simp

lemma run_example_result:
  "map_option (\<lambda>y. (session (written y 0), srv_clients (y_srv y), length (srv_heap (y_srv y))))
     (srv_run libs_example run_example start_example) =
   Some ([''server/hello'', ''group/update'', ''server/state''], [(''a'', 0)], 1)"
  unfolding run_example_def srv_run_hello by code_simp

theorem session_messages_in_order_witness:
  "\<exists>y. srv_run libs_example run_example start_example = Some y \<and> session_order (session (written y 0)) \<and>
     session (written y 0) = [''server/hello'', ''group/update'', ''server/state'']"
proof -
  obtain y where y: "srv_run libs_example run_example start_example = Some y"
    using run_example_result by auto
  have "srv_reachable libs_example start_example y"
    by (rule srv_run_reachable [OF srv_reachable.start y])
  then have "srv_reachable libs_example (srv_start (NewServer
     \<lparr>cfg_Name = ''s'', cfg_SupportedRoles = None, cfg_SourceRate = 48000, cfg_SourceChannels = 2\<rparr> ''uuid''
     (\<lambda>_ _ _. Inl (LibraryError [])) (\<lambda>_ _ _ _. Inl (LibraryError [])))) y"
    unfolding start_example_def .
  moreover have "0 < length (srv_heap (y_srv y))" using run_example_result y by simp
  ultimately show ?thesis
    using session_messages_in_order [of libs_example _ _ _ _ y 0] run_example_result y by auto
qed

theorem server_goroutines_safe_witness:
  "\<exists>y. srv_run libs_example run_example start_example = Some y \<and>
     srv_do libs_example (EvTick 0 (Inr [0, 0])) y \<noteq> None \<and>
     distinct (map fst (srv_clients (y_srv y))) \<and> srv_clients (y_srv y) = [(''a'', 0)] \<and>
     pc_of y 0 \<in> listed_pcs"
proof -
  obtain y where y: "srv_run libs_example run_example start_example = Some y"
    using run_example_result by auto
  have "srv_reachable libs_example start_example y"
    by (rule srv_run_reachable [OF srv_reachable.start y])
  then have r: "srv_reachable libs_example (srv_start (NewServer
     \<lparr>cfg_Name = ''s'', cfg_SupportedRoles = None, cfg_SourceRate = 48000, cfg_SourceChannels = 2\<rparr> ''uuid''
     (\<lambda>_ _ _. Inl (LibraryError [])) (\<lambda>_ _ _ _. Inl (LibraryError [])))) y"
    unfolding start_example_def .
  have "srv_clients (y_srv y) = [(''a'', 0)]" using run_example_result y by simp
  moreover have "srv_enabled (EvTick 0 (Inr [0, 0])) y" by simp
  ultimately show ?thesis
    using server_goroutines_safe [OF r] y by (auto simp del: srv_do.simps)
qed

section \<open>Races the invariant does not exclude\<close>

text \<open>
  A client is in the server's list before \<open>server/hello\<close> is queued, and a tick streams to every listed
  client whatever its roles: audio can precede the greeting, and reaches a client that has no player
  role and was never sent \<open>stream/start\<close>.
\<close>

lemma audio_before_hello:
  "map_option (\<lambda>y. (List.map_filter frame_of (written y 0) = [CreateAudioChunk 500000 (encodePCM [0, 0])],
        map_option (\<lambda>m. frame_of m \<noteq> None) (List.find (\<lambda>_. True) (written y 0)),
        session (written y 0), sc_roles (srv_heap (y_srv y) ! 0)))
     (srv_run libs_example
        [EvHello True (Some hello_json), EvTick 0 (Inr [0, 0]), EvGreet 0, EvWriter 0 True, EvWriter 0 True]
        start_example) =
   Some (True, Some True, [''server/hello''], [''metadata@v1''])"
  unfolding srv_run_hello by code_simp

text \<open>
  \<open>removeClient\<close> leaves the server's list before it leaves the group, and the group knows its members
  by id: when a client reconnects in between, its join is ignored as a duplicate and the old
  connection's leave then removes the id. The new connection is served but not a member; it never
  gets \<open>group/update\<close> or a role message.
\<close>

lemma reconnect_leaves_client_outside_group:
  "map_option (\<lambda>y. (pc_of y 1, srv_clients (y_srv y), g_clients (srv_group (y_srv y)),
        session (history y 1), chan_buf (g_chans (srv_group (y_srv y)) 0)))
     (srv_run libs_example
        [EvHello True (Some hello_json), EvGreet 0, EvJoin 0, EvDispatch env_example, EvClosed 0,
         EvRemoveEncoders 0, EvRemoveListing 0,
         EvHello True (Some hello_json), EvGreet 1, EvJoin 1, EvRemoveFromGroup 0, EvDispatch env_example]
        start_example) =
   Some (Serving, [(''a'', 1)], [], [''server/hello''], [])"
proof -
  have eq: "srv_run libs_example
        [EvHello True (Some hello_json), EvGreet 0, EvJoin 0, EvDispatch env_example, EvClosed 0,
         EvRemoveEncoders 0, EvRemoveListing 0,
         EvHello True (Some hello_json), EvGreet 1, EvJoin 1, EvRemoveFromGroup 0, EvDispatch env_example]
        start_example =
     Option.bind (srv_run libs_example
        [EvGreet 0, EvJoin 0, EvDispatch env_example, EvClosed 0, EvRemoveEncoders 0, EvRemoveListing 0]
        (hello_arrives start_example))
       (\<lambda>y. srv_run libs_example [EvGreet 1, EvJoin 1, EvRemoveFromGroup 0, EvDispatch env_example]
          (hello_arrives y))"
    using srv_run_append [of libs_example "[EvGreet 0, EvJoin 0, EvDispatch env_example, EvClosed 0,
        EvRemoveEncoders 0, EvRemoveListing 0]" "EvHello True (Some hello_json) #
        [EvGreet 1, EvJoin 1, EvRemoveFromGroup 0, EvDispatch env_example]" "hello_arrives start_example"]
    by (simp only: srv_run_hello srv_run_hello_fun append.simps)
  show ?thesis unfolding eq by code_simp
qed

end
