(* ===== verification/Server_Runs.thy ===== *)
theory Server_Runs
  imports Server_System
begin

text \<open>
  Two computations of the server against what they are for: the active roles of a client, and the
  end of the stream when the audio source keeps failing.
\<close>

section \<open>Roles and active roles\<close>

text \<open>What the loop of \<open>activateRoles\<close> computes, by index.\<close>

definition first_of_family :: "string list \<Rightarrow> nat \<Rightarrow> bool" where
  "first_of_family roles i \<longleftrightarrow> (\<forall>j < i. at_family (roles ! j) \<noteq> at_family (roles ! i))"

lemma activate_loop_eq:
  "activate_loop allowed seen roles =
     map (\<lambda>i. roles ! i) (filter (\<lambda>i. at_family (roles ! i) \<in> set allowed \<and>
        at_family (roles ! i) \<notin> set seen \<and> first_of_family roles i) [0..<length roles])"
proof (induction roles arbitrary: seen)
  case Nil
  show ?case by simp
next
  case (Cons role roles)
  have first: "first_of_family (role # roles) (Suc i) \<longleftrightarrow>
      at_family role \<noteq> at_family (roles ! i) \<and> first_of_family roles i" for i
    by (auto simp: first_of_family_def less_Suc_eq_0_disj)
  have zero: "first_of_family (role # roles) 0" by (simp add: first_of_family_def)
  have upt: "[0..<length (role # roles)] = 0 # map Suc [0..<length roles]"
    by (simp add: map_Suc_upt upt_conv_Cons del: upt_Suc)
  show ?case
    unfolding upt
    using Cons.IH [of seen] Cons.IH [of "at_family role # seen"]
    by (auto simp: filter_map comp_def first zero intro!: arg_cong [where f = "map ((!) roles)"] filter_cong)
qed

text \<open>
  C37. The active roles of a client are, in its own order, exactly those of its roles whose family the
  server supports (by configuration or by a registered role) and of whose family it is the first:
  the loop computes this reference definition.
\<close>

theorem activateRoles_reference:
  "activateRoles s roles =
     map (\<lambda>i. roles ! i) (filter (\<lambda>i.
        at_family (roles ! i) \<in> set (srv_SupportedRoles s) \<union> fst ` set (g_roles (srv_group s)) \<and>
        first_of_family roles i) [0..<length roles])"
  unfolding activateRoles_def activate_loop_eq by simp

section \<open>Failing sources\<close>

fun failing_ticks :: "('o, 'f) stream_libs \<Rightarrow> (int \<times> string) list \<Rightarrow> ('o, 'f) Server \<Rightarrow> ('o, 'f) Server option" where
  "failing_ticks libs [] s = Some s"
| "failing_ticks libs ((now, e) # ticks) s =
     Option.bind (generateAndSendChunk libs now (Inl e) s) (failing_ticks libs ticks)"

lemma failing_ticks_after:
  "50 \<le> srv_consecutiveReadErrs s \<Longrightarrow>
   failing_ticks libs ticks s =
     Some (s\<lparr>srv_consecutiveReadErrs := srv_consecutiveReadErrs s + int (length ticks)\<rparr>)"
  by (induction ticks arbitrary: s)
    (auto simp: generateAndSendChunk_def Let_def add.assoc)

lemma failing_ticks_before:
  "srv_consecutiveReadErrs s + int (length ticks) < 50 \<Longrightarrow>
   failing_ticks libs ticks s =
     Some (s\<lparr>srv_consecutiveReadErrs := srv_consecutiveReadErrs s + int (length ticks)\<rparr>)"
  by (induction ticks arbitrary: s)
    (auto simp: generateAndSendChunk_def Let_def add.assoc)

lemma failing_ticks_append:
  "failing_ticks libs (xs @ ys) s = Option.bind (failing_ticks libs xs s) (failing_ticks libs ys)"
proof (induction xs arbitrary: s)
  case (Cons t xs)
  then show ?case
    by (cases t; cases "generateAndSendChunk libs (fst t) (Inl (snd t)) s") simp_all
qed simp

lemma notifyStreamEnd_errs [simp]: "srv_consecutiveReadErrs (notifyStreamEnd s) = srv_consecutiveReadErrs s"
  "notifyStreamEnd (s\<lparr>srv_consecutiveReadErrs := n\<rparr>) = (notifyStreamEnd s)\<lparr>srv_consecutiveReadErrs := n\<rparr>"
  by (simp_all add: notifyStreamEnd_def)

lemma failing_ticks_eq:
  assumes "srv_consecutiveReadErrs s = 0"
  shows "failing_ticks libs ticks s =
    Some ((if length ticks < 50 then s else notifyStreamEnd s)
      \<lparr>srv_consecutiveReadErrs := int (length ticks)\<rparr>)"
proof (cases "length ticks < 50")
  case True
  then show ?thesis using failing_ticks_before [of s ticks libs] assms by simp
next
  case False
  define a where "a = take 49 ticks"
  obtain now e b where split: "ticks = a @ (now, e) # b"
  proof -
    have "drop 49 ticks \<noteq> []" using False by simp
    then obtain t b where "drop 49 ticks = t # b" by (cases "drop 49 ticks") auto
    moreover obtain now e where "t = (now, e)" by (cases t)
    ultimately show ?thesis using that append_take_drop_id [of 49 ticks] by (simp add: a_def) metis
  qed
  have len: "length a = 49" using False by (simp add: a_def)
  have "failing_ticks libs a s = Some (s\<lparr>srv_consecutiveReadErrs := 49\<rparr>)"
    using failing_ticks_before [of s a libs] assms len by simp
  moreover have "failing_ticks libs ((now, e) # b) (s\<lparr>srv_consecutiveReadErrs := 49\<rparr>) =
      failing_ticks libs b ((notifyStreamEnd s)\<lparr>srv_consecutiveReadErrs := 50\<rparr>)"
    by (simp add: generateAndSendChunk_def Let_def)
  ultimately show ?thesis
    using failing_ticks_after [of "(notifyStreamEnd s)\<lparr>srv_consecutiveReadErrs := 50\<rparr>" libs b] False len
    by (simp add: split failing_ticks_append)
qed

lemma notify_fold_nth:
  assumes "distinct rs" "k < length h"
  shows "fold (\<lambda>r h. if HasRole (h ! r) ''player''
        then h[r := try_send ''stream/end'' (StreamEndP [''player'']) (h ! r)] else h) rs h ! k =
    (if k \<in> set rs \<and> HasRole (h ! k) ''player''
     then try_send ''stream/end'' (StreamEndP [''player'']) (h ! k) else h ! k)"
  using assms
proof (induction rs arbitrary: h)
  case Nil
  then show ?case by simp
next
  case (Cons r rs)
  define h1 where "h1 = (if HasRole (h ! r) ''player''
      then h[r := try_send ''stream/end'' (StreamEndP [''player'']) (h ! r)] else h)"
  have h1: "h1 ! k = (if k = r \<and> HasRole (h ! r) ''player''
      then try_send ''stream/end'' (StreamEndP [''player'']) (h ! k) else h ! k)" "k < length h1"
    using Cons.prems(2) by (auto simp: h1_def)
  show ?case
    using Cons.IH [of h1] Cons.prems(1) h1 by (auto simp: h1_def)
qed

text \<open>
  When the source keeps failing, the players are told exactly once: after fewer than 50
  consecutive failures nothing has been sent, and from the 50th on \<open>stream/end\<close> has been sent once to
  every listed player and to nobody else, however long the failure goes on.
\<close>

theorem stream_end_exactly_once:
  assumes "srv_consecutiveReadErrs s = 0" and "distinct (map snd (srv_clients s))"
  shows "\<exists>s'. failing_ticks libs ticks s = Some s' \<and>
    srv_consecutiveReadErrs s' = int (length ticks) \<and> srv_clients s' = srv_clients s \<and>
    length (srv_heap s') = length (srv_heap s) \<and>
    (\<forall>k < length (srv_heap s). srv_heap s' ! k =
       (if 50 \<le> length ticks \<and> k \<in> snd ` set (srv_clients s) \<and> HasRole (srv_heap s ! k) ''player''
        then try_send ''stream/end'' (StreamEndP [''player'']) (srv_heap s ! k) else srv_heap s ! k))"
proof -
  let ?s' = "(if length ticks < 50 then s else notifyStreamEnd s)\<lparr>srv_consecutiveReadErrs := int (length ticks)\<rparr>"
  have len: "length (fold (\<lambda>r h. if HasRole (h ! r) ''player''
        then h[r := try_send ''stream/end'' (StreamEndP [''player'']) (h ! r)] else h) rs h) = length h" for rs h
    by (induction rs arbitrary: h) simp_all
  have "failing_ticks libs ticks s = Some ?s'" by (rule failing_ticks_eq [OF assms(1)])
  moreover have "srv_heap (notifyStreamEnd s) ! k =
      (if k \<in> snd ` set (srv_clients s) \<and> HasRole (srv_heap s ! k) ''player''
       then try_send ''stream/end'' (StreamEndP [''player'']) (srv_heap s ! k) else srv_heap s ! k)"
    if "k < length (srv_heap s)" for k
    using notify_fold_nth [OF assms(2) that] by (simp add: notifyStreamEnd_def)
  ultimately show ?thesis
    by (intro exI [of _ ?s']) (simp add: notifyStreamEnd_def len)
qed

definition failing_example :: "(unit, unit) Server" where
  "failing_example = accept_hello (hello_example\<lparr>ch_SupportedRoles := [''player@v1'']\<rparr>) (y_srv start_example)"

theorem stream_end_exactly_once_witness:
  "\<exists>s'. failing_ticks libs_example (replicate 60 (0, ''EOF'')) failing_example = Some s' \<and>
     srv_consecutiveReadErrs s' = 60 \<and>
     chan_buf (sc_sendChan (srv_heap s' ! 0)) = [Control ''stream/end'' (StreamEndP [''player''])]"
proof -
  have hyps: "srv_consecutiveReadErrs failing_example = 0" "distinct (map snd (srv_clients failing_example))"
    and heap: "0 < length (srv_heap failing_example)" "snd ` set (srv_clients failing_example) = {0}"
    "HasRole (srv_heap failing_example ! 0) ''player''"
    "chan_room (sc_sendChan (srv_heap failing_example ! 0))"
    "chan_buf (sc_sendChan (srv_heap failing_example ! 0)) = []"
    by code_simp+
  show ?thesis
    using stream_end_exactly_once [OF hyps, of libs_example "replicate 60 (0, ''EOF'')"] heap
    by (auto simp: try_send_buf)
qed

end
