(* ===== verification/Protocol_Client.thy ===== *)
theory Protocol_Client
  imports Wire_Frames Messages
begin

text \<open>
  The protocol client of \<open>pkg/protocol/client.go\<close>: the hello it sends, the handshake and its
  errors, and the reader goroutine that parses every message and hands it to one of nine channels.
  The WebSocket library is a parameter: every write and read has its outcome as an argument.
\<close>

section \<open>The hello\<close>

record client_config =
  cc_ClientID :: string
  cc_Name :: string
  cc_Version :: int
  cc_DeviceInfo :: DeviceInfo
  cc_PlayerV1Support :: PlayerV1Support
  cc_ArtworkV1Support :: "ArtworkV1Support option"
  cc_VisualizerV1Support :: "VisualizerV1Support option"
  cc_SupportedRoles :: "string list"

definition buildSupportedRoles :: "client_config \<Rightarrow> string list" where
  "buildSupportedRoles cfg =
     (if 0 < length (cc_SupportedRoles cfg) then cc_SupportedRoles cfg
      else [''player@v1'', ''metadata@v1'', ''controller@v1'']
        @ (if cc_ArtworkV1Support cfg \<noteq> None then [''artwork@v1''] else [])
        @ (if cc_VisualizerV1Support cfg \<noteq> None then [''visualizer@v1''] else []))"

definition containsRole :: "string list \<Rightarrow> string \<Rightarrow> bool" where
  "containsRole roles role \<longleftrightarrow> list_ex (\<lambda>r. r = role) roles"

definition client_hello :: "client_config \<Rightarrow> ClientHello" where
  "client_hello cfg =
     (let roles = buildSupportedRoles cfg
      in \<lparr>ch_ClientID = cc_ClientID cfg, ch_Name = cc_Name cfg, ch_Version = cc_Version cfg,
          ch_SupportedRoles = roles, ch_DeviceInfo = Some (cc_DeviceInfo cfg),
          ch_PlayerV1Support =
            (if containsRole roles ''player@v1'' then Some (cc_PlayerV1Support cfg) else None),
          ch_ArtworkV1Support = cc_ArtworkV1Support cfg,
          ch_VisualizerV1Support = cc_VisualizerV1Support cfg\<rparr>)"

text \<open>Its encoding.\<close>

definition enc_DeviceInfo :: "DeviceInfo \<Rightarrow> json" where
  "enc_DeviceInfo d =
     JObj [(''product_name'', JStr (di_ProductName d)), (''manufacturer'', JStr (di_Manufacturer d)),
           (''software_version'', JStr (di_SoftwareVersion d))]"

definition enc_PlayerV1Support :: "PlayerV1Support \<Rightarrow> json" where
  "enc_PlayerV1Support p =
     JObj [(''supported_formats'', JArr (map enc_AudioFormat (ps_SupportedFormats p))),
           (''buffer_capacity'', enc_int (ps_BufferCapacity p)),
           (''supported_commands'', JArr (map JStr (ps_SupportedCommands p)))]"

definition enc_ArtworkChannel :: "ArtworkChannel \<Rightarrow> json" where
  "enc_ArtworkChannel c =
     JObj [(''source'', JStr (ac_Source c)), (''format'', JStr (ac_Format c)),
           (''media_width'', enc_int (ac_MediaWidth c)), (''media_height'', enc_int (ac_MediaHeight c))]"

definition enc_ArtworkV1Support :: "ArtworkV1Support \<Rightarrow> json" where
  "enc_ArtworkV1Support a = JObj [(''channels'', JArr (map enc_ArtworkChannel (as_Channels a)))]"

definition enc_VisualizerV1Support :: "VisualizerV1Support \<Rightarrow> json" where
  "enc_VisualizerV1Support v = JObj [(''buffer_capacity'', enc_int (vs_BufferCapacity v))]"

definition enc_ClientHello :: "ClientHello \<Rightarrow> json" where
  "enc_ClientHello h =
     JObj ([(''client_id'', JStr (ch_ClientID h)), (''name'', JStr (ch_Name h)),
            (''version'', enc_int (ch_Version h)),
            (''supported_roles'', JArr (map JStr (ch_SupportedRoles h)))]
           @ enc_opt ''device_info'' enc_DeviceInfo (ch_DeviceInfo h)
           @ enc_opt ''player@v1_support'' enc_PlayerV1Support (ch_PlayerV1Support h)
           @ enc_opt ''artwork@v1_support'' enc_ArtworkV1Support (ch_ArtworkV1Support h)
           @ enc_opt ''visualizer@v1_support'' enc_VisualizerV1Support (ch_VisualizerV1Support h))"

section \<open>The handshake\<close>

record Client =
  cl_config :: client_config
  cl_conn :: bool
  cl_serverHello :: "ServerHello option"
  cl_rawServerHello :: "json option"
  cl_connected :: bool
  cl_cancelled :: bool
  cl_written :: "json list"

text \<open>
  \<open>cl_conn\<close>: there is a connection; \<open>cl_cancelled\<close>: the context is cancelled; \<open>cl_written\<close>: what has
  been written to the connection so far.
\<close>

definition newClient :: "client_config \<Rightarrow> Client" where
  "newClient cfg =
     \<lparr>cl_config = cfg, cl_conn = False, cl_serverHello = None, cl_rawServerHello = None,
      cl_connected = False, cl_cancelled = False, cl_written = []\<rparr>"

definition NewClientFromConn :: "client_config \<Rightarrow> Client" where
  "NewClientFromConn cfg = (newClient cfg)\<lparr>cl_conn := True, cl_connected := True\<rparr>"

datatype client_error =
    NotConnected
  | WriteFailed string
  | DialFailed string
  | NoConnection
  | HelloSendFailed client_error
  | HelloReadFailed string
  | HelloUnparsable
  | UnexpectedType string
  | HelloUndecodable
  | StateSendFailed client_error
  | HandshakeFailed client_error
  | DeadlineFailed string

text \<open>\<open>w\<close> is the outcome of \<open>WriteJSON\<close>: \<open>None\<close>, or its error.\<close>

definition sendJSON :: "string option \<Rightarrow> json \<Rightarrow> Client \<Rightarrow> client_error option \<times> Client" where
  "sendJSON w msg c =
     (if \<not> cl_connected c then (Some NotConnected, c)
      else case w of
        Some e \<Rightarrow> (Some (WriteFailed e), c)
      | None \<Rightarrow> (None, c\<lparr>cl_written := cl_written c @ [msg]\<rparr>))"

definition client_Close :: "Client \<Rightarrow> Client" where
  "client_Close c =
     (if cl_connected c then c\<lparr>cl_connected := False, cl_cancelled := True\<rparr> else c)"

definition initial_state :: PlayerState where
  "initial_state = \<lparr>pst_State = ''synchronized'', pst_Volume = 100, pst_Muted = False\<rparr>"

text \<open>
  \<open>r\<close> is the message that answers the hello: an error of the read, text that is not JSON
  (\<open>Inr None\<close>), or a JSON value.
\<close>

definition handshake ::
  "string option \<Rightarrow> string + json option \<Rightarrow> string option \<Rightarrow> Client \<Rightarrow> client_error option \<times> Client" where
  "handshake w1 r w2 c =
     (case sendJSON w1 (enc_Message ''client/hello'' (enc_ClientHello (client_hello (cl_config c)))) c of
        (Some e, c) \<Rightarrow> (Some (HelloSendFailed e), c)
      | (None, c) \<Rightarrow>
         (case r of
            Inl e \<Rightarrow> (Some (HelloReadFailed e), c)
          | Inr data \<Rightarrow>
             (case Option.bind data dec_Message of
                None \<Rightarrow> (Some HelloUnparsable, c)
              | Some (t, p) \<Rightarrow>
                 if t \<noteq> ''server/hello'' then (Some (UnexpectedType t), c)
                 else case dec_ServerHello p of
                   None \<Rightarrow> (Some HelloUndecodable, c)
                 | Some hello \<Rightarrow>
                    (case sendJSON w2 (enc_Message ''client/state'' (enc_ClientStateMessage initial_state))
                            (c\<lparr>cl_serverHello := Some hello, cl_rawServerHello := data\<rparr>) of
                       (Some e, c) \<Rightarrow> (Some (StateSendFailed e), c)
                     | (None, c) \<Rightarrow> (None, c)))))"

text \<open>
  \<open>Start\<close>: without an error the reader and the ping goroutine are running; \<open>d\<close> is the outcome of
  \<open>SetReadDeadline\<close>.
\<close>

definition Start ::
  "string option \<Rightarrow> string + json option \<Rightarrow> string option \<Rightarrow> string option \<Rightarrow> Client
   \<Rightarrow> client_error option \<times> Client" where
  "Start w1 r w2 d c =
     (if \<not> cl_conn c then (Some NoConnection, c)
      else case handshake w1 r w2 c of
        (Some e, c) \<Rightarrow> (Some (HandshakeFailed e), client_Close c)
      | (None, c) \<Rightarrow>
          (case d of
             Some e \<Rightarrow> (Some (DeadlineFailed e), client_Close c)
           | None \<Rightarrow> (None, c)))"

definition Connect ::
  "string option \<Rightarrow> string option \<Rightarrow> string + json option \<Rightarrow> string option \<Rightarrow> string option \<Rightarrow> Client
   \<Rightarrow> client_error option \<times> Client" where
  "Connect dial w1 r w2 d c =
     (case dial of
        Some e \<Rightarrow> (Some (DialFailed e), c)
      | None \<Rightarrow> Start w1 r w2 d (c\<lparr>cl_conn := True, cl_connected := True\<rparr>))"

section \<open>Messages of the client\<close>

definition SendState :: "string option \<Rightarrow> PlayerState \<Rightarrow> Client \<Rightarrow> client_error option \<times> Client" where
  "SendState w state c = sendJSON w (enc_Message ''client/state'' (enc_ClientStateMessage state)) c"

definition SendGoodbye :: "string option \<Rightarrow> string \<Rightarrow> Client \<Rightarrow> client_error option \<times> Client" where
  "SendGoodbye w reason c =
     sendJSON w (enc_Message ''client/goodbye'' (JObj [(''reason'', JStr reason)])) c"

definition enc_RequestFormatPlayer :: "RequestFormatPlayer \<Rightarrow> json" where
  "enc_RequestFormatPlayer f =
     JObj (omit_string ''codec'' (rf_Codec f) @ omit_int ''channels'' (rf_Channels f)
           @ omit_int ''sample_rate'' (rf_SampleRate f) @ omit_int ''bit_depth'' (rf_BitDepth f))"

definition SendRequestFormat ::
  "string option \<Rightarrow> RequestFormatPlayer \<Rightarrow> Client \<Rightarrow> client_error option \<times> Client" where
  "SendRequestFormat w player c =
     sendJSON w (enc_Message ''stream/request-format''
       (JObj [(''player'', enc_RequestFormatPlayer player)])) c"

definition SendTimeSync :: "string option \<Rightarrow> int \<Rightarrow> Client \<Rightarrow> client_error option \<times> Client" where
  "SendTimeSync w t1 c = sendJSON w (enc_Message ''client/time'' (enc_ClientTime t1)) c"

lemmas send_defs = SendState_def SendGoodbye_def SendRequestFormat_def SendTimeSync_def sendJSON_def

section \<open>The hello is read back\<close>

definition small_hello :: "ClientHello \<Rightarrow> bool" where
  "small_hello h \<longleftrightarrow> small_int (ch_Version h) \<and>
     pred_option (\<lambda>p. small_int (ps_BufferCapacity p) \<and>
        list_all (\<lambda>f. small_int (af_Channels f) \<and> small_int (af_SampleRate f) \<and> small_int (af_BitDepth f))
          (ps_SupportedFormats p)) (ch_PlayerV1Support h) \<and>
     pred_option (\<lambda>a. list_all (\<lambda>c. small_int (ac_MediaWidth c) \<and> small_int (ac_MediaHeight c))
        (as_Channels a)) (ch_ArtworkV1Support h) \<and>
     pred_option (\<lambda>v. small_int (vs_BufferCapacity v)) (ch_VisualizerV1Support h)"

lemma dec_enc_DeviceInfo: "dec_DeviceInfo (enc_DeviceInfo d) = Some d"
  by (simp add: dec_DeviceInfo_def enc_DeviceInfo_def json_eval)

lemma dec_enc_AudioFormat:
  "small_int (af_Channels f) \<and> small_int (af_SampleRate f) \<and> small_int (af_BitDepth f) \<Longrightarrow>
   dec_AudioFormat (enc_AudioFormat f) = Some f \<and> float_safe (enc_AudioFormat f)"
  by (simp add: dec_AudioFormat_def enc_AudioFormat_def json_eval small_int_facts)

lemma dec_enc_ArtworkChannel:
  "small_int (ac_MediaWidth c) \<and> small_int (ac_MediaHeight c) \<Longrightarrow>
   dec_ArtworkChannel (enc_ArtworkChannel c) = Some c \<and> float_safe (enc_ArtworkChannel c)"
  by (simp add: dec_ArtworkChannel_def enc_ArtworkChannel_def json_eval small_int_facts)

lemma dec_enc_list:
  assumes "\<And>x. P x \<Longrightarrow> d (e x) = Some x \<and> float_safe (e x)" "list_all P xs"
  shows "those (map (d \<circ> e) xs) = Some xs" "list_all float_safe (map e xs)"
  using assms by (auto intro!: those_map_Some simp: list_all_iff)

lemma dec_enc_PlayerV1Support:
  assumes "small_int (ps_BufferCapacity p)"
    "list_all (\<lambda>f. small_int (af_Channels f) \<and> small_int (af_SampleRate f) \<and> small_int (af_BitDepth f))
       (ps_SupportedFormats p)"
  shows "dec_PlayerV1Support (enc_PlayerV1Support p) = Some p" "float_safe (enc_PlayerV1Support p)"
  using assms(1) dec_enc_list [OF dec_enc_AudioFormat assms(2)]
  by (simp_all add: dec_PlayerV1Support_def enc_PlayerV1Support_def json_eval small_int_facts)

lemma dec_enc_ArtworkV1Support:
  assumes "list_all (\<lambda>c. small_int (ac_MediaWidth c) \<and> small_int (ac_MediaHeight c)) (as_Channels a)"
  shows "dec_ArtworkV1Support (enc_ArtworkV1Support a) = Some a" "float_safe (enc_ArtworkV1Support a)"
  using dec_enc_list [OF dec_enc_ArtworkChannel assms]
  by (simp_all add: dec_ArtworkV1Support_def enc_ArtworkV1Support_def json_eval)

lemma dec_enc_VisualizerV1Support:
  "small_int (vs_BufferCapacity v) \<Longrightarrow> dec_VisualizerV1Support (enc_VisualizerV1Support v) = Some v"
  "small_int (vs_BufferCapacity v) \<Longrightarrow> float_safe (enc_VisualizerV1Support v)"
  by (simp_all add: dec_VisualizerV1Support_def enc_VisualizerV1Support_def json_eval small_int_facts)

lemmas dec_enc_support = dec_enc_DeviceInfo dec_enc_PlayerV1Support dec_enc_ArtworkV1Support
  dec_enc_VisualizerV1Support

lemma support_not_null:
  "enc_DeviceInfo d \<noteq> JNull" "enc_PlayerV1Support p \<noteq> JNull" "enc_ArtworkV1Support a \<noteq> JNull"
  "enc_VisualizerV1Support v \<noteq> JNull"
  by (simp_all add: enc_DeviceInfo_def enc_PlayerV1Support_def enc_ArtworkV1Support_def
      enc_VisualizerV1Support_def)

lemma client_hello_received:
  assumes "small_hello h"
  shows "dec_ClientHello (through_interface (enc_ClientHello h)) = Some h"
proof -
  have d: "pred_option (\<lambda>x. float_safe (enc_DeviceInfo x)) (ch_DeviceInfo h)"
    by (cases "ch_DeviceInfo h") (simp_all add: enc_DeviceInfo_def)
  have p: "pred_option (\<lambda>x. float_safe (enc_PlayerV1Support x)) (ch_PlayerV1Support h)"
    "decode_or None (dec_ptr dec_PlayerV1Support) (map_option enc_PlayerV1Support (ch_PlayerV1Support h))
       = Some (ch_PlayerV1Support h)"
    using assms by (cases "ch_PlayerV1Support h";
        simp add: small_hello_def dec_enc_support dec_ptr_def support_not_null)+
  have a: "pred_option (\<lambda>x. float_safe (enc_ArtworkV1Support x)) (ch_ArtworkV1Support h)"
    "decode_or None (dec_ptr dec_ArtworkV1Support) (map_option enc_ArtworkV1Support (ch_ArtworkV1Support h))
       = Some (ch_ArtworkV1Support h)"
    using assms by (cases "ch_ArtworkV1Support h";
        simp add: small_hello_def dec_enc_support dec_ptr_def support_not_null)+
  have v: "pred_option (\<lambda>x. float_safe (enc_VisualizerV1Support x)) (ch_VisualizerV1Support h)"
    "decode_or None (dec_ptr dec_VisualizerV1Support)
       (map_option enc_VisualizerV1Support (ch_VisualizerV1Support h)) = Some (ch_VisualizerV1Support h)"
    using assms by (cases "ch_VisualizerV1Support h";
        simp add: small_hello_def dec_enc_support dec_ptr_def support_not_null)+
  have dd: "decode_or None (dec_ptr dec_DeviceInfo) (map_option enc_DeviceInfo (ch_DeviceInfo h))
       = Some (ch_DeviceInfo h)"
    by (rule field_opt) (simp add: dec_enc_DeviceInfo support_not_null)
  have ver: "small_int (ch_Version h)" using assms by (simp add: small_hello_def)
  have "float_safe (enc_ClientHello h)"
    using d p(1) a(1) v(1) ver by (simp add: enc_ClientHello_def list_all_enc_opt small_int_facts)
  moreover have "dec_ClientHello (enc_ClientHello h) = Some h"
    using ver by (simp add: dec_ClientHello_def enc_ClientHello_def json_eval dd p(2) a(2) v(2) small_int_facts)
  ultimately show ?thesis by (simp add: through_interface_id)
qed

section \<open>Outcomes of the start\<close>

text \<open>The hello in an answer that the handshake accepts.\<close>

definition answered :: "string + json option \<Rightarrow> ServerHello option" where
  "answered r =
     (case r of Inl e \<Rightarrow> None
      | Inr data \<Rightarrow>
          (case Option.bind data dec_Message of
             None \<Rightarrow> None
           | Some (t, p) \<Rightarrow> if t = ''server/hello'' then dec_ServerHello p else None))"

definition first_messages :: "client_config \<Rightarrow> json list" where
  "first_messages cfg =
     [enc_Message ''client/hello'' (enc_ClientHello (client_hello cfg)),
      enc_Message ''client/state'' (enc_ClientStateMessage initial_state)]"

lemma Start_cases:
  assumes "cl_conn c" "cl_connected c" "Start w1 r w2 d c = (e, c')"
  shows "if w1 = None \<and> answered r \<noteq> None \<and> w2 = None \<and> d = None
    then e = None \<and> cl_connected c' \<and> cl_cancelled c' = cl_cancelled c \<and> cl_serverHello c' = answered r \<and>
      cl_written c' = cl_written c @ first_messages (cl_config c)
    else e \<noteq> None \<and> \<not> cl_connected c' \<and> cl_cancelled c' \<and>
      (\<exists>n. cl_written c' = cl_written c @ take n (first_messages (cl_config c)))"
proof (cases w1)
  case None
  have one: "\<exists>n. [x] = take n (x # xs)" for x :: json and xs by (rule exI [of _ 1]) simp
  have two: "\<exists>n. x # xs = take n (x # xs)" for x :: json and xs
    by (rule exI [of _ "Suc (length xs)"]) simp
  show ?thesis
  proof (cases "answered r")
    case None
    then show ?thesis
      using assms \<open>w1 = None\<close>
      by (auto simp: Start_def handshake_def sendJSON_def client_Close_def answered_def
          first_messages_def one split: sum.splits option.splits if_splits)
  next
    case (Some h)
    then show ?thesis
      using assms \<open>w1 = None\<close>
      by (auto simp: Start_def handshake_def sendJSON_def client_Close_def answered_def
          first_messages_def one two split: sum.splits option.splits if_splits bind_splits)
  qed
next
  case (Some e1)
  then show ?thesis
    using assms by (auto simp: Start_def handshake_def sendJSON_def client_Close_def intro: exI [of _ 0])
qed

text \<open>
  C29. What starting a client does, in every state it can be called in. Without a connection it fails and
  changes nothing. With one it succeeds exactly when the client has not been closed, both writes succeed,
  the answer is a well-formed \<open>server/hello\<close> and the read deadline can be set; then the client stays
  connected, holds the server's hello and has written \<open>client/hello\<close> and \<open>client/state\<close>, in this order.
  When any of these fails the client is disconnected afterwards, cancelled if it was connected before, and
  has written an initial part of the two messages.
\<close>

theorem Start_outcome:
  assumes "Start w1 r w2 d c = (e, c')"
  shows "if \<not> cl_conn c then e = Some NoConnection \<and> c' = c
    else if cl_connected c \<and> w1 = None \<and> answered r \<noteq> None \<and> w2 = None \<and> d = None
    then e = None \<and> cl_connected c' \<and> cl_cancelled c' = cl_cancelled c \<and> cl_serverHello c' = answered r \<and>
      cl_written c' = cl_written c @ first_messages (cl_config c)
    else e \<noteq> None \<and> e \<noteq> Some NoConnection \<and> \<not> cl_connected c' \<and>
      cl_cancelled c' = (cl_cancelled c \<or> cl_connected c) \<and>
      (\<exists>n. cl_written c' = cl_written c @ take n (first_messages (cl_config c)))"
proof -
  consider "\<not> cl_conn c" | "cl_conn c" "\<not> cl_connected c" | "cl_conn c" "cl_connected c" by blast
  then show ?thesis
  proof cases
    case 1
    with assms show ?thesis by (simp add: Start_def)
  next
    case 2
    with assms show ?thesis
      by (auto simp: Start_def handshake_def sendJSON_def client_Close_def intro: exI [of _ 0])
  next
    case 3
    have "e \<noteq> Some NoConnection"
      using assms 3 by (auto simp: Start_def split: option.splits prod.splits)
    with Start_cases [OF 3 assms] 3 show ?thesis by (auto split: if_splits)
  qed
qed

definition client_config_example :: client_config where
  "client_config_example =
     \<lparr>cc_ClientID = ''id'', cc_Name = ''Kitchen'', cc_Version = 1,
      cc_DeviceInfo = \<lparr>di_ProductName = ''P'', di_Manufacturer = ''M'', di_SoftwareVersion = ''1''\<rparr>,
      cc_PlayerV1Support =
        \<lparr>ps_SupportedFormats =
           [\<lparr>af_Codec = ''pcm'', af_Channels = 2, af_SampleRate = 48000, af_BitDepth = 24\<rparr>],
         ps_BufferCapacity = 1048576, ps_SupportedCommands = [''volume'', ''mute'']\<rparr>,
      cc_ArtworkV1Support = None, cc_VisualizerV1Support = None, cc_SupportedRoles = []\<rparr>"

theorem Start_outcome_witness:
  "fst (Start None (Inr None) None None (NewClientFromConn client_config_example)) \<noteq> None \<and>
   cl_cancelled (snd (Start None (Inr None) None None (NewClientFromConn client_config_example))) \<and>
   \<not> cl_cancelled (snd (Start None (Inr None) None None (newClient client_config_example)))"
  using Start_outcome [OF surjective_pairing [of "Start None (Inr None) None None (NewClientFromConn client_config_example)"]]
    Start_outcome [OF surjective_pairing [of "Start None (Inr None) None None (newClient client_config_example)"]]
  by (simp add: NewClientFromConn_def newClient_def answered_def)

section \<open>Routing\<close>

text \<open>A message that is routed to a channel; anything else is logged and ignored (\<open>None\<close>).\<close>

datatype incoming =
    InAudio int "byte list"
  | InArtwork int int "byte list"
  | InCommand PlayerCommand
  | InTime ServerTime
  | InStreamStart StreamStart
  | InStreamClear "string list"
  | InStreamEnd "string list"
  | InState ServerStateMessage
  | InGroup GroupUpdate

datatype client_chan =
    AudioChunks | ArtworkChunks | ControlMsgs | TimeSyncResp | StreamStarts | StreamClears
  | StreamEnds | ServerStates | GroupUpdates

datatype ws_message = BinaryMessage "byte list" | TextMessage "json option" | OtherMessage int

definition handleBinaryMessage :: "byte list \<Rightarrow> incoming option" where
  "handleBinaryMessage data =
     (case parse_binary data of
        FrameAudio ts d \<Rightarrow> Some (InAudio ts d)
      | FrameArtwork ch ts d \<Rightarrow> Some (InArtwork ch ts d)
      | _ \<Rightarrow> None)"

definition route_json :: "string \<Rightarrow> json \<Rightarrow> incoming option" where
  "route_json t p =
     (if t = ''server/command'' then map_option InCommand (Option.bind (dec_ServerCommandMessage p) id)
      else if t = ''server/time'' then map_option InTime (dec_ServerTime p)
      else if t = ''stream/start'' then map_option InStreamStart (dec_StreamStart p)
      else if t = ''stream/clear'' then map_option InStreamClear (dec_roles p)
      else if t = ''stream/end'' then map_option InStreamEnd (dec_roles p)
      else if t = ''server/state'' then map_option InState (dec_ServerStateMessage p)
      else if t = ''group/update'' then map_option InGroup (dec_GroupUpdate p)
      else None)"

definition handleJSONMessage :: "json option \<Rightarrow> incoming option" where
  "handleJSONMessage data =
     (case Option.bind data dec_Message of None \<Rightarrow> None | Some (t, p) \<Rightarrow> route_json t p)"

fun incoming_of :: "ws_message \<Rightarrow> incoming option" where
  "incoming_of (BinaryMessage data) = handleBinaryMessage data"
| "incoming_of (TextMessage data) = handleJSONMessage data"
| "incoming_of (OtherMessage n) = None"

fun chan_of :: "incoming \<Rightarrow> client_chan" where
  "chan_of (InAudio ts d) = AudioChunks"
| "chan_of (InArtwork ch ts d) = ArtworkChunks"
| "chan_of (InCommand c) = ControlMsgs"
| "chan_of (InTime t) = TimeSyncResp"
| "chan_of (InStreamStart s) = StreamStarts"
| "chan_of (InStreamClear r) = StreamClears"
| "chan_of (InStreamEnd r) = StreamEnds"
| "chan_of (InState s) = ServerStates"
| "chan_of (InGroup u) = GroupUpdates"

text \<open>The capacities of \<open>newClient\<close>.\<close>

fun chan_capacity :: "client_chan \<Rightarrow> nat" where
  "chan_capacity AudioChunks = 100"
| "chan_capacity ArtworkChunks = 10"
| "chan_capacity ControlMsgs = 10"
| "chan_capacity TimeSyncResp = 10"
| "chan_capacity StreamStarts = 1"
| "chan_capacity StreamClears = 10"
| "chan_capacity StreamEnds = 1"
| "chan_capacity ServerStates = 10"
| "chan_capacity GroupUpdates = 10"

text \<open>
  What the \<open>select\<close> of a message does while its channel is full: wait, drop the message at once, or
  drop it after 100 ms; and whether it also gives up when the context is cancelled.
\<close>

datatype full_policy = WaitForRoom | DropAtOnce | DropAfterTimeout

fun policy_of :: "client_chan \<Rightarrow> full_policy" where
  "policy_of ControlMsgs = DropAtOnce"
| "policy_of ServerStates = DropAfterTimeout"
| "policy_of GroupUpdates = DropAfterTimeout"
| "policy_of _ = WaitForRoom"

definition watches_context :: "client_chan \<Rightarrow> bool" where
  "watches_context ch \<longleftrightarrow> policy_of ch \<noteq> DropAfterTimeout"

section \<open>The reader\<close>

datatype reader_pc = Polling | Receiving | Offering incoming | ReaderDone

text \<open>The reader and the channels, with the messages routed, consumed and dropped so far.\<close>

record reader_sys =
  rd_pc :: reader_pc
  rd_chans :: "client_chan \<Rightarrow> incoming list"
  rd_cancelled :: bool
  rd_routed :: "incoming list"
  rd_taken :: "client_chan \<Rightarrow> incoming list"
  rd_dropped :: "incoming list"

definition reader_init :: reader_sys where
  "reader_init =
     \<lparr>rd_pc = Polling, rd_chans = (\<lambda>_. []), rd_cancelled = False, rd_routed = [],
      rd_taken = (\<lambda>_. []), rd_dropped = []\<rparr>"

definition has_room :: "reader_sys \<Rightarrow> client_chan \<Rightarrow> bool" where
  "has_room y ch \<longleftrightarrow> length (rd_chans y ch) < chan_capacity ch"

text \<open>\<open>consumers\<close> are the channels that some goroutine of the client's user receives from.\<close>

inductive reader_step :: "client_chan set \<Rightarrow> reader_sys \<Rightarrow> reader_sys \<Rightarrow> bool" for consumers where
  poll: "rd_pc y = Polling \<Longrightarrow> \<not> rd_cancelled y \<Longrightarrow> reader_step consumers y (y\<lparr>rd_pc := Receiving\<rparr>)"
| stop: "rd_pc y = Polling \<Longrightarrow> rd_cancelled y \<Longrightarrow> reader_step consumers y (y\<lparr>rd_pc := ReaderDone\<rparr>)"
| read_error: "rd_pc y = Receiving \<Longrightarrow>
    reader_step consumers y (y\<lparr>rd_pc := ReaderDone, rd_cancelled := True\<rparr>)"
| ignore: "rd_pc y = Receiving \<Longrightarrow> incoming_of m = None \<Longrightarrow>
    reader_step consumers y (y\<lparr>rd_pc := Polling\<rparr>)"
| route: "rd_pc y = Receiving \<Longrightarrow> incoming_of m = Some x \<Longrightarrow>
    reader_step consumers y (y\<lparr>rd_pc := Offering x, rd_routed := rd_routed y @ [x]\<rparr>)"
| deliver: "rd_pc y = Offering x \<Longrightarrow> has_room y (chan_of x) \<Longrightarrow>
    reader_step consumers y
      (y\<lparr>rd_pc := Polling, rd_chans := (rd_chans y)(chan_of x := rd_chans y (chan_of x) @ [x])\<rparr>)"
| drop_full: "rd_pc y = Offering x \<Longrightarrow> \<not> has_room y (chan_of x) \<Longrightarrow>
    policy_of (chan_of x) \<noteq> WaitForRoom \<Longrightarrow>
    reader_step consumers y (y\<lparr>rd_pc := Polling, rd_dropped := rd_dropped y @ [x]\<rparr>)"
| give_up: "rd_pc y = Offering x \<Longrightarrow> rd_cancelled y \<Longrightarrow> watches_context (chan_of x) \<Longrightarrow>
    reader_step consumers y (y\<lparr>rd_pc := Polling, rd_dropped := rd_dropped y @ [x]\<rparr>)"
| consume: "ch \<in> consumers \<Longrightarrow> rd_chans y ch = x # xs \<Longrightarrow>
    reader_step consumers y
      (y\<lparr>rd_chans := (rd_chans y)(ch := xs), rd_taken := (rd_taken y)(ch := rd_taken y ch @ [x])\<rparr>)"
| close: "reader_step consumers y (y\<lparr>rd_cancelled := True\<rparr>)"

inductive_cases reader_stepE: "reader_step consumers y y'"

definition reader_reachable :: "client_chan set \<Rightarrow> reader_sys \<Rightarrow> bool" where
  "reader_reachable consumers y \<longleftrightarrow> (reader_step consumers)\<^sup>*\<^sup>* reader_init y"

text \<open>The messages of one channel, and the message in the reader's hands.\<close>

definition on_chan :: "client_chan \<Rightarrow> incoming list \<Rightarrow> incoming list" where
  "on_chan ch xs = filter (\<lambda>x. chan_of x = ch) xs"

definition offered :: "reader_sys \<Rightarrow> incoming list" where
  "offered y = (case rd_pc y of Offering x \<Rightarrow> [x] | _ \<Rightarrow> [])"

definition kept :: "client_chan \<Rightarrow> reader_sys \<Rightarrow> incoming list" where
  "kept ch y = rd_taken y ch @ rd_chans y ch @ on_chan ch (offered y)"

definition reader_inv :: "client_chan \<Rightarrow> reader_sys \<Rightarrow> bool" where
  "reader_inv ch y \<longleftrightarrow>
     length (rd_chans y ch) \<le> chan_capacity ch \<and>
     subseq (kept ch y) (on_chan ch (rd_routed y)) \<and>
     length (on_chan ch (rd_routed y)) = length (kept ch y) + length (on_chan ch (rd_dropped y)) \<and>
     (policy_of ch = WaitForRoom \<and> \<not> rd_cancelled y \<longrightarrow> on_chan ch (rd_dropped y) = [])"

lemma on_chan_simps [simp]:
  "on_chan ch [] = []" "on_chan ch (xs @ ys) = on_chan ch xs @ on_chan ch ys"
  "on_chan ch [x] = (if chan_of x = ch then [x] else [])"
  by (simp_all add: on_chan_def)

lemma subseq_snoc_left: "subseq (xs @ [x]) ys \<Longrightarrow> subseq xs ys"
  by (meson subseq_order.trans prefixI prefix_imp_subseq)

lemma subseq_grow:
  "subseq xs ys \<Longrightarrow> subseq (xs @ [x]) (ys @ [x])" "subseq xs ys \<Longrightarrow> subseq xs (ys @ [x])"
  by (simp_all add: list_emb_append_mono subseq_rev_drop_many)

lemma reader_inv_step:
  assumes "reader_step consumers y y'" "reader_inv ch y"
  shows "reader_inv ch y'"
  using assms
proof (cases rule: reader_step.cases)
  case (drop_full x)
  with assms(2) show ?thesis
    using subseq_snoc_left [of "rd_taken y ch @ rd_chans y ch" x]
    by (auto simp: reader_inv_def kept_def offered_def)
next
  case (give_up x)
  with assms(2) show ?thesis
    using subseq_snoc_left [of "rd_taken y ch @ rd_chans y ch" x]
    by (cases "chan_of x = ch") (auto simp: reader_inv_def kept_def offered_def)
next
  case (route m x)
  with assms(2) show ?thesis
    using subseq_grow [of "rd_taken y ch @ rd_chans y ch" "on_chan ch (rd_routed y)" x]
    by (auto simp: reader_inv_def kept_def offered_def)
qed (use assms(2) in \<open>auto simp: reader_inv_def kept_def offered_def has_room_def\<close>)

lemma reader_reachable_step:
  "reader_reachable consumers y \<Longrightarrow> reader_step consumers y z \<Longrightarrow> reader_reachable consumers z"
  unfolding reader_reachable_def by (rule rtranclp.rtrancl_into_rtrancl)

interpretation reading: step_invariant "reader_step consumers" "reader_inv ch"
  for consumers ch
  by unfold_locales (rule reader_inv_step)

lemma reader_init_inv: "reader_inv ch reader_init"
  by (simp add: reader_inv_def reader_init_def kept_def offered_def)

lemma reader_reachable_inv: "reader_reachable consumers y \<Longrightarrow> reader_inv ch y"
  unfolding reader_reachable_def by (rule reading.run [OF _ reader_init_inv])

text \<open>
  C5. Under every interleaving of the reader with its consumers, each channel delivers its messages in
  the order in which they arrived, within its capacity. As long as the connection is open, the channels
  of the audio, the clock answers and the stream messages lose nothing; what the others lose is exactly
  what was dropped.
\<close>

theorem client_channels_in_order:
  assumes "reader_reachable consumers y"
  shows "length (rd_chans y ch) \<le> chan_capacity ch \<and>
    subseq (rd_taken y ch @ rd_chans y ch) (on_chan ch (rd_routed y)) \<and>
    length (on_chan ch (rd_routed y)) = length (kept ch y) + length (on_chan ch (rd_dropped y)) \<and>
    (policy_of ch = WaitForRoom \<and> \<not> rd_cancelled y \<longrightarrow>
      rd_taken y ch @ rd_chans y ch @ on_chan ch (offered y) = on_chan ch (rd_routed y))"
proof -
  have inv: "reader_inv ch y" by (rule reader_reachable_inv [OF assms])
  have "prefix (rd_taken y ch @ rd_chans y ch) (kept ch y)" by (simp add: kept_def prefix_def)
  then have "subseq (rd_taken y ch @ rd_chans y ch) (on_chan ch (rd_routed y))"
    using inv by (meson reader_inv_def subseq_order.trans prefix_imp_subseq)
  moreover have "kept ch y = on_chan ch (rd_routed y)"
    if "policy_of ch = WaitForRoom \<and> \<not> rd_cancelled y"
    using inv that by (auto simp: reader_inv_def intro: subseq_same_length)
  ultimately show ?thesis using inv by (auto simp: reader_inv_def kept_def)
qed

text \<open>A run that routes and delivers one message after the other.\<close>

definition holding :: "incoming list \<Rightarrow> client_chan \<Rightarrow> reader_sys" where
  "holding xs ch = reader_init\<lparr>rd_chans := (\<lambda>c. if c = ch then xs else []), rd_routed := xs\<rparr>"

lemma holding_step:
  assumes "incoming_of m = Some x" "chan_of x = ch" "length xs < chan_capacity ch"
  shows "(reader_step consumers)\<^sup>*\<^sup>* (holding xs ch) (holding (xs @ [x]) ch)"
proof -
  let ?y0 = "holding xs ch"
  let ?y1 = "?y0\<lparr>rd_pc := Receiving\<rparr>"
  let ?y2 = "?y1\<lparr>rd_pc := Offering x, rd_routed := rd_routed ?y1 @ [x]\<rparr>"
  let ?y3 = "?y2\<lparr>rd_pc := Polling, rd_chans := (rd_chans ?y2)(chan_of x := rd_chans ?y2 (chan_of x) @ [x])\<rparr>"
  have "reader_step consumers ?y0 ?y1"
    by (rule reader_step.poll) (simp_all add: holding_def reader_init_def)
  moreover have "reader_step consumers ?y1 ?y2" by (rule reader_step.route [OF _ assms(1)]) simp
  moreover have "reader_step consumers ?y2 ?y3"
    by (rule reader_step.deliver) (use assms in \<open>simp_all add: has_room_def holding_def\<close>)
  moreover have "?y3 = holding (xs @ [x]) ch"
    using assms(2) by (auto simp: holding_def reader_init_def)
  ultimately show ?thesis by (metis rtranclp.simps)
qed

lemma holding_reachable:
  assumes "incoming_of m = Some x" "chan_of x = ch" "n \<le> chan_capacity ch"
  shows "reader_reachable consumers (holding (replicate n x) ch)"
  using assms(3)
proof (induction n)
  case 0
  then show ?case by (simp add: reader_reachable_def holding_def reader_init_def)
next
  case (Suc n)
  then have "(reader_step consumers)\<^sup>*\<^sup>* (holding (replicate n x) ch) (holding (replicate n x @ [x]) ch)"
    by (intro holding_step [OF assms(1,2)]) simp
  with Suc show ?case by (simp add: reader_reachable_def replicate_append_same)
qed

lemma incoming_binary:
  "is_int64 ts \<Longrightarrow> incoming_of (BinaryMessage (CreateAudioChunk ts d)) = Some (InAudio ts d)"
  "is_int64 ts \<Longrightarrow> 0 \<le> ch \<Longrightarrow> ch < 4 \<Longrightarrow>
   incoming_of (BinaryMessage (CreateArtworkChunk ch ts d)) = Some (InArtwork ch ts d)"
  by (simp_all add: handleBinaryMessage_def parse_audio parse_artwork wrap64_id)

theorem client_channels_in_order_witness:
  "rd_taken (holding (replicate 2 (InAudio 7 [1])) AudioChunks) AudioChunks
     @ rd_chans (holding (replicate 2 (InAudio 7 [1])) AudioChunks) AudioChunks
     = [InAudio 7 [1], InAudio 7 [1]]"
proof -
  have "reader_reachable UNIV (holding (replicate 2 (InAudio 7 [1])) AudioChunks)"
    by (rule holding_reachable [OF incoming_binary(1)]) (simp_all add: is_int64_def)
  from client_channels_in_order [OF this, of AudioChunks, THEN conjunct2, THEN conjunct2, THEN conjunct2]
  show ?thesis by (simp add: holding_def reader_init_def offered_def on_chan_def numeral_2_eq_2)
qed

section \<open>A channel without a consumer\<close>

definition stalled :: "client_chan \<Rightarrow> reader_sys \<Rightarrow> bool" where
  "stalled ch y \<longleftrightarrow> length (rd_chans y ch) = chan_capacity ch \<and>
     (\<exists>x. rd_pc y = Offering x \<and> chan_of x = ch)"

lemma stalled_step:
  assumes "reader_step consumers y z" "stalled ch y" "ch \<notin> consumers" "policy_of ch = WaitForRoom"
    "\<not> rd_cancelled z"
  shows "stalled ch z \<and> rd_routed z = rd_routed y \<and> \<not> rd_cancelled y"
  using assms by cases (auto simp: stalled_def has_room_def)

definition untouched :: "client_chan set \<Rightarrow> client_chan \<Rightarrow> reader_sys \<Rightarrow> bool" where
  "untouched consumers ch y \<longleftrightarrow> ch \<in> consumers \<or> rd_taken y ch = []"

interpretation unread: step_invariant "reader_step consumers" "untouched consumers ch"
  for consumers ch
  by unfold_locales (erule reader_step.cases; auto simp: untouched_def)

lemma not_taken:
  assumes "reader_reachable consumers y" "ch \<notin> consumers"
  shows "rd_taken y ch = []"
  using unread.run [of consumers reader_init y ch] assms
  by (simp add: reader_reachable_def untouched_def reader_init_def)

lemma stalled_forever:
  assumes "(reader_step consumers)\<^sup>*\<^sup>* y z" "reader_reachable consumers y" "ch \<notin> consumers"
    "policy_of ch = WaitForRoom" "chan_capacity ch < length (on_chan ch (rd_routed y))" "\<not> rd_cancelled z"
  shows "stalled ch z \<and> rd_routed z = rd_routed y"
  using assms(1,6)
proof (induction rule: rtranclp_induct)
  case base
  have inv: "reader_inv ch y" by (rule reader_reachable_inv [OF assms(2)])
  have taken: "rd_taken y ch = []" by (rule not_taken [OF assms(2,3)])
  have "length (rd_chans y ch) \<le> chan_capacity ch" using inv by (simp add: reader_inv_def)
  moreover have "length (rd_chans y ch) + length (on_chan ch (offered y)) = length (on_chan ch (rd_routed y))"
    using inv base assms(4) taken by (simp add: reader_inv_def kept_def)
  moreover have "length (on_chan ch (offered y)) \<le> 1"
    by (simp add: offered_def on_chan_def split: reader_pc.split)
  ultimately have "length (rd_chans y ch) = chan_capacity ch" "on_chan ch (offered y) \<noteq> []"
    using assms(5) by auto
  then show ?case by (auto simp: stalled_def offered_def split: reader_pc.splits if_splits)
next
  case (step w z)
  have "\<not> rd_cancelled w" using step.hyps(2) step.prems by cases auto
  with step.IH have "stalled ch w" "rd_routed w = rd_routed y" by simp_all
  with stalled_step [OF step.hyps(2) _ assms(3,4) step.prems] show ?case by simp
qed

text \<open>
  When nobody receives from the artwork channel, as in the \<open>Receiver\<close>, which all the same
  advertises artwork support, the eleventh artwork frame stops the reader: as long as the connection is
  not closed, no further message of any kind is routed, audio included.
\<close>

theorem artwork_stalls_reader:
  assumes "reader_reachable (UNIV - {ArtworkChunks}) y"
    "10 < length (on_chan ArtworkChunks (rd_routed y))"
    "(reader_step (UNIV - {ArtworkChunks}))\<^sup>*\<^sup>* y z" "\<not> rd_cancelled z"
  shows "stalled ArtworkChunks z \<and> rd_routed z = rd_routed y"
  using stalled_forever [OF assms(3,1)] assms(2,4) by simp

theorem artwork_stalls_reader_witness:
  "\<exists>y. stalled ArtworkChunks y \<and> length (rd_routed y) = 11"
proof -
  let ?x = "InArtwork 0 7 [1]"
  let ?S = "reader_step (UNIV - {ArtworkChunks})"
  let ?y0 = "holding (replicate 10 ?x) ArtworkChunks"
  let ?y1 = "?y0\<lparr>rd_pc := Receiving\<rparr>"
  let ?y2 = "?y1\<lparr>rd_pc := Offering ?x, rd_routed := rd_routed ?y1 @ [?x]\<rparr>"
  have x: "incoming_of (BinaryMessage (CreateArtworkChunk 0 7 [1])) = Some ?x"
    by (rule incoming_binary(2)) (simp_all add: is_int64_def)
  have r0: "reader_reachable (UNIV - {ArtworkChunks}) ?y0"
    by (rule holding_reachable [OF x]) simp_all
  have "?S ?y0 ?y1"
    by (rule reader_step.poll) (simp_all add: holding_def reader_init_def)
  then have r1: "reader_reachable (UNIV - {ArtworkChunks}) ?y1"
    by (rule reader_reachable_step [OF r0])
  have "?S ?y1 ?y2" by (rule reader_step.route [OF _ x]) simp
  then have reach: "reader_reachable (UNIV - {ArtworkChunks}) ?y2"
    by (rule reader_reachable_step [OF r1])
  have "stalled ArtworkChunks ?y2 \<and> rd_routed ?y2 = rd_routed ?y2"
    by (rule artwork_stalls_reader [OF reach]) (simp_all add: holding_def reader_init_def on_chan_def)
  then show ?thesis by (intro exI [of _ ?y2]) (simp add: holding_def)
qed

end
