(* ===== verification/Heap_Queue.thy ===== *)
theory Heap_Queue
  imports Go_Prelude "HOL-Library.Multiset"
begin

text \<open>
  The playback queue of \<open>pkg/sendspin/scheduler.go\<close>: \<open>BufferQueue\<close> with the operations of Go's
  \<open>container/heap\<close> (\<open>Init\<close>, \<open>Push\<close>, \<open>Pop\<close>, \<open>up\<close>, \<open>down\<close>), over any element type and key. The scheduler
  relies on it as a priority queue (\<open>priority_queue\<close>): a multiset of elements with access to one
  of the least.
\<close>

section \<open>The interface\<close>

locale priority_queue =
  fixes contents :: "'q \<Rightarrow> 'a multiset"
    and wf :: "'q \<Rightarrow> bool"
    and key :: "'a \<Rightarrow> int"
    and empty :: "'q"
    and push :: "'a \<Rightarrow> 'q \<Rightarrow> 'q"
    and peek :: "'q \<Rightarrow> 'a"
    and pop :: "'q \<Rightarrow> 'q"
  assumes empty_contents: "contents empty = {#}"
    and empty_wf: "wf empty"
    and push_contents: "wf q \<Longrightarrow> contents (push x q) = add_mset x (contents q)"
    and push_wf: "wf q \<Longrightarrow> wf (push x q)"
    and peek_contents: "wf q \<Longrightarrow> contents q \<noteq> {#} \<Longrightarrow> peek q \<in># contents q"
    and peek_least: "wf q \<Longrightarrow> x \<in># contents q \<Longrightarrow> key (peek q) \<le> key x"
    and pop_contents: "wf q \<Longrightarrow> contents q \<noteq> {#} \<Longrightarrow> contents (pop q) = contents q - {# peek q #}"
    and pop_wf: "wf q \<Longrightarrow> contents q \<noteq> {#} \<Longrightarrow> wf (pop q)"
begin

text \<open>Popping while the least element satisfies a condition, with at most \<open>n\<close> pops.\<close>

primrec drain :: "('a \<Rightarrow> bool) \<Rightarrow> nat \<Rightarrow> 'q \<Rightarrow> 'a list \<times> 'q" where
  "drain P 0 q = ([], q)"
| "drain P (Suc n) q =
     (if contents q \<noteq> {#} \<and> P (peek q)
      then (case drain P n (pop q) of (xs, q') \<Rightarrow> (peek q # xs, q'))
      else ([], q))"

lemma size_pop: "wf q \<Longrightarrow> contents q \<noteq> {#} \<Longrightarrow> Suc (size (contents (pop q))) = size (contents q)"
  using pop_contents peek_contents by (metis insert_DiffM size_add_mset)

lemma drain_sorted:
  assumes "drain P n q = (xs, q')" "wf q"
  shows "sorted (map key xs) \<and> contents q = mset xs + contents q' \<and> wf q' \<and> (\<forall>x\<in>set xs. P x) \<and>
    (\<forall>x\<in>set xs. \<forall>y\<in>#contents q'. key x \<le> key y)"
  using assms
proof (induction n arbitrary: q xs)
  case 0
  then show ?case by simp
next
  case (Suc n)
  show ?case
  proof (cases "contents q \<noteq> {#} \<and> P (peek q)")
    case True
    obtain ys where d: "drain P n (pop q) = (ys, q')" and xs: "xs = peek q # ys"
      using Suc.prems(1) True by (auto split: prod.splits)
    note ih = Suc.IH [OF d pop_wf [OF Suc.prems(2)]]
    have c: "contents q = add_mset (peek q) (mset ys + contents q')"
      using ih True pop_contents [OF Suc.prems(2)] peek_contents [OF Suc.prems(2)]
      by (metis insert_DiffM)
    then have "\<forall>y\<in>set ys \<union> set_mset (contents q'). key (peek q) \<le> key y"
      using peek_least [OF Suc.prems(2)] by auto
    with ih c True xs show ?thesis by auto
  next
    case False
    with Suc.prems show ?thesis by auto
  qed
qed

lemma drain_complete:
  assumes "drain P n q = (xs, q')" "wf q" "size (contents q) \<le> n"
  shows "contents q' = {#} \<or> \<not> P (peek q')"
  using assms
proof (induction n arbitrary: q xs)
  case 0
  then show ?case by simp
next
  case (Suc n)
  show ?case
  proof (cases "contents q \<noteq> {#} \<and> P (peek q)")
    case True
    obtain ys where d: "drain P n (pop q) = (ys, q')"
      using Suc.prems(1) True by (auto split: prod.splits)
    show ?thesis
      by (rule Suc.IH [OF d]) (use True Suc.prems pop_wf size_pop [of q] in auto)
  next
    case False
    with Suc.prems show ?thesis by auto
  qed
qed

text \<open>
  For a condition that only depends on the key and is downward closed, draining splits the
  contents: exactly the elements that satisfy it leave the queue, least first.
\<close>

lemma drain_partition:
  assumes "drain P n q = (xs, q')" "wf q" "size (contents q) \<le> n"
    and "\<And>x y. key x \<le> key y \<Longrightarrow> P y \<Longrightarrow> P x"
  shows "mset xs = filter_mset P (contents q) \<and> contents q' = filter_mset (\<lambda>x. \<not> P x) (contents q) \<and>
    sorted (map key xs)"
proof -
  note d = drain_sorted [OF assms(1,2)]
  have "\<not> P y" if "y \<in># contents q'" for y
    using drain_complete [OF assms(1-3)] peek_least [of q' y] d that assms(4) by auto
  then have "filter_mset P (contents q') = {#}" "filter_mset (\<lambda>x. \<not> P x) (contents q') = contents q'"
    by (auto simp: multiset_eq_iff count_eq_zero_iff)
  moreover have "filter_mset P (mset xs) = mset xs" "filter_mset (\<lambda>x. \<not> P x) (mset xs) = {#}"
    using d by (auto simp: multiset_eq_iff count_eq_zero_iff)
  ultimately show ?thesis using d by simp
qed

end

section \<open>\<open>container/heap\<close>\<close>

text \<open>\<open>Less\<close> and \<open>Swap\<close> of the queue, with their bounds checks.\<close>

definition heap_less :: "('a \<Rightarrow> int) \<Rightarrow> 'a list \<Rightarrow> nat \<Rightarrow> nat \<Rightarrow> bool" where
  "heap_less key xs i j =
     (if length xs \<le> i \<or> length xs \<le> j then False else key (xs ! i) < key (xs ! j))"

definition heap_swap :: "'a list \<Rightarrow> nat \<Rightarrow> nat \<Rightarrow> 'a list" where
  "heap_swap xs i j =
     (if length xs \<le> i \<or> length xs \<le> j then xs else xs[i := xs ! j, j := xs ! i])"

function heap_up :: "('a \<Rightarrow> int) \<Rightarrow> 'a list \<Rightarrow> nat \<Rightarrow> 'a list" where
  "heap_up key xs j =
     (let i = (j - 1) div 2
      in if i = j \<or> \<not> heap_less key xs j i then xs else heap_up key (heap_swap xs i j) i)"
  by pat_completeness auto
termination
  by (relation "measure (\<lambda>(key, xs, j). j)") auto

text \<open>The child that \<open>down\<close> compares with: the lesser of the two within the first \<open>n\<close>.\<close>

definition heap_child :: "('a \<Rightarrow> int) \<Rightarrow> 'a list \<Rightarrow> nat \<Rightarrow> nat \<Rightarrow> nat" where
  "heap_child key xs i n =
     (let j1 = 2 * i + 1; j2 = j1 + 1
      in if j2 < n \<and> heap_less key xs j2 j1 then j2 else j1)"

function heap_down :: "('a \<Rightarrow> int) \<Rightarrow> 'a list \<Rightarrow> nat \<Rightarrow> nat \<Rightarrow> 'a list" where
  "heap_down key xs i n =
     (if n \<le> 2 * i + 1 then xs
      else
        let j = heap_child key xs i n
        in if \<not> heap_less key xs j i then xs else heap_down key (heap_swap xs i j) j n)"
  by pat_completeness auto
termination
  by (relation "measure (\<lambda>(key, xs, i, n). n - i)") (auto simp: heap_child_def Let_def)

declare heap_up.simps [simp del] heap_down.simps [simp del]

definition heap_push :: "('a \<Rightarrow> int) \<Rightarrow> 'a \<Rightarrow> 'a list \<Rightarrow> 'a list" where
  "heap_push key x xs = heap_up key (xs @ [x]) (length xs)"

text \<open>\<open>heap.Pop\<close>: the removed element is the old root, moved to the end before sifting down.\<close>

definition heap_pop :: "('a \<Rightarrow> int) \<Rightarrow> 'a list \<Rightarrow> 'a \<times> 'a list" where
  "heap_pop key xs =
     (let n = length xs - 1;
          ys = heap_down key (heap_swap xs 0 n) 0 n
      in (last ys, butlast ys))"

section \<open>The heap order\<close>

abbreviation parent :: "nat \<Rightarrow> nat" where "parent i \<equiv> (i - 1) div 2"

text \<open>The heap order on the first \<open>n\<close> elements, on all edges, or except some of them.\<close>

definition heap_edges :: "('a \<Rightarrow> int) \<Rightarrow> 'a list \<Rightarrow> nat \<Rightarrow> (nat \<Rightarrow> bool) \<Rightarrow> bool" where
  "heap_edges key xs n E \<longleftrightarrow>
     (\<forall>i. 0 < i \<longrightarrow> i < n \<longrightarrow> E i \<longrightarrow> key (xs ! parent i) \<le> key (xs ! i))"

definition heap_ok :: "('a \<Rightarrow> int) \<Rightarrow> 'a list \<Rightarrow> bool" where
  "heap_ok key xs \<longleftrightarrow> heap_edges key xs (length xs) (\<lambda>i. True)"

definition bridged :: "('a \<Rightarrow> int) \<Rightarrow> 'a list \<Rightarrow> nat \<Rightarrow> nat \<Rightarrow> bool" where
  "bridged key xs n j \<longleftrightarrow>
     (\<forall>i. 0 < i \<longrightarrow> i < n \<longrightarrow> parent i = j \<longrightarrow> 0 < j \<longrightarrow> key (xs ! parent j) \<le> key (xs ! i))"

lemma length_heap_swap [simp]: "length (heap_swap xs i j) = length xs"
  by (simp add: heap_swap_def)

lemma mset_heap_swap [simp]: "mset (heap_swap xs i j) = mset xs"
  by (simp add: heap_swap_def mset_swap)

lemma nth_heap_swap:
  "i < length xs \<Longrightarrow> j < length xs \<Longrightarrow>
   heap_swap xs i j ! k = (if k = i then xs ! j else if k = j then xs ! i else xs ! k)"
  by (auto simp: heap_swap_def nth_list_update)

lemma parent_less: "0 < i \<Longrightarrow> parent i < i"
  by auto

lemma mset_heap_up [simp]: "mset (heap_up key xs j) = mset xs"
  by (induction key xs j rule: heap_up.induct) (subst heap_up.simps, simp add: Let_def)

lemma length_heap_up [simp]: "length (heap_up key xs j) = length xs"
  by (metis mset_heap_up size_mset)

lemma mset_heap_down [simp]: "mset (heap_down key xs i n) = mset xs"
  by (induction key xs i n rule: heap_down.induct) (subst heap_down.simps, simp add: Let_def)

lemma length_heap_down [simp]: "length (heap_down key xs i n) = length xs"
  by (metis mset_heap_down size_mset)

lemma heap_up_ok:
  assumes "j < length xs" "heap_edges key xs (length xs) (\<lambda>i. i \<noteq> j)" "bridged key xs (length xs) j"
  shows "heap_ok key (heap_up key xs j)"
  using assms
proof (induction key xs j rule: heap_up.induct)
  case (1 key xs j)
  let ?p = "parent j"
  show ?case
  proof (cases "?p = j \<or> \<not> heap_less key xs j ?p")
    case True
    have "heap_edges key xs (length xs) (\<lambda>i. True)"
      unfolding heap_edges_def
    proof (intro allI impI)
      fix i
      assume i: "0 < i" "i < length xs"
      show "key (xs ! parent i) \<le> key (xs ! i)"
      proof (cases "i = j")
        case True
        with i \<open>?p = j \<or> \<not> heap_less key xs j ?p\<close> "1.prems"(1) parent_less [of j] show ?thesis
          by (auto simp: heap_less_def)
      next
        case False
        with i "1.prems"(2) show ?thesis by (simp add: heap_edges_def)
      qed
    qed
    with True show ?thesis
      by (subst heap_up.simps) (simp add: heap_ok_def Let_def)
  next
    case False
    then have j0: "0 < j" by (cases j) auto
    have p: "?p < length xs" "?p < j" using parent_less [OF j0] "1.prems"(1) by simp_all
    have less: "key (xs ! j) < key (xs ! ?p)"
      using False p "1.prems"(1) by (simp add: heap_less_def)
    have edge: "key (xs ! parent i) \<le> key (xs ! i)" if "0 < i" "i < length xs" "i \<noteq> j" for i
      using "1.prems"(2) that by (simp add: heap_edges_def)
    have bridge: "key (xs ! ?p) \<le> key (xs ! i)" if "0 < i" "i < length xs" "parent i = j" for i
      using "1.prems"(3) that j0 by (simp add: bridged_def)
    let ?ys = "heap_swap xs ?p j"
    note at = nth_heap_swap [OF p(1) "1.prems"(1)]
    have e: "heap_edges key ?ys (length ?ys) (\<lambda>i. i \<noteq> ?p)"
      unfolding heap_edges_def length_heap_swap
    proof (intro allI impI)
      fix i
      assume i: "0 < i" "i < length xs" "i \<noteq> ?p"
      consider "i = j" | "i \<noteq> j" "parent i = j" | "i \<noteq> j" "parent i = ?p"
        | "i \<noteq> j" "parent i \<noteq> j" "parent i \<noteq> ?p" by blast
      then show "key (?ys ! parent i) \<le> key (?ys ! i)"
      proof cases
        case 1
        then show ?thesis using less p unfolding at by simp
      next
        case 2
        then show ?thesis using bridge [OF i(1,2)] i(3) p unfolding at by simp
      next
        case 3
        then show ?thesis using edge [OF i(1,2)] less i(3) unfolding at by simp
      next
        case 4
        then show ?thesis using edge [OF i(1,2)] i(3) unfolding at by simp
      qed
    qed
    have b: "bridged key ?ys (length ?ys) ?p"
      unfolding bridged_def length_heap_swap
    proof (intro allI impI)
      fix i
      assume i: "0 < i" "i < length xs" "parent i = ?p" "0 < ?p"
      have pp: "parent ?p < ?p" by (rule parent_less [OF i(4)])
      have up: "key (xs ! parent ?p) \<le> key (xs ! ?p)"
        using edge [OF i(4) p(1)] p(2) by simp
      have "key (xs ! ?p) \<le> key (?ys ! i)"
        using edge [OF i(1,2)] i(3) parent_less [OF i(1)] unfolding at by (cases "i = j") auto
      moreover have "?ys ! parent ?p = xs ! parent ?p"
        using pp p(2) unfolding at by simp
      ultimately show "key (?ys ! parent ?p) \<le> key (?ys ! i)" using up by simp
    qed
    have "heap_ok key (heap_up key ?ys ?p)"
      by (rule "1.IH" [OF refl]) (use False p e b in simp_all)
    with False show ?thesis
      by (subst heap_up.simps) (simp add: Let_def)
  qed
qed

lemma child_cases: "parent k = i \<Longrightarrow> 0 < k \<Longrightarrow> k = 2 * i + 1 \<or> k = 2 * i + 2"
  by arith

lemma heap_down_ok:
  assumes "n \<le> length xs" "heap_edges key xs n (\<lambda>k. parent k \<noteq> i)" "bridged key xs n i" "i < n \<or> n = 0"
  shows "heap_edges key (heap_down key xs i n) n (\<lambda>k. True) \<and>
     drop n (heap_down key xs i n) = drop n xs"
  using assms
proof (induction key xs i n rule: heap_down.induct)
  case (1 key xs i n)
  let ?j = "heap_child key xs i n"
  have edge: "key (xs ! parent k) \<le> key (xs ! k)" if "0 < k" "k < n" "parent k \<noteq> i" for k
    using "1.prems"(2) that by (simp add: heap_edges_def)
  have bridge: "key (xs ! parent i) \<le> key (xs ! k)" if "0 < k" "k < n" "parent k = i" "0 < i" for k
    using "1.prems"(3) that by (simp add: bridged_def)
  show ?case
  proof (cases "n \<le> 2 * i + 1")
    case True
    have "heap_edges key xs n (\<lambda>k. True)"
      unfolding heap_edges_def
    proof (intro allI impI)
      fix k
      assume k: "0 < k" "k < n"
      then have "parent k \<noteq> i" using child_cases [of k i] True by auto
      with edge k show "key (xs ! parent k) \<le> key (xs ! k)" by blast
    qed
    with True show ?thesis by (subst (1 2) heap_down.simps) (simp add: Let_def)
  next
    case False
    have j: "?j < n" "parent ?j = i" "i < ?j" "?j < length xs" "i < length xs" "0 < ?j"
      using False "1.prems"(1) by (auto simp: heap_child_def Let_def)
    have least: "key (xs ! ?j) \<le> key (xs ! k)" if "0 < k" "k < n" "parent k = i" for k
      using child_cases [OF that(3,1)] that(2) False "1.prems"(1)
      by (auto simp: heap_less_def heap_child_def Let_def)
    show ?thesis
    proof (cases "heap_less key xs ?j i")
      case stop: False
      then have "key (xs ! i) \<le> key (xs ! ?j)"
        using j by (simp add: heap_less_def)
      have "heap_edges key xs n (\<lambda>k. True)"
        unfolding heap_edges_def
      proof (intro allI impI)
        fix k
        assume k: "0 < k" "k < n"
        show "key (xs ! parent k) \<le> key (xs ! k)"
          using edge [OF k] least [OF k] \<open>key (xs ! i) \<le> key (xs ! ?j)\<close>
          by (cases "parent k = i") auto
      qed
      with False stop show ?thesis
        by (subst (1 2) heap_down.simps) (simp add: Let_def)
    next
      case less': True
      then have less: "key (xs ! ?j) < key (xs ! i)"
        using j by (simp add: heap_less_def)
      let ?ys = "heap_swap xs i ?j"
      note at = nth_heap_swap [OF j(5,4)]
      have e: "heap_edges key ?ys n (\<lambda>k. parent k \<noteq> ?j)"
        unfolding heap_edges_def
      proof (intro allI impI)
        fix k
        assume k: "0 < k" "k < n" "parent k \<noteq> ?j"
        consider "k = ?j" | "k = i" | "k \<noteq> ?j" "k \<noteq> i" "parent k = i" | "k \<noteq> ?j" "k \<noteq> i" "parent k \<noteq> i"
          by blast
        then show "key (?ys ! parent k) \<le> key (?ys ! k)"
        proof cases
          case 1
          then show ?thesis unfolding at using less j(2,3) by simp
        next
          case 2
          have "parent i \<noteq> i" "parent i \<noteq> ?j" using parent_less [of i] k(1) 2 j(3) by auto
          then show ?thesis
            unfolding at using 2 bridge [OF j(6,1,2)] k(1) by simp
        next
          case 3
          then show ?thesis unfolding at using least [OF k(1,2)] by simp
        next
          case 4
          then show ?thesis unfolding at using edge [OF k(1,2)] k(3) by simp
        qed
      qed
      have b: "bridged key ?ys n ?j"
        unfolding bridged_def
      proof (intro allI impI)
        fix k
        assume k: "0 < k" "k < n" "parent k = ?j" "0 < ?j"
        have "k \<noteq> i" "k \<noteq> ?j" using parent_less [OF k(1)] k(3) j(3) by auto
        moreover have "key (xs ! ?j) \<le> key (xs ! k)"
          using edge [OF k(1,2)] k(3) j(3) by auto
        ultimately show "key (?ys ! parent ?j) \<le> key (?ys ! k)"
          unfolding at using j(2) by simp
      qed
      have step: "heap_down key xs i n = heap_down key ?ys ?j n"
        using False less' by (subst heap_down.simps) (simp add: Let_def)
      have "drop n ?ys = drop n xs"
        using j by (simp add: heap_swap_def)
      moreover have "heap_edges key (heap_down key ?ys ?j n) n (\<lambda>k. True) \<and>
          drop n (heap_down key ?ys ?j n) = drop n ?ys"
        by (rule "1.IH" [OF False refl]) (use less' "1.prems"(1) e b j(1) in simp_all)
      ultimately show ?thesis unfolding step by simp
    qed
  qed
qed

section \<open>Push and pop\<close>

lemma mset_heap_push [simp]: "mset (heap_push key x xs) = add_mset x (mset xs)"
  by (simp add: heap_push_def)

lemma heap_push_ok: "heap_ok key xs \<Longrightarrow> heap_ok key (heap_push key x xs)"
proof -
  assume ok: "heap_ok key xs"
  have "heap_edges key (xs @ [x]) (length (xs @ [x])) (\<lambda>i. i \<noteq> length xs)"
    using ok by (auto simp: heap_ok_def heap_edges_def nth_append)
  moreover have "bridged key (xs @ [x]) (length (xs @ [x])) (length xs)"
    by (auto simp: bridged_def)
  ultimately show ?thesis
    unfolding heap_push_def by (intro heap_up_ok) simp_all
qed

lemma heap_pop_ok:
  assumes "heap_ok key xs" "xs \<noteq> []"
  shows "fst (heap_pop key xs) = hd xs" "heap_ok key (snd (heap_pop key xs))"
    "mset xs = add_mset (hd xs) (mset (snd (heap_pop key xs)))"
proof -
  define n where "n = length xs - 1"
  have n: "n < length xs" "length xs = Suc n" using assms(2) by (simp_all add: n_def)
  let ?ys = "heap_swap xs 0 n"
  let ?zs = "heap_down key ?ys 0 n"
  have at: "?ys ! k = (if k = 0 then xs ! n else if k = n then xs ! 0 else xs ! k)" for k
    using nth_heap_swap [of 0 xs n k] n by simp
  have edge: "key (xs ! parent k) \<le> key (xs ! k)" if "0 < k" "k < length xs" for k
    using assms(1) that by (simp add: heap_ok_def heap_edges_def)
  have "heap_edges key ?ys n (\<lambda>k. parent k \<noteq> 0)"
    unfolding heap_edges_def
  proof (intro allI impI)
    fix k
    assume k: "0 < k" "k < n" "parent k \<noteq> 0"
    with edge [of k] n parent_less [OF k(1)] show "key (?ys ! parent k) \<le> key (?ys ! k)"
      unfolding at by simp
  qed
  moreover have "bridged key ?ys n 0" by (simp add: bridged_def)
  ultimately have down: "heap_edges key ?zs n (\<lambda>k. True)" "drop n ?zs = drop n ?ys"
    using heap_down_ok [of n ?ys key 0] n by auto
  have len: "length ?zs = Suc n" using n by simp
  have "?zs ! n = ?ys ! n"
    using down(2) len n by (metis hd_drop_conv_nth length_heap_down lessI length_heap_swap)
  then have last: "last ?zs = hd xs"
    using len at n assms(2) by (simp add: last_conv_nth hd_conv_nth flip: length_0_conv)
  then show "fst (heap_pop key xs) = hd xs"
    by (simp add: heap_pop_def Let_def n_def)
  have "heap_edges key (butlast ?zs) n (\<lambda>k. True)"
    using down(1) len by (auto simp: heap_edges_def nth_butlast)
  then show "heap_ok key (snd (heap_pop key xs))"
    using len by (simp add: heap_ok_def heap_pop_def Let_def n_def)
  have "mset xs = mset ?zs" by simp
  also have "\<dots> = mset (butlast ?zs @ [last ?zs])"
    using len by (metis append_butlast_last_id list.size(3) nat.distinct(1))
  finally show "mset xs = add_mset (hd xs) (mset (snd (heap_pop key xs)))"
    using last by (simp add: heap_pop_def Let_def n_def)
qed

lemma heap_root_least:
  assumes "heap_ok key xs" "i < length xs"
  shows "key (xs ! 0) \<le> key (xs ! i)"
  using assms(2)
proof (induction i rule: less_induct)
  case (less i)
  show ?case
  proof (cases "i = 0")
    case False
    then have "parent i < i" by (intro parent_less) simp
    then have "key (xs ! 0) \<le> key (xs ! parent i)"
      using less.IH [of "parent i"] less.prems by simp
    also have "\<dots> \<le> key (xs ! i)"
      using assms(1) False less.prems by (simp add: heap_ok_def heap_edges_def)
    finally show ?thesis .
  qed simp
qed

end
