(* ===== verification/Scheduler_Model.thy ===== *)
theory Scheduler_Model
  imports Heap_Queue Time_Sync Sample_Codec Stream_Constants
begin

text \<open>
  The playback scheduler of \<open>pkg/sendspin/scheduler.go\<close>: decoded buffers wait in a priority queue
  ordered by local play time; every 10 ms \<open>processQueue\<close> drops the buffers that are more than
  50 ms late and hands those within 50 ms of now to the output channel. The lock is released
  while a buffer is being sent, so \<open>Schedule\<close> and \<open>Clear\<close> can run then; the step relation
  \<open>sched_step\<close> has these interleavings.
\<close>

section \<open>Buffers and their queue\<close>

record AudioBuffer =
  Timestamp :: int
  PlayAt :: instant
  Samples :: "sample list"
  buf_Format :: Format

definition zeroBuffer :: AudioBuffer where
  "zeroBuffer =
     \<lparr>Timestamp = 0, PlayAt = zero_time, Samples = [],
      buf_Format = \<lparr>Codec = [], SampleRate = 0, Channels = 0, BitDepth = 0, CodecHeader = []\<rparr>\<rparr>"

type_synonym BufferQueue = "AudioBuffer list"

definition NewBufferQueue :: BufferQueue where
  "NewBufferQueue = []"

definition queue_push :: "AudioBuffer \<Rightarrow> BufferQueue \<Rightarrow> BufferQueue" where
  "queue_push buf q = heap_push PlayAt buf q"

definition queue_pop :: "BufferQueue \<Rightarrow> BufferQueue" where
  "queue_pop q = snd (heap_pop PlayAt q)"

definition Peek :: "BufferQueue \<Rightarrow> AudioBuffer" where
  "Peek q = (if length q = 0 then zeroBuffer else q ! 0)"

interpretation pq: priority_queue mset "heap_ok PlayAt" PlayAt NewBufferQueue queue_push Peek queue_pop
proof unfold_locales
  fix q :: BufferQueue and x :: AudioBuffer
  show "mset NewBufferQueue = {#}" by (simp add: NewBufferQueue_def)
  show "heap_ok PlayAt NewBufferQueue" by (simp add: NewBufferQueue_def heap_ok_def heap_edges_def)
  assume ok: "heap_ok PlayAt q"
  show "mset (queue_push x q) = add_mset x (mset q)" by (simp add: queue_push_def)
  show "heap_ok PlayAt (queue_push x q)" using ok by (simp add: queue_push_def heap_push_ok)
  show "PlayAt (Peek q) \<le> PlayAt x" if "x \<in># mset q"
    using that heap_root_least [OF ok] by (auto simp: Peek_def in_set_conv_nth)
  assume ne: "mset q \<noteq> {#}"
  then have "q \<noteq> []" by simp
  then have peek: "Peek q = hd q" by (simp add: Peek_def hd_conv_nth)
  show "Peek q \<in># mset q" using \<open>q \<noteq> []\<close> by (simp add: peek)
  show "mset (queue_pop q) = mset q - {# Peek q #}"
    using heap_pop_ok(3) [OF ok \<open>q \<noteq> []\<close>] by (simp add: queue_pop_def peek)
  show "heap_ok PlayAt (queue_pop q)"
    using heap_pop_ok(2) [OF ok \<open>q \<noteq> []\<close>] by (simp add: queue_pop_def)
qed

lemma length_queue_pop [simp]: "length (queue_pop q) = length q - 1"
  by (simp add: queue_pop_def heap_pop_def Let_def)

section \<open>The scheduler\<close>


definition maxStaticDelayMs :: int where "maxStaticDelayMs = 5000"

record Scheduler =
  bufferQ :: BufferQueue
  sched_output :: "AudioBuffer chan"
  jitterMs :: int
  staticDelay :: duration
  cancelled :: bool
  buffering :: bool
  bufferTarget :: int
  received :: nat
  played :: nat
  dropped :: nat

definition NewScheduler :: "int \<Rightarrow> int \<Rightarrow> Scheduler" where
  "NewScheduler bufferMs staticDelayMs =
     (let staticDelayMs =
            (if staticDelayMs < 0 \<or> maxStaticDelayMs < staticDelayMs
             then (if staticDelayMs < 0 then 0 else maxStaticDelayMs) else staticDelayMs);
          target = go_quot bufferMs ChunkDurationMs;
          target = (if target < 1 then 1 else target)
      in \<lparr>bufferQ = NewBufferQueue, sched_output = make_chan 10, jitterMs = bufferMs,
          staticDelay = staticDelayMs * millisecond, cancelled = False, buffering = True,
          bufferTarget = target, received = 0, played = 0, dropped = 0\<rparr>)"

definition Schedule :: "ClockSync \<Rightarrow> AudioBuffer \<Rightarrow> Scheduler \<Rightarrow> Scheduler" where
  "Schedule cs buf s =
     (let buf = buf\<lparr>PlayAt := ServerToLocalTime cs (Timestamp buf) + staticDelay s\<rparr>
      in s\<lparr>received := received s + 1, bufferQ := queue_push buf (bufferQ s)\<rparr>)"

definition Clear :: "Scheduler \<Rightarrow> Scheduler" where
  "Clear s = s\<lparr>bufferQ := NewBufferQueue, buffering := True\<rparr>"

definition Stop :: "Scheduler \<Rightarrow> Scheduler" where
  "Stop s = s\<lparr>cancelled := True\<rparr>"

definition BufferDepth :: "Scheduler \<Rightarrow> int" where
  "BufferDepth s = wrap64 (int (length (bufferQ s)) * ChunkDurationMs)"

definition Stats :: "Scheduler \<Rightarrow> nat \<times> nat \<times> nat" where
  "Stats s = (received s, played s, dropped s)"

definition window :: duration where "window = 50 * millisecond"

text \<open>
  The loop of \<open>processQueue\<close> while it holds the lock: up to the next buffer to send (\<open>Some\<close>) or
  to the end of the loop.
\<close>

function sched_scan :: "instant \<Rightarrow> Scheduler \<Rightarrow> AudioBuffer option \<times> Scheduler" where
  "sched_scan now s =
     (if 0 < length (bufferQ s)
      then
        let buf = Peek (bufferQ s);
            delay = time_sub (PlayAt buf) now
        in if window < delay then (None, s)
           else if delay < - window
           then sched_scan now (s\<lparr>bufferQ := queue_pop (bufferQ s), dropped := dropped s + 1\<rparr>)
           else (Some buf, s\<lparr>bufferQ := queue_pop (bufferQ s)\<rparr>)
      else (None, s))"
  by pat_completeness auto
termination
  by (relation "measure (\<lambda>(now, s). length (bufferQ s))") auto

declare sched_scan.simps [simp del]

text \<open>The start of \<open>processQueue\<close>: \<open>None\<close> when it returns because the start-up buffer is not full.\<close>

definition sched_begin :: "instant \<Rightarrow> Scheduler \<Rightarrow> (AudioBuffer option \<times> Scheduler) option" where
  "sched_begin now s =
     (if buffering s
      then (if bufferTarget s \<le> int (length (bufferQ s))
            then Some (sched_scan now (s\<lparr>buffering := False\<rparr>))
            else None)
      else Some (sched_scan now s))"

lemma time_sub_window [simp]:
  "window < time_sub t now \<longleftrightarrow> now + window < t"
  "time_sub t now < - window \<longleftrightarrow> t < now - window"
  by (auto simp: window_def is_int64_def)

lemma sched_scan_spec:
  assumes "sched_scan now s = (r, s')" "heap_ok PlayAt (bufferQ s)"
  shows "heap_ok PlayAt (bufferQ s') \<and> received s' = received s \<and> played s' = played s \<and>
    length (bufferQ s) + dropped s = length (bufferQ s') + dropped s' + (if r = None then 0 else 1) \<and>
    s' = s\<lparr>bufferQ := bufferQ s', dropped := dropped s'\<rparr> \<and>
    (\<forall>buf. r = Some buf \<longrightarrow> now - window \<le> PlayAt buf \<and> PlayAt buf \<le> now + window)"
  using assms
proof (induction now s arbitrary: r rule: sched_scan.induct)
  case (1 now s)
  show ?case
  proof (cases "bufferQ s = []")
    case True
    with 1 show ?thesis by (subst (asm) sched_scan.simps) simp
  next
    case ne: False
    have pop: "heap_ok PlayAt (queue_pop (bufferQ s))"
      using pq.pop_wf [OF 1(3)] ne by simp
    consider "now + window < PlayAt (Peek (bufferQ s))"
      | "PlayAt (Peek (bufferQ s)) < now - window" "\<not> now + window < PlayAt (Peek (bufferQ s))"
      | "now - window \<le> PlayAt (Peek (bufferQ s))" "PlayAt (Peek (bufferQ s)) \<le> now + window"
      by linarith
    then show ?thesis
    proof cases
      case early: 1
      with 1 ne show ?thesis by (subst (asm) sched_scan.simps) simp
    next
      case late: 2
      let ?s = "s\<lparr>bufferQ := queue_pop (bufferQ s), dropped := dropped s + 1\<rparr>"
      have run: "sched_scan now ?s = (r, s')"
        using 1(2) ne late by (subst (asm) sched_scan.simps) simp
      have ih: "heap_ok PlayAt (bufferQ s') \<and> received s' = received ?s \<and> played s' = played ?s \<and>
          length (bufferQ ?s) + dropped ?s = length (bufferQ s') + dropped s' + (if r = None then 0 else 1) \<and>
          s' = ?s\<lparr>bufferQ := bufferQ s', dropped := dropped s'\<rparr> \<and>
          (\<forall>buf. r = Some buf \<longrightarrow> now - window \<le> PlayAt buf \<and> PlayAt buf \<le> now + window)"
        by (rule 1(1) [OF _ refl refl _ _ run]) (use ne late pop in simp_all)
      then show ?thesis using ne by (cases "bufferQ s") simp_all
    next
      case inside: 3
      then have "r = Some (Peek (bufferQ s))" "s' = s\<lparr>bufferQ := queue_pop (bufferQ s)\<rparr>"
        using 1(2) ne by (subst (asm) sched_scan.simps, simp)+
      with inside pop ne show ?thesis by (cases "bufferQ s") simp_all
    qed
  qed
qed

section \<open>One uninterrupted call\<close>

text \<open>
  \<open>processQueue\<close> when the consumer keeps up and nothing else runs: the buffers sent, in order.
\<close>

lemma sched_scan_length:
  "sched_scan now s = (Some buf, s') \<Longrightarrow> length (bufferQ s') < length (bufferQ s)"
proof (induction now s rule: sched_scan.induct)
  case (1 now s)
  show ?case
    using 1(2) 1(1) [OF _ refl refl]
    by (subst (asm) sched_scan.simps) (fastforce simp: Let_def split: if_splits)
qed

function process_all :: "instant \<Rightarrow> Scheduler \<Rightarrow> AudioBuffer list \<times> Scheduler" where
  "process_all now s =
     (case sched_scan now s of
        (None, s1) \<Rightarrow> ([], s1)
      | (Some buf, s1) \<Rightarrow>
          (case process_all now (s1\<lparr>played := played s1 + 1\<rparr>) of (out, s2) \<Rightarrow> (buf # out, s2)))"
  by pat_completeness auto
termination
  by (relation "measure (\<lambda>(now, s). length (bufferQ s))") (auto dest: sched_scan_length [OF sym])

declare process_all.simps [simp del]

definition processQueue :: "instant \<Rightarrow> Scheduler \<Rightarrow> AudioBuffer list \<times> Scheduler" where
  "processQueue now s =
     (if buffering s
      then (if bufferTarget s \<le> int (length (bufferQ s))
            then process_all now (s\<lparr>buffering := False\<rparr>)
            else ([], s))
      else process_all now s)"

lemma process_all_empty: "bufferQ s = [] \<Longrightarrow> process_all now s = ([], s)"
  by (subst process_all.simps, subst sched_scan.simps) simp

lemma process_all_early:
  "bufferQ s \<noteq> [] \<Longrightarrow> now + window < PlayAt (Peek (bufferQ s)) \<Longrightarrow> process_all now s = ([], s)"
  by (subst process_all.simps, subst sched_scan.simps) simp

lemma process_all_late:
  assumes "bufferQ s \<noteq> []" "PlayAt (Peek (bufferQ s)) < now - window"
  shows "process_all now s =
    process_all now (s\<lparr>bufferQ := queue_pop (bufferQ s), dropped := dropped s + 1\<rparr>)"
proof -
  have "\<not> now + window < PlayAt (Peek (bufferQ s))"
    using assms(2) by (simp add: window_def)
  with assms have "sched_scan now s
      = sched_scan now (s\<lparr>bufferQ := queue_pop (bufferQ s), dropped := dropped s + 1\<rparr>)"
    by (subst sched_scan.simps) simp
  then show ?thesis by (subst (1 2) process_all.simps) simp
qed

lemma process_all_inside:
  assumes "bufferQ s \<noteq> []" "now - window \<le> PlayAt (Peek (bufferQ s))"
    "PlayAt (Peek (bufferQ s)) \<le> now + window"
  shows "process_all now s =
    (case process_all now (s\<lparr>bufferQ := queue_pop (bufferQ s), played := played s + 1\<rparr>) of
       (out, s2) \<Rightarrow> (Peek (bufferQ s) # out, s2))"
proof -
  have "sched_scan now s = (Some (Peek (bufferQ s)), s\<lparr>bufferQ := queue_pop (bufferQ s)\<rparr>)"
    using assms by (subst sched_scan.simps) simp
  then show ?thesis by (subst process_all.simps) simp
qed

abbreviation due :: "instant \<Rightarrow> AudioBuffer \<Rightarrow> bool" where
  "due now b \<equiv> PlayAt b \<le> now + window"

abbreviation late :: "instant \<Rightarrow> AudioBuffer \<Rightarrow> bool" where
  "late now b \<equiv> PlayAt b < now - window"

lemma process_all_drains:
  assumes "heap_ok PlayAt (bufferQ s)" "length (bufferQ s) \<le> n"
  shows "\<exists>xs out s'. process_all now s = (out, s') \<and>
    pq.drain (due now) n (bufferQ s) = (xs, bufferQ s') \<and>
    out = filter (\<lambda>b. \<not> late now b) xs \<and>
    dropped s' = dropped s + length (filter (late now) xs) \<and>
    played s' = played s + length out"
  using assms
proof (induction n arbitrary: s)
  case 0
  then show ?case by (simp add: process_all_empty)
next
  case (Suc n)
  show ?case
  proof (cases "bufferQ s = []")
    case True
    then show ?thesis by (simp add: process_all_empty)
  next
    case ne: False
    let ?b = "Peek (bufferQ s)"
    have pop: "heap_ok PlayAt (queue_pop (bufferQ s))" "length (queue_pop (bufferQ s)) \<le> n"
      using pq.pop_wf [OF Suc.prems(1)] ne Suc.prems(2) by simp_all
    consider (early) "now + window < PlayAt ?b"
      | (late) "late now ?b" "due now ?b"
      | (inside) "\<not> late now ?b" "due now ?b"
      by (cases "now + window < PlayAt ?b"; cases "late now ?b") (auto simp: window_def)
    then show ?thesis
    proof cases
      case early
      with ne show ?thesis by (simp add: process_all_early)
    next
      case late
      let ?s = "s\<lparr>bufferQ := queue_pop (bufferQ s), dropped := dropped s + 1\<rparr>"
      obtain xs out s' where ih: "process_all now ?s = (out, s')"
        "pq.drain (due now) n (bufferQ ?s) = (xs, bufferQ s')" "out = filter (\<lambda>b. \<not> late now b) xs"
        "dropped s' = dropped ?s + length (filter (late now) xs)"
        "played s' = played ?s + length out"
        using Suc.IH [of ?s] pop by auto
      show ?thesis
        using late ne ih process_all_late [OF ne late(1)]
        by (intro exI [of _ "?b # xs"] exI [of _ out] exI [of _ s']) simp
    next
      case inside
      let ?s = "s\<lparr>bufferQ := queue_pop (bufferQ s), played := played s + 1\<rparr>"
      obtain xs out s' where ih: "process_all now ?s = (out, s')"
        "pq.drain (due now) n (bufferQ ?s) = (xs, bufferQ s')" "out = filter (\<lambda>b. \<not> late now b) xs"
        "dropped s' = dropped ?s + length (filter (late now) xs)"
        "played s' = played ?s + length out"
        using Suc.IH [of ?s] pop by auto
      show ?thesis
        using inside ne ih process_all_inside [OF ne] 
        by (intro exI [of _ "?b # xs"] exI [of _ "?b # out"] exI [of _ s']) simp
    qed
  qed
qed

text \<open>
  C18. A call of \<open>processQueue\<close> that is not interrupted sends exactly the buffers within 50 ms of
  now, in the order of their play times, drops exactly those that are more than 50 ms late, keeps
  the rest, and does nothing before the start-up buffer is full.
\<close>

theorem processQueue_correct:
  assumes "heap_ok PlayAt (bufferQ s)" "processQueue now s = (out, s')"
  shows "heap_ok PlayAt (bufferQ s') \<and> sorted (map PlayAt out) \<and>
    (if buffering s \<and> int (length (bufferQ s)) < bufferTarget s then out = [] \<and> s' = s
     else mset out = filter_mset (\<lambda>b. \<bar>PlayAt b - now\<bar> \<le> window) (mset (bufferQ s)) \<and>
          mset (bufferQ s') = filter_mset (\<lambda>b. window < PlayAt b - now) (mset (bufferQ s)) \<and>
          played s' = played s + length out \<and>
          dropped s' = dropped s + size (filter_mset (\<lambda>b. window < now - PlayAt b) (mset (bufferQ s))))"
proof (cases "buffering s \<and> int (length (bufferQ s)) < bufferTarget s")
  case True
  with assms show ?thesis by (simp add: processQueue_def)
next
  case False
  obtain s0 where s0: "processQueue now s = process_all now s0" "bufferQ s0 = bufferQ s"
    "played s0 = played s" "dropped s0 = dropped s"
    using False by (cases "buffering s") (auto simp: processQueue_def intro: that)
  obtain xs where d: "pq.drain (due now) (length (bufferQ s)) (bufferQ s) = (xs, bufferQ s')"
    "out = filter (\<lambda>b. \<not> late now b) xs" "played s' = played s + length out"
    "dropped s' = dropped s + length (filter (late now) xs)"
  proof -
    have run: "process_all now s0 = (out, s')" using assms(2) s0(1) by simp
    have "heap_ok PlayAt (bufferQ s0)" "length (bufferQ s0) \<le> length (bufferQ s)"
      using assms(1) s0(2) by simp_all
    from process_all_drains [OF this, of now] show thesis
      unfolding run s0(2-4) prod.inject using that by blast
  qed
  have "size (mset (bufferQ s)) \<le> length (bufferQ s)" by simp
  from pq.drain_partition [OF d(1) assms(1) this]
  have part: "mset xs = filter_mset (due now) (mset (bufferQ s)) \<and>
      mset (bufferQ s') = filter_mset (\<lambda>x. \<not> due now x) (mset (bufferQ s)) \<and>
      sorted (map PlayAt xs)"
    by (meson order_trans)
  have xs: "mset xs = filter_mset (due now) (mset (bufferQ s))"
    and rest: "mset (bufferQ s') = filter_mset (\<lambda>x. \<not> due now x) (mset (bufferQ s))"
    and srt: "sorted (map PlayAt xs)"
    using part by blast+
  have wf: "heap_ok PlayAt (bufferQ s')"
    using pq.drain_sorted [OF d(1) assms(1)] by blast
  have "mset out = filter_mset (\<lambda>b. \<not> late now b) (mset xs)"
    using d(2) by simp
  also have "\<dots> = filter_mset (\<lambda>b. \<bar>PlayAt b - now\<bar> \<le> window) (mset (bufferQ s))"
    unfolding xs filter_filter_mset by (rule filter_mset_cong) auto
  finally have out: "mset out = filter_mset (\<lambda>b. \<bar>PlayAt b - now\<bar> \<le> window) (mset (bufferQ s))" .
  have "length (filter (late now) xs) = size (filter_mset (late now) (mset xs))"
    by (simp flip: mset_filter)
  also have "\<dots> = size (filter_mset (\<lambda>b. window < now - PlayAt b) (mset (bufferQ s)))"
    unfolding xs filter_filter_mset
    by (rule arg_cong [where f = size], rule filter_mset_cong) (auto simp: window_def)
  finally have drops: "length (filter (late now) xs) = \<dots>" .
  have "sorted (map PlayAt out)"
    using srt d(2) by (simp add: sorted_filter)
  moreover have "filter_mset (\<lambda>x. \<not> due now x) (mset (bufferQ s))
      = filter_mset (\<lambda>b. window < PlayAt b - now) (mset (bufferQ s))"
    by (rule filter_mset_cong) auto
  ultimately show ?thesis
    using wf out rest d(3,4) drops unfolding if_not_P [OF False] by simp
qed

definition buffer_at :: "instant \<Rightarrow> AudioBuffer" where
  "buffer_at t = zeroBuffer\<lparr>PlayAt := t\<rparr>"

definition scheduler_example :: Scheduler where
  "scheduler_example =
     (NewScheduler 20 0)\<lparr>bufferQ := [buffer_at 100, buffer_at 200000000, buffer_at 100000100]\<rparr>"

theorem processQueue_correct_witness:
  "mset (fst (processQueue 100000000 scheduler_example)) =
     filter_mset (\<lambda>b. \<bar>PlayAt b - 100000000\<bar> \<le> window)
       (mset [buffer_at 100, buffer_at 200000000, buffer_at 100000100])"
proof -
  obtain out s' where run: "processQueue 100000000 scheduler_example = (out, s')" by fastforce
  have ok: "heap_ok PlayAt (bufferQ scheduler_example)"
    by (auto simp: scheduler_example_def heap_ok_def heap_edges_def buffer_at_def less_Suc_eq)
  have "buffering scheduler_example" "bufferTarget scheduler_example = 1"
    by (simp_all add: scheduler_example_def NewScheduler_def ChunkDurationMs_def go_quot_nonneg)
  then show ?thesis
    using processQueue_correct [OF ok run] run by (simp add: scheduler_example_def)
qed

section \<open>Interleavings\<close>

text \<open>
  The scheduler goroutine waits for a tick, is about to send a buffer it popped at the tick's
  time (the lock is released), has sent it and is about to take the lock again, or has returned.
\<close>

datatype sched_pc = Waiting | Sending instant AudioBuffer | Resuming instant | Returned

text \<open>
  The system: the scheduler, the program counter, and three records of the past that the
  properties speak about: the buffers sent with the time of their tick, the buffers the consumer
  has received, and the number of buffers discarded by \<open>Clear\<close> or by stopping during a send.
\<close>

record SchedSys =
  sys_sched :: Scheduler
  sys_pc :: sched_pc
  sys_sent :: "(instant \<times> AudioBuffer) list"
  sys_consumed :: "AudioBuffer list"
  sys_discarded :: nat

definition sched_init :: "int \<Rightarrow> int \<Rightarrow> SchedSys" where
  "sched_init bufferMs staticDelayMs =
     \<lparr>sys_sched = NewScheduler bufferMs staticDelayMs, sys_pc = Waiting, sys_sent = [],
      sys_consumed = [], sys_discarded = 0\<rparr>"

definition pc_after_scan :: "instant \<Rightarrow> AudioBuffer option \<Rightarrow> sched_pc" where
  "pc_after_scan now r = (case r of None \<Rightarrow> Waiting | Some buf \<Rightarrow> Sending now buf)"

inductive sched_step :: "SchedSys \<Rightarrow> SchedSys \<Rightarrow> bool" where
  tick_buffering:
    "sys_pc y = Waiting \<Longrightarrow> sched_begin now (sys_sched y) = None \<Longrightarrow> sched_step y y"
| tick:
    "sys_pc y = Waiting \<Longrightarrow> sched_begin now (sys_sched y) = Some (r, s') \<Longrightarrow>
     sched_step y (y\<lparr>sys_sched := s', sys_pc := pc_after_scan now r\<rparr>)"
| send:
    "sys_pc y = Sending now buf \<Longrightarrow> chan_offer buf (sched_output (sys_sched y)) = Some ch \<Longrightarrow>
     sched_step y
       (y\<lparr>sys_sched := (sys_sched y)\<lparr>sched_output := ch, played := played (sys_sched y) + 1\<rparr>,
          sys_pc := Resuming now, sys_sent := sys_sent y @ [(now, buf)]\<rparr>)"
| resume:
    "sys_pc y = Resuming now \<Longrightarrow> sched_scan now (sys_sched y) = (r, s') \<Longrightarrow>
     sched_step y (y\<lparr>sys_sched := s', sys_pc := pc_after_scan now r\<rparr>)"
| stop_sending:
    "sys_pc y = Sending now buf \<Longrightarrow> cancelled (sys_sched y) \<Longrightarrow>
     sched_step y (y\<lparr>sys_pc := Returned, sys_discarded := sys_discarded y + 1\<rparr>)"
| stop_waiting:
    "sys_pc y = Waiting \<Longrightarrow> cancelled (sys_sched y) \<Longrightarrow> sched_step y (y\<lparr>sys_pc := Returned\<rparr>)"
| schedule:
    "sched_step y (y\<lparr>sys_sched := Schedule cs buf (sys_sched y)\<rparr>)"
| clear:
    "sched_step y (y\<lparr>sys_sched := Clear (sys_sched y),
                     sys_discarded := sys_discarded y + length (bufferQ (sys_sched y))\<rparr>)"
| stop:
    "sched_step y (y\<lparr>sys_sched := Stop (sys_sched y)\<rparr>)"
| consume:
    "chan_take (sched_output (sys_sched y)) = Some (buf, ch) \<Longrightarrow>
     sched_step y (y\<lparr>sys_sched := (sys_sched y)\<lparr>sched_output := ch\<rparr>,
                     sys_consumed := sys_consumed y @ [buf]\<rparr>)"

inductive_cases sched_stepE: "sched_step y y'"

definition sched_reachable :: "int \<Rightarrow> int \<Rightarrow> SchedSys \<Rightarrow> bool" where
  "sched_reachable bufferMs delayMs y \<longleftrightarrow> sched_step\<^sup>*\<^sup>* (sched_init bufferMs delayMs) y"

definition in_flight :: "sched_pc \<Rightarrow> nat" where
  "in_flight pc = (case pc of Sending now buf \<Rightarrow> 1 | _ \<Rightarrow> 0)"

definition on_time :: "instant \<times> AudioBuffer \<Rightarrow> bool" where
  "on_time e \<longleftrightarrow> \<bar>PlayAt (snd e) - fst e\<bar> \<le> window"

definition sched_inv :: "SchedSys \<Rightarrow> bool" where
  "sched_inv y \<longleftrightarrow>
     heap_ok PlayAt (bufferQ (sys_sched y)) \<and>
     chan_wf (sched_output (sys_sched y)) \<and> chan_cap (sched_output (sys_sched y)) = 10 \<and>
     received (sys_sched y) =
       length (bufferQ (sys_sched y)) + in_flight (sys_pc y) + played (sys_sched y)
       + dropped (sys_sched y) + sys_discarded y \<and>
     played (sys_sched y) = length (sys_sent y) \<and>
     (\<forall>e\<in>set (sys_sent y). on_time e) \<and>
     (\<forall>now buf. sys_pc y = Sending now buf \<longrightarrow> on_time (now, buf)) \<and>
     map snd (sys_sent y) = sys_consumed y @ chan_buf (sched_output (sys_sched y))"

lemma sched_init_inv: "sched_inv (sched_init b d)"
  by (simp add: sched_inv_def sched_init_def NewScheduler_def in_flight_def NewBufferQueue_def
      heap_ok_def heap_edges_def Let_def)

lemma scan_inv:
  assumes "sched_inv y" "sched_scan now s0 = (r, s')" "in_flight (sys_pc y) = 0"
    and "s0 = sys_sched y \<or> s0 = (sys_sched y)\<lparr>buffering := False\<rparr>"
  shows "sched_inv (y\<lparr>sys_sched := s', sys_pc := pc_after_scan now r\<rparr>)"
proof -
  have "heap_ok PlayAt (bufferQ s0)" using assms(1,4) by (auto simp: sched_inv_def)
  note sp = sched_scan_spec [OF assms(2) this]
  have out: "sched_output s' = sched_output s0"
    using sp by (metis Scheduler.select_convs(2) Scheduler.surjective Scheduler.update_convs(1,10))
  have s0: "received s0 = received (sys_sched y)" "played s0 = played (sys_sched y)"
    "dropped s0 = dropped (sys_sched y)" "bufferQ s0 = bufferQ (sys_sched y)"
    "sched_output s0 = sched_output (sys_sched y)"
    using assms(4) by auto
  have win: "on_time (now, buf)" if "r = Some buf" for buf
    using sp that by (auto simp: on_time_def)
  show ?thesis
    using assms(1,3) sp out s0 win
    by (cases r) (simp_all add: sched_inv_def pc_after_scan_def in_flight_def)
qed

lemma sched_step_inv: "sched_step y y' \<Longrightarrow> sched_inv y \<Longrightarrow> sched_inv y'"
proof (induction rule: sched_step.induct)
  case (tick y now r s')
  obtain s0 where "sched_scan now s0 = (r, s')"
    "s0 = sys_sched y \<or> s0 = (sys_sched y)\<lparr>buffering := False\<rparr>"
    using tick(2) by (auto simp: sched_begin_def split: if_splits)
  with scan_inv [OF tick(3)] tick(1) show ?case by (simp add: in_flight_def)
next
  case (send y now buf ch)
  have "on_time (now, buf)" "chan_room (sched_output (sys_sched y))"
    "ch = chan_put buf (sched_output (sys_sched y))"
    using send by (auto simp: sched_inv_def chan_offer_Some)
  with send(1,3) show ?case
    by (auto simp: sched_inv_def in_flight_def chan_put_def chan_wf_def chan_room_def)
next
  case (resume y now r s')
  then show ?case using scan_inv [OF resume(3,2)] by (simp add: in_flight_def)
next
  case (schedule y cs buf)
  then show ?case
    by (simp add: sched_inv_def Schedule_def Let_def pq.push_wf) (simp add: queue_push_def heap_push_def)
next
  case (clear y)
  then show ?case
    by (simp add: sched_inv_def Clear_def NewBufferQueue_def heap_ok_def heap_edges_def)
next
  case (consume y buf ch)
  then have "chan_buf (sched_output (sys_sched y)) = buf # chan_buf ch" "chan_wf ch"
    using chan.pop_Some [OF _ consume(1)] by (auto simp: sched_inv_def)
  moreover have "chan_cap ch = chan_cap (sched_output (sys_sched y))"
    using chan.capacity_pop [OF consume(1)] .
  ultimately show ?case using consume(2) by (simp add: sched_inv_def)
qed (simp_all add: sched_inv_def in_flight_def Stop_def)

interpretation scheduling: step_invariant sched_step sched_inv
  by unfold_locales (rule sched_step_inv)

lemma sched_reachable_inv: "sched_reachable b d y \<Longrightarrow> sched_inv y"
  unfolding sched_reachable_def by (rule scheduling.run [OF _ sched_init_inv])

text \<open>
  C9. Under every interleaving of ticks, sends, new buffers, clears, the consumer and stopping:
  every buffer that reached the output was within 50 ms of its play time at the tick that chose it (its
  send may block after that, when the output is full); the consumer receives them in the order they were
  sent, and the output channel holds at most ten; and every buffer received is accounted for, waiting, in
  flight, played, dropped or discarded.
\<close>

theorem scheduler_interleavings:
  assumes "sched_reachable bufferMs delayMs y"
  shows "list_all on_time (sys_sent y) \<and>
    map snd (sys_sent y) = sys_consumed y @ chan_buf (sched_output (sys_sched y)) \<and>
    length (chan_buf (sched_output (sys_sched y))) \<le> 10 \<and>
    received (sys_sched y) = length (bufferQ (sys_sched y)) + in_flight (sys_pc y)
      + played (sys_sched y) + dropped (sys_sched y) + sys_discarded y"
  using sched_reachable_inv [OF assms] by (auto simp: sched_inv_def list_all_iff chan_wf_def)

text \<open>
  Three buffers, one on time, one late and one early: the first is sent and received, the second dropped,
  and the third waits.
\<close>

definition stamped :: "int \<Rightarrow> AudioBuffer" where
  "stamped t = zeroBuffer\<lparr>Timestamp := t\<rparr>"

definition three_scheduled :: SchedSys where
  "three_scheduled = (sched_init 20 0)\<lparr>sys_sched :=
     fold (Schedule NewClockSync) [stamped 200000, stamped 0, stamped (- 100000)] (NewScheduler 20 0)\<rparr>"

lemma three_scheduled_reachable: "sched_reachable 20 0 three_scheduled"
proof -
  let ?s = "NewScheduler 20 0" and ?y = "sched_init 20 0"
  define y1 where "y1 = ?y\<lparr>sys_sched := Schedule NewClockSync (stamped 200000) (sys_sched ?y)\<rparr>"
  define y2 where "y2 = y1\<lparr>sys_sched := Schedule NewClockSync (stamped 0) (sys_sched y1)\<rparr>"
  define y3 where "y3 = y2\<lparr>sys_sched := Schedule NewClockSync (stamped (- 100000)) (sys_sched y2)\<rparr>"
  have "sched_step ?y y1" "sched_step y1 y2" "sched_step y2 y3"
    unfolding y1_def y2_def y3_def by (rule sched_step.schedule)+
  then have "sched_step\<^sup>*\<^sup>* ?y y3" by (meson converse_rtranclp_into_rtranclp rtranclp.rtrancl_refl)
  moreover have "y3 = three_scheduled"
    by (simp add: y1_def y2_def y3_def three_scheduled_def sched_init_def)
  ultimately show ?thesis by (simp add: sched_reachable_def)
qed

lemma Schedule_unsynced:
  "Schedule NewClockSync buf s =
     s\<lparr>received := received s + 1,
       bufferQ := queue_push (buf\<lparr>PlayAt := wrap64 (Timestamp buf * 1000) + staticDelay s\<rparr>) (bufferQ s)\<rparr>"
proof -
  have "\<not> Synced (cs_filter NewClockSync)"
    by (simp add: NewClockSync_def NewClockSyncWithConfig_def NewTimeFilter_def Synced_def tf_reset_def Let_def)
  then show ?thesis by (simp add: Schedule_def ServerToLocalTime_def Let_def)
qed

definition on_time_example :: AudioBuffer where
  "on_time_example = (stamped 0)\<lparr>PlayAt := 0\<rparr>"

definition early_example :: AudioBuffer where
  "early_example = (stamped 200000)\<lparr>PlayAt := 200000000\<rparr>"

definition late_example :: AudioBuffer where
  "late_example = (stamped (- 100000))\<lparr>PlayAt := - 100000000\<rparr>"

lemma three_scheduled_queue:
  "sys_sched three_scheduled = (NewScheduler 20 0)\<lparr>received := 3,
     bufferQ := [late_example, early_example, on_time_example]\<rparr>"
proof -
  have "fold (\<lambda>b. queue_push b) [early_example, on_time_example, late_example] NewBufferQueue =
      [late_example, early_example, on_time_example]"
    by code_simp
  then show ?thesis
    by (simp add: three_scheduled_def Schedule_unsynced NewScheduler_def maxStaticDelayMs_def Let_def stamped_def
        early_example_def on_time_example_def late_example_def zeroBuffer_def wrap64_id is_int64_def)
qed

definition after_tick :: Scheduler where
  "after_tick = (NewScheduler 20 0)\<lparr>buffering := False, received := 3, dropped := 1, bufferQ := [early_example]\<rparr>"

lemma three_scheduled_tick:
  "sched_begin 0 (sys_sched three_scheduled) = Some (Some on_time_example, after_tick)"
  "sched_scan 0 after_tick = (None, after_tick)"
  unfolding three_scheduled_queue by code_simp+

definition three_done :: SchedSys where
  "three_done = \<lparr>sys_sched = after_tick\<lparr>played := 1\<rparr>, sys_pc = Waiting, sys_sent = [(0, on_time_example)],
     sys_consumed = [on_time_example], sys_discarded = 0\<rparr>"

lemma three_done_reachable: "sched_reachable 20 0 three_done"
proof -
  let ?y = three_scheduled
  have y: "sys_pc ?y = Waiting" "sys_sent ?y = []" "sys_consumed ?y = []" "sys_discarded ?y = 0"
    by (simp_all add: three_scheduled_def sched_init_def)
  define y1 where "y1 = ?y\<lparr>sys_sched := after_tick, sys_pc := pc_after_scan 0 (Some on_time_example)\<rparr>"
  have out: "sched_output after_tick = make_chan 10" by (simp add: after_tick_def NewScheduler_def Let_def)
  define ch :: "AudioBuffer chan" where "ch = chan_put on_time_example (make_chan 10)"
  define y2 where "y2 = y1\<lparr>sys_sched := (sys_sched y1)\<lparr>sched_output := ch, played := played (sys_sched y1) + 1\<rparr>,
    sys_pc := Resuming 0, sys_sent := sys_sent y1 @ [(0, on_time_example)]\<rparr>"
  define s2 where "s2 = after_tick\<lparr>sched_output := ch, played := 1\<rparr>"
  define y3 where "y3 = y2\<lparr>sys_sched := s2, sys_pc := pc_after_scan 0 None\<rparr>"
  define y4 where "y4 = y3\<lparr>sys_sched := (sys_sched y3)\<lparr>sched_output := make_chan 10\<rparr>,
    sys_consumed := sys_consumed y3 @ [on_time_example]\<rparr>"
  have "sched_step ?y y1"
    unfolding y1_def by (rule sched_step.tick) (simp_all add: y three_scheduled_tick)
  moreover have "sched_step y1 y2"
    unfolding y2_def
    by (rule sched_step.send)
      (simp_all add: y1_def pc_after_scan_def out ch_def chan_offer_def chan_room_def make_chan_def)
  moreover have "sched_step y2 y3"
    unfolding y3_def
  proof (rule sched_step.resume)
    show "sys_pc y2 = Resuming 0" by (simp add: y2_def)
    have "played after_tick = 0" by (simp add: after_tick_def NewScheduler_def Let_def)
    then have "sys_sched y2 = s2" by (simp add: y2_def y1_def s2_def)
    moreover have "sched_scan 0 s2 = (None, s2)" unfolding s2_def ch_def by code_simp
    ultimately show "sched_scan 0 (sys_sched y2) = (None, s2)" by simp
  qed
  moreover have "sched_step y3 y4"
    unfolding y4_def
    by (rule sched_step.consume)
      (simp add: y3_def s2_def ch_def chan_take_def chan_put_def make_chan_def)
  ultimately have "sched_step\<^sup>*\<^sup>* ?y y4" by (meson converse_rtranclp_into_rtranclp rtranclp.rtrancl_refl)
  moreover have "y4 = three_done"
    by (simp add: y4_def y3_def y2_def y1_def three_done_def s2_def y pc_after_scan_def out [symmetric])
  ultimately show ?thesis
    using three_scheduled_reachable unfolding sched_reachable_def by (metis rtranclp_trans)
qed

theorem scheduler_interleavings_witness:
  "list_all on_time (sys_sent three_done) \<and> map snd (sys_sent three_done) = [on_time_example] \<and>
   sys_consumed three_done = [on_time_example] \<and> received (sys_sched three_done) = 3 \<and>
   length (bufferQ (sys_sched three_done)) = 1 \<and> played (sys_sched three_done) = 1 \<and>
   dropped (sys_sched three_done) = 1"
  using scheduler_interleavings [OF three_done_reachable]
  by (simp add: three_done_def after_tick_def NewScheduler_def Let_def make_chan_def)

text \<open>
  Whatever the configured buffer and delay, the scheduler waits for at least one chunk
  before it starts, and shifts playback by at most five seconds.
\<close>

theorem NewScheduler_bounds:
  "1 \<le> bufferTarget (NewScheduler bufferMs delayMs) \<and>
   0 \<le> staticDelay (NewScheduler bufferMs delayMs) \<and>
   staticDelay (NewScheduler bufferMs delayMs) \<le> 5 * second"
  by (simp add: NewScheduler_def Let_def maxStaticDelayMs_def)

text \<open>
  \<open>Clear\<close> empties the queue only: buffers that were already sent stay in the output channel,
  and a buffer in flight is sent after it.
\<close>

lemma Clear_keeps_output:
  "sched_output (Clear s) = sched_output s" "bufferQ (Clear s) = []" "buffering (Clear s)"
  by (simp_all add: Clear_def NewBufferQueue_def)

end
