(* ===== verification/Receiver_Model.thy ===== *)
theory Receiver_Model
  imports Protocol_Client Scheduler_Model Codecs Base64 Stream_Constants
begin

text \<open>
  The receiver of \<open>pkg/sendspin/receiver.go\<close>, between the protocol client and the audio output: the
  decoder and scheduler of the current stream, the metadata that is merged as its time comes, the
  clock-sync bursts and the formats that are advertised. Each function is one turn of a handler
  goroutine on a message it has received; the callbacks are recorded in the order of their calls.
\<close>

section \<open>State\<close>

record Metadata =
  mm_Title :: string
  mm_Artist :: string
  mm_Album :: string
  mm_AlbumArtist :: string
  mm_ArtworkURL :: string
  mm_Track :: int
  mm_Year :: int
  mm_Duration :: int
  mm_Repeat :: string
  mm_Shuffle :: bool

definition no_metadata :: Metadata where
  "no_metadata =
     \<lparr>mm_Title = [], mm_Artist = [], mm_Album = [], mm_AlbumArtist = [], mm_ArtworkURL = [],
      mm_Track = 0, mm_Year = 0, mm_Duration = 0, mm_Repeat = [], mm_Shuffle = False\<rparr>"

text \<open>
  The decoder packages: the constructor that the default selection uses, and \<open>Decode\<close>, where
  \<open>None\<close> is a call that does not return.
\<close>

record 'd decoder_libs =
  dl_opus :: "Format \<Rightarrow> codec_error + 'd"
  dl_pcm :: "Format \<Rightarrow> codec_error + 'd"
  dl_flac :: "Format \<Rightarrow> codec_error + 'd"
  dl_Decode :: "byte list \<Rightarrow> 'd \<Rightarrow> ((codec_error + sample list) \<times> 'd) option"

record 'd ReceiverConfig =
  rc_ServerAddr :: string
  rc_PlayerName :: string
  rc_BufferMs :: int
  rc_StaticDelayMs :: int
  rc_PreferredCodec :: string
  rc_BufferCapacity :: int
  rc_MaxSampleRate :: int
  rc_MaxBitDepth :: int
  rc_ClientID :: string
  rc_DeviceInfo :: DeviceInfo
  rc_DecoderFactory :: "(Format \<Rightarrow> codec_error + 'd) option"

datatype receiver_error =
    CreateDecoderFailed codec_error
  | UnsupportedCodec string
  | DecodeFailed codec_error
  | ConnectionLost

datatype callback =
    OnMetadata Metadata
  | OnStreamStart Format
  | OnStreamEnd
  | OnError receiver_error

record 'd Receiver =
  rv_config :: "'d ReceiverConfig"
  rv_client :: "Client option"
  rv_clockSync :: ClockSync
  rv_scheduler :: "Scheduler option"
  rv_stopped :: "Scheduler list"
  rv_decoder :: "'d option"
  rv_format :: Format
  rv_cancelled :: bool
  rv_connected :: bool
  rv_mergedMetadata :: Metadata
  rv_pendingMetadata :: "MetadataState list"
  rv_callbacks :: "callback list"
  rv_output_closed :: bool

text \<open>\<open>rv_stopped\<close>: the schedulers of earlier streams. An empty address is an error (\<open>None\<close>).\<close>

definition default_string :: "string \<Rightarrow> string \<Rightarrow> string" where
  "default_string d s = (if s = [] then d else s)"

definition default_int :: "int \<Rightarrow> int \<Rightarrow> int" where
  "default_int d n = (if n = 0 then d else n)"

definition NewReceiver :: "'d ReceiverConfig \<Rightarrow> 'd Receiver option" where
  "NewReceiver cfg =
     (if rc_ServerAddr cfg = [] then None
      else Some
        \<lparr>rv_config = cfg
           \<lparr>rc_BufferMs := default_int 500 (rc_BufferMs cfg),
            rc_BufferCapacity := default_int 1048576 (rc_BufferCapacity cfg),
            rc_DeviceInfo :=
              \<lparr>di_ProductName = default_string ''Sendspin Player'' (di_ProductName (rc_DeviceInfo cfg)),
               di_Manufacturer = default_string ''Sendspin'' (di_Manufacturer (rc_DeviceInfo cfg)),
               di_SoftwareVersion = default_string ''1.3.0'' (di_SoftwareVersion (rc_DeviceInfo cfg))\<rparr>\<rparr>,
         rv_client = None,
         rv_clockSync = NewClockSync, rv_scheduler = None, rv_stopped = [], rv_decoder = None,
         rv_format = buf_Format zeroBuffer, rv_cancelled = False, rv_connected = False,
         rv_mergedMetadata = no_metadata, rv_pendingMetadata = [], rv_callbacks = [],
         rv_output_closed = False\<rparr>)"

definition notify :: "callback \<Rightarrow> 'd Receiver \<Rightarrow> 'd Receiver" where
  "notify e r = r\<lparr>rv_callbacks := rv_callbacks r @ [e]\<rparr>"

definition receiver_Stats :: "'d Receiver \<Rightarrow> (nat \<times> nat \<times> nat) \<times> int \<times> int \<times> Quality" where
  "receiver_Stats r =
     (case rv_scheduler r of
        Some s \<Rightarrow> (Stats s, BufferDepth s, GetStats (rv_clockSync r))
      | None \<Rightarrow> ((0, 0, 0), 0, GetStats (rv_clockSync r)))"

section \<open>Advertised formats\<close>

definition allFormats :: "AudioFormat list" where
  "allFormats =
     map (\<lambda>(c, r, b). \<lparr>af_Codec = c, af_Channels = 2, af_SampleRate = r, af_BitDepth = b\<rparr>)
       [(''pcm'', 192000, 24), (''pcm'', 176400, 24), (''pcm'', 96000, 24), (''pcm'', 88200, 24),
        (''pcm'', 48000, 16), (''pcm'', 44100, 16), (''flac'', 192000, 24), (''flac'', 96000, 24),
        (''flac'', 48000, 24), (''flac'', 44100, 16), (''opus'', 48000, 16)]"

fun cap_formats :: "int \<Rightarrow> int \<Rightarrow> AudioFormat list \<Rightarrow> AudioFormat list" where
  "cap_formats maxSampleRate maxBitDepth [] = []"
| "cap_formats maxSampleRate maxBitDepth (f # fs) =
     (if 0 < maxSampleRate \<and> maxSampleRate < af_SampleRate f then cap_formats maxSampleRate maxBitDepth fs
      else if 0 < maxBitDepth \<and> maxBitDepth < af_BitDepth f then cap_formats maxSampleRate maxBitDepth fs
      else f # cap_formats maxSampleRate maxBitDepth fs)"

fun split_preferred ::
  "string \<Rightarrow> AudioFormat list \<Rightarrow> AudioFormat list \<times> AudioFormat list \<Rightarrow> AudioFormat list" where
  "split_preferred codec [] (preferred, rest) = preferred @ rest"
| "split_preferred codec (f # fs) (preferred, rest) =
     (if af_Codec f = codec then split_preferred codec fs (preferred @ [f], rest)
      else split_preferred codec fs (preferred, rest @ [f]))"

definition buildSupportedFormats :: "string \<Rightarrow> int \<Rightarrow> int \<Rightarrow> AudioFormat list" where
  "buildSupportedFormats preferredCodec maxSampleRate maxBitDepth =
     (let filtered = cap_formats maxSampleRate maxBitDepth allFormats
      in if preferredCodec = [] then filtered else split_preferred preferredCodec filtered ([], []))"

text \<open>The configuration of the protocol client that \<open>Connect\<close> makes.\<close>

definition receiver_client_config :: "'d Receiver \<Rightarrow> client_config" where
  "receiver_client_config r =
     (let cfg = rv_config r
      in \<lparr>cc_ClientID = rc_ClientID cfg, cc_Name = rc_PlayerName cfg, cc_Version = 1,
          cc_DeviceInfo = rc_DeviceInfo cfg,
          cc_PlayerV1Support =
            \<lparr>ps_SupportedFormats =
               buildSupportedFormats (rc_PreferredCodec cfg) (rc_MaxSampleRate cfg) (rc_MaxBitDepth cfg),
             ps_BufferCapacity = rc_BufferCapacity cfg, ps_SupportedCommands = [''volume'', ''mute'']\<rparr>,
          cc_ArtworkV1Support = Some
            \<lparr>as_Channels = [\<lparr>ac_Source = ''album'', ac_Format = ''jpeg'', ac_MediaWidth = 600,
                             ac_MediaHeight = 600\<rparr>]\<rparr>,
          cc_VisualizerV1Support = None, cc_SupportedRoles = []\<rparr>)"

section \<open>Streams\<close>

definition defaultDecoder :: "'d decoder_libs \<Rightarrow> Format \<Rightarrow> receiver_error + 'd" where
  "defaultDecoder libs format =
     (let made = (\<lambda>r. case r of Inl e \<Rightarrow> Inl (CreateDecoderFailed e) | Inr d \<Rightarrow> Inr d)
      in if Codec format = ''pcm'' then made (dl_pcm libs format)
         else if Codec format = ''opus'' then made (dl_opus libs format)
         else if Codec format = ''flac'' then made (dl_flac libs format)
         else Inl (UnsupportedCodec (Codec format)))"

definition stream_format :: "StreamStartPlayer \<Rightarrow> Format" where
  "stream_format p =
     \<lparr>Codec = sp_Codec p, SampleRate = sp_SampleRate p, Channels = sp_Channels p,
      BitDepth = sp_BitDepth p,
      CodecHeader =
        (if sp_CodecHeader p \<noteq> []
         then (case b64_decode (sp_CodecHeader p) of None \<Rightarrow> [] | Some bs \<Rightarrow> bs) else [])\<rparr>"

definition make_decoder :: "'d decoder_libs \<Rightarrow> 'd ReceiverConfig \<Rightarrow> Format \<Rightarrow> receiver_error + 'd" where
  "make_decoder libs cfg format =
     (case rc_DecoderFactory cfg of
        Some factory \<Rightarrow>
          (case factory format of Inl e \<Rightarrow> Inl (CreateDecoderFailed e) | Inr d \<Rightarrow> Inr d)
      | None \<Rightarrow> defaultDecoder libs format)"

definition handleStreamStart :: "'d decoder_libs \<Rightarrow> StreamStart \<Rightarrow> 'd Receiver \<Rightarrow> 'd Receiver" where
  "handleStreamStart libs start r =
     (case ss_Player start of
        None \<Rightarrow> r
      | Some p \<Rightarrow>
          (let format = stream_format p
           in case make_decoder libs (rv_config r) format of
                Inl e \<Rightarrow> notify (OnError e) r
              | Inr decoder \<Rightarrow>
                  (let r = notify (OnStreamStart format) r;
                       new = NewScheduler (rc_BufferMs (rv_config r)) (rc_StaticDelayMs (rv_config r));
                       old = rv_scheduler r
                   in r\<lparr>rv_decoder := Some decoder, rv_format := format, rv_scheduler := Some new,
                        rv_stopped := (case old of Some s \<Rightarrow> Stop s # rv_stopped r
                                       | None \<Rightarrow> rv_stopped r)\<rparr>)))"

text \<open>A chunk, with the decoder, scheduler and format read in one critical section.\<close>

definition handleAudioChunks ::
  "'d decoder_libs \<Rightarrow> int \<Rightarrow> byte list \<Rightarrow> 'd Receiver \<Rightarrow> 'd Receiver option" where
  "handleAudioChunks libs timestamp data r =
     (case (rv_decoder r, rv_scheduler r) of
        (Some d, Some s) \<Rightarrow>
          (case dl_Decode libs data d of
             None \<Rightarrow> None
           | Some (Inl e, d') \<Rightarrow> Some (notify (OnError (DecodeFailed e)) (r\<lparr>rv_decoder := Some d'\<rparr>))
           | Some (Inr pcm, d') \<Rightarrow>
               if length pcm = 0 then Some (r\<lparr>rv_decoder := Some d'\<rparr>)
               else Some (r\<lparr>rv_decoder := Some d',
                 rv_scheduler := Some (Schedule (rv_clockSync r)
                   \<lparr>Timestamp = timestamp, PlayAt = zero_time, Samples = pcm, buf_Format = rv_format r\<rparr> s)\<rparr>))
      | _ \<Rightarrow> Some r)"

definition clear_scheduler :: "'d Receiver \<Rightarrow> 'd Receiver" where
  "clear_scheduler r = r\<lparr>rv_scheduler := map_option Clear (rv_scheduler r)\<rparr>"

definition handleStreamClear :: "string list \<Rightarrow> 'd Receiver \<Rightarrow> 'd Receiver" where
  "handleStreamClear roles r =
     (if length roles = 0 \<or> containsRole roles ''player'' then clear_scheduler r else r)"

definition handleStreamEnd :: "string list \<Rightarrow> 'd Receiver \<Rightarrow> 'd Receiver" where
  "handleStreamEnd roles r =
     (if length roles = 0 \<or> containsRole roles ''player'' then notify OnStreamEnd r else r)"

definition handleGroupUpdates :: "GroupUpdate \<Rightarrow> 'd Receiver \<Rightarrow> 'd Receiver" where
  "handleGroupUpdates update r =
     (case gu_PlaybackState update of
        Some state \<Rightarrow> if state = ''paused'' \<or> state = ''stopped'' then clear_scheduler r else r
      | None \<Rightarrow> r)"

definition watchConnection :: "'d Receiver \<Rightarrow> 'd Receiver" where
  "watchConnection r = (notify (OnError ConnectionLost) (r\<lparr>rv_connected := False\<rparr>))\<lparr>rv_cancelled := True\<rparr>"

section \<open>Metadata\<close>

text \<open>
  \<open>sort.Search\<close> of the Go library on the indices from \<open>i\<close> up to \<open>j\<close>.
\<close>

function sort_Search :: "(nat \<Rightarrow> bool) \<Rightarrow> nat \<Rightarrow> nat \<Rightarrow> nat" where
  "sort_Search f i j =
     (if i < j
      then let h = (i + j) div 2
           in if \<not> f h then sort_Search f (h + 1) j else sort_Search f i h
      else i)"
  by pat_completeness auto
termination
  by (relation "measure (\<lambda>(f, i, j). j - i)") auto

declare sort_Search.simps [simp del]

text \<open>One field of the tristate merge: set, cleared, or left as it is.\<close>

definition merge_field :: "MetadataState \<Rightarrow> string \<Rightarrow> 'a option \<Rightarrow> 'a \<Rightarrow> 'a \<Rightarrow> 'a" where
  "merge_field m key v zero old =
     (if HasField m key then (case v of Some x \<Rightarrow> x | None \<Rightarrow> zero) else old)"

definition merge_metadata :: "MetadataState \<Rightarrow> Metadata \<Rightarrow> Metadata" where
  "merge_metadata m mm =
     \<lparr>mm_Title = merge_field m ''title'' (md_Title m) [] (mm_Title mm),
      mm_Artist = merge_field m ''artist'' (md_Artist m) [] (mm_Artist mm),
      mm_Album = merge_field m ''album'' (md_Album m) [] (mm_Album mm),
      mm_AlbumArtist = merge_field m ''album_artist'' (md_AlbumArtist m) [] (mm_AlbumArtist mm),
      mm_ArtworkURL = merge_field m ''artwork_url'' (md_ArtworkURL m) [] (mm_ArtworkURL mm),
      mm_Track = merge_field m ''track'' (md_Track m) 0 (mm_Track mm),
      mm_Year = merge_field m ''year'' (md_Year m) 0 (mm_Year mm),
      mm_Duration = merge_field m ''progress''
        (map_option (\<lambda>p. go_quot (TrackDuration p) 1000) (md_Progress m)) 0 (mm_Duration mm),
      mm_Repeat = merge_field m ''repeat'' (md_Repeat m) [] (mm_Repeat mm),
      mm_Shuffle = merge_field m ''shuffle'' (md_Shuffle m) False (mm_Shuffle mm)\<rparr>"

definition applyMetadataLocked :: "MetadataState \<Rightarrow> 'd Receiver \<Rightarrow> 'd Receiver" where
  "applyMetadataLocked m r =
     (let mm = merge_metadata m (rv_mergedMetadata r)
      in notify (OnMetadata mm) (r\<lparr>rv_mergedMetadata := mm\<rparr>))"

definition applyController :: "ControllerState \<Rightarrow> 'd Receiver \<Rightarrow> 'd Receiver" where
  "applyController c r =
     (let mm = (rv_mergedMetadata r)\<lparr>mm_Repeat := cs_Repeat c, mm_Shuffle := cs_Shuffle c\<rparr>
      in notify (OnMetadata mm) (r\<lparr>rv_mergedMetadata := mm\<rparr>))"

definition insert_pending :: "MetadataState \<Rightarrow> MetadataState list \<Rightarrow> MetadataState list" where
  "insert_pending m pending =
     (let idx = sort_Search (\<lambda>i. md_Timestamp m \<le> md_Timestamp (pending ! i)) 0 (length pending)
      in take idx pending @ m # drop idx pending)"

definition enqueueMetadata :: "int \<Rightarrow> MetadataState \<Rightarrow> 'd Receiver \<Rightarrow> 'd Receiver" where
  "enqueueMetadata serverNow m r =
     (if md_Timestamp m \<le> 0 \<or> md_Timestamp m \<le> serverNow then applyMetadataLocked m r
      else r\<lparr>rv_pendingMetadata := insert_pending m (rv_pendingMetadata r)\<rparr>)"

text \<open>The loop of \<open>drainPendingMetadata\<close>: the updates that are due, and the number applied.\<close>

fun drain_loop :: "int \<Rightarrow> MetadataState list \<Rightarrow> 'd Receiver \<Rightarrow> nat \<times> 'd Receiver" where
  "drain_loop serverNow [] r = (0, r)"
| "drain_loop serverNow (m # ms) r =
     (if serverNow < md_Timestamp m then (0, r)
      else case drain_loop serverNow ms (applyMetadataLocked m r) of (n, r') \<Rightarrow> (Suc n, r'))"

definition drainPendingMetadata :: "int \<Rightarrow> 'd Receiver \<Rightarrow> 'd Receiver" where
  "drainPendingMetadata serverNow r =
     (case drain_loop serverNow (rv_pendingMetadata r) r of
        (applied, r') \<Rightarrow>
          if 0 < applied then r'\<lparr>rv_pendingMetadata := drop applied (rv_pendingMetadata r')\<rparr> else r')"

definition handleServerState :: "int \<Rightarrow> ServerStateMessage \<Rightarrow> 'd Receiver \<Rightarrow> 'd Receiver" where
  "handleServerState serverNow state r =
     (let r = (case ssm_Metadata state of Some m \<Rightarrow> enqueueMetadata serverNow m r | None \<Rightarrow> r)
      in case ssm_Controller state of Some c \<Rightarrow> applyController c r | None \<Rightarrow> r)"

section \<open>Clock bursts\<close>

text \<open>
  One round of a burst: the request could not be sent, was answered at \<open>t4\<close>, timed out, or the
  receiver was cancelled.
\<close>

datatype sync_round =
    SendFailed
  | Answered int ServerTime
  | TimedOut
  | Cancelled

definition sample_rtt :: "int \<Rightarrow> ServerTime \<Rightarrow> int" where
  "sample_rtt t4 resp =
     wrap64 (wrap64 (t4 - st_ClientTransmitted resp)
             - wrap64 (st_ServerTransmitted resp - st_ServerReceived resp))"

text \<open>The best sample so far, its round trip, and the number of answers; \<open>None\<close> is the early return.\<close>

fun burst_loop ::
  "sync_round list \<Rightarrow> int \<times> int \<times> ServerTime \<times> nat \<Rightarrow> (int \<times> int \<times> ServerTime \<times> nat) option" where
  "burst_loop [] best = Some best"
| "burst_loop (SendFailed # rounds) best = burst_loop rounds best"
| "burst_loop (TimedOut # rounds) best = burst_loop rounds best"
| "burst_loop (Cancelled # rounds) best = None"
| "burst_loop (Answered t4 resp # rounds) (bestRTT, bestT4, bestResp, valid) =
     (if sample_rtt t4 resp < bestRTT
      then burst_loop rounds (sample_rtt t4 resp, t4, resp, Suc valid)
      else burst_loop rounds (bestRTT, bestT4, bestResp, Suc valid))"

definition runTimeSyncBurst :: "instant \<Rightarrow> sync_round list \<Rightarrow> 'd Receiver \<Rightarrow> 'd Receiver" where
  "runTimeSyncBurst now rounds r =
     (case burst_loop rounds
        (2 ^ 63 - 1, 0, \<lparr>st_ClientTransmitted = 0, st_ServerReceived = 0, st_ServerTransmitted = 0\<rparr>, 0) of
        None \<Rightarrow> r
      | Some (bestRTT, t4, resp, valid) \<Rightarrow>
          if valid = 0 then r
          else r\<lparr>rv_clockSync := ProcessSyncResponse now (st_ClientTransmitted resp)
                   (st_ServerReceived resp) (st_ServerTransmitted resp) t4 (rv_clockSync r)\<rparr>)"

section \<open>Connecting and closing\<close>

text \<open>The outcomes of the connection's I/O, and the rounds of the initial burst.\<close>

record connect_io =
  io_dial :: "string option"
  io_hello :: "string option"
  io_answer :: "string + json option"
  io_state :: "string option"
  io_deadline :: "string option"
  io_now :: instant
  io_rounds :: "sync_round list"

datatype connect_error = NoServerAddr | NoClientID | ConnectionFailed client_error

text \<open>
  \<open>Connect\<close>, up to the start of the handler goroutines; the requests of the burst are not recorded
  among the messages that the client has written.
\<close>

definition receiver_Connect :: "connect_io \<Rightarrow> 'd Receiver \<Rightarrow> connect_error option \<times> 'd Receiver" where
  "receiver_Connect io r =
     (if rc_ClientID (rv_config r) = [] then (Some NoClientID, r)
      else case Connect (io_dial io) (io_hello io) (io_answer io) (io_state io) (io_deadline io)
                  (newClient (receiver_client_config r)) of
             (Some e, c) \<Rightarrow> (Some (ConnectionFailed e), r\<lparr>rv_client := Some c\<rparr>)
           | (None, c) \<Rightarrow>
               (None, runTimeSyncBurst (io_now io) (io_rounds io)
                        (r\<lparr>rv_client := Some c, rv_connected := True\<rparr>)))"

text \<open>
  \<open>Close\<close>: the goodbye, whose outcome is \<open>w\<close>, the context, the client, the scheduler and the output
  channel, which a second \<open>Close\<close> closes again: a panic (\<open>None\<close>). The decoder's own \<open>Close\<close> is that of
  its package.
\<close>

definition receiver_Close :: "string option \<Rightarrow> 'd Receiver \<Rightarrow> 'd Receiver option" where
  "receiver_Close w r =
     (if rv_output_closed r then None
      else Some (r\<lparr>rv_client := map_option (client_Close \<circ> snd \<circ> SendGoodbye w ''shutdown'') (rv_client r),
                   rv_cancelled := True, rv_scheduler := map_option Stop (rv_scheduler r),
                   rv_output_closed := True\<rparr>))"

lemma receiver_Close_twice:
  "receiver_Close w r = Some r' \<Longrightarrow> receiver_Close w' r' = None"
  by (auto simp: receiver_Close_def split: if_splits)

text \<open>A receiver that has connected has told the server that its volume is 100.\<close>

lemma receiver_Connect_client:
  assumes "receiver_Connect io r = (None, r')"
  shows "\<exists>c. rv_client r' = Some c \<and> cl_connected c \<and>
    cl_written c = first_messages (receiver_client_config r)"
proof -
  define c0 where "c0 = (newClient (receiver_client_config r))\<lparr>cl_conn := True, cl_connected := True\<rparr>"
  obtain e c where start:
    "Start (io_hello io) (io_answer io) (io_state io) (io_deadline io) c0 = (e, c)" by fastforce
  have r': "e = None" "rv_client r' = Some c"
    using assms start
    by (auto simp: receiver_Connect_def Connect_def c0_def runTimeSyncBurst_def
        split: if_splits option.splits prod.splits)
  have "cl_conn c0" "cl_connected c0" by (simp_all add: c0_def)
  from Start_cases [OF this start] r'(1)
  have "cl_connected c" "cl_written c = cl_written c0 @ first_messages (cl_config c0)"
    by (auto split: if_splits)
  with r'(2) show ?thesis by (simp add: c0_def newClient_def)
qed

section \<open>Insertion into the pending updates\<close>

lemma sort_Search_first:
  assumes mono: "\<And>a b. a \<le> b \<Longrightarrow> b < n \<Longrightarrow> f a \<Longrightarrow> f b"
  shows "i \<le> j \<Longrightarrow> j \<le> n \<Longrightarrow> i \<le> sort_Search f i j \<and> sort_Search f i j \<le> j \<and>
    (\<forall>k. i \<le> k \<and> k < sort_Search f i j \<longrightarrow> \<not> f k) \<and>
    (\<forall>k. sort_Search f i j \<le> k \<and> k < j \<longrightarrow> f k)"
proof (induction "j - i" arbitrary: i j rule: less_induct)
  case less
  show ?case
  proof (cases "i < j")
    case True
    define h where "h = (i + j) div 2"
    have h: "i \<le> h" "h < j" "h < n" using True less.prems by (auto simp: h_def)
    show ?thesis
    proof (cases "f h")
      case True
      have "sort_Search f i j = sort_Search f i h"
        using \<open>i < j\<close> True by (subst sort_Search.simps) (simp add: h_def [symmetric])
      moreover have "f k" if "h \<le> k" "k < j" for k
        by (rule mono [OF that(1) _ True]) (use that less.prems in simp)
      moreover have "i \<le> sort_Search f i h \<and> sort_Search f i h \<le> h \<and>
          (\<forall>k. i \<le> k \<and> k < sort_Search f i h \<longrightarrow> \<not> f k) \<and> (\<forall>k. sort_Search f i h \<le> k \<and> k < h \<longrightarrow> f k)"
        using h by (intro less.hyps) simp_all
      ultimately show ?thesis using h(2) by (metis le_trans less_imp_le not_le)
    next
      case False
      have "sort_Search f i j = sort_Search f (h + 1) j"
        using \<open>i < j\<close> False by (subst sort_Search.simps) (simp add: h_def [symmetric])
      moreover have "\<not> f k" if "k \<le> h" for k
        using mono [OF that h(3)] False by blast
      moreover have "h + 1 \<le> sort_Search f (h + 1) j \<and> sort_Search f (h + 1) j \<le> j \<and>
          (\<forall>k. h + 1 \<le> k \<and> k < sort_Search f (h + 1) j \<longrightarrow> \<not> f k) \<and>
          (\<forall>k. sort_Search f (h + 1) j \<le> k \<and> k < j \<longrightarrow> f k)"
        using h less.prems by (intro less.hyps) simp_all
      ultimately show ?thesis using h(1) by (metis Suc_eq_plus1 Suc_leI le_trans not_le le_add1)
    qed
  next
    case False
    then have "sort_Search f i j = i" by (subst sort_Search.simps) simp
    with False less.prems show ?thesis by auto
  qed
qed

abbreviation due_sorted :: "MetadataState list \<Rightarrow> bool" where
  "due_sorted ms \<equiv> sorted (map md_Timestamp ms)"

text \<open>A new update goes before the first update that is not earlier.\<close>

lemma insert_pending_split:
  assumes "due_sorted ms"
  obtains before after where "ms = before @ after" "insert_pending m ms = before @ m # after"
    "\<forall>x \<in> set before. md_Timestamp x < md_Timestamp m"
    "\<forall>x \<in> set after. md_Timestamp m \<le> md_Timestamp x"
proof -
  let ?f = "\<lambda>i. md_Timestamp m \<le> md_Timestamp (ms ! i)"
  define idx where "idx = sort_Search ?f 0 (length ms)"
  have mono: "?f b" if "a \<le> b" "b < length ms" "?f a" for a b
  proof -
    have "md_Timestamp (ms ! a) \<le> md_Timestamp (ms ! b)"
      using sorted_nth_mono [OF assms, of a b] that by simp
    with that(3) show ?thesis by linarith
  qed
  have "0 \<le> idx \<and> idx \<le> length ms \<and> (\<forall>k. 0 \<le> k \<and> k < idx \<longrightarrow> \<not> ?f k) \<and>
      (\<forall>k. idx \<le> k \<and> k < length ms \<longrightarrow> ?f k)"
    unfolding idx_def by (rule sort_Search_first [OF mono]; (assumption | rule order_refl | simp))
  then have idx: "idx \<le> length ms" "\<And>k. k < idx \<Longrightarrow> \<not> ?f k" "\<And>k. idx \<le> k \<Longrightarrow> k < length ms \<Longrightarrow> ?f k"
    by blast+
  show thesis
  proof (rule that [of "take idx ms" "drop idx ms"])
    show "insert_pending m ms = take idx ms @ m # drop idx ms"
      by (simp add: insert_pending_def Let_def idx_def)
    show "\<forall>x \<in> set (take idx ms). md_Timestamp x < md_Timestamp m"
      using idx(1,2) by (auto simp: in_set_conv_nth not_le)
    show "\<forall>x \<in> set (drop idx ms). md_Timestamp m \<le> md_Timestamp x"
      using idx(1,3) by (auto simp: in_set_conv_nth)
  qed simp
qed

lemma insert_pending_sorted:
  assumes "due_sorted ms"
  shows "due_sorted (insert_pending m ms) \<and> mset (insert_pending m ms) = add_mset m (mset ms)"
proof (rule insert_pending_split [OF assms, of m])
  fix before after
  assume "ms = before @ after" "insert_pending m ms = before @ m # after"
    "\<forall>x \<in> set before. md_Timestamp x < md_Timestamp m"
    "\<forall>x \<in> set after. md_Timestamp m \<le> md_Timestamp x"
  with assms show ?thesis by (auto simp: sorted_append intro: less_imp_le)
qed

lemma insert_pending_Nil [simp]: "insert_pending m [] = [m]"
  by (simp add: insert_pending_def)

section \<open>What is applied, and when\<close>

lemma drain_loop_takes:
  "drain_loop now ms r =
     (length (takeWhile (\<lambda>m. md_Timestamp m \<le> now) ms),
      fold applyMetadataLocked (takeWhile (\<lambda>m. md_Timestamp m \<le> now) ms) r)"
  by (induction ms arbitrary: r) auto

lemma fold_apply_fields [simp]:
  "rv_pendingMetadata (fold applyMetadataLocked ms r) = rv_pendingMetadata r"
  by (induction ms arbitrary: r) (simp_all add: applyMetadataLocked_def notify_def Let_def)

lemma drop_takeWhile: "drop (length (takeWhile P xs)) xs = dropWhile P xs"
  by (induction xs) auto

lemma drainPendingMetadata_eq:
  "drainPendingMetadata now r =
     (fold applyMetadataLocked (takeWhile (\<lambda>m. md_Timestamp m \<le> now) (rv_pendingMetadata r)) r)
       \<lparr>rv_pendingMetadata := dropWhile (\<lambda>m. md_Timestamp m \<le> now) (rv_pendingMetadata r)\<rparr>"
proof (cases "takeWhile (\<lambda>m. md_Timestamp m \<le> now) (rv_pendingMetadata r) = []")
  case True
  then have "dropWhile (\<lambda>m. md_Timestamp m \<le> now) (rv_pendingMetadata r) = rv_pendingMetadata r"
    using takeWhile_dropWhile_id [of "\<lambda>m. md_Timestamp m \<le> now" "rv_pendingMetadata r"] by simp
  with True show ?thesis by (simp add: drainPendingMetadata_def drain_loop_takes)
next
  case False
  then show ?thesis by (simp add: drainPendingMetadata_def drain_loop_takes drop_takeWhile)
qed

text \<open>
  Updates and drains in any order, each at the server time that its handler read; the updates that a
  step applies, with that time.
\<close>

datatype meta_event = Enqueue int MetadataState | Drain int

fun meta_step :: "meta_event \<Rightarrow> 'd Receiver \<Rightarrow> 'd Receiver" where
  "meta_step (Enqueue now m) r = enqueueMetadata now m r"
| "meta_step (Drain now) r = drainPendingMetadata now r"

fun meta_applied :: "meta_event \<Rightarrow> 'd Receiver \<Rightarrow> (int \<times> MetadataState) list" where
  "meta_applied (Enqueue now m) r =
     (if md_Timestamp m \<le> 0 \<or> md_Timestamp m \<le> now then [(now, m)] else [])"
| "meta_applied (Drain now) r =
     map (Pair now) (takeWhile (\<lambda>m. md_Timestamp m \<le> now) (rv_pendingMetadata r))"

fun meta_run :: "meta_event list \<Rightarrow> 'd Receiver \<Rightarrow> (int \<times> MetadataState) list \<times> 'd Receiver" where
  "meta_run [] r = ([], r)"
| "meta_run (ev # evs) r =
     (case meta_run evs (meta_step ev r) of (applied, r') \<Rightarrow> (meta_applied ev r @ applied, r'))"

fun arrivals :: "meta_event list \<Rightarrow> MetadataState list" where
  "arrivals [] = []"
| "arrivals (Enqueue now m # evs) = m # arrivals evs"
| "arrivals (Drain now # evs) = arrivals evs"

definition on_due :: "int \<times> MetadataState \<Rightarrow> bool" where
  "on_due e \<longleftrightarrow> md_Timestamp (snd e) \<le> 0 \<or> md_Timestamp (snd e) \<le> fst e"

lemma fold_apply_merged [simp]:
  "rv_mergedMetadata (fold applyMetadataLocked ms r) = fold merge_metadata ms (rv_mergedMetadata r)"
  by (induction ms arbitrary: r) (simp_all add: applyMetadataLocked_def notify_def Let_def)

lemma meta_step_correct:
  assumes "due_sorted (rv_pendingMetadata r)"
  shows "due_sorted (rv_pendingMetadata (meta_step ev r))"
    "rv_mergedMetadata (meta_step ev r) =
       fold merge_metadata (map snd (meta_applied ev r)) (rv_mergedMetadata r)"
    "mset (arrivals [ev]) + mset (rv_pendingMetadata r) =
       mset (map snd (meta_applied ev r)) + mset (rv_pendingMetadata (meta_step ev r))"
    "list_all on_due (meta_applied ev r)"
proof -
  let ?P = "\<lambda>now m. md_Timestamp m \<le> (now :: int)"
  have tw: "takeWhile (?P now) (rv_pendingMetadata r) @ dropWhile (?P now) (rv_pendingMetadata r)
      = rv_pendingMetadata r" for now by (rule takeWhile_dropWhile_id)
  have "due_sorted (dropWhile (?P now) (rv_pendingMetadata r))" for now
  proof -
    have "due_sorted (takeWhile (?P now) (rv_pendingMetadata r) @ dropWhile (?P now) (rv_pendingMetadata r))"
      unfolding tw by (rule assms)
    then show ?thesis unfolding map_append sorted_append by blast
  qed
  then show "due_sorted (rv_pendingMetadata (meta_step ev r))"
    using assms insert_pending_sorted [OF assms]
    by (cases ev) (simp_all add: drainPendingMetadata_eq enqueueMetadata_def applyMetadataLocked_def
        notify_def Let_def)
  show "rv_mergedMetadata (meta_step ev r) =
       fold merge_metadata (map snd (meta_applied ev r)) (rv_mergedMetadata r)"
    by (cases ev) (simp_all add: drainPendingMetadata_eq enqueueMetadata_def applyMetadataLocked_def
        notify_def Let_def comp_def)
  show "mset (arrivals [ev]) + mset (rv_pendingMetadata r) =
       mset (map snd (meta_applied ev r)) + mset (rv_pendingMetadata (meta_step ev r))"
  proof (cases ev)
    case (Enqueue now m)
    then show ?thesis using insert_pending_sorted [OF assms, of m]
      by (simp add: enqueueMetadata_def applyMetadataLocked_def notify_def Let_def)
  next
    case (Drain now)
    have "mset (rv_pendingMetadata r) = mset (takeWhile (?P now) (rv_pendingMetadata r))
        + mset (dropWhile (?P now) (rv_pendingMetadata r))"
      by (subst tw [of now, symmetric]) (simp only: mset_append)
    with Drain show ?thesis by (simp add: drainPendingMetadata_eq comp_def)
  qed
  show "list_all on_due (meta_applied ev r)"
    by (cases ev) (auto simp: on_due_def list_all_iff dest: set_takeWhileD)
qed

lemma meta_run_correct:
  assumes "due_sorted (rv_pendingMetadata r)" "meta_run evs r = (applied, r')"
  shows "due_sorted (rv_pendingMetadata r') \<and>
    rv_mergedMetadata r' = fold merge_metadata (map snd applied) (rv_mergedMetadata r) \<and>
    mset (arrivals evs) + mset (rv_pendingMetadata r) =
      mset (map snd applied) + mset (rv_pendingMetadata r') \<and>
    list_all on_due applied"
  using assms
proof (induction evs arbitrary: r applied)
  case (Cons ev evs)
  obtain rest where rest: "meta_run evs (meta_step ev r) = (rest, r')" and
    applied: "applied = meta_applied ev r @ rest"
    using Cons.prems(2) by (auto split: prod.splits)
  note step = meta_step_correct [OF Cons.prems(1), of ev]
  note IH = Cons.IH [OF step(1) rest]
  have "mset (arrivals (ev # evs)) = mset (arrivals [ev]) + mset (arrivals evs)"
    by (cases ev) simp_all
  with step(3) IH have "mset (arrivals (ev # evs)) + mset (rv_pendingMetadata r) =
      mset (map snd applied) + mset (rv_pendingMetadata r')"
    by (simp add: applied ac_simps) (metis add.assoc add.left_commute)
  with step IH show ?case by (simp add: applied)
qed simp

text \<open>
  C15. For every sequence of metadata updates and timer ticks, at any server times: the pending updates
  stay sorted by time stamp, every update that has arrived is either pending or was applied exactly once,
  no update was applied before its time stamp, and the snapshot is the merge of the applied ones in the
  order of their application. A tick leaves only updates that are not due yet.
\<close>

theorem metadata_applied_once:
  assumes "due_sorted (rv_pendingMetadata r)" "meta_run evs r = (applied, r')"
  shows "due_sorted (rv_pendingMetadata r') \<and>
    mset (arrivals evs) + mset (rv_pendingMetadata r) =
      mset (map snd applied) + mset (rv_pendingMetadata r') \<and>
    list_all on_due applied \<and>
    rv_mergedMetadata r' = fold merge_metadata (map snd applied) (rv_mergedMetadata r) \<and>
    list_all (\<lambda>m. now < md_Timestamp m) (rv_pendingMetadata (drainPendingMetadata now r'))"
proof -
  note run = meta_run_correct [OF assms]
  have "list_all (\<lambda>m. now < md_Timestamp m) (dropWhile (\<lambda>m. md_Timestamp m \<le> now) ms)"
    if "due_sorted ms" for ms
    using that by (induction ms) (auto simp: list_all_iff)
  with run show ?thesis by (simp add: drainPendingMetadata_eq)
qed

definition update_at :: "int \<Rightarrow> string \<Rightarrow> MetadataState" where
  "update_at t title =
     \<lparr>md_Timestamp = t, md_Title = Some title, md_Artist = None, md_AlbumArtist = None,
      md_Album = None, md_ArtworkURL = None, md_Year = None, md_Track = None, md_Progress = None,
      md_Repeat = None, md_Shuffle = None, md_presentKeys = Some [''timestamp'', ''title'']\<rparr>"

definition receiver_config_example :: "unit ReceiverConfig" where
  "receiver_config_example =
     \<lparr>rc_ServerAddr = ''host:8927'', rc_PlayerName = ''Kitchen'', rc_BufferMs = 500,
      rc_StaticDelayMs = 0, rc_PreferredCodec = [], rc_BufferCapacity = 0, rc_MaxSampleRate = 0,
      rc_MaxBitDepth = 0, rc_ClientID = ''id'',
      rc_DeviceInfo = \<lparr>di_ProductName = [], di_Manufacturer = [], di_SoftwareVersion = []\<rparr>,
      rc_DecoderFactory = None\<rparr>"

definition receiver_example :: "unit Receiver" where
  "receiver_example = the (NewReceiver receiver_config_example)"

lemma receiver_example_new: "NewReceiver receiver_config_example = Some receiver_example"
  by (simp add: receiver_example_def NewReceiver_def receiver_config_example_def)

definition meta_events_example :: "meta_event list" where
  "meta_events_example =
     [Enqueue 5 (update_at 20 ''b''), Enqueue 6 (update_at 10 ''a''), Drain 15]"

theorem metadata_applied_once_witness:
  "fst (meta_run meta_events_example receiver_example) = [(15, update_at 10 ''a'')] \<and>
   mset (rv_pendingMetadata (snd (meta_run meta_events_example receiver_example))) = {#update_at 20 ''b''#}"
proof -
  have start: "rv_pendingMetadata receiver_example = []"
    by (simp add: receiver_example_def NewReceiver_def receiver_config_example_def)
  have run: "fst (meta_run meta_events_example receiver_example) = [(15, update_at 10 ''a'')]"
    by (simp add: meta_events_example_def enqueueMetadata_def insert_pending_def update_at_def start
        sort_Search.simps)
  have "mset (arrivals meta_events_example) + mset (rv_pendingMetadata receiver_example) =
      mset (map snd (fst (meta_run meta_events_example receiver_example)))
      + mset (rv_pendingMetadata (snd (meta_run meta_events_example receiver_example)))"
    using metadata_applied_once [OF _ surjective_pairing, of receiver_example meta_events_example]
    unfolding start by simp
  then have "mset (rv_pendingMetadata (snd (meta_run meta_events_example receiver_example)))
      = {#update_at 20 ''b''#}"
    unfolding run start by (simp add: meta_events_example_def del: meta_run.simps)
  with run show ?thesis by simp
qed

text \<open>
  Two ways in which an older update wins. If an update is still pending although it is due, because
  the timer has not fired since, a newer update that is applied on arrival is overwritten by it at the
  next tick; and of two pending updates with the same time stamp the one that arrived first is applied
  last.
\<close>

theorem older_update_wins:
  assumes "rv_pendingMetadata r = []" "md_Title m1 = Some old" "HasField m1 ''title''"
    "0 < md_Timestamp m1" "t0 < md_Timestamp m1" "md_Timestamp m1 \<le> t1" "t1 \<le> t2"
    "md_Timestamp m2 \<le> t1"
  shows "mm_Title (rv_mergedMetadata (snd (meta_run [Enqueue t0 m1, Enqueue t1 m2, Drain t2] r))) = old \<and>
    mm_Title (rv_mergedMetadata (snd (meta_run
      [Enqueue t0 m1, Enqueue t0 (m2\<lparr>md_Timestamp := md_Timestamp m1\<rparr>), Drain t2] r))) = old"
proof -
  have last: "mm_Title (merge_metadata m1 mm) = old" for mm
    using assms(2,3) by (simp add: merge_metadata_def merge_field_def)
  have "insert_pending (m2\<lparr>md_Timestamp := md_Timestamp m1\<rparr>) [m1]
      = [m2\<lparr>md_Timestamp := md_Timestamp m1\<rparr>, m1]"
    by (simp add: insert_pending_def sort_Search.simps)
  then show ?thesis
    using assms last
    by (simp add: enqueueMetadata_def drainPendingMetadata_eq applyMetadataLocked_def notify_def Let_def)
qed

theorem older_update_wins_witness:
  "mm_Title (rv_mergedMetadata (snd (meta_run
     [Enqueue 5 (update_at 10 ''old''), Enqueue 12 (update_at 11 ''new''), Drain 13] receiver_example))) = ''old''"
  using older_update_wins [of receiver_example "update_at 10 ''old''" "''old''" 5 12 13 "update_at 11 ''new''"]
  by (simp add: update_at_def HasField_def receiver_example_def NewReceiver_def
      receiver_config_example_def del: meta_run.simps)

section \<open>Server state, from the server to the snapshot\<close>

text \<open>The meaning of a diff: what it sets is set, everything else stays.\<close>

definition overlay :: "MetadataState \<Rightarrow> Metadata \<Rightarrow> Metadata" where
  "overlay m mm =
     (let upd = \<lambda>v old. case v of Some x \<Rightarrow> x | None \<Rightarrow> old
      in \<lparr>mm_Title = upd (md_Title m) (mm_Title mm), mm_Artist = upd (md_Artist m) (mm_Artist mm),
          mm_Album = upd (md_Album m) (mm_Album mm),
          mm_AlbumArtist = upd (md_AlbumArtist m) (mm_AlbumArtist mm),
          mm_ArtworkURL = upd (md_ArtworkURL m) (mm_ArtworkURL mm),
          mm_Track = (case md_Track m of Some x \<Rightarrow> x | None \<Rightarrow> mm_Track mm),
          mm_Year = (case md_Year m of Some x \<Rightarrow> x | None \<Rightarrow> mm_Year mm),
          mm_Duration = (case md_Progress m of Some p \<Rightarrow> go_quot (TrackDuration p) 1000
                         | None \<Rightarrow> mm_Duration mm),
          mm_Repeat = upd (md_Repeat m) (mm_Repeat mm),
          mm_Shuffle = (case md_Shuffle m of Some x \<Rightarrow> x | None \<Rightarrow> mm_Shuffle mm)\<rparr>)"

lemma sets_field_simps:
  "sets_field m ''title'' \<longleftrightarrow> md_Title m \<noteq> None" "sets_field m ''artist'' \<longleftrightarrow> md_Artist m \<noteq> None"
  "sets_field m ''album'' \<longleftrightarrow> md_Album m \<noteq> None"
  "sets_field m ''album_artist'' \<longleftrightarrow> md_AlbumArtist m \<noteq> None"
  "sets_field m ''artwork_url'' \<longleftrightarrow> md_ArtworkURL m \<noteq> None" "sets_field m ''track'' \<longleftrightarrow> md_Track m \<noteq> None"
  "sets_field m ''year'' \<longleftrightarrow> md_Year m \<noteq> None" "sets_field m ''progress'' \<longleftrightarrow> md_Progress m \<noteq> None"
  "sets_field m ''repeat'' \<longleftrightarrow> md_Repeat m \<noteq> None" "sets_field m ''shuffle'' \<longleftrightarrow> md_Shuffle m \<noteq> None"
  by (simp_all add: sets_field_def)

lemma merge_field_set:
  assumes "sets_field m k \<longleftrightarrow> v \<noteq> None"
  shows "merge_field (m\<lparr>md_presentKeys := Some (metadata_keys m)\<rparr>) k v zero old =
    (case v of Some x \<Rightarrow> x | None \<Rightarrow> old)"
proof -
  have "sets_field (m\<lparr>md_presentKeys := p\<rparr>) k \<longleftrightarrow> sets_field m k" for p by (simp add: sets_field_def)
  with assms show ?thesis
    using metadata_keys_set [of k m None] by (simp add: merge_field_def HasField_def split: option.split)
qed

lemma merge_received:
  "merge_metadata (m\<lparr>md_presentKeys := Some (metadata_keys m)\<rparr>) mm = overlay m mm"
  by (simp add: merge_metadata_def merge_field_set sets_field_simps overlay_def Let_def split: option.split)

text \<open>
  C32. A \<open>server/state\<close> that the server sends and that is due when it arrives reaches the receiver's
  snapshot as a diff: the fields that the server set have their new values (the duration in seconds), all
  others keep theirs; a controller state, applied after it, decides repeat and shuffle.
\<close>

theorem server_state_reaches_snapshot:
  assumes "pred_option small_metadata (ssm_Metadata s)" "pred_option small_controller (ssm_Controller s)"
    "pred_option (\<lambda>m. md_Timestamp m \<le> now) (ssm_Metadata s)"
  shows "\<exists>s'. incoming_of (TextMessage (Some (enc_Message ''server/state'' (enc_ServerStateMessage s))))
      = Some (InState s') \<and>
    rv_mergedMetadata (handleServerState now s' r) =
      (let mm = (case ssm_Metadata s of Some m \<Rightarrow> overlay m (rv_mergedMetadata r)
                 | None \<Rightarrow> rv_mergedMetadata r)
       in case ssm_Controller s of
            Some c \<Rightarrow> mm\<lparr>mm_Repeat := cs_Repeat c, mm_Shuffle := cs_Shuffle c\<rparr> | None \<Rightarrow> mm)"
proof (intro exI conjI)
  have "dec_ServerStateMessage (through_interface (enc_ServerStateMessage s)) = Some (received_state s)"
    using server_state_received [OF assms(1,2)] by blast
  then show "incoming_of (TextMessage (Some (enc_Message ''server/state'' (enc_ServerStateMessage s))))
      = Some (InState (received_state s))"
    by (simp add: handleJSONMessage_def route_json_def)
  show "rv_mergedMetadata (handleServerState now (received_state s) r) =
      (let mm = (case ssm_Metadata s of Some m \<Rightarrow> overlay m (rv_mergedMetadata r)
                 | None \<Rightarrow> rv_mergedMetadata r)
       in case ssm_Controller s of
            Some c \<Rightarrow> mm\<lparr>mm_Repeat := cs_Repeat c, mm_Shuffle := cs_Shuffle c\<rparr> | None \<Rightarrow> mm)"
    using assms(3)
    by (cases "ssm_Metadata s") (simp_all add: handleServerState_def received_state_def enqueueMetadata_def applyMetadataLocked_def
        applyController_def notify_def Let_def merge_received split: option.split)
qed

theorem server_state_reaches_snapshot_witness:
  "\<exists>s'. incoming_of (TextMessage (Some (enc_Message ''server/state'' (enc_ServerStateMessage state_example))))
      = Some (InState s') \<and>
    mm_Title (rv_mergedMetadata (handleServerState 5000000 s' receiver_example)) = ''T'' \<and>
    mm_Artist (rv_mergedMetadata (handleServerState 5000000 s' receiver_example)) = [] \<and>
    mm_Year (rv_mergedMetadata (handleServerState 5000000 s' receiver_example)) = 1999"
proof -
  have "pred_option small_metadata (ssm_Metadata state_example)"
    "pred_option small_controller (ssm_Controller state_example)"
    "pred_option (\<lambda>m. md_Timestamp m \<le> 5000000) (ssm_Metadata state_example)"
    by (simp_all add: state_example_def metadata_example_def small_metadata_def small_int_def)
  from server_state_reaches_snapshot [OF this, of receiver_example]
  obtain s' where s': "incoming_of (TextMessage (Some (enc_Message ''server/state''
      (enc_ServerStateMessage state_example)))) = Some (InState s')"
    and m: "rv_mergedMetadata (handleServerState 5000000 s' receiver_example)
      = overlay metadata_example (rv_mergedMetadata receiver_example)"
    by (auto simp: state_example_def)
  have "rv_mergedMetadata receiver_example = no_metadata"
    by (simp add: receiver_example_def NewReceiver_def receiver_config_example_def)
  with s' m show ?thesis
    by (intro exI [of _ s']) (simp add: overlay_def metadata_example_def no_metadata_def)
qed

section \<open>The best sample of a burst\<close>

fun answers :: "sync_round list \<Rightarrow> (int \<times> ServerTime) list" where
  "answers [] = []"
| "answers (Answered t4 resp # rounds) = (t4, resp) # answers rounds"
| "answers (_ # rounds) = answers rounds"

lemma burst_loop_cancelled: "Cancelled \<in> set rounds \<Longrightarrow> burst_loop rounds best = None"
  by (induction rounds best rule: burst_loop.induct) auto

lemma burst_loop_best:
  assumes "Cancelled \<notin> set rounds" "best = (b, t, q, n)"
  shows "\<exists>b' t' q'. burst_loop rounds best = Some (b', t', q', n + length (answers rounds)) \<and>
    (\<forall>x \<in> set (answers rounds). b' \<le> sample_rtt (fst x) (snd x)) \<and> b' \<le> b \<and>
    ((b', t', q') = (b, t, q) \<or> (t', q') \<in> set (answers rounds) \<and> b' = sample_rtt t' q')"
  using assms
proof (induction rounds best arbitrary: b t q n rule: burst_loop.induct)
  case (5 t4 resp rounds bestRTT bestT4 bestResp valid)
  show ?case
  proof (cases "sample_rtt t4 resp < bestRTT")
    case True
    from 5(1) [OF True _ refl] 5(3) obtain b' t' q' where
      "burst_loop rounds (sample_rtt t4 resp, t4, resp, Suc valid)
         = Some (b', t', q', Suc valid + length (answers rounds))"
      "\<forall>x \<in> set (answers rounds). b' \<le> sample_rtt (fst x) (snd x)" "b' \<le> sample_rtt t4 resp"
      "(b', t', q') = (sample_rtt t4 resp, t4, resp) \<or> (t', q') \<in> set (answers rounds) \<and> b' = sample_rtt t' q'"
      by auto
    with True 5(4) show ?thesis by auto
  next
    case False
    from 5(2) [OF False _ refl] 5(3) obtain b' t' q' where
      "burst_loop rounds (bestRTT, bestT4, bestResp, Suc valid)
         = Some (b', t', q', Suc valid + length (answers rounds))"
      "\<forall>x \<in> set (answers rounds). b' \<le> sample_rtt (fst x) (snd x)" "b' \<le> bestRTT"
      "(b', t', q') = (bestRTT, bestT4, bestResp) \<or> (t', q') \<in> set (answers rounds) \<and> b' = sample_rtt t' q'"
      by auto
    with False 5(4) show ?thesis by auto
  qed
qed auto

text \<open>
  A burst updates the clock once, with the answer of least round trip among those that came, however
  many rounds failed or timed out; without an answer, or when the receiver is cancelled during the burst,
  it leaves the clock alone.
\<close>

theorem burst_uses_best_sample:
  assumes "\<forall>(t4, resp) \<in> set (answers rounds). sample_rtt t4 resp < 2 ^ 63 - 1"
  shows "if Cancelled \<in> set rounds \<or> answers rounds = [] then runTimeSyncBurst now rounds r = r
    else \<exists>t4 resp. (t4, resp) \<in> set (answers rounds) \<and>
      (\<forall>(t4', resp') \<in> set (answers rounds). sample_rtt t4 resp \<le> sample_rtt t4' resp') \<and>
      runTimeSyncBurst now rounds r = r\<lparr>rv_clockSync :=
        ProcessSyncResponse now (st_ClientTransmitted resp) (st_ServerReceived resp)
          (st_ServerTransmitted resp) t4 (rv_clockSync r)\<rparr>"
proof (cases "Cancelled \<in> set rounds")
  case True
  then show ?thesis by (simp add: runTimeSyncBurst_def burst_loop_cancelled)
next
  case False
  let ?z = "\<lparr>st_ClientTransmitted = 0, st_ServerReceived = 0, st_ServerTransmitted = 0\<rparr>"
  obtain b t q where loop: "burst_loop rounds (2 ^ 63 - 1, 0, ?z, 0) = Some (b, t, q, length (answers rounds))"
    and least: "\<forall>x \<in> set (answers rounds). b \<le> sample_rtt (fst x) (snd x)"
    and which: "(b, t, q) = (2 ^ 63 - 1, 0, ?z) \<or> (t, q) \<in> set (answers rounds) \<and> b = sample_rtt t q"
    using burst_loop_best [OF False refl, of "2 ^ 63 - 1" 0 ?z 0] by auto
  show ?thesis
  proof (cases "answers rounds = []")
    case True
    with loop False show ?thesis by (simp add: runTimeSyncBurst_def)
  next
    case ne: False
    then obtain x where x: "x \<in> set (answers rounds)" by (cases "answers rounds") auto
    with least assms have "b < 2 ^ 63 - 1" by fastforce
    with which have "(t, q) \<in> set (answers rounds)" "b = sample_rtt t q" by auto
    with least loop ne False show ?thesis
      by (auto simp: runTimeSyncBurst_def intro!: exI [of _ t] exI [of _ q])
  qed
qed

definition rounds_example :: "sync_round list" where
  "rounds_example =
     [Answered 100 \<lparr>st_ClientTransmitted = 0, st_ServerReceived = 50, st_ServerTransmitted = 60\<rparr>,
      TimedOut,
      Answered 240 \<lparr>st_ClientTransmitted = 200, st_ServerReceived = 220, st_ServerTransmitted = 225\<rparr>]"

theorem burst_uses_best_sample_witness:
  "runTimeSyncBurst 0 rounds_example receiver_example = receiver_example\<lparr>rv_clockSync :=
     ProcessSyncResponse 0 200 220 225 240 (rv_clockSync receiver_example)\<rparr>"
proof -
  have rtt: "sample_rtt 100 \<lparr>st_ClientTransmitted = 0, st_ServerReceived = 50, st_ServerTransmitted = 60\<rparr> = 90"
    "sample_rtt 240 \<lparr>st_ClientTransmitted = 200, st_ServerReceived = 220, st_ServerTransmitted = 225\<rparr> = 35"
    by (simp_all add: sample_rtt_def wrap64_id is_int64_def)
  show ?thesis
    using burst_uses_best_sample [of rounds_example 0 receiver_example] rtt
    by (auto simp: rounds_example_def)
qed

section \<open>The formats as a stable selection\<close>

lemma cap_formats_filter:
  "cap_formats r b fs =
     filter (\<lambda>f. (r \<le> 0 \<or> af_SampleRate f \<le> r) \<and> (b \<le> 0 \<or> af_BitDepth f \<le> b)) fs"
  by (induction fs) auto

lemma split_preferred_filter:
  "split_preferred codec fs (p, q) =
     p @ filter (\<lambda>f. af_Codec f = codec) fs @ q @ filter (\<lambda>f. af_Codec f \<noteq> codec) fs"
  by (induction fs arbitrary: p q) auto

text \<open>
  The advertised formats are those of the built-in list that respect both caps (a cap that is not
  positive is none), in the order of the list but with the preferred codec first.
\<close>

theorem buildSupportedFormats_reference:
  "buildSupportedFormats codec maxRate maxDepth =
     (let ok = filter (\<lambda>f. (maxRate \<le> 0 \<or> af_SampleRate f \<le> maxRate) \<and>
                          (maxDepth \<le> 0 \<or> af_BitDepth f \<le> maxDepth)) allFormats
      in filter (\<lambda>f. af_Codec f = codec) ok @ filter (\<lambda>f. af_Codec f \<noteq> codec) ok)"
proof -
  have "af_Codec f \<noteq> []" if "f \<in> set allFormats" for f
    using that by (auto simp: allFormats_def)
  then have "filter (\<lambda>f. af_Codec f = []) (filter P allFormats) = []"
    "filter (\<lambda>f. af_Codec f \<noteq> []) (filter P allFormats) = filter P allFormats" for P
    by (auto intro: filter_False filter_True simp del: filter_filter)
  then show ?thesis
    by (simp add: buildSupportedFormats_def Let_def split_preferred_filter cap_formats_filter del: filter_filter)
qed

end
