(* ===== verification/Ring_Buffer.thy ===== *)
theory Ring_Buffer
  imports Sample_Codec
begin

text \<open>
  The sample ring between the playback goroutine and the device callback
  (\<open>RingBuffer\<close> of \<open>pkg/audio/output/malgo.go\<close>). It is a bounded FIFO of samples: \<open>Write\<close> accepts
  a prefix of its argument and \<open>Read\<close> delivers the oldest samples, then silence.
\<close>

record RingBuffer =
  rb_buffer :: "sample list"
  rb_readPos :: nat
  rb_writePos :: nat
  rb_size :: nat
  rb_count :: nat

definition NewRingBuffer :: "nat \<Rightarrow> RingBuffer" where
  "NewRingBuffer capacity =
     \<lparr>rb_buffer = replicate capacity 0, rb_readPos = 0, rb_writePos = 0, rb_size = capacity,
      rb_count = 0\<rparr>"

text \<open>The bodies of the two loops.\<close>

definition rb_put :: "sample \<Rightarrow> RingBuffer \<Rightarrow> RingBuffer" where
  "rb_put s rb =
     rb\<lparr>rb_buffer := (rb_buffer rb)[rb_writePos rb := s],
        rb_writePos := (rb_writePos rb + 1) mod rb_size rb,
        rb_count := rb_count rb + 1\<rparr>"

definition rb_get :: "RingBuffer \<Rightarrow> sample \<times> RingBuffer" where
  "rb_get rb =
     (rb_buffer rb ! rb_readPos rb,
      rb\<lparr>rb_readPos := (rb_readPos rb + 1) mod rb_size rb, rb_count := rb_count rb - 1\<rparr>)"

fun rb_Write :: "sample list \<Rightarrow> RingBuffer \<Rightarrow> nat \<times> RingBuffer" where
  "rb_Write [] rb = (0, rb)"
| "rb_Write (s # samples) rb =
     (if rb_count rb < rb_size rb
      then (case rb_Write samples (rb_put s rb) of (written, rb') \<Rightarrow> (written + 1, rb'))
      else (0, rb))"

fun rb_read_loop :: "nat \<Rightarrow> RingBuffer \<Rightarrow> sample list \<times> RingBuffer" where
  "rb_read_loop 0 rb = ([], rb)"
| "rb_read_loop (Suc n) rb =
     (if 0 < rb_count rb
      then (case rb_get rb of
              (s, rb1) \<Rightarrow> (case rb_read_loop n rb1 of (samples, rb') \<Rightarrow> (s # samples, rb')))
      else ([], rb))"

text \<open>\<open>Read\<close> fills a slice of \<open>n\<close> samples: the count read, the slice, the buffer.\<close>

definition rb_Read :: "nat \<Rightarrow> RingBuffer \<Rightarrow> nat \<times> sample list \<times> RingBuffer" where
  "rb_Read n rb =
     (case rb_read_loop n rb of
        (samples, rb') \<Rightarrow> (length samples, samples @ replicate (n - length samples) 0, rb'))"

definition rb_Available :: "RingBuffer \<Rightarrow> nat" where
  "rb_Available rb = rb_count rb"

definition rb_Free :: "RingBuffer \<Rightarrow> nat" where
  "rb_Free rb = rb_size rb - rb_count rb"

section \<open>A bounded FIFO\<close>

definition rb_items :: "RingBuffer \<Rightarrow> sample list" where
  "rb_items rb = ring_view (rb_buffer rb) (rb_readPos rb) (rb_count rb)"

definition rb_wf :: "RingBuffer \<Rightarrow> bool" where
  "rb_wf rb \<longleftrightarrow> length (rb_buffer rb) = rb_size rb \<and> rb_count rb \<le> rb_size rb \<and>
     (0 < rb_size rb \<longrightarrow> rb_readPos rb < rb_size rb) \<and>
     rb_writePos rb = (rb_readPos rb + rb_count rb) mod rb_size rb"

definition rb_room :: "RingBuffer \<Rightarrow> bool" where
  "rb_room rb \<longleftrightarrow> rb_count rb < rb_size rb"

definition rb_pop :: "RingBuffer \<Rightarrow> (sample \<times> RingBuffer) option" where
  "rb_pop rb = (if 0 < rb_count rb then Some (rb_get rb) else None)"

lemma length_rb_items [simp]: "length (rb_items rb) = rb_count rb"
  by (simp add: rb_items_def)

lemma NewRingBuffer_wf [simp]: "rb_wf (NewRingBuffer n)" "rb_items (NewRingBuffer n) = []"
  by (simp_all add: NewRingBuffer_def rb_wf_def rb_items_def)

lemma rb_put_items: "rb_wf rb \<Longrightarrow> rb_room rb \<Longrightarrow> rb_items (rb_put s rb) = rb_items rb @ [s]"
  using ring_view_put [of "rb_count rb" "rb_buffer rb"]
  by (simp add: rb_items_def rb_put_def rb_wf_def rb_room_def)

lemma rb_put_wf: "rb_wf rb \<Longrightarrow> rb_room rb \<Longrightarrow> rb_wf (rb_put s rb)"
  by (auto simp: rb_wf_def rb_put_def rb_room_def mod_Suc_eq)

lemma rb_get_items:
  assumes "rb_wf rb" "0 < rb_count rb"
  shows "rb_items rb = fst (rb_get rb) # rb_items (snd (rb_get rb))" "rb_wf (snd (rb_get rb))"
proof -
  obtain n where n: "rb_count rb = Suc n" using assms(2) gr0_conv_Suc by blast
  show "rb_items rb = fst (rb_get rb) # rb_items (snd (rb_get rb))"
    using assms n ring_view_Suc [of "rb_readPos rb" "rb_buffer rb" n]
    by (simp add: rb_items_def rb_get_def rb_wf_def)
  have "(Suc (rb_readPos rb) mod rb_size rb + n) mod rb_size rb
      = (rb_readPos rb + Suc n) mod rb_size rb"
    by (metis add_Suc add_Suc_right mod_add_left_eq)
  then show "rb_wf (snd (rb_get rb))"
    using assms n by (auto simp: rb_wf_def rb_get_def)
qed

interpretation rb: bounded_fifo rb_items rb_wf rb_room rb_put rb_pop rb_size
proof unfold_locales
  fix q :: RingBuffer and x :: sample and xs
  assume "rb_wf q" "rb_items q = x # xs"
  moreover from this have "0 < rb_count q" by (metis length_rb_items length_greater_0_conv list.discI)
  ultimately show "\<exists>q'. rb_pop q = Some (x, q') \<and> rb_items q' = xs \<and> rb_wf q'"
    using rb_get_items [of q] by (auto simp: rb_pop_def intro!: exI [of _ "snd (rb_get q)"] prod_eqI)
next
  fix q :: RingBuffer assume "rb_wf q" "rb_items q = []"
  then show "rb_pop q = None" by (metis length_rb_items list.size(3) not_less_zero rb_pop_def)
next
  fix q :: RingBuffer and y q' assume "rb_pop q = Some (y, q')"
  then show "rb_size q' = rb_size q" by (auto simp: rb_pop_def rb_get_def split: if_splits)
qed (blast intro: rb_put_items rb_put_wf | simp add: rb_room_def rb_wf_def rb_put_def)+

section \<open>The operations on the contents\<close>

lemma rb_Write_items:
  assumes "rb_wf rb" "rb_Write samples rb = (n, rb')"
  shows "n = min (length samples) (rb_Free rb) \<and> rb_items rb' = rb_items rb @ take n samples \<and>
         rb_wf rb' \<and> rb_size rb' = rb_size rb"
  using assms
proof (induction samples arbitrary: rb n)
  case Nil
  then show ?case by simp
next
  case (Cons s samples)
  show ?case
  proof (cases "rb_room rb")
    case True
    then obtain m where m: "rb_Write samples (rb_put s rb) = (m, rb')" "n = m + 1"
      using Cons.prems by (auto simp: rb_room_def split: prod.splits)
    have "rb_Free (rb_put s rb) = rb_Free rb - 1" "0 < rb_Free rb"
      using True by (simp_all add: rb_Free_def rb_put_def rb_room_def)
    with Cons.IH [OF rb_put_wf [OF Cons.prems(1) True] m(1)] m(2) True Cons.prems(1)
    show ?thesis by (simp add: rb_put_items rb.capacity_push)
  next
    case False
    with Cons.prems show ?thesis
      by (simp add: rb_room_def rb_Free_def)
  qed
qed

lemma rb_read_loop_items:
  assumes "rb_wf rb" "rb_read_loop n rb = (samples, rb')"
  shows "samples = take n (rb_items rb) \<and> rb_items rb' = drop n (rb_items rb) \<and>
         rb_wf rb' \<and> rb_size rb' = rb_size rb"
  using assms
proof (induction n arbitrary: rb samples)
  case 0
  then show ?case by simp
next
  case (Suc n)
  show ?case
  proof (cases "0 < rb_count rb")
    case True
    obtain s rb1 where g: "rb_get rb = (s, rb1)" by fastforce
    note items = rb_get_items [OF Suc.prems(1) True, unfolded g fst_conv snd_conv]
    obtain rest where "rb_read_loop n rb1 = (rest, rb')" "samples = s # rest"
      using Suc.prems True g by (auto split: prod.splits)
    moreover have "rb_size rb1 = rb_size rb" using g by (auto simp: rb_get_def)
    ultimately show ?thesis
      using Suc.IH [OF items(2)] items(1) by simp
  next
    case False
    then have "rb_items rb = []" by (simp add: rb_items_def)
    with False Suc.prems show ?thesis by auto
  qed
qed

lemma rb_Read_items:
  assumes "rb_wf rb" "rb_Read n rb = (k, samples, rb')"
  shows "k = min n (rb_count rb) \<and> samples = take n (rb_items rb) @ replicate (n - k) 0 \<and>
         rb_items rb' = drop n (rb_items rb) \<and> rb_wf rb' \<and> rb_size rb' = rb_size rb"
proof -
  obtain read where l: "rb_read_loop n rb = (read, rb')"
    and r: "k = length read" "samples = read @ replicate (n - length read) 0"
    using assms(2) by (auto simp: rb_Read_def split: prod.splits)
  from rb_read_loop_items [OF assms(1) l] r show ?thesis by simp
qed

text \<open>A run of writes and reads by the two sides, in any order.\<close>

datatype rb_op = WriteOp "sample list" | ReadOp nat

fun rb_run :: "rb_op list \<Rightarrow> RingBuffer \<Rightarrow> sample list \<times> sample list \<times> RingBuffer" where
  "rb_run [] rb = ([], [], rb)"
| "rb_run (WriteOp samples # ops) rb =
     (case rb_Write samples rb of
        (n, rb1) \<Rightarrow> (case rb_run ops rb1 of (acc, out, rb') \<Rightarrow> (take n samples @ acc, out, rb')))"
| "rb_run (ReadOp n # ops) rb =
     (case rb_Read n rb of
        (k, samples, rb1) \<Rightarrow>
          (case rb_run ops rb1 of (acc, out, rb') \<Rightarrow> (acc, take k samples @ out, rb')))"

lemma rb_run_items:
  "rb_run ops rb = (acc, out, rb') \<Longrightarrow> rb_wf rb \<Longrightarrow>
   rb_items rb @ acc = out @ rb_items rb' \<and> rb_wf rb' \<and> rb_size rb' = rb_size rb"
proof (induction ops arbitrary: rb acc out)
  case Nil
  then show ?case by simp
next
  case (Cons op ops)
  show ?case
  proof (cases op)
    case (WriteOp samples)
    obtain n rb1 where w: "rb_Write samples rb = (n, rb1)" by fastforce
    with Cons.prems(1) WriteOp obtain acc1 where "rb_run ops rb1 = (acc1, out, rb')"
        "acc = take n samples @ acc1"
      by (auto split: prod.splits)
    with Cons.IH [of rb1] rb_Write_items [OF Cons.prems(2) w] show ?thesis by simp
  next
    case (ReadOp n)
    obtain k samples rb1 where r: "rb_Read n rb = (k, samples, rb1)" by (metis prod_cases3)
    with Cons.prems(1) ReadOp obtain out1 where s: "rb_run ops rb1 = (acc, out1, rb')"
        "out = take k samples @ out1"
      by (auto split: prod.splits)
    note items = rb_Read_items [OF Cons.prems(2) r]
    then have "take k samples @ rb_items rb1 = rb_items rb" by (auto simp: min_def)
    with Cons.IH [OF s(1)] items s(2) show ?thesis by (metis append.assoc)
  qed
qed

text \<open>
  C21. Whatever the writer and the audio callback do, the device receives exactly the samples
  that \<open>Write\<close> accepted, in order, and the ring never holds more than its capacity.
\<close>

theorem ring_buffer_stream:
  assumes "rb_run ops (NewRingBuffer capacity) = (accepted, delivered, rb)"
  shows "accepted = delivered @ rb_items rb \<and> rb_Available rb \<le> capacity"
proof -
  have "rb_size (NewRingBuffer capacity) = capacity" by (simp add: NewRingBuffer_def)
  then show ?thesis
    using rb_run_items [OF assms NewRingBuffer_wf(1)] rb.wf_bound [of rb]
    by (simp add: rb_Available_def)
qed

theorem ring_buffer_stream_witness:
  "[1, 2, 3] = [1, 2] @ rb_items \<lparr>rb_buffer = [1, 2, 3], rb_readPos = 2, rb_writePos = 0, rb_size = 3, rb_count = 1\<rparr> \<and>
   rb_Available \<lparr>rb_buffer = [1, 2, 3], rb_readPos = 2, rb_writePos = 0, rb_size = 3, rb_count = 1\<rparr> \<le> 3"
  by (rule ring_buffer_stream [where ops = "[WriteOp [1, 2, 3, 4], ReadOp 2]"])
    code_simp

end
