(* ===== verification/Audio_Output.thy ===== *)
theory Audio_Output
  imports Ring_Buffer Audio_Math
begin

text \<open>
  The device output of \<open>pkg/audio/output\<close>: device selection, the open\<open>/\<close>close life cycle of \<open>Malgo\<close>,
  the blocking \<open>Write\<close> against the audio callback, and the capability probe. The miniaudio
  library is a parameter: the results of its calls are an argument of the operations that make
  them. \<open>audio_output\<close> is the contract that the player relies on.
\<close>

section \<open>Device selection\<close>

record PlaybackDevice =
  dev_Name :: string
  dev_IsDefault :: bool
  dev_ID :: "byte list"

datatype malgo_error =
    DeviceNotFound string
  | DeviceAmbiguous string nat
  | NoDevices string
  | BadBitDepth int
  | MalgoError string
  | NotInitialized
  | RingStalled nat nat
  | NegativeLength

text \<open>\<open>strings.Index\<close>: the first position of a substring.\<close>

fun str_index :: "'a list \<Rightarrow> 'a list \<Rightarrow> nat option" where
  "str_index sub s =
     (if prefix sub s then Some 0
      else case s of [] \<Rightarrow> None | _ # rest \<Rightarrow> map_option Suc (str_index sub rest))"

declare str_index.simps [simp del]

definition short_name_matches :: "string \<Rightarrow> PlaybackDevice \<Rightarrow> bool" where
  "short_name_matches requested d =
     (case str_index '', '' (dev_Name d) of
        None \<Rightarrow> False
      | Some idx \<Rightarrow> 0 < idx \<and> take idx (dev_Name d) = requested)"

text \<open>\<open>matchDevice\<close>; the text of its error messages, which lists the devices, is left out.\<close>

definition matchDevice ::
  "PlaybackDevice list \<Rightarrow> string \<Rightarrow> malgo_error + PlaybackDevice option" where
  "matchDevice devices requested =
     (if requested = [] then
        (if devices = [] then Inr None
         else case List.find dev_IsDefault devices of
                Some d \<Rightarrow> Inr (Some d)
              | None \<Rightarrow> Inr (Some (hd devices)))
      else case List.find (\<lambda>d. dev_Name d = requested) devices of
        Some d \<Rightarrow> Inr (Some d)
      | None \<Rightarrow>
          (let shortMatches = filter (short_name_matches requested) devices
           in if length shortMatches = 1 then Inr (Some (hd shortMatches))
              else if devices = [] then Inl (NoDevices requested)
              else if 1 < length shortMatches
              then Inl (DeviceAmbiguous requested (length shortMatches))
              else Inl (DeviceNotFound requested)))"

text \<open>
  A device that was asked for by name is never replaced by another one: the device chosen
  is in the list and has that name, or it has that short name, no device has the full name and
  no other one the same short name.
\<close>

theorem matchDevice_never_falls_back:
  assumes "requested \<noteq> []" "matchDevice devices requested = Inr result"
  shows "\<exists>d. result = Some d \<and> d \<in> set devices \<and>
     (dev_Name d = requested \<or>
      short_name_matches requested d \<and> filter (short_name_matches requested) devices = [d] \<and>
      requested \<notin> dev_Name ` set devices)"
proof (cases "List.find (\<lambda>d. dev_Name d = requested) devices")
  case None
  then have none: "requested \<notin> dev_Name ` set devices"
    by (auto simp: find_None_iff)
  let ?ms = "filter (short_name_matches requested) devices"
  have len: "length ?ms = 1" and r: "result = Some (hd ?ms)"
    using assms None by (auto simp: matchDevice_def Let_def split: if_splits)
  obtain d where d: "?ms = [d]" using len by (auto simp: length_Suc_conv)
  have "d \<in> set ?ms" unfolding d by simp
  then have "d \<in> set devices" "short_name_matches requested d" by simp_all
  with d none r show ?thesis by simp
next
  case (Some d)
  with assms show ?thesis by (auto simp: matchDevice_def find_Some_iff)
qed

theorem matchDevice_never_falls_back_witness:
  "\<exists>d. Some \<lparr>dev_Name = ''USB, Out'', dev_IsDefault = False, dev_ID = []\<rparr> = Some d \<and>
     d \<in> set [\<lparr>dev_Name = ''HDMI'', dev_IsDefault = True, dev_ID = []\<rparr>,
              \<lparr>dev_Name = ''USB, Out'', dev_IsDefault = False, dev_ID = []\<rparr>] \<and>
     (dev_Name d = ''USB'' \<or>
      short_name_matches ''USB'' d \<and>
      filter (short_name_matches ''USB'')
        [\<lparr>dev_Name = ''HDMI'', dev_IsDefault = True, dev_ID = []\<rparr>,
         \<lparr>dev_Name = ''USB, Out'', dev_IsDefault = False, dev_ID = []\<rparr>] = [d] \<and>
      ''USB'' \<notin> dev_Name ` set [\<lparr>dev_Name = ''HDMI'', dev_IsDefault = True, dev_ID = []\<rparr>,
              \<lparr>dev_Name = ''USB, Out'', dev_IsDefault = False, dev_ID = []\<rparr>])"
  by (rule matchDevice_never_falls_back) (simp, code_simp)

section \<open>Capabilities\<close>

datatype FormatType = FormatUnknown | FormatU8 | FormatS16 | FormatS24 | FormatS32 | FormatF32

definition formatBits :: "FormatType \<Rightarrow> int" where
  "formatBits f =
     (case f of FormatS16 \<Rightarrow> 16 | FormatS24 \<Rightarrow> 24 | FormatS32 \<Rightarrow> 32 | FormatF32 \<Rightarrow> 32 | _ \<Rightarrow> 0)"

record DataFormat =
  df_Format :: FormatType
  df_SampleRate :: "32 word"

fun caps_loop :: "DataFormat list \<Rightarrow> int \<Rightarrow> int \<Rightarrow> int \<times> int" where
  "caps_loop [] maxRate maxDepth = (maxRate, maxDepth)"
| "caps_loop (f # formats) maxRate maxDepth =
     (let bits = formatBits (df_Format f)
      in if bits = 0 then caps_loop formats maxRate maxDepth
         else caps_loop formats
                (if maxRate < uint (df_SampleRate f) then uint (df_SampleRate f) else maxRate)
                (if maxDepth < bits then bits else maxDepth))"

definition capsFromFormats :: "DataFormat list \<Rightarrow> int \<times> int" where
  "capsFromFormats formats = caps_loop formats 0 0"

text \<open>
  \<open>QueryDeviceCapabilities\<close>, over the results of the library calls: the context, the device
  list, and the details of a device.
\<close>

definition QueryDeviceCapabilities ::
  "string option \<Rightarrow> string + PlaybackDevice list \<Rightarrow> (byte list \<Rightarrow> string + DataFormat list) \<Rightarrow>
   string \<Rightarrow> malgo_error + int \<times> int" where
  "QueryDeviceCapabilities init devices info deviceName =
     (case init of
        Some e \<Rightarrow> Inl (MalgoError e)
      | None \<Rightarrow>
          (case devices of
             Inl e \<Rightarrow> Inl (MalgoError e)
           | Inr catalog \<Rightarrow>
               (case matchDevice catalog deviceName of
                  Inl e \<Rightarrow> Inl e
                | Inr None \<Rightarrow> Inr (0, 0)
                | Inr (Some chosen) \<Rightarrow>
                    (case info (dev_ID chosen) of
                       Inl e \<Rightarrow> Inl (MalgoError e)
                     | Inr formats \<Rightarrow> Inr (capsFromFormats formats)))))"

definition usable_formats :: "DataFormat list \<Rightarrow> DataFormat list" where
  "usable_formats formats = filter (\<lambda>f. formatBits (df_Format f) \<noteq> 0) formats"

lemma caps_loop_Max:
  "caps_loop formats r d =
     (Max (insert r ((\<lambda>f. uint (df_SampleRate f)) ` set (usable_formats formats))),
      Max (insert d ((\<lambda>f. formatBits (df_Format f)) ` set (usable_formats formats))))"
proof (induction formats arbitrary: r d)
  case Nil
  then show ?case by (simp add: usable_formats_def)
next
  case (Cons f formats)
  have up: "Max (insert (if (a :: int) < b then b else a) S) = Max (insert a (insert b S))"
    if "finite S" for a b S
    using that by (cases "S = {}") (auto simp: max_def)
  show ?case
    unfolding caps_loop.simps Let_def Cons.IH
    by (auto simp: usable_formats_def up)
qed

text \<open>
  The caps reported are the largest rate and depth among the formats of known width, and
  zero, "no cap", when there are none.
\<close>

lemma capsFromFormats_Max:
  "capsFromFormats formats =
     (Max (insert 0 ((\<lambda>f. uint (df_SampleRate f)) ` set (usable_formats formats))),
      Max (insert 0 ((\<lambda>f. formatBits (df_Format f)) ` set (usable_formats formats))))"
  by (simp add: capsFromFormats_def caps_loop_Max)

section \<open>The output device\<close>

record Malgo =
  m_context :: bool
  m_device :: bool
  m_deviceName :: string
  m_sampleRate :: int
  m_channels :: int
  m_bitDepth :: int
  m_volume :: int
  m_muted :: bool
  m_ready :: bool
  m_ringBuffer :: "RingBuffer option"

definition NewMalgo :: "string \<Rightarrow> Malgo" where
  "NewMalgo deviceName =
     \<lparr>m_context = False, m_device = False, m_deviceName = deviceName, m_sampleRate = 0,
      m_channels = 0, m_bitDepth = 0, m_volume = 100, m_muted = False, m_ready = False,
      m_ringBuffer = None\<rparr>"

text \<open>The results of the library calls that one \<open>Open\<close> makes.\<close>

record malgo_calls =
  call_InitContext :: "string option"
  call_Devices :: "string + PlaybackDevice list"
  call_InitDevice :: "string option"
  call_Start :: "string option"

definition closeDevice :: "Malgo \<Rightarrow> Malgo" where
  "closeDevice m = (if m_device m then m\<lparr>m_device := False, m_ready := False\<rparr> else m)"

definition malgo_Close :: "Malgo \<Rightarrow> Malgo" where
  "malgo_Close m = (closeDevice m)\<lparr>m_context := False\<rparr>"

definition ring_capacity :: "int \<Rightarrow> int \<Rightarrow> int" where
  "ring_capacity sampleRate channels =
     go_quot (wrap64 (wrap64 (sampleRate * channels) * 80)) 1000"

text \<open>The second half of \<open>Open\<close>: choose, initialise and start the device.\<close>

definition malgo_start ::
  "malgo_calls \<Rightarrow> int \<Rightarrow> int \<Rightarrow> int \<Rightarrow> Malgo \<Rightarrow> malgo_error option \<times> Malgo" where
  "malgo_start calls sampleRate channels bitDepth m =
     (case call_Devices calls of
        Inl e \<Rightarrow> (Some (MalgoError e), m)
      | Inr catalog \<Rightarrow>
          (case matchDevice catalog (m_deviceName m) of
             Inl e \<Rightarrow> (Some e, m)
           | Inr chosen \<Rightarrow>
               (case call_InitDevice calls of
                  Some e \<Rightarrow> (Some (MalgoError e), m)
                | None \<Rightarrow>
                    (case call_Start calls of
                       Some e \<Rightarrow> (Some (MalgoError e), m)
                     | None \<Rightarrow>
                         (None, m\<lparr>m_device := True, m_sampleRate := sampleRate,
                                  m_channels := channels, m_bitDepth := bitDepth,
                                  m_ready := True\<rparr>)))))"

text \<open>A negative ring capacity makes \<open>make\<close> panic.\<close>

definition malgo_Open ::
  "malgo_calls \<Rightarrow> int \<Rightarrow> int \<Rightarrow> int \<Rightarrow> Malgo \<Rightarrow> malgo_error option \<times> Malgo" where
  "malgo_Open calls sampleRate channels bitDepth m0 =
     (if m_device m0 \<and> m_sampleRate m0 = sampleRate \<and> m_channels m0 = channels
         \<and> m_bitDepth m0 = bitDepth
      then (None, m0)
      else
        let m = closeDevice m0
        in case (if m_context m then None else call_InitContext calls) of
             Some e \<Rightarrow> (Some (MalgoError e), m)
           | None \<Rightarrow>
               (let m = m\<lparr>m_context := True\<rparr>
                in if bitDepth \<noteq> 16 \<and> bitDepth \<noteq> 24 \<and> bitDepth \<noteq> 32
                   then (Some (BadBitDepth bitDepth), m)
                   else if ring_capacity sampleRate channels < 0 then (Some NegativeLength, m)
                   else malgo_start calls sampleRate channels bitDepth
                     (m\<lparr>m_ringBuffer :=
                          Some (NewRingBuffer (nat (ring_capacity sampleRate channels)))\<rparr>)))"

definition malgo_SetVolume :: "int \<Rightarrow> Malgo \<Rightarrow> Malgo" where
  "malgo_SetVolume volume m =
     (let volume = (if volume < 0 then 0 else volume);
          volume = (if 100 < volume then 100 else volume)
      in m\<lparr>m_volume := volume\<rparr>)"

definition malgo_SetMuted :: "bool \<Rightarrow> Malgo \<Rightarrow> Malgo" where
  "malgo_SetMuted muted m = m\<lparr>m_muted := muted\<rparr>"

text \<open>The device is open exactly when the output is ready, and then the ring has 80 ms.\<close>

definition malgo_inv :: "Malgo \<Rightarrow> bool" where
  "malgo_inv m \<longleftrightarrow>
     (m_ready m \<longleftrightarrow> m_device m) \<and>
     (m_device m \<longrightarrow> m_context m \<and> m_bitDepth m \<in> {16, 24, 32} \<and>
        (\<exists>rb. m_ringBuffer m = Some rb \<and> rb_wf rb \<and>
              rb_size rb = nat (ring_capacity (m_sampleRate m) (m_channels m)))) \<and>
     0 \<le> m_volume m \<and> m_volume m \<le> 100"

lemma NewMalgo_inv [wf_intros]: "malgo_inv (NewMalgo name)"
  by (simp add: malgo_inv_def NewMalgo_def)

lemma closeDevice_fields [simp]:
  "m_context (closeDevice m) = m_context m" "\<not> m_device (closeDevice m)"
  "m_volume (closeDevice m) = m_volume m" "m_muted (closeDevice m) = m_muted m"
  "m_deviceName (closeDevice m) = m_deviceName m"
  by (simp_all add: closeDevice_def)

lemma closeDevice_ready: "malgo_inv m \<Longrightarrow> \<not> m_ready (closeDevice m)"
  by (simp add: closeDevice_def malgo_inv_def)

lemma malgo_Close_inv [wf_intros]: "malgo_inv m \<Longrightarrow> malgo_inv (malgo_Close m)"
  using closeDevice_ready by (simp add: malgo_Close_def malgo_inv_def)

lemma malgo_SetVolume_inv [wf_intros]: "malgo_inv m \<Longrightarrow> malgo_inv (malgo_SetVolume v m)"
  by (simp add: malgo_SetVolume_def malgo_inv_def Let_def)

lemma malgo_SetMuted_inv [wf_intros]: "malgo_inv m \<Longrightarrow> malgo_inv (malgo_SetMuted b m)"
  by (simp add: malgo_SetMuted_def malgo_inv_def)

lemma malgo_start_inv:
  assumes "malgo_start calls rate ch depth m = (err, m')" "m_context m" "\<not> m_device m" "\<not> m_ready m"
    and "m_ringBuffer m = Some (NewRingBuffer (nat (ring_capacity rate ch)))"
    and "depth \<in> {16, 24, 32}" "0 \<le> m_volume m" "m_volume m \<le> 100"
  shows "malgo_inv m' \<and> (m_ready m' \<longleftrightarrow> err = None) \<and>
    (err = None \<longrightarrow> m_sampleRate m' = rate \<and> m_channels m' = ch \<and> m_bitDepth m' = depth)"
proof -
  have rb: "rb_size (NewRingBuffer n) = n" for n by (simp add: NewRingBuffer_def)
  consider "err \<noteq> None" "m' = m"
    | "err = None" "m' = m\<lparr>m_device := True, m_sampleRate := rate, m_channels := ch,
                          m_bitDepth := depth, m_ready := True\<rparr>"
    using assms(1) by (auto simp: malgo_start_def split: sum.splits option.splits)
  then show ?thesis
    using assms(2-) by cases (auto simp: malgo_inv_def rb)
qed

lemma malgo_start_volume:
  "malgo_start calls rate ch depth m = (err, m') \<Longrightarrow>
   m_volume m' = m_volume m \<and> m_muted m' = m_muted m"
  by (auto simp: malgo_start_def split: sum.splits option.splits)

lemma malgo_Open_volume:
  "malgo_Open calls rate ch depth m = (err, m') \<Longrightarrow>
   m_volume m' = m_volume m \<and> m_muted m' = m_muted m"
  by (auto simp: malgo_Open_def Let_def dest: malgo_start_volume split: if_splits option.splits)

lemma malgo_Open_inv [wf_intros]:
  assumes "malgo_inv m" "malgo_Open calls rate ch depth m = (err, m')"
  shows "malgo_inv m' \<and> (m_ready m' \<longleftrightarrow> err = None) \<and>
    (err = None \<longrightarrow> m_sampleRate m' = rate \<and> m_channels m' = ch \<and> m_bitDepth m' = depth)"
proof (cases "m_device m \<and> m_sampleRate m = rate \<and> m_channels m = ch \<and> m_bitDepth m = depth")
  case True
  then have "err = None" "m' = m" using assms(2) by (simp_all add: malgo_Open_def)
  with True assms(1) show ?thesis by (simp add: malgo_inv_def)
next
  case False
  have closed: "\<not> m_ready (closeDevice m)" by (rule closeDevice_ready [OF assms(1)])
  have vol: "0 \<le> m_volume m" "m_volume m \<le> 100" using assms(1) by (simp_all add: malgo_inv_def)
  let ?m = "(closeDevice m)\<lparr>m_context := True,
      m_ringBuffer := Some (NewRingBuffer (nat (ring_capacity rate ch)))\<rparr>"
  consider "err \<noteq> None" "m' = closeDevice m \<or> m' = (closeDevice m)\<lparr>m_context := True\<rparr>"
    | "malgo_start calls rate ch depth ?m = (err, m')" "depth \<in> {16, 24, 32}"
    using assms(2) False by (auto simp: malgo_Open_def Let_def split: if_splits option.splits)
  then show ?thesis
  proof cases
    case 1
    with closed vol show ?thesis by (auto simp: malgo_inv_def)
  next
    case 2
    show ?thesis
      by (rule malgo_start_inv [OF 2(1)]) (use closed vol 2(2) in simp_all)
  qed
qed

section \<open>Writing\<close>

text \<open>
  The environment of one pass of the loop of \<open>Write\<close>: the time that passed since the loop last
  read the clock (besides its own sleep), and the sizes of the slices that the audio callback
  reads before the next pass. A write may take any number of passes; with fewer given it is
  still waiting.
\<close>

record pass =
  pass_elapsed :: duration
  pass_reads :: "nat list"

datatype write_result = WriteDone | WriteStalled nat | WriteWaiting

definition callback_reads :: "nat list \<Rightarrow> RingBuffer \<Rightarrow> RingBuffer" where
  "callback_reads ns rb = fold (\<lambda>n rb. snd (snd (rb_Read n rb))) ns rb"

definition retryInterval :: duration where "retryInterval = 1 * millisecond"
definition maxStallTime :: duration where "maxStallTime = 50 * millisecond"

text \<open>\<open>remaining\<close> is the part of the buffer that has not been written yet.\<close>

fun malgo_write_loop ::
  "pass list \<Rightarrow> instant \<Rightarrow> instant \<Rightarrow> sample list \<Rightarrow> RingBuffer \<Rightarrow>
   write_result \<times> sample list \<times> RingBuffer" where
  "malgo_write_loop passes now lastProgress [] rb = (WriteDone, [], rb)"
| "malgo_write_loop [] now lastProgress (s # remaining) rb = (WriteWaiting, s # remaining, rb)"
| "malgo_write_loop (p # passes) now lastProgress (s # remaining) rb =
     (let now = now + pass_elapsed p
      in case rb_Write (s # remaining) rb of
           (n, rb1) \<Rightarrow>
             if 0 < n
             then malgo_write_loop passes now now (drop n (s # remaining))
                    (callback_reads (pass_reads p) rb1)
             else if maxStallTime < time_sub now lastProgress
             then (WriteStalled (length (s # remaining)), s # remaining, rb1)
             else malgo_write_loop passes (now + retryInterval) lastProgress (s # remaining)
                    (callback_reads (pass_reads p) rb1))"

definition malgo_Write ::
  "(f64 \<Rightarrow> f64 \<Rightarrow> f64) \<Rightarrow> pass list \<Rightarrow> instant \<Rightarrow> sample list \<Rightarrow> Malgo \<Rightarrow>
   (malgo_error option \<times> Malgo) option" where
  "malgo_Write pow passes start samples m =
     (if \<not> m_ready m then Some (Some NotInitialized, m)
      else
        let volumed = applyVolume pow samples (m_volume m) (m_muted m)
        in case m_ringBuffer m of
             None \<Rightarrow> None
           | Some rb \<Rightarrow>
               (case malgo_write_loop passes start start volumed rb of
                  (WriteDone, _, rb') \<Rightarrow> Some (None, m\<lparr>m_ringBuffer := Some rb'\<rparr>)
                | (WriteStalled dropped, _, rb') \<Rightarrow>
                    Some (Some (RingStalled dropped (length volumed)), m\<lparr>m_ringBuffer := Some rb'\<rparr>)
                | (WriteWaiting, _, _) \<Rightarrow> None))"

definition dataCallback :: "byte list \<Rightarrow> nat \<Rightarrow> Malgo \<Rightarrow> (byte list \<times> Malgo) option" where
  "dataCallback output frameCount m =
     (case m_ringBuffer m of
        None \<Rightarrow> None
      | Some rb \<Rightarrow>
          (case rb_Read (frameCount * nat (m_channels m)) rb of
             (k, samples, rb') \<Rightarrow>
               map_option (\<lambda>out. (out, m\<lparr>m_ringBuffer := Some rb'\<rparr>))
                 (if m_bitDepth m = 16 then write16Bit output samples
                  else if m_bitDepth m = 24 then write24Bit output samples
                  else if m_bitDepth m = 32 then write32Bit output samples
                  else Some output)))"

lemma callback_reads_items:
  "rb_wf rb \<Longrightarrow> \<exists>d. rb_items rb = d @ rb_items (callback_reads ns rb) \<and>
     rb_wf (callback_reads ns rb) \<and> rb_size (callback_reads ns rb) = rb_size rb"
proof (induction ns arbitrary: rb)
  case Nil
  then show ?case by (simp add: callback_reads_def)
next
  case (Cons n ns)
  obtain k out rb1 where r: "rb_Read n rb = (k, out, rb1)" by (metis prod_cases3)
  note items = rb_Read_items [OF Cons.prems r]
  with Cons.IH [of rb1] obtain d where
    "rb_items rb1 = d @ rb_items (callback_reads ns rb1)" "rb_wf (callback_reads ns rb1)"
    "rb_size (callback_reads ns rb1) = rb_size rb" by auto
  moreover have "callback_reads (n # ns) rb = callback_reads ns rb1"
    by (simp add: callback_reads_def r)
  ultimately show ?case
    using items by (intro exI [of _ "take n (rb_items rb) @ d"]) (metis append.assoc append_take_drop_id)
qed

text \<open>What the loop has written is a prefix of the buffer, and it reaches the ring in order.\<close>

lemma malgo_write_loop_stream:
  assumes "malgo_write_loop passes now lastp xs rb = (res, rest, rb')" "rb_wf rb"
  shows "\<exists>k d. rest = drop k xs \<and> k \<le> length xs \<and> rb_items rb @ take k xs = d @ rb_items rb' \<and>
     rb_wf rb' \<and> rb_size rb' = rb_size rb \<and> (res = WriteDone \<longleftrightarrow> rest = []) \<and>
     (\<forall>n. res = WriteStalled n \<longrightarrow> n = length rest)"
  using assms
proof (induction passes now lastp xs rb arbitrary: res rest rb' rule: malgo_write_loop.induct)
  case (1 passes now lastp rb)
  then show ?case by (intro exI [of _ 0] exI [of _ "[]"]) simp
next
  case (2 now lastp s xs rb)
  then show ?case by (intro exI [of _ 0] exI [of _ "[]"]) auto
next
  case (3 p passes now lastp s xs rb)
  let ?xs = "s # xs" and ?now = "now + pass_elapsed p"
  obtain n rb1 where w: "rb_Write ?xs rb = (n, rb1)" by fastforce
  note wi = rb_Write_items [OF 3(4) w]
  then have wf1: "rb_wf rb1" by simp
  let ?rb2 = "callback_reads (pass_reads p) rb1"
  obtain d1 where c: "rb_items rb1 = d1 @ rb_items ?rb2" "rb_wf ?rb2" "rb_size ?rb2 = rb_size rb1"
    using callback_reads_items [OF wf1] by blast
  show ?case
  proof (cases "0 < n")
    case True
    with 3(3) w have run: "malgo_write_loop passes ?now ?now (drop n ?xs) ?rb2 = (res, rest, rb')"
      by (simp add: Let_def)
    from 3(1) [OF refl w [symmetric] True this c(2)] obtain k d where
      ih: "rest = drop k (drop n ?xs)" "k \<le> length (drop n ?xs)"
        "rb_items ?rb2 @ take k (drop n ?xs) = d @ rb_items rb'" "rb_wf rb'"
        "rb_size rb' = rb_size ?rb2" "res = WriteDone \<longleftrightarrow> rest = []"
        "\<forall>n. res = WriteStalled n \<longrightarrow> n = length rest"
      by blast
    have n: "n \<le> length ?xs" using wi by simp
    have "rb_items rb @ take (n + k) ?xs = rb_items rb1 @ take k (drop n ?xs)"
      using wi by (simp add: take_add)
    also have "\<dots> = (d1 @ d) @ rb_items rb'"
      using ih(3) by (simp add: c(1))
    finally show ?thesis
      using ih wi c(3) n
      by (intro exI [of _ "n + k"] exI [of _ "d1 @ d"]) (auto simp: add.commute)
  next
    case False
    then have n0: "n = 0" by simp
    show ?thesis
    proof (cases "maxStallTime < time_sub ?now lastp")
      case True
      with 3(3) w n0 have "res = WriteStalled (length ?xs)" "rest = ?xs" "rb' = rb1"
        by (auto simp: Let_def)
      with wi n0 show ?thesis by (intro exI [of _ 0] exI [of _ "[]"]) auto
    next
      case stall: False
      with 3(3) w n0 have run:
        "malgo_write_loop passes (?now + retryInterval) lastp ?xs ?rb2 = (res, rest, rb')"
        by (simp add: Let_def)
      from 3(2) [OF refl w [symmetric] False stall this c(2)] obtain k d where
        "rest = drop k ?xs" "k \<le> length ?xs" "rb_items ?rb2 @ take k ?xs = d @ rb_items rb'"
        "rb_wf rb'" "rb_size rb' = rb_size ?rb2" "res = WriteDone \<longleftrightarrow> rest = []"
        "\<forall>n. res = WriteStalled n \<longrightarrow> n = length rest" by blast
      with c wi n0 show ?thesis
        by (intro exI [of _ k] exI [of _ "d1 @ d"]) simp
    qed
  qed
qed

text \<open>
  The loop ends: a pass either writes a sample or lets a millisecond go by, and after fifty of
  them without progress the write gives up.
\<close>

lemma malgo_write_loop_returns:
  assumes "list_all (\<lambda>p. 0 \<le> pass_elapsed p) passes"
    and "lastp + int j * millisecond \<le> now" "j \<le> 51"
    and "52 * length xs + 52 \<le> length passes + j"
  shows "fst (malgo_write_loop passes now lastp xs rb) \<noteq> WriteWaiting"
  using assms
proof (induction passes now lastp xs rb arbitrary: j rule: malgo_write_loop.induct)
  case (3 p passes now lastp s xs rb)
  let ?xs = "s # xs" and ?now = "now + pass_elapsed p"
  obtain n rb1 where w: "rb_Write ?xs rb = (n, rb1)" by fastforce
  have p: "0 \<le> pass_elapsed p" "list_all (\<lambda>p. 0 \<le> pass_elapsed p) passes"
    using "3.prems"(1) by simp_all
  show ?case
  proof (cases "0 < n")
    case True
    have "52 * length (drop n ?xs) + 52 \<le> length passes + 0"
      using True "3.prems"(3,4) by (cases n) auto
    from "3.IH"(1) [OF refl w [symmetric] True p(2) _ _ this] w True
    show ?thesis by (simp add: Let_def)
  next
    case False
    show ?thesis
    proof (cases "maxStallTime < time_sub ?now lastp")
      case True
      with w False show ?thesis by (simp add: Let_def)
    next
      case stall: False
      then have "\<not> 50 * millisecond < ?now - lastp"
        by (simp add: maxStallTime_def is_int64_def)
      with "3.prems"(2) p(1) have j: "Suc j \<le> 51" by simp
      have le: "lastp + int (Suc j) * millisecond \<le> ?now + retryInterval"
        using "3.prems"(2) p(1) by (simp add: retryInterval_def)
      have len: "52 * length ?xs + 52 \<le> length passes + Suc j"
        using "3.prems"(4) by simp
      from "3.IH"(2) [OF refl w [symmetric] False stall p(2) le j len] w False stall
      show ?thesis by (simp add: Let_def)
    qed
  qed
qed simp_all

text \<open>
  C20. A write to an open output returns, whatever the audio callback does in the meantime, once
  it has had enough passes: either every sample of the volume-scaled buffer has entered the ring
  in order, or the callback has stalled and the error counts exactly the samples that have not.
\<close>

theorem malgo_Write_returns:
  assumes "malgo_inv m" "m_ready m" "list_all (\<lambda>p. 0 \<le> pass_elapsed p) passes"
    and "52 * length samples + 52 \<le> length passes"
  shows "\<exists>err m' rb rb' k d. malgo_Write pow passes start samples m = Some (err, m') \<and> malgo_inv m' \<and>
     m_ringBuffer m = Some rb \<and> m_ringBuffer m' = Some rb' \<and>
     rb_items rb @ take k (applyVolume pow samples (m_volume m) (m_muted m)) = d @ rb_items rb' \<and>
     (err = None \<and> k = length samples \<or>
      k < length samples \<and> err = Some (RingStalled (length samples - k) (length samples)))"
proof -
  obtain rb where rb: "m_ringBuffer m = Some rb" "rb_wf rb"
    using assms(1,2) by (auto simp: malgo_inv_def)
  let ?xs = "applyVolume pow samples (m_volume m) (m_muted m)"
  obtain res rest rb' where run: "malgo_write_loop passes start start ?xs rb = (res, rest, rb')"
    by (metis prod_cases3)
  obtain k d where s: "rest = drop k ?xs" "k \<le> length ?xs" "rb_items rb @ take k ?xs = d @ rb_items rb'"
    "rb_wf rb'" "rb_size rb' = rb_size rb" "res = WriteDone \<longleftrightarrow> rest = []"
    "\<forall>n. res = WriteStalled n \<longrightarrow> n = length rest"
    using malgo_write_loop_stream [OF run rb(2)] by blast
  have "res \<noteq> WriteWaiting"
    using malgo_write_loop_returns [OF assms(3), of start 0 start ?xs rb] assms(4) run by simp
  then consider "res = WriteDone" | "res = WriteStalled (length rest)"
    using s(7) by (cases res) auto
  moreover have "malgo_inv (m\<lparr>m_ringBuffer := Some rb'\<rparr>)"
    using assms(1) rb s(4,5) by (auto simp: malgo_inv_def)
  ultimately show ?thesis
  proof cases
    case 1
    then have "k = length samples" using s by simp
    with 1 run rb s(3) assms(2) \<open>malgo_inv (m\<lparr>m_ringBuffer := Some rb'\<rparr>)\<close> show ?thesis
      by (intro exI [of _ None] exI [of _ "m\<lparr>m_ringBuffer := Some rb'\<rparr>"] exI [of _ rb]
          exI [of _ rb'] exI [of _ k] exI [of _ d]) (simp add: malgo_Write_def Let_def)
  next
    case 2
    then have "k < length samples" using s(1,2,6) by (cases "k = length samples") auto
    with 2 run rb s(1,3) assms(2) \<open>malgo_inv (m\<lparr>m_ringBuffer := Some rb'\<rparr>)\<close> show ?thesis
      by (intro exI [of _ "Some (RingStalled (length samples - k) (length samples))"]
          exI [of _ "m\<lparr>m_ringBuffer := Some rb'\<rparr>"] exI [of _ rb]
          exI [of _ rb'] exI [of _ k] exI [of _ d]) (simp add: malgo_Write_def Let_def)
  qed
qed

definition open_output_example :: Malgo where
  "open_output_example =
     (NewMalgo [])\<lparr>m_context := True, m_device := True, m_sampleRate := 1000, m_channels := 1,
        m_bitDepth := 16, m_ready := True, m_muted := True,
        m_ringBuffer := Some (NewRingBuffer (nat (ring_capacity 1000 1)))\<rparr>"

theorem malgo_Write_returns_witness:
  "\<exists>err m' rb rb' k d. malgo_Write (\<lambda>x y. x) (replicate 200 \<lparr>pass_elapsed = 0, pass_reads = [1]\<rparr>) 0 [5, 6]
       open_output_example = Some (err, m') \<and> malgo_inv m' \<and>
     m_ringBuffer open_output_example = Some rb \<and> m_ringBuffer m' = Some rb' \<and>
     rb_items rb @ take k (applyVolume (\<lambda>x y. x) [5, 6] (m_volume open_output_example)
        (m_muted open_output_example)) = d @ rb_items rb' \<and>
     (err = None \<and> k = length [5, 6 :: sample] \<or>
      k < length [5, 6 :: sample] \<and> err = Some (RingStalled (length [5, 6 :: sample] - k) (length [5, 6 :: sample])))"
proof (rule malgo_Write_returns)
  have "rb_size (NewRingBuffer n) = n" for n by (simp add: NewRingBuffer_def)
  then show "malgo_inv open_output_example"
    by (simp add: malgo_inv_def open_output_example_def NewMalgo_def)
qed (simp_all add: open_output_example_def NewMalgo_def list_all_length)

section \<open>The contract of an output\<close>

text \<open>
  What the player relies on: setting the volume (clamped to 0..100) or the mute flag takes
  effect and nothing else changes them; opening and closing do not.
\<close>

definition clamp_volume :: "int \<Rightarrow> int" where
  "clamp_volume v = max 0 (min 100 v)"

datatype 'e output_op =
    OutOpen 'e int int int
  | OutClose
  | OutSetVolume int
  | OutSetMuted bool

locale audio_output =
  fixes out_open :: "'e \<Rightarrow> int \<Rightarrow> int \<Rightarrow> int \<Rightarrow> 'o \<Rightarrow> 'err option \<times> 'o"
    and out_close :: "'o \<Rightarrow> 'o"
    and out_set_volume :: "int \<Rightarrow> 'o \<Rightarrow> 'o"
    and out_set_muted :: "bool \<Rightarrow> 'o \<Rightarrow> 'o"
    and out_gain :: "'o \<Rightarrow> int \<times> bool"
    and out_inv :: "'o \<Rightarrow> bool"
    and out_ready :: "'o \<Rightarrow> bool"
  assumes open_gain: "out_gain (snd (out_open e r c b out)) = out_gain out"
    and close_gain: "out_gain (out_close out) = out_gain out"
    and set_volume_gain: "out_gain (out_set_volume v out) = (clamp_volume v, snd (out_gain out))"
    and set_muted_gain: "out_gain (out_set_muted m out) = (fst (out_gain out), m)"
    and open_inv: "out_inv out \<Longrightarrow> out_inv (snd (out_open e r c b out))"
    and open_ready: "out_inv out \<Longrightarrow>
          out_ready (snd (out_open e r c b out)) \<longleftrightarrow> fst (out_open e r c b out) = None"
    and close_inv: "out_inv out \<Longrightarrow> out_inv (out_close out) \<and> \<not> out_ready (out_close out)"
    and set_inv: "out_inv out \<Longrightarrow> out_inv (out_set_volume v out) \<and> out_inv (out_set_muted m out)"
    and set_ready: "out_ready (out_set_volume v out) = out_ready out"
      "out_ready (out_set_muted m out) = out_ready out"
begin

primrec out_step :: "'e output_op \<Rightarrow> 'o \<Rightarrow> 'o" where
  "out_step (OutOpen e r c b) out = snd (out_open e r c b out)"
| "out_step OutClose out = out_close out"
| "out_step (OutSetVolume v) out = out_set_volume v out"
| "out_step (OutSetMuted m) out = out_set_muted m out"

primrec gain_step :: "'e output_op \<Rightarrow> int \<times> bool \<Rightarrow> int \<times> bool" where
  "gain_step (OutOpen e r c b) g = g"
| "gain_step OutClose g = g"
| "gain_step (OutSetVolume v) g = (clamp_volume v, snd g)"
| "gain_step (OutSetMuted m) g = (fst g, m)"

lemma gain_run: "out_gain (fold out_step ops out) = fold gain_step ops (out_gain out)"
proof (induction ops arbitrary: out)
  case (Cons op ops)
  then show ?case
    by (cases op) (simp_all add: open_gain close_gain set_volume_gain set_muted_gain)
qed simp

lemma inv_run: "out_inv out \<Longrightarrow> out_inv (fold out_step ops out)"
proof (induction ops arbitrary: out)
  case (Cons op ops)
  then show ?case
    by (cases op) (simp_all add: open_inv close_inv set_inv)
qed simp

end

interpretation malgo: audio_output malgo_Open malgo_Close malgo_SetVolume malgo_SetMuted
  "\<lambda>m. (m_volume m, m_muted m)" malgo_inv m_ready
proof unfold_locales
  fix e r c b and out :: Malgo
  obtain err m' where o: "malgo_Open e r c b out = (err, m')" by fastforce
  show "(m_volume (snd (malgo_Open e r c b out)), m_muted (snd (malgo_Open e r c b out)))
      = (m_volume out, m_muted out)"
    using malgo_Open_volume [OF o] by (simp add: o)
  assume "malgo_inv out"
  from malgo_Open_inv [OF this o]
  show "malgo_inv (snd (malgo_Open e r c b out))"
    "m_ready (snd (malgo_Open e r c b out)) \<longleftrightarrow> fst (malgo_Open e r c b out) = None"
    by (simp_all add: o)
next
  fix out :: Malgo assume "malgo_inv out"
  then show "malgo_inv (malgo_Close out) \<and> \<not> m_ready (malgo_Close out)"
    using malgo_Close_inv closeDevice_ready by (simp add: malgo_Close_def)
qed (auto simp: malgo_Close_def malgo_SetVolume_def malgo_SetMuted_def clamp_volume_def Let_def
       malgo_inv_def)

text \<open>
  Opening an output succeeds exactly when it is ready afterwards, and then the device runs
  in the format that was asked for with a ring of 80 ms; a failed open leaves it closed. Volume
  and mute survive every life-cycle operation.
\<close>

theorem malgo_Open_correct:
  assumes "malgo_inv m" "malgo_Open calls rate ch depth m = (err, m')"
  shows "malgo_inv m' \<and> (m_ready m' \<longleftrightarrow> err = None) \<and>
    (err = None \<longrightarrow> m_sampleRate m' = rate \<and> m_channels m' = ch \<and> m_bitDepth m' = depth) \<and>
    (m_volume m', m_muted m') = (m_volume m, m_muted m)"
  using malgo_Open_inv [OF assms] malgo.open_gain [of calls rate ch depth m] assms(2) by simp

definition no_backend :: malgo_calls where
  "no_backend = \<lparr>call_InitContext = Some ''no backend'', call_Devices = Inr [],
                 call_InitDevice = None, call_Start = None\<rparr>"

theorem malgo_Open_correct_witness:
  "malgo_Open no_backend 48000 2 24 (NewMalgo ''x'') = (Some (MalgoError ''no backend''), NewMalgo ''x'') \<and>
   malgo_inv (NewMalgo ''x'') \<and> \<not> m_ready (NewMalgo ''x'')"
proof -
  have run: "malgo_Open no_backend 48000 2 24 (NewMalgo ''x'')
      = (Some (MalgoError ''no backend''), NewMalgo ''x'')"
    by (simp add: malgo_Open_def closeDevice_def NewMalgo_def no_backend_def)
  with malgo_Open_correct [OF NewMalgo_inv run] show ?thesis by simp
qed

end
