(* ===== verification/Player_Model.thy ===== *)
theory Player_Model
  imports Receiver_Model Audio_Output
begin

text \<open>
  The player of \<open>pkg/sendspin/player.go\<close>: a receiver and an audio output under one state, and the
  reconnect loop with its back-off. The output is used through its interface (\<open>output_ops\<close>, the
  operations of \<open>output.Output\<close>); the laws it has to obey are the locale \<open>audio_output\<close>, which the
  miniaudio output satisfies. Each function is one call, from its first critical section to its last.
\<close>

section \<open>Configuration and state\<close>

record ReconnectConfig =
  rn_Enabled :: bool
  rn_InitialDelay :: duration
  rn_MaxDelay :: duration
  rn_Multiplier :: f64
  rn_MaxAttempts :: int

record 'd PlayerConfig =
  pf_ServerAddr :: string
  pf_PlayerName :: string
  pf_Volume :: int
  pf_BufferMs :: int
  pf_StaticDelayMs :: int
  pf_PreferredCodec :: string
  pf_BufferCapacity :: int
  pf_ClientID :: string
  pf_AudioDevice :: string
  pf_MaxSampleRate :: int
  pf_MaxBitDepth :: int
  pf_DeviceInfo :: DeviceInfo
  pf_CustomOutput :: bool
  pf_DecoderFactory :: "(Format \<Rightarrow> codec_error + 'd) option"
  pf_Reconnect :: ReconnectConfig

record player_state =
  ps_State :: string
  ps_Volume :: int
  ps_Muted :: bool
  ps_Codec :: string
  ps_SampleRate :: int
  ps_Channels :: int
  ps_BitDepth :: int
  ps_Connected :: bool

text \<open>\<open>pl_states\<close>: the states that \<open>OnStateChange\<close> was called with.\<close>

record ('d, 'o) Player =
  pl_config :: "'d PlayerConfig"
  pl_receiver :: "'d Receiver option"
  pl_output :: "'o option"
  pl_state :: player_state
  pl_cancelled :: bool
  pl_capsResolved :: bool
  pl_states :: "player_state list"

record ('e, 'err, 'o) output_ops =
  op_New :: "string \<Rightarrow> 'o"
  op_Open :: "'e \<Rightarrow> int \<Rightarrow> int \<Rightarrow> int \<Rightarrow> 'o \<Rightarrow> 'err option \<times> 'o"
  op_Close :: "'o \<Rightarrow> 'o"
  op_SetVolume :: "int \<Rightarrow> 'o \<Rightarrow> 'o"
  op_SetMuted :: "bool \<Rightarrow> 'o \<Rightarrow> 'o"

definition default_reconnect :: "ReconnectConfig \<Rightarrow> ReconnectConfig" where
  "default_reconnect c =
     (if rn_Enabled c
      then c\<lparr>rn_InitialDelay := (if rn_InitialDelay c \<le> 0 then 500 * millisecond else rn_InitialDelay c),
             rn_MaxDelay := (if rn_MaxDelay c \<le> 0 then 30 * second else rn_MaxDelay c),
             rn_Multiplier := (if f64_less (rn_Multiplier c) (Fin 1) \<or> rn_Multiplier c = Fin 1
                               then Fin 2 else rn_Multiplier c)\<rparr>
      else c)"

definition NewPlayer :: "'o option \<Rightarrow> 'd PlayerConfig \<Rightarrow> ('d, 'o) Player" where
  "NewPlayer out cfg =
     (let cfg = cfg\<lparr>pf_Volume := (if pf_Volume cfg = 0 then 100 else pf_Volume cfg),
                    pf_BufferMs := (if pf_BufferMs cfg = 0 then 500 else pf_BufferMs cfg),
                    pf_CustomOutput := (out \<noteq> None),
                    pf_Reconnect := default_reconnect (pf_Reconnect cfg)\<rparr>
      in \<lparr>pl_config = cfg, pl_receiver = None, pl_output = out,
          pl_state = \<lparr>ps_State = ''idle'', ps_Volume = pf_Volume cfg, ps_Muted = False, ps_Codec = [],
                      ps_SampleRate = 0, ps_Channels = 0, ps_BitDepth = 0, ps_Connected = False\<rparr>,
          pl_cancelled = False, pl_capsResolved = False, pl_states = []\<rparr>)"

definition notifyStateChange :: "('d, 'o) Player \<Rightarrow> ('d, 'o) Player" where
  "notifyStateChange p = p\<lparr>pl_states := pl_states p @ [pl_state p]\<rparr>"

section \<open>Connecting\<close>

text \<open>\<open>probe\<close> is the result of \<open>QueryDeviceCapabilities\<close> on the configured device.\<close>

definition ensureCapsResolved :: "malgo_error + int \<times> int \<Rightarrow> ('d, 'o) Player \<Rightarrow> ('d, 'o) Player" where
  "ensureCapsResolved probe p =
     (if pl_capsResolved p then p
      else
        let p = p\<lparr>pl_capsResolved := True\<rparr>; cfg = pl_config p
        in if pf_MaxSampleRate cfg \<noteq> 0 \<or> pf_MaxBitDepth cfg \<noteq> 0 then p
           else if pf_CustomOutput cfg then p
           else case probe of
             Inl e \<Rightarrow> p
           | Inr (rate, depth) \<Rightarrow>
               if rate = 0 \<and> depth = 0 then p
               else p\<lparr>pl_config := cfg\<lparr>pf_MaxSampleRate := rate, pf_MaxBitDepth := depth\<rparr>\<rparr>)"

definition receiver_config :: "string \<Rightarrow> 'd PlayerConfig \<Rightarrow> 'd ReceiverConfig" where
  "receiver_config addr cfg =
     \<lparr>rc_ServerAddr = addr, rc_PlayerName = pf_PlayerName cfg, rc_BufferMs = pf_BufferMs cfg,
      rc_StaticDelayMs = pf_StaticDelayMs cfg, rc_PreferredCodec = pf_PreferredCodec cfg,
      rc_BufferCapacity = pf_BufferCapacity cfg, rc_MaxSampleRate = pf_MaxSampleRate cfg,
      rc_MaxBitDepth = pf_MaxBitDepth cfg, rc_ClientID = pf_ClientID cfg,
      rc_DeviceInfo = pf_DeviceInfo cfg, rc_DecoderFactory = pf_DecoderFactory cfg\<rparr>"

definition buildReceiver ::
  "malgo_error + int \<times> int \<Rightarrow> string \<Rightarrow> ('d, 'o) Player \<Rightarrow>
   (connect_error + 'd Receiver) \<times> ('d, 'o) Player" where
  "buildReceiver probe addr p =
     (let p = ensureCapsResolved probe p
      in (case NewReceiver (receiver_config addr (pl_config p)) of
            None \<Rightarrow> Inl NoServerAddr | Some r \<Rightarrow> Inr r, p))"

definition connected_to :: "'d Receiver \<Rightarrow> ('d, 'o) Player \<Rightarrow> ('d, 'o) Player" where
  "connected_to r p =
     notifyStateChange (p\<lparr>pl_receiver := Some r, pl_state := (pl_state p)\<lparr>ps_Connected := True\<rparr>\<rparr>)"

definition player_Connect ::
  "malgo_error + int \<times> int \<Rightarrow> connect_io \<Rightarrow> ('d, 'o) Player \<Rightarrow> connect_error option \<times> ('d, 'o) Player" where
  "player_Connect probe io p =
     (case buildReceiver probe (pf_ServerAddr (pl_config p)) p of
        (Inl e, p) \<Rightarrow> (Some e, p)
      | (Inr r, p) \<Rightarrow>
          (case receiver_Connect io r of
             (Some e, r) \<Rightarrow> (Some e, p)
           | (None, r) \<Rightarrow> (None, connected_to r p)))"

section \<open>State sent to the server\<close>

datatype player_error = PlayerNotConnected | SendError client_error

text \<open>Sends on the client of the current receiver; \<open>w\<close> is the outcome of the write.\<close>

definition on_client ::
  "(Client \<Rightarrow> client_error option \<times> Client) \<Rightarrow> ('d, 'o) Player \<Rightarrow>
   client_error option \<times> ('d, 'o) Player" where
  "on_client send p =
     (case pl_receiver p of
        None \<Rightarrow> (None, p)
      | Some r \<Rightarrow>
          (case rv_client r of
             None \<Rightarrow> (None, p)
           | Some c \<Rightarrow>
               (case send c of
                  (e, c) \<Rightarrow> (e, p\<lparr>pl_receiver := Some (r\<lparr>rv_client := Some c\<rparr>)\<rparr>))))"

definition has_client :: "('d, 'o) Player \<Rightarrow> bool" where
  "has_client p \<longleftrightarrow> (case pl_receiver p of None \<Rightarrow> False | Some r \<Rightarrow> rv_client r \<noteq> None)"

definition sendState :: "string option \<Rightarrow> ('d, 'o) Player \<Rightarrow> client_error option \<times> ('d, 'o) Player" where
  "sendState w p =
     on_client (SendState w \<lparr>pst_State = ''synchronized'', pst_Volume = ps_Volume (pl_state p),
                             pst_Muted = ps_Muted (pl_state p)\<rparr>) p"

definition checked :: "client_error option \<times> 'p \<Rightarrow> player_error option \<times> 'p" where
  "checked r = (case r of (e, p) \<Rightarrow> (map_option SendError e, p))"

text \<open>\<open>Play\<close>, \<open>Pause\<close> and \<open>Stop\<close> differ in the state that they set.\<close>

definition set_play_state ::
  "string \<Rightarrow> string option \<Rightarrow> ('d, 'o) Player \<Rightarrow> player_error option \<times> ('d, 'o) Player" where
  "set_play_state st w p =
     (if \<not> ps_Connected (pl_state p) then (Some PlayerNotConnected, p)
      else checked (sendState w (notifyStateChange (p\<lparr>pl_state := (pl_state p)\<lparr>ps_State := st\<rparr>\<rparr>))))"

definition Play where "Play w p = set_play_state ''playing'' w p"
definition Pause where "Pause w p = set_play_state ''paused'' w p"
definition player_Stop where "player_Stop w p = set_play_state ''idle'' w p"

section \<open>Volume and mute\<close>

definition clamp_100 :: "int \<Rightarrow> int" where
  "clamp_100 volume =
     (let volume = (if volume < 0 then 0 else volume) in if 100 < volume then 100 else volume)"

definition send_if_connected :: "string option \<Rightarrow> ('d, 'o) Player \<Rightarrow> ('d, 'o) Player" where
  "send_if_connected w p =
     (if pl_receiver p \<noteq> None \<and> ps_Connected (pl_state p) then snd (sendState w p) else p)"

definition player_SetVolume ::
  "('e, 'err, 'o) output_ops \<Rightarrow> string option \<Rightarrow> int \<Rightarrow> ('d, 'o) Player \<Rightarrow> ('d, 'o) Player" where
  "player_SetVolume ops w volume p =
     (let volume = clamp_100 volume;
          muted = ps_Muted (pl_state p);
          p = (if \<not> muted then p\<lparr>pl_state := (pl_state p)\<lparr>ps_Volume := volume\<rparr>\<rparr> else p);
          p = (if \<not> muted then p\<lparr>pl_output := map_option (op_SetVolume ops volume) (pl_output p)\<rparr> else p)
      in notifyStateChange (send_if_connected w p))"

definition player_Mute ::
  "('e, 'err, 'o) output_ops \<Rightarrow> string option \<Rightarrow> bool \<Rightarrow> ('d, 'o) Player \<Rightarrow> ('d, 'o) Player" where
  "player_Mute ops w muted p =
     (let p = p\<lparr>pl_state := (pl_state p)\<lparr>ps_Muted := muted\<rparr>\<rparr>;
          vol = ps_Volume (pl_state p);
          p = p\<lparr>pl_output := map_option (\<lambda>o'. let o' = op_SetMuted ops muted o'
                  in if \<not> muted then op_SetVolume ops vol o' else o') (pl_output p)\<rparr>
      in notifyStateChange (send_if_connected w p))"

text \<open>A command of the server.\<close>

definition handle_command ::
  "('e, 'err, 'o) output_ops \<Rightarrow> string option \<Rightarrow> PlayerCommand \<Rightarrow> ('d, 'o) Player \<Rightarrow> ('d, 'o) Player" where
  "handle_command ops w cmd p =
     (if pc_Command cmd = ''volume'' then player_SetVolume ops w (pc_Volume cmd) p
      else if pc_Command cmd = ''mute'' then player_Mute ops w (pc_Mute cmd) p
      else p)"

section \<open>Streams\<close>

text \<open>\<open>e\<close> are the results of the library calls that opening the output makes.\<close>

definition onStreamStart ::
  "('e, 'err, 'o) output_ops \<Rightarrow> 'e \<Rightarrow> Format \<Rightarrow> ('d, 'o) Player \<Rightarrow> 'err option \<times> ('d, 'o) Player" where
  "onStreamStart ops e format p =
     (let out = (case pl_output p of None \<Rightarrow> op_New ops (pf_AudioDevice (pl_config p)) | Some out \<Rightarrow> out)
      in case op_Open ops e (SampleRate format) (Channels format) (BitDepth format) out of
           (Some err, out) \<Rightarrow> (Some err, p\<lparr>pl_output := Some out\<rparr>)
         | (None, out) \<Rightarrow>
             (let p = p\<lparr>pl_state := (pl_state p)
                    \<lparr>ps_Codec := Codec format, ps_SampleRate := SampleRate format,
                     ps_Channels := Channels format, ps_BitDepth := BitDepth format,
                     ps_State := ''playing''\<rparr>\<rparr>;
                  out = op_SetVolume ops (ps_Volume (pl_state p)) out;
                  out = op_SetMuted ops (ps_Muted (pl_state p)) out
              in (None, notifyStateChange (p\<lparr>pl_output := Some out\<rparr>))))"

definition onStreamEnd :: "('d, 'o) Player \<Rightarrow> ('d, 'o) Player" where
  "onStreamEnd p = notifyStateChange (p\<lparr>pl_state := (pl_state p)\<lparr>ps_State := ''idle''\<rparr>\<rparr>)"

text \<open>One buffer of \<open>consumeAudio\<close>: the callback may change the samples, then they are written.\<close>

definition consumeAudio ::
  "(sample list \<Rightarrow> sample list) option \<Rightarrow> (sample list \<Rightarrow> 'o \<Rightarrow> 'err option \<times> 'o) \<Rightarrow>
   AudioBuffer \<Rightarrow> ('d, 'o) Player \<Rightarrow> 'err option \<times> ('d, 'o) Player" where
  "consumeAudio callback write buf p =
     (let samples = (case callback of None \<Rightarrow> Samples buf | Some f \<Rightarrow> f (Samples buf))
      in case pl_output p of
           None \<Rightarrow> (None, p)
         | Some out \<Rightarrow>
             (case write samples out of (e, out) \<Rightarrow> (e, p\<lparr>pl_output := Some out\<rparr>)))"

section \<open>Other requests\<close>

definition player_Stats :: "('d, 'o) Player \<Rightarrow> (nat \<times> nat \<times> nat) \<times> int \<times> int \<times> Quality" where
  "player_Stats p =
     (case pl_receiver p of None \<Rightarrow> ((0, 0, 0), 0, 0, QualityGood) | Some r \<Rightarrow> receiver_Stats r)"

text \<open>\<open>Close\<close>; a panic of the receiver's \<open>Close\<close> is one of the player (\<open>None\<close>).\<close>

definition player_Close ::
  "('e, 'err, 'o) output_ops \<Rightarrow> string option \<Rightarrow> ('d, 'o) Player \<Rightarrow> ('d, 'o) Player option" where
  "player_Close ops w p =
     (case (case pl_receiver p of None \<Rightarrow> Some None | Some r \<Rightarrow> map_option Some (receiver_Close w r)) of
        None \<Rightarrow> None
      | Some r \<Rightarrow>
          Some (notifyStateChange (p\<lparr>pl_cancelled := True, pl_receiver := r,
            pl_output := map_option (op_Close ops) (pl_output p),
            pl_state := (pl_state p)\<lparr>ps_Connected := False, ps_State := ''idle''\<rparr>\<rparr>)))"

text \<open>Requests that need a client.\<close>

definition with_client ::
  "(Client \<Rightarrow> client_error option \<times> Client) \<Rightarrow> ('d, 'o) Player \<Rightarrow>
   player_error option \<times> ('d, 'o) Player" where
  "with_client send p =
     (if \<not> has_client p then (Some PlayerNotConnected, p) else checked (on_client send p))"

definition SendCommand ::
  "string option \<Rightarrow> string \<Rightarrow> ('d, 'o) Player \<Rightarrow> player_error option \<times> ('d, 'o) Player" where
  "SendCommand w command p =
     with_client (sendJSON w (enc_Message ''client/command''
       (JObj [(''controller'', JObj [(''command'', JStr command)])]))) p"

definition RequestFormat ::
  "string option \<Rightarrow> RequestFormatPlayer \<Rightarrow> ('d, 'o) Player \<Rightarrow> player_error option \<times> ('d, 'o) Player" where
  "RequestFormat w req p = with_client (SendRequestFormat w req) p"

text \<open>After a successful send the state changes and the application is told.\<close>

definition then_state :: "string \<Rightarrow> player_error option \<times> ('d, 'o) Player \<Rightarrow>
    player_error option \<times> ('d, 'o) Player" where
  "then_state st r =
     (case r of
        (Some e, p) \<Rightarrow> (Some e, p)
      | (None, p) \<Rightarrow> (None, notifyStateChange (p\<lparr>pl_state := (pl_state p)\<lparr>ps_State := st\<rparr>\<rparr>)))"

definition EnterExternalSource ::
  "string option \<Rightarrow> ('d, 'o) Player \<Rightarrow> player_error option \<times> ('d, 'o) Player" where
  "EnterExternalSource w p =
     then_state ''external_source'' (with_client
       (SendState w \<lparr>pst_State = ''external_source'', pst_Volume = 0, pst_Muted = False\<rparr>) p)"

definition ExitExternalSource ::
  "string option \<Rightarrow> ('d, 'o) Player \<Rightarrow> player_error option \<times> ('d, 'o) Player" where
  "ExitExternalSource w p =
     (if \<not> has_client p then (Some PlayerNotConnected, p)
      else then_state ''idle'' (checked (sendState w p)))"

section \<open>The reconnect loop\<close>

definition jitter :: "f64 \<Rightarrow> duration \<Rightarrow> f64 \<Rightarrow> duration" where
  "jitter u d spread =
     (if d \<le> 0 then d
      else
        let delta = f64_mul (f64_sub (f64_mul u (Fin 2)) (Fin 1)) spread
        in f64_to_int64 (f64_mul (f64_of_int d) (f64_add (Fin 1) delta)))"

definition next_delay :: "ReconnectConfig \<Rightarrow> duration \<Rightarrow> duration" where
  "next_delay cfg delay =
     (let delay = f64_to_int64 (f64_mul (f64_of_int delay) (rn_Multiplier cfg))
      in if rn_MaxDelay cfg < delay then rn_MaxDelay cfg else delay)"

text \<open>
  What the world contributes to an attempt: whether the player is closed during the sleep, the random
  number, the result of \<open>Rediscover\<close> when there is one, and the outcomes of the connection.
\<close>

record attempt_io =
  at_cancelled :: bool
  at_random :: f64
  at_rediscover :: "(string + string) option"
  at_probe :: "malgo_error + int \<times> int"
  at_io :: connect_io

definition reconnect_addr :: "string \<Rightarrow> (string + string) option \<Rightarrow> string" where
  "reconnect_addr addr found =
     (case found of
        Some (Inr discovered) \<Rightarrow> if discovered \<noteq> [] then discovered else addr
      | _ \<Rightarrow> addr)"

definition try_connect ::
  "attempt_io \<Rightarrow> ('d, 'o) Player \<Rightarrow> (connect_error + 'd Receiver) \<times> ('d, 'o) Player" where
  "try_connect a p =
     (case buildReceiver (at_probe a)
             (reconnect_addr (pf_ServerAddr (pl_config p)) (at_rediscover a)) p of
        (Inl e, p) \<Rightarrow> (Inl e, p)
      | (Inr r, p) \<Rightarrow>
          (case receiver_Connect (at_io a) r of
             (Some e, r) \<Rightarrow> (Inl e, p)
           | (None, r) \<Rightarrow> (Inr r, p)))"

datatype 'd reconnect_result = Reconnected "'d Receiver" | GaveUp | Abandoned

text \<open>\<open>slept\<close>: the delays so far. The loop need not end when \<open>MaxAttempts\<close> is 0.\<close>

partial_function (option) reconnectWithBackoff ::
  "(nat \<Rightarrow> attempt_io) \<Rightarrow> nat \<Rightarrow> duration \<Rightarrow> duration list \<Rightarrow> ('d, 'o) Player \<Rightarrow>
   ('d reconnect_result \<times> duration list \<times> ('d, 'o) Player) option" where
  "reconnectWithBackoff env attempt delay slept p =
     (let cfg = pf_Reconnect (pl_config p); attempt = attempt + 1
      in if 0 < rn_MaxAttempts cfg \<and> rn_MaxAttempts cfg < int attempt then Some (GaveUp, slept, p)
         else
           let jittered = jitter (at_random (env attempt)) delay (fl (1 / 5))
           in if at_cancelled (env attempt) then Some (Abandoned, slept @ [jittered], p)
              else case try_connect (env attempt) p of
                (Inr r, p) \<Rightarrow> Some (Reconnected r, slept @ [jittered], p)
              | (Inl e, p) \<Rightarrow>
                  reconnectWithBackoff env attempt (next_delay cfg delay) (slept @ [jittered]) p)"

text \<open>One round of \<open>runReconnectLoop\<close>, from the loss of the connection.\<close>

definition lose_connection :: "('d, 'o) Player \<Rightarrow> ('d, 'o) Player" where
  "lose_connection p =
     (if pl_cancelled p then p
      else notifyStateChange
             (p\<lparr>pl_state := (pl_state p)\<lparr>ps_Connected := False, ps_State := ''reconnecting''\<rparr>\<rparr>))"

definition runReconnectLoop ::
  "(nat \<Rightarrow> attempt_io) \<Rightarrow> ('d, 'o) Player \<Rightarrow> (duration list \<times> ('d, 'o) Player) option" where
  "runReconnectLoop env p =
     (if pl_cancelled p then Some ([], p)
      else
        let p = lose_connection p
        in case reconnectWithBackoff env 0 (rn_InitialDelay (pf_Reconnect (pl_config p))) [] p of
             None \<Rightarrow> None
           | Some (Reconnected r, slept, p) \<Rightarrow> Some (slept, connected_to r p)
           | Some (_, slept, p) \<Rightarrow> Some (slept, p))"

section \<open>Delays\<close>

definition sane_backoff :: "ReconnectConfig \<Rightarrow> bool" where
  "sane_backoff cfg \<longleftrightarrow> 0 < rn_InitialDelay cfg \<and> rn_InitialDelay cfg \<le> rn_MaxDelay cfg \<and>
     rn_MaxDelay cfg \<le> 2 ^ 40 \<and> (\<exists>m. rn_Multiplier cfg = Fin m \<and> 1 \<le> m \<and> m \<le> 2 ^ 10)"

lemma f64_to_int64_between:
  assumes "f = Fin x" "of_int lo \<le> x" "x \<le> of_int hi" "0 \<le> lo" "hi < 2 ^ 63"
  shows "lo \<le> f64_to_int64 f \<and> f64_to_int64 f \<le> hi"
proof -
  have "0 \<le> x" using assms(2,4) by (meson of_int_0_le_iff order_trans)
  then have t: "f64_trunc x = \<lfloor>x\<rfloor>" by (simp add: f64_trunc_def)
  have "lo \<le> \<lfloor>x\<rfloor>" "\<lfloor>x\<rfloor> \<le> hi" using assms(2,3) by (simp_all add: le_floor_iff floor_le_iff)
  moreover from this have "is_int64 \<lfloor>x\<rfloor>" using assms(4,5) unfolding is_int64_def by linarith
  ultimately show ?thesis using assms(1) by (simp add: f64_to_int64_def t)
qed

lemma next_delay_bounds:
  assumes "sane_backoff cfg" "0 < d" "d \<le> rn_MaxDelay cfg"
  shows "d \<le> next_delay cfg d \<and> next_delay cfg d \<le> rn_MaxDelay cfg"
proof -
  obtain m where m: "rn_Multiplier cfg = Fin m" "1 \<le> m" "m \<le> 2 ^ 10"
    using assms(1) by (auto simp: sane_backoff_def)
  have d: "d \<le> 2 ^ 40" using assms by (simp add: sane_backoff_def)
  then have fd: "f64_of_int d = Fin (of_int d)" using assms(2) by (intro f64_of_int_exact) simp
  have pos: "0 < (of_int d :: rat)" using assms(2) by simp
  have "of_int d * 1 \<le> of_int d * m" using m(2) pos by (intro mult_left_mono) simp_all
  moreover have "(of_int d :: rat) \<le> of_int (2 ^ 40)" using d by (simp only: of_int_le_iff)
  then have "of_int d * m \<le> of_int (2 ^ 40) * 2 ^ 10"
    using m by (intro mult_mono) simp_all
  then have "of_int d * m \<le> of_int (2 ^ 50)" by simp
  ultimately obtain y where y: "f64_mul (f64_of_int d) (rn_Multiplier cfg) = Fin y" "of_int d \<le> y"
    "y \<le> of_int (2 ^ 50)"
    using fl_bounded [of d "of_int d * m" "2 ^ 50"] d assms(2) by (auto simp: fd m(1))
  from f64_to_int64_between [OF this] assms(2,3) show ?thesis by (simp add: next_delay_def Let_def)
qed

lemma fl_between:
  assumes "f64_representable lo" "f64_representable hi" "lo \<le> x" "x \<le> hi" "\<bar>lo\<bar> \<le> 2 ^ 60" "\<bar>hi\<bar> \<le> 2 ^ 60"
  obtains y where "fl x = Fin y" "lo \<le> y" "y \<le> hi"
proof -
  have y: "lo \<le> f64_round x" "f64_round x \<le> hi"
    using assms f64.rnd_ge f64.rnd_le by blast+
  with assms(5,6) have "\<bar>f64_round x\<bar> \<le> 2 ^ 60" by linarith
  also have "(2 :: rat) ^ 60 < 2 ^ 1024" by simp
  finally show thesis using that y by (simp add: fl_Fin)
qed

lemma quarters_representable: "\<bar>n\<bar> \<le> 2 ^ 53 \<Longrightarrow> f64_representable (of_int n / 4)"
  unfolding f64_representable_def
  by (rule exI [of _ n], rule exI [of _ "- 2"]) (simp add: power_int_minus)

lemma jitter_bounds:
  assumes "0 < d" "d \<le> 2 ^ 40" "u = Fin x" "0 \<le> x" "x \<le> 1"
  shows "3 * d \<le> 4 * jitter u d (fl (1 / 5)) + 3 \<and> 4 * jitter u d (fl (1 / 5)) \<le> 5 * d"
proof -
  have rep: "f64_representable (of_int n / 4)" if "\<bar>n\<bar> \<le> 5" for n :: int
    by (rule quarters_representable) (use that in simp)
  obtain q where q: "fl (1 / 5) = Fin q" "0 \<le> q" "q \<le> 1 / 4"
    by (rule fl_between [of 0 "1 / 4" "1 / 5"]) (use rep [of 0] rep [of 1] in simp_all)
  obtain a where a: "fl (x * 2) = Fin a" "0 \<le> a" "a \<le> 2"
    using fl_bounded [of 0 "x * 2" 2] assms(4,5) by auto
  obtain b where b: "fl (a - 1) = Fin b" "- 1 \<le> b" "b \<le> 1"
    using fl_bounded [of "- 1" "a - 1" 1] a(2,3) by auto
  have "\<bar>b\<bar> * \<bar>q\<bar> \<le> 1 * (1 / 4)" using b q by (intro mult_mono) (simp_all add: abs_le_iff)
  then have bq: "- 1 / 4 \<le> b * q" "b * q \<le> 1 / 4" by (simp_all add: abs_mult [symmetric] abs_le_iff)
  obtain c where c: "fl (b * q) = Fin c" "- 1 / 4 \<le> c" "c \<le> 1 / 4"
    by (rule fl_between [of "- 1 / 4" "1 / 4" "b * q"]) (use rep [of "- 1"] rep [of 1] bq in simp_all)
  obtain e where e: "fl (1 + c) = Fin e" "3 / 4 \<le> e" "e \<le> 5 / 4"
    by (rule fl_between [of "3 / 4" "5 / 4" "1 + c"]) (use rep [of 3] rep [of 5] c in simp_all)
  have pos: "0 < (of_int d :: rat)" using assms(1) by simp
  have fd: "f64_of_int d = Fin (of_int d)" using assms(1,2) by (intro f64_of_int_exact) simp
  have big: "(of_int d :: rat) \<le> of_int (2 ^ 40)" using assms(2) by (simp only: of_int_le_iff)
  obtain z where z: "fl (of_int d * e) = Fin z" "of_int (3 * d) / 4 \<le> z" "z \<le> of_int (5 * d) / 4"
  proof (rule fl_between [of "of_int (3 * d) / 4" "of_int (5 * d) / 4" "of_int d * e"])
    show "f64_representable (of_int (3 * d) / 4)" "f64_representable (of_int (5 * d) / 4)"
      by (rule quarters_representable, use assms(1,2) in simp)+
    have "of_int d * (3 / 4) \<le> of_int d * e" "of_int d * e \<le> of_int d * (5 / 4)"
      using e pos by (intro mult_left_mono; simp)+
    then show "of_int (3 * d) / 4 \<le> of_int d * e" "of_int d * e \<le> of_int (5 * d) / 4" by simp_all
    show "\<bar>of_int (3 * d) / 4\<bar> \<le> (2 :: rat) ^ 60" "\<bar>of_int (5 * d) / 4\<bar> \<le> (2 :: rat) ^ 60"
      using big pos by (simp_all add: abs_le_iff)
  qed
  have jz: "jitter u d (fl (1 / 5)) = f64_to_int64 (Fin z)"
    using assms(1) by (simp add: jitter_def assms(3) a(1) b(1) q(1) c(1) e(1) z(1) fd f64_sub_def)
  have "0 \<le> z" using z(2) pos by simp
  then have t: "f64_trunc z = \<lfloor>z\<rfloor>" by (simp add: f64_trunc_def)
  have up: "(of_int (4 * \<lfloor>z\<rfloor>) :: rat) \<le> of_int (5 * d)" 
    using z(3) of_int_floor_le [of z] unfolding of_int_mult by linarith
  have lo: "(of_int (3 * d) :: rat) < of_int (4 * \<lfloor>z\<rfloor> + 4)" using z(2) floor_correct [of z] by simp
  have "4 * \<lfloor>z\<rfloor> \<le> 5 * d" "3 * d < 4 * \<lfloor>z\<rfloor> + 4" using up lo by (simp_all only: of_int_le_iff of_int_less_iff)
  moreover have "0 \<le> \<lfloor>z\<rfloor>" using \<open>0 \<le> z\<close> by simp
  moreover have "is_int64 k" if "4 * k \<le> 5 * d" "0 \<le> k" for k
    using that assms(2) by (simp add: is_int64_def)
  ultimately show ?thesis by (simp add: jz f64_to_int64_def t)
qed

section \<open>The loop ends\<close>

lemma ensureCapsResolved_keeps:
  "pf_Reconnect (pl_config (ensureCapsResolved probe p)) = pf_Reconnect (pl_config p) \<and>
   pl_state (ensureCapsResolved probe p) = pl_state p \<and>
   pl_output (ensureCapsResolved probe p) = pl_output p"
  by (auto simp: ensureCapsResolved_def Let_def split: sum.split prod.split)

lemma try_connect_cases:
  assumes "try_connect a p = (res, p')"
  shows "p' = ensureCapsResolved (at_probe a) p \<and>
    (\<forall>r. res = Inr r \<longrightarrow> (\<exists>c. rv_client r = Some c \<and> cl_connected c))"
  using assms
  by (auto simp: try_connect_def buildReceiver_def Let_def dest: receiver_Connect_client
      split: option.splits prod.splits)

definition sane_random :: "attempt_io \<Rightarrow> bool" where
  "sane_random a \<longleftrightarrow> (\<exists>x. at_random a = Fin x \<and> 0 \<le> x \<and> x \<le> 1)"

text \<open>A delay between three quarters of the initial and five quarters of the longest one.\<close>

definition delay_ok :: "ReconnectConfig \<Rightarrow> duration \<Rightarrow> bool" where
  "delay_ok cfg j \<longleftrightarrow> 3 * rn_InitialDelay cfg \<le> 4 * j + 3 \<and> 4 * j \<le> 5 * rn_MaxDelay cfg"

lemma jitter_ok:
  assumes "sane_backoff cfg" "sane_random a" "rn_InitialDelay cfg \<le> d" "d \<le> rn_MaxDelay cfg"
  shows "delay_ok cfg (jitter (at_random a) d (fl (1 / 5)))"
proof -
  obtain x where x: "at_random a = Fin x" "0 \<le> x" "x \<le> 1" using assms(2) by (auto simp: sane_random_def)
  have "0 < d" "d \<le> 2 ^ 40" using assms(1,3,4) by (auto simp: sane_backoff_def)
  from jitter_bounds [OF this x] assms(3,4) show ?thesis unfolding delay_ok_def by linarith
qed

text \<open>The loop up to the attempt \<open>N\<close> at which it stops in any case.\<close>

definition connected_result :: "'d reconnect_result \<Rightarrow> bool" where
  "connected_result res \<longleftrightarrow>
     (case res of Reconnected r \<Rightarrow> (case rv_client r of Some c \<Rightarrow> cl_connected c | None \<Rightarrow> False) | _ \<Rightarrow> True)"

lemma reconnect_ends:
  assumes "sane_backoff cfg" "\<And>n. sane_random (env n)"
    "(0 < rn_MaxAttempts cfg \<and> rn_MaxAttempts cfg < int N) \<or> at_cancelled (env N)"
    "pf_Reconnect (pl_config p) = cfg" "attempt < N" "rn_InitialDelay cfg \<le> d" "d \<le> rn_MaxDelay cfg"
  shows "\<exists>res ds p'. reconnectWithBackoff env attempt d slept p = Some (res, slept @ ds, p') \<and>
    list_all (delay_ok cfg) ds \<and> connected_result res \<and>
    (0 < rn_MaxAttempts cfg \<and> int attempt \<le> rn_MaxAttempts cfg \<longrightarrow>
      int attempt + int (length ds) \<le> rn_MaxAttempts cfg \<and>
      (res = GaveUp \<longrightarrow> int attempt + int (length ds) = rn_MaxAttempts cfg))"
  using assms(4-7)
proof (induction "N - attempt" arbitrary: attempt d slept p rule: less_induct)
  case less
  note eq = reconnectWithBackoff.simps [of env attempt d slept p, unfolded Let_def less.prems(1)]
  let ?j = "jitter (at_random (env (attempt + 1))) d (fl (1 / 5))"
  have ok: "delay_ok cfg ?j" by (rule jitter_ok [OF assms(1,2) less.prems(3,4)])
  have d0: "0 < d" using assms(1) less.prems(3) by (simp add: sane_backoff_def)
  consider (limit) "0 < rn_MaxAttempts cfg \<and> rn_MaxAttempts cfg < int (attempt + 1)"
    | (cancel) "\<not> (0 < rn_MaxAttempts cfg \<and> rn_MaxAttempts cfg < int (attempt + 1))"
        "at_cancelled (env (attempt + 1))"
    | (go) "\<not> (0 < rn_MaxAttempts cfg \<and> rn_MaxAttempts cfg < int (attempt + 1))"
        "\<not> at_cancelled (env (attempt + 1))" by blast
  then show ?case
  proof cases
    case limit
    then show ?thesis by (subst eq) (auto simp: connected_result_def)
  next
    case cancel
    then show ?thesis using ok
      by (subst eq) (auto simp: connected_result_def intro!: exI [of _ "[?j]"])
  next
    case go
    obtain res p1 where t: "try_connect (env (attempt + 1)) p = (res, p1)" by fastforce
    note tc = try_connect_cases [OF t]
    show ?thesis
    proof (cases res)
      case (Inr r)
      then have "connected_result (Reconnected r)" using tc by (auto simp: connected_result_def)
      with go t Inr ok show ?thesis
        by (subst eq) (auto intro!: exI [of _ "[?j]"])
    next
      case (Inl e)
      have "attempt + 1 \<noteq> N" using go assms(3) by auto
      then have lt: "attempt + 1 < N" using less.prems(2) by simp
      have cfg: "pf_Reconnect (pl_config p1) = cfg"
        using tc less.prems(1) ensureCapsResolved_keeps by metis
      note nd = next_delay_bounds [OF assms(1) d0 less.prems(4)]
      obtain res' ds p' where IH:
        "reconnectWithBackoff env (attempt + 1) (next_delay cfg d) (slept @ [?j]) p1
           = Some (res', (slept @ [?j]) @ ds, p')"
        "list_all (delay_ok cfg) ds" "connected_result res'"
        "0 < rn_MaxAttempts cfg \<and> int (attempt + 1) \<le> rn_MaxAttempts cfg \<longrightarrow>
          int (attempt + 1) + int (length ds) \<le> rn_MaxAttempts cfg \<and>
          (res' = GaveUp \<longrightarrow> int (attempt + 1) + int (length ds) = rn_MaxAttempts cfg)"
        using less.hyps [of "attempt + 1" p1 "next_delay cfg d" "slept @ [?j]"] lt cfg nd less.prems(3)
        by force
      have "reconnectWithBackoff env attempt d slept p = Some (res', slept @ (?j # ds), p')"
        using go t Inl IH(1) by (subst eq) simp
      moreover have "list_all (delay_ok cfg) (?j # ds)" using ok IH(2) by simp
      ultimately show ?thesis
        using IH(3,4) go(1) by (intro exI [of _ res'] exI [of _ "?j # ds"] exI [of _ p']) auto
    qed
  qed
qed

text \<open>
  C16. The reconnect loop returns: after at most \<open>MaxAttempts\<close> attempts when that is set (and exactly that
  many when it gives up), and otherwise at the latest when the player is closed. Every delay lies between
  three quarters of the initial and five quarters of the longest delay, whatever the number of attempts,
  and a receiver that it returns is connected.
\<close>

theorem reconnect_returns:
  assumes "sane_backoff cfg" "\<forall>n. sane_random (env n)" "pf_Reconnect (pl_config p) = cfg"
    "0 < rn_MaxAttempts cfg \<or> (\<exists>n>0. at_cancelled (env n))"
  shows "\<exists>res slept p'. reconnectWithBackoff env 0 (rn_InitialDelay cfg) [] p = Some (res, slept, p') \<and>
    list_all (delay_ok cfg) slept \<and> connected_result res \<and>
    (0 < rn_MaxAttempts cfg \<longrightarrow> int (length slept) \<le> rn_MaxAttempts cfg \<and>
      (res = GaveUp \<longrightarrow> int (length slept) = rn_MaxAttempts cfg))"
proof -
  obtain N where N: "0 < N" "(0 < rn_MaxAttempts cfg \<and> rn_MaxAttempts cfg < int N) \<or> at_cancelled (env N)"
  proof (cases "0 < rn_MaxAttempts cfg")
    case True
    then show thesis by (intro that [of "nat (rn_MaxAttempts cfg) + 1"]) auto
  next
    case False
    with assms(4) that show thesis by blast
  qed
  have d: "rn_InitialDelay cfg \<le> rn_MaxDelay cfg" using assms(1) by (simp add: sane_backoff_def)
  have rnd: "\<And>n. sane_random (env n)" using assms(2) by blast
  from reconnect_ends [where env = env and slept = "[]", OF assms(1) rnd N(2) assms(3) N(1) order_refl d]
  show ?thesis by auto
qed

definition reconnect_example :: ReconnectConfig where
  "reconnect_example =
     default_reconnect \<lparr>rn_Enabled = True, rn_InitialDelay = 0, rn_MaxDelay = 0, rn_Multiplier = Fin 0,
                        rn_MaxAttempts = 2\<rparr>"

definition player_config_example :: "unit PlayerConfig" where
  "player_config_example =
     \<lparr>pf_ServerAddr = ''host:8927'', pf_PlayerName = ''Kitchen'', pf_Volume = 30, pf_BufferMs = 0,
      pf_StaticDelayMs = 0, pf_PreferredCodec = [], pf_BufferCapacity = 0, pf_ClientID = ''id'',
      pf_AudioDevice = [], pf_MaxSampleRate = 0, pf_MaxBitDepth = 0,
      pf_DeviceInfo = \<lparr>di_ProductName = [], di_Manufacturer = [], di_SoftwareVersion = []\<rparr>,
      pf_CustomOutput = False, pf_DecoderFactory = None, pf_Reconnect = reconnect_example\<rparr>"

definition unreachable_io :: attempt_io where
  "unreachable_io =
     \<lparr>at_cancelled = False, at_random = Fin (1 / 2), at_rediscover = None, at_probe = Inr (48000, 24),
      at_io = \<lparr>io_dial = Some ''refused'', io_hello = None, io_answer = Inl [], io_state = None,
               io_deadline = None, io_now = 0, io_rounds = []\<rparr>\<rparr>"

theorem reconnect_returns_witness:
  "\<exists>res slept p'. reconnectWithBackoff (\<lambda>_. unreachable_io) 0 (500 * millisecond) []
      (NewPlayer (None :: Malgo option) player_config_example) = Some (res, slept, p') \<and> length slept \<le> 2"
proof -
  have cfg: "pf_Reconnect (pl_config (NewPlayer (None :: Malgo option) player_config_example)) = reconnect_example"
    by (simp add: NewPlayer_def Let_def player_config_example_def reconnect_example_def default_reconnect_def)
  have sane: "sane_backoff reconnect_example" "rn_MaxAttempts reconnect_example = 2"
    "rn_InitialDelay reconnect_example = 500 * millisecond"
    by (simp_all add: reconnect_example_def default_reconnect_def sane_backoff_def)
  have rnd: "\<forall>n :: nat. sane_random unreachable_io"
    unfolding sane_random_def by (intro allI exI [of _ "1 / 2"]) (simp add: unreachable_io_def)
  from reconnect_returns [OF sane(1) _ cfg, of "\<lambda>_. unreachable_io"] rnd sane(2,3) show ?thesis
    by fastforce
qed

section \<open>The gain of the output\<close>

text \<open>What the player needs beyond \<open>audio_output\<close>: a new output is well formed and closed.\<close>

locale player_output = audio_output out_open out_close out_set_volume out_set_muted out_gain out_inv out_ready
  for out_open :: "'e \<Rightarrow> int \<Rightarrow> int \<Rightarrow> int \<Rightarrow> 'o \<Rightarrow> 'err option \<times> 'o"
    and out_close :: "'o \<Rightarrow> 'o"
    and out_set_volume :: "int \<Rightarrow> 'o \<Rightarrow> 'o"
    and out_set_muted :: "bool \<Rightarrow> 'o \<Rightarrow> 'o"
    and out_gain :: "'o \<Rightarrow> int \<times> bool"
    and out_inv :: "'o \<Rightarrow> bool"
    and out_ready :: "'o \<Rightarrow> bool" +
  fixes out_new :: "string \<Rightarrow> 'o"
  assumes new_inv: "out_inv (out_new name)"
    and new_closed: "\<not> out_ready (out_new name)"

datatype 'e player_event =
    EvSetVolume "string option" int
  | EvMute "string option" bool
  | EvCommand "string option" PlayerCommand
  | EvPlay "string option"
  | EvPause "string option"
  | EvStop "string option"
  | EvStreamStart 'e Format
  | EvStreamEnd
  | EvEnterExternal "string option"
  | EvExitExternal "string option"
  | EvConnect "malgo_error + int \<times> int" connect_io
  | EvLost
  | EvAttempt attempt_io
  | EvClose "string option"

text \<open>
  The reconnect loop runs beside the other calls: \<open>EvLost\<close> is its first critical section and
  \<open>EvAttempt\<close> one attempt, so that other calls come between them. A panic of \<open>Close\<close> ends the program.
\<close>

fun player_step :: "('e, 'err, 'o) output_ops \<Rightarrow> 'e player_event \<Rightarrow> ('d, 'o) Player \<Rightarrow> ('d, 'o) Player" where
  "player_step ops (EvSetVolume w v) p = player_SetVolume ops w v p"
| "player_step ops (EvMute w m) p = player_Mute ops w m p"
| "player_step ops (EvCommand w c) p = handle_command ops w c p"
| "player_step ops (EvPlay w) p = snd (Play w p)"
| "player_step ops (EvPause w) p = snd (Pause w p)"
| "player_step ops (EvStop w) p = snd (player_Stop w p)"
| "player_step ops (EvStreamStart e f) p = snd (onStreamStart ops e f p)"
| "player_step ops EvStreamEnd p = onStreamEnd p"
| "player_step ops (EvEnterExternal w) p = snd (EnterExternalSource w p)"
| "player_step ops (EvExitExternal w) p = snd (ExitExternalSource w p)"
| "player_step ops (EvConnect probe io) p = snd (player_Connect probe io p)"
| "player_step ops EvLost p = lose_connection p"
| "player_step ops (EvAttempt a) p =
     (case try_connect a p of (Inl e, p) \<Rightarrow> p | (Inr r, p) \<Rightarrow> connected_to r p)"
| "player_step ops (EvClose w) p = (case player_Close ops w p of None \<Rightarrow> p | Some p' \<Rightarrow> p')"

definition player_run :: "('e, 'err, 'o) output_ops \<Rightarrow> 'e player_event list \<Rightarrow> ('d, 'o) Player \<Rightarrow> ('d, 'o) Player" where
  "player_run ops evs p = fold (player_step ops) evs p"

text \<open>A round of the loop is one loss of the connection and a number of attempts.\<close>

definition after_round :: "'d reconnect_result \<times> duration list \<times> ('d, 'o) Player \<Rightarrow> ('d, 'o) Player" where
  "after_round y = (case y of (Reconnected r, slept, p) \<Rightarrow> connected_to r p | (_, slept, p) \<Rightarrow> p)"

lemma reconnect_is_attempts:
  assumes "reconnectWithBackoff env n d slept p = Some y"
  shows "\<exists>as. after_round y = player_run ops (map EvAttempt as) p"
proof (rule reconnectWithBackoff.raw_induct
    [where P = "\<lambda>env n d slept p y. \<exists>as. after_round y = player_run ops (map EvAttempt as) p", OF _ assms], goal_cases)
  case (1 f env n d slept p y)
  have none: "\<exists>as. p = player_run ops (map EvAttempt as) p"
    by (rule exI [of _ "[]"]) (simp add: player_run_def)
  have one: "\<exists>as. player_step ops (EvAttempt a) p = player_run ops (map EvAttempt as) p" for a
    by (rule exI [of _ "[a]"]) (simp add: player_run_def)
  have more: "\<exists>as. q' = player_run ops (map EvAttempt as) p"
    if "\<exists>as. q' = player_run ops (map EvAttempt as) (player_step ops (EvAttempt a) p)" for a q'
    using that by (auto simp: player_run_def intro: exI [of _ "a # as" for as])
  show ?case
  proof (cases "try_connect (env (n + 1)) p")
    case (Pair res q)
    with 1 none one [of "env (n + 1)"] more [of _ "env (n + 1)"] show ?thesis
      by (cases res) (auto simp: Let_def after_round_def split: if_splits)
  qed
qed

lemma reconnect_round:
  assumes "runReconnectLoop env p = Some (slept, p')" "\<not> pl_cancelled p"
  shows "\<exists>as. p' = player_run ops (EvLost # map EvAttempt as) p"
proof -
  obtain y where y: "reconnectWithBackoff env 0 (rn_InitialDelay (pf_Reconnect (pl_config (lose_connection p)))) []
      (lose_connection p) = Some y"
    using assms by (auto simp: runReconnectLoop_def Let_def split: option.splits)
  then have "p' = after_round y"
    using assms by (auto simp: runReconnectLoop_def Let_def after_round_def
        split: option.splits reconnect_result.splits prod.splits)
  with reconnect_is_attempts [OF y, of ops] show ?thesis by (simp add: player_run_def)
qed

text \<open>An output that is open plays with the volume and mute of the state.\<close>

definition gain_ok ::
  "('o \<Rightarrow> int \<times> bool) \<Rightarrow> ('o \<Rightarrow> bool) \<Rightarrow> ('o \<Rightarrow> bool) \<Rightarrow> player_state \<Rightarrow> 'o option \<Rightarrow> bool" where
  "gain_ok gain sound ready st out \<longleftrightarrow>
     (\<forall>out'. out = Some out' \<longrightarrow> sound out' \<and>
       (ready out' \<longrightarrow> snd (gain out') = ps_Muted st \<and>
         (\<not> ps_Muted st \<longrightarrow> fst (gain out') = clamp_volume (ps_Volume st))))"

lemma on_client_keeps:
  "pl_state (snd (on_client send p)) = pl_state p" "pl_output (snd (on_client send p)) = pl_output p"
  "pl_states (snd (on_client send p)) = pl_states p" "pl_config (snd (on_client send p)) = pl_config p"
  by (auto simp: on_client_def split: option.split prod.split)

lemma sendState_keeps [simp]:
  "pl_state (snd (sendState w p)) = pl_state p" "pl_output (snd (sendState w p)) = pl_output p"
  "pl_states (snd (sendState w p)) = pl_states p"
  by (simp_all add: sendState_def on_client_keeps)

lemma send_if_connected_keeps [simp]:
  "pl_state (send_if_connected w p) = pl_state p" "pl_output (send_if_connected w p) = pl_output p"
  "pl_states (send_if_connected w p) = pl_states p"
  by (simp_all add: send_if_connected_def)

lemma checked_snd [simp]: "snd (checked r) = snd r"
  by (simp add: checked_def split: prod.split)

lemma with_client_keeps [simp]:
  "pl_state (snd (with_client send p)) = pl_state p" "pl_output (snd (with_client send p)) = pl_output p"
  "pl_states (snd (with_client send p)) = pl_states p"
  by (simp_all add: with_client_def on_client_keeps)

lemma notifyStateChange_fields [simp]:
  "pl_state (notifyStateChange p) = pl_state p" "pl_output (notifyStateChange p) = pl_output p"
  "pl_states (notifyStateChange p) = pl_states p @ [pl_state p]"
  by (simp_all add: notifyStateChange_def)

lemma clamp_100_eq: "clamp_100 v = clamp_volume v"
  by (simp add: clamp_100_def clamp_volume_def Let_def)

lemma clamp_volume_clamp [simp]: "clamp_volume (clamp_volume v) = clamp_volume v"
  by (simp add: clamp_volume_def)

text \<open>The volume, mute and output after an event that is not one of the three below.\<close>

definition silent_event :: "'e player_event \<Rightarrow> bool" where
  "silent_event ev \<longleftrightarrow> (case ev of
     EvSetVolume w v \<Rightarrow> False | EvMute w m \<Rightarrow> False | EvCommand w c \<Rightarrow> False
   | EvStreamStart e f \<Rightarrow> False | EvClose w \<Rightarrow> False | _ \<Rightarrow> True)"

lemma then_state_keeps:
  "ps_Volume (pl_state (snd (then_state st r))) = ps_Volume (pl_state (snd r))"
  "ps_Muted (pl_state (snd (then_state st r))) = ps_Muted (pl_state (snd r))"
  "pl_output (snd (then_state st r)) = pl_output (snd r)"
  by (auto simp: then_state_def split: prod.split option.split)

lemma player_Connect_keeps:
  "ps_Volume (pl_state (snd (player_Connect probe io p))) = ps_Volume (pl_state p)"
  "ps_Muted (pl_state (snd (player_Connect probe io p))) = ps_Muted (pl_state p)"
  "pl_output (snd (player_Connect probe io p)) = pl_output p"
  using ensureCapsResolved_keeps [of probe p]
  by (auto simp: player_Connect_def buildReceiver_def connected_to_def Let_def
      split: prod.split sum.split option.split)

lemma try_connect_keeps:
  "pl_state (snd (try_connect a p)) = pl_state p" "pl_output (snd (try_connect a p)) = pl_output p"
  "pl_states (snd (try_connect a p)) = pl_states p"
proof -
  have caps: "pl_states (ensureCapsResolved probe p) = pl_states p" for probe
    by (auto simp: ensureCapsResolved_def Let_def split: sum.split prod.split)
  obtain res p' where "try_connect a p = (res, p')" by fastforce
  with try_connect_cases [OF this] ensureCapsResolved_keeps [of "at_probe a" p] caps
  show "pl_state (snd (try_connect a p)) = pl_state p" "pl_output (snd (try_connect a p)) = pl_output p"
    "pl_states (snd (try_connect a p)) = pl_states p" by auto
qed

lemma attempt_keeps:
  "ps_Volume (pl_state (player_step ops (EvAttempt a) p)) = ps_Volume (pl_state p) \<and>
   ps_Muted (pl_state (player_step ops (EvAttempt a) p)) = ps_Muted (pl_state p) \<and>
   pl_output (player_step ops (EvAttempt a) p) = pl_output p"
  using try_connect_keeps [of a p] by (auto simp: connected_to_def split: prod.split sum.split)

lemma close_keeps:
  "player_Close ops w p = Some p' \<Longrightarrow> ps_Volume (pl_state p') = ps_Volume (pl_state p) \<and>
     ps_Muted (pl_state p') = ps_Muted (pl_state p) \<and>
     pl_output p' = map_option (op_Close ops) (pl_output p)"
  by (auto simp: player_Close_def split: option.splits)

lemma silent_event_keeps:
  "silent_event ev \<Longrightarrow> ps_Volume (pl_state (player_step ops ev p)) = ps_Volume (pl_state p) \<and>
     ps_Muted (pl_state (player_step ops ev p)) = ps_Muted (pl_state p) \<and>
     pl_output (player_step ops ev p) = pl_output p"
  using attempt_keeps [of ops _ p]
  by (cases ev) (simp_all add: lose_connection_def silent_event_def Play_def Pause_def player_Stop_def set_play_state_def
      onStreamEnd_def EnterExternalSource_def ExitExternalSource_def then_state_keeps player_Connect_keeps)

context player_output
begin

lemma gain_step_ok:
  assumes ops: "op_New ops = out_new" "op_Open ops = out_open" "op_SetVolume ops = out_set_volume"
      "op_SetMuted ops = out_set_muted" "op_Close ops = out_close"
    and ok: "gain_ok out_gain out_inv out_ready (pl_state p) (pl_output p)"
  shows "gain_ok out_gain out_inv out_ready (pl_state (player_step ops ev p)) (pl_output (player_step ops ev p))"
proof -
  have sv: "gain_ok out_gain out_inv out_ready (pl_state (player_SetVolume ops w v p))
      (pl_output (player_SetVolume ops w v p))" for w v
    using ok by (auto simp: gain_ok_def player_SetVolume_def Let_def ops set_volume_gain set_inv set_ready
        clamp_100_eq)
  have sm: "gain_ok out_gain out_inv out_ready (pl_state (player_Mute ops w m p))
      (pl_output (player_Mute ops w m p))" for w m
    using ok by (cases m) (auto simp: gain_ok_def player_Mute_def Let_def ops set_volume_gain
        set_muted_gain set_inv set_ready)
  show ?thesis
  proof (cases "silent_event ev")
    case True
    from silent_event_keeps [OF this, of ops p] ok show ?thesis by (simp add: gain_ok_def)
  next
    case False
    then consider w v where "ev = EvSetVolume w v" | w m where "ev = EvMute w m"
      | w c where "ev = EvCommand w c" | e f where "ev = EvStreamStart e f" | w where "ev = EvClose w"
      by (cases ev) (auto simp: silent_event_def)
    then show ?thesis
    proof cases
      case (3 w c)
      then show ?thesis using sv sm ok by (simp add: handle_command_def)
    next
      case (4 e f)
      define out where "out = (case pl_output p of None \<Rightarrow> op_New ops (pf_AudioDevice (pl_config p)) | Some out \<Rightarrow> out)"
      have inv: "out_inv out" using ok new_inv by (auto simp: out_def ops(1) gain_ok_def split: option.split)
      obtain err out' where o: "out_open e (SampleRate f) (Channels f) (BitDepth f) out = (err, out')" by fastforce
      have inv': "out_inv out'" and ready: "out_ready out' \<longleftrightarrow> err = None"
        using open_inv [OF inv, of e "SampleRate f" "Channels f" "BitDepth f"]
          open_ready [OF inv, of e "SampleRate f" "Channels f" "BitDepth f"] by (simp_all add: o)
      show ?thesis
        using inv' ready
        by (cases err) (simp_all add: 4 onStreamStart_def ops(2-4) out_def [symmetric] o Let_def gain_ok_def
            set_inv set_volume_gain set_muted_gain)
    next
      case (5 w)
      show ?thesis
      proof (cases "player_Close ops w p")
        case None
        with 5 ok show ?thesis by simp
      next
        case (Some p')
        with 5 ok close_keeps [OF Some] close_inv show ?thesis by (auto simp: gain_ok_def ops(5))
      qed
    qed (use sv sm in simp_all)
  qed
qed

lemma gain_run_ok:
  assumes "op_New ops = out_new" "op_Open ops = out_open" "op_SetVolume ops = out_set_volume"
    "op_SetMuted ops = out_set_muted" "op_Close ops = out_close" "gain_ok out_gain out_inv out_ready (pl_state p) (pl_output p)"
  shows "gain_ok out_gain out_inv out_ready (pl_state (player_run ops evs p)) (pl_output (player_run ops evs p))"
  using assms(6)
proof (induction evs arbitrary: p)
  case (Cons ev evs)
  from Cons.IH [OF gain_step_ok [OF assms(1-5) Cons.prems]] show ?case by (simp add: player_run_def)
qed (simp add: player_run_def)

end

definition malgo_ops :: "(malgo_calls, malgo_error, Malgo) output_ops" where
  "malgo_ops = \<lparr>op_New = NewMalgo, op_Open = malgo_Open, op_Close = malgo_Close,
                op_SetVolume = malgo_SetVolume, op_SetMuted = malgo_SetMuted\<rparr>"

interpretation malgo_player: player_output malgo_Open malgo_Close malgo_SetVolume malgo_SetMuted
  "\<lambda>m. (m_volume m, m_muted m)" malgo_inv m_ready NewMalgo
proof unfold_locales
  show "malgo_inv (NewMalgo name)" for name by (rule NewMalgo_inv)
  show "\<not> m_ready (NewMalgo name)" for name by (simp add: NewMalgo_def)
qed

text \<open>
  C11. For every sequence of calls of the application, commands of the server, stream starts (with any
  outcome of the audio library), connections, losses and closing: whenever the device of the player is open, it plays with
  the mute flag and, unless muted, the volume that the player reports, cut to 0..100. Volume changes
  during a mute change neither.
\<close>

theorem player_gain_in_sync:
  assumes "player_run malgo_ops evs (NewPlayer None cfg) = p" "pl_output p = Some m"
  shows "malgo_inv m \<and> (m_ready m \<longrightarrow> m_muted m = ps_Muted (pl_state p) \<and>
    (\<not> ps_Muted (pl_state p) \<longrightarrow> m_volume m = clamp_volume (ps_Volume (pl_state p))))"
proof -
  have "gain_ok (\<lambda>m. (m_volume m, m_muted m)) malgo_inv m_ready (pl_state (NewPlayer None cfg))
      (pl_output (NewPlayer None cfg))"
    by (simp add: gain_ok_def NewPlayer_def Let_def)
  then have "gain_ok (\<lambda>m. (m_volume m, m_muted m)) malgo_inv m_ready (pl_state p) (pl_output p)"
    unfolding assms(1) [symmetric] by (rule malgo_player.gain_run_ok [rotated 5]) (simp_all add: malgo_ops_def)
  with assms(2) show ?thesis by (simp add: gain_ok_def)
qed

definition works_io :: malgo_calls where
  "works_io = \<lparr>call_InitContext = None,
     call_Devices = Inr [\<lparr>dev_Name = ''Speaker'', dev_IsDefault = True, dev_ID = [1]\<rparr>],
     call_InitDevice = None, call_Start = None\<rparr>"

definition format_example :: Format where
  "format_example =
     \<lparr>Codec = ''pcm'', SampleRate = 48000, Channels = 2, BitDepth = 24, CodecHeader = []\<rparr>"

definition player_events_example :: "malgo_calls player_event list" where
  "player_events_example =
     [EvStreamStart works_io format_example, EvMute None True, EvSetVolume None 80, EvMute None False]"

lemma open_works:
  "malgo_Open works_io 48000 2 24 (NewMalgo []) =
     (None, (NewMalgo [])\<lparr>m_context := True, m_device := True, m_sampleRate := 48000, m_channels := 2,
       m_bitDepth := 24, m_ready := True, m_ringBuffer := Some (NewRingBuffer 7680)\<rparr>)"
  by (simp add: malgo_Open_def malgo_start_def closeDevice_def NewMalgo_def works_io_def matchDevice_def
      ring_capacity_def go_quot_def Let_def wrap64_id is_int64_def)

theorem player_gain_in_sync_witness:
  "\<exists>m. pl_output (player_run malgo_ops player_events_example (NewPlayer None player_config_example)) = Some m \<and>
     m_ready m \<and> \<not> m_muted m \<and> m_volume m = 30"
proof -
  let ?p = "player_run malgo_ops player_events_example (NewPlayer None player_config_example)"
  have "\<exists>m. pl_output ?p = Some m \<and> m_ready m"
    by (simp add: player_run_def player_events_example_def onStreamStart_def player_Mute_def
        player_SetVolume_def NewPlayer_def Let_def malgo_ops_def open_works player_config_example_def
        format_example_def malgo_SetVolume_def malgo_SetMuted_def)
  then obtain m where m: "pl_output ?p = Some m" "m_ready m" by blast
  have "ps_Volume (pl_state ?p) = 30" "\<not> ps_Muted (pl_state ?p)"
    by (simp_all add: player_run_def player_events_example_def onStreamStart_def player_Mute_def
        player_SetVolume_def NewPlayer_def Let_def malgo_ops_def open_works player_config_example_def
        format_example_def)
  with player_gain_in_sync [OF refl m(1)] m show ?thesis by (auto simp: clamp_volume_def)
qed

section \<open>Reported states\<close>

definition state_names :: "string set" where
  "state_names = {''idle'', ''playing'', ''paused'', ''external_source'', ''reconnecting''}"

definition valid_state :: "player_state \<Rightarrow> bool" where
  "valid_state st \<longleftrightarrow> ps_State st \<in> state_names \<and> 0 \<le> ps_Volume st \<and> ps_Volume st \<le> 100"

definition states_valid :: "('d, 'o) Player \<Rightarrow> bool" where
  "states_valid p \<longleftrightarrow> valid_state (pl_state p) \<and> list_all valid_state (pl_states p)"

text \<open>The application knows the state: it was told last, or it is still the first one, \<open>st\<close>.\<close>

definition told :: "player_state \<Rightarrow> ('d, 'o) Player \<Rightarrow> bool" where
  "told st p \<longleftrightarrow> last (st # pl_states p) = pl_state p"

lemma states_valid_notify:
  "states_valid (notifyStateChange p) \<longleftrightarrow> states_valid p"
  by (auto simp: states_valid_def)

lemma told_notify [simp]: "told st (notifyStateChange p)"
  by (simp add: told_def)

lemma states_valid_sends [simp]:
  "states_valid (snd (sendState w p)) \<longleftrightarrow> states_valid p"
  "states_valid (send_if_connected w p) \<longleftrightarrow> states_valid p"
  "states_valid (snd (with_client send p)) \<longleftrightarrow> states_valid p"
  "told st (snd (sendState w p)) \<longleftrightarrow> told st p"
  "told st (snd (with_client send p)) \<longleftrightarrow> told st p"
  by (simp_all add: states_valid_def told_def)

lemma states_valid_set:
  "states_valid p \<Longrightarrow> st \<in> state_names \<Longrightarrow>
   states_valid (p\<lparr>pl_state := (pl_state p)\<lparr>ps_Connected := c, ps_State := st\<rparr>\<rparr>)"
  "states_valid p \<Longrightarrow> st \<in> state_names \<Longrightarrow> states_valid (p\<lparr>pl_state := (pl_state p)\<lparr>ps_State := st\<rparr>\<rparr>)"
  by (auto simp: states_valid_def valid_state_def)

lemma states_valid_then:
  assumes "states_valid (snd r)" "told s0 (snd r)" "st \<in> state_names"
  shows "states_valid (snd (then_state st r)) \<and> told s0 (snd (then_state st r))"
  using assms states_valid_set(2) [OF assms(1,3)]
  by (auto simp: then_state_def states_valid_notify split: prod.split option.split)

lemma states_valid_play:
  assumes "states_valid p" "told s0 p" "st \<in> state_names"
  shows "states_valid (snd (set_play_state st w p)) \<and> told s0 (snd (set_play_state st w p))"
  using assms states_valid_set(2) [OF assms(1,3)] by (auto simp: set_play_state_def states_valid_notify)

lemma states_valid_connected:
  assumes "states_valid p"
  shows "states_valid (connected_to r p)" "told s0 (connected_to r p)"
  using assms
  by (simp_all add: connected_to_def states_valid_notify) (auto simp: states_valid_def valid_state_def)

lemma states_valid_volume:
  assumes "states_valid p"
  shows "states_valid (player_SetVolume ops w v p) \<and> told s0 (player_SetVolume ops w v p)"
  using assms by (auto simp: player_SetVolume_def Let_def states_valid_notify clamp_100_eq)
    (auto simp: states_valid_def valid_state_def clamp_volume_def)

lemma states_valid_mute:
  assumes "states_valid p"
  shows "states_valid (player_Mute ops w m p) \<and> told s0 (player_Mute ops w m p)"
  using assms by (auto simp: player_Mute_def Let_def states_valid_notify)
    (auto simp: states_valid_def valid_state_def)

lemma states_valid_close:
  assumes "states_valid p" "player_Close ops w p = Some p'"
  shows "states_valid p' \<and> told s0 p'"
proof -
  have "pl_state p' = (pl_state p)\<lparr>ps_Connected := False, ps_State := ''idle''\<rparr>"
    "pl_states p' = pl_states p @ [pl_state p']"
    using assms(2) by (auto simp: player_Close_def split: option.splits)
  with assms(1) show ?thesis by (simp add: states_valid_def valid_state_def state_names_def told_def)
qed

lemma states_valid_step:
  assumes "states_valid p" "told s0 p"
  shows "states_valid (player_step ops ev p) \<and> told s0 (player_step ops ev p)"
proof (cases ev)
  case (EvStreamStart e f)
  then show ?thesis using assms
    by (auto simp: onStreamStart_def Let_def states_valid_notify split: prod.split option.split)
      (auto simp: states_valid_def valid_state_def state_names_def told_def)
next
  case EvStreamEnd
  then show ?thesis using states_valid_set(2) [OF assms(1), of "''idle''"]
    by (simp add: onStreamEnd_def states_valid_notify state_names_def)
next
  case (EvConnect probe io)
  have "pl_states (ensureCapsResolved probe p) = pl_states p"
    by (auto simp: ensureCapsResolved_def Let_def split: sum.split prod.split)
  then have "states_valid (ensureCapsResolved probe p)" "told s0 (ensureCapsResolved probe p)"
    using assms ensureCapsResolved_keeps [of probe p] by (simp_all add: states_valid_def told_def)
  with EvConnect states_valid_connected [OF this(1)] show ?thesis
    by (auto simp: player_Connect_def buildReceiver_def Let_def split: prod.split sum.split option.split)
next
  case EvLost
  then show ?thesis using assms states_valid_set(1) [OF assms(1), of "''reconnecting''" False]
    by (simp add: lose_connection_def states_valid_notify state_names_def)
next
  case (EvAttempt a)
  have "states_valid (snd (try_connect a p))" "told s0 (snd (try_connect a p))"
    using assms try_connect_keeps [of a p] by (simp_all add: states_valid_def told_def)
  with EvAttempt states_valid_connected [OF this(1)] show ?thesis by (auto split: prod.split sum.split)
next
  case (EvClose w)
  with assms states_valid_close [OF assms(1), of ops w] show ?thesis
    by (cases "player_Close ops w p") simp_all
next
  case (EvCommand w c)
  with assms states_valid_volume [OF assms(1), of ops w "pc_Volume c"]
    states_valid_mute [OF assms(1), of ops w "pc_Mute c"] show ?thesis
    by (simp add: handle_command_def)
qed (use assms states_valid_volume states_valid_mute in \<open>simp_all add: Play_def Pause_def
    player_Stop_def states_valid_play EnterExternalSource_def ExitExternalSource_def states_valid_then
    state_names_def\<close>)

lemma states_valid_run:
  "states_valid p \<Longrightarrow> told s0 p \<Longrightarrow> states_valid (player_run ops evs p) \<and> told s0 (player_run ops evs p)"
proof (induction evs arbitrary: p)
  case (Cons ev evs)
  from states_valid_step [OF Cons.prems, of ops ev] Cons.IH show ?case by (simp add: player_run_def)
qed (simp add: player_run_def)

text \<open>
  C40. The states that a player reports to the application, when the configured volume is in 0..100:
  whatever is called, commanded, lost, reconnected and closed, one call after the other, every state has
  one of the five names that the code uses (\<open>reconnecting\<close> and \<open>external_source\<close> among them) and a volume
  in 0..100, also after commands of the server with volumes out of range; and the state reported last is
  the state that the player is in, so no change goes unreported.
\<close>

theorem reported_states_valid:
  assumes "0 \<le> pf_Volume cfg" "pf_Volume cfg \<le> 100" "p = player_run ops evs (NewPlayer out cfg)"
  shows "list_all valid_state (pl_states p) \<and>
    last (pl_state (NewPlayer out cfg) # pl_states p) = pl_state p"
proof -
  have "states_valid (NewPlayer out cfg)"
    using assms(1,2) by (simp add: states_valid_def valid_state_def state_names_def NewPlayer_def Let_def)
  moreover have "told (pl_state (NewPlayer out cfg)) (NewPlayer out cfg)"
    by (simp add: told_def NewPlayer_def Let_def)
  ultimately show ?thesis
    using states_valid_run [of "NewPlayer out cfg" "pl_state (NewPlayer out cfg)" ops evs] assms(3)
    by (simp add: states_valid_def told_def)
qed

lemma offline_run:
  assumes "pl_receiver p = None" "\<not> pl_cancelled p" "\<not> ps_Muted (pl_state p)" "pl_states p = []"
    and "ps_State (pl_state p) = ''idle''"
  shows "map (\<lambda>st. (ps_State st, ps_Volume st)) (pl_states (player_run ops
      [EvSetVolume None 250, EvLost, EvSetVolume None (- 3), EvClose None] p)) =
    [(''idle'', 100), (''reconnecting'', 100), (''reconnecting'', 0), (''idle'', 0)]"
proof -
  have set: "player_step ops (EvSetVolume None v) q = notifyStateChange
      (q\<lparr>pl_state := (pl_state q)\<lparr>ps_Volume := clamp_100 v\<rparr>,
         pl_output := map_option (op_SetVolume ops (clamp_100 v)) (pl_output q)\<rparr>)"
    if "pl_receiver q = None" "\<not> ps_Muted (pl_state q)" for q :: "('a, 'b) Player" and v
    using that by (simp add: player_SetVolume_def send_if_connected_def Let_def)
  show ?thesis
    using assms
    by (simp add: player_run_def set lose_connection_def player_Close_def notifyStateChange_def clamp_100_def
        del: player_step.simps(1))
qed

definition offline_player :: "(unit, Malgo) Player" where
  "offline_player = player_run malgo_ops [EvSetVolume None 250, EvLost, EvSetVolume None (- 3), EvClose None]
     (NewPlayer None player_config_example)"

theorem reported_states_valid_witness:
  "list_all valid_state (pl_states offline_player) \<and>
   map (\<lambda>st. (ps_State st, ps_Volume st)) (pl_states offline_player) =
     [(''idle'', 100), (''reconnecting'', 100), (''reconnecting'', 0), (''idle'', 0)]"
proof
  have vol: "0 \<le> pf_Volume player_config_example" "pf_Volume player_config_example \<le> 100"
    by (simp_all add: player_config_example_def)
  show "list_all valid_state (pl_states offline_player)"
    using reported_states_valid [OF vol offline_player_def] by (rule conjunct1)
  show "map (\<lambda>st. (ps_State st, ps_Volume st)) (pl_states offline_player) =
     [(''idle'', 100), (''reconnecting'', 100), (''reconnecting'', 0), (''idle'', 0)]"
    unfolding offline_player_def by (rule offline_run) (simp_all add: NewPlayer_def Let_def)
qed

text \<open>
  After a reconnect the player is connected and still says that it is reconnecting, until a stream starts
  or the application sets another state.
\<close>

lemma reconnected_says_reconnecting:
  assumes "\<not> pl_cancelled p" "try_connect a (lose_connection p) = (Inr r, q)"
    and "p' = player_run ops [EvLost, EvAttempt a] p"
  shows "ps_Connected (pl_state p') \<and> ps_State (pl_state p') = ''reconnecting'' \<and>
    last (pl_states p') = pl_state p'"
  using assms try_connect_keeps(1) [of a "lose_connection p"]
  by (simp add: player_run_def connected_to_def) (simp add: lose_connection_def)

text \<open>
  Connecting tells the server a volume of 100, whatever the volume of the player is, and nothing else
  about the state is sent until it changes.
\<close>

lemma connect_announces_100:
  assumes "player_Connect probe io p = (None, p')"
  shows "\<exists>r c cfg. pl_receiver p' = Some r \<and> rv_client r = Some c \<and> cl_written c = first_messages cfg \<and>
    ps_Volume (pl_state p') = ps_Volume (pl_state p)"
proof -
  have "ps_Volume (pl_state p') = ps_Volume (pl_state p)"
    using player_Connect_keeps(1) [of probe io p] assms by simp
  with assms show ?thesis
    by (fastforce simp: player_Connect_def connected_to_def notifyStateChange_def
        dest: receiver_Connect_client split: prod.splits sum.splits option.splits)
qed

text \<open>A volume out of range in the configuration is kept as it is; zero becomes 100.\<close>

lemma NewPlayer_volume:
  "ps_Volume (pl_state (NewPlayer out cfg)) = (if pf_Volume cfg = 0 then 100 else pf_Volume cfg)"
  by (simp add: NewPlayer_def Let_def)

end
