(* ===== verification/End_To_End.thy ===== *)
theory End_To_End
  imports Server_Runs Player_Model
begin

text \<open>
  Server and client together: the client's hello as the server reads it, the messages of the server's
  writer as the client's receiver handles them, from the samples of the source to the buffers of the
  playback scheduler, and the codec that the two sides settle on.
\<close>

section \<open>The hello\<close>

text \<open>
  C31. The server reads the hello of every client of this library as it was sent, and rejects it exactly
  when the id or the name is missing or one of the size limits is exceeded.
\<close>

theorem hello_understood:
  assumes "small_hello (client_hello cfg)"
  shows "parse_hello (Some (enc_Message ''client/hello'' (enc_ClientHello (client_hello cfg)))) =
    (if cc_ClientID cfg = [] \<or> cc_Name cfg = [] then Inl HelloMissingFields
     else if 256 < length (cc_ClientID cfg) \<or> 256 < length (cc_Name cfg)
       \<or> 20 < length (buildSupportedRoles cfg) then Inl HelloTooLarge
     else Inr (client_hello cfg))"
proof -
  have "ch_ClientID (client_hello cfg) = cc_ClientID cfg" "ch_Name (client_hello cfg) = cc_Name cfg"
    "ch_SupportedRoles (client_hello cfg) = buildSupportedRoles cfg"
    by (simp_all add: client_hello_def Let_def)
  then show ?thesis by (simp add: parse_hello_def client_hello_received [OF assms])
qed

theorem hello_understood_witness:
  "parse_hello (Some (enc_Message ''client/hello'' (enc_ClientHello (client_hello client_config_example))))
     = Inr (client_hello client_config_example)"
proof -
  have "small_hello (client_hello client_config_example)"
    by (simp add: small_hello_def client_hello_def client_config_example_def small_int_def Let_def)
  from hello_understood [OF this] show ?thesis
    by (simp add: client_config_example_def buildSupportedRoles_def)
qed

section \<open>Messages on the wire\<close>

fun enc_payload :: "payload \<Rightarrow> json" where
  "enc_payload (ServerHelloP h) = enc_ServerHello h"
| "enc_payload (GroupUpdateP u) = enc_GroupUpdate u"
| "enc_payload (StreamStartP s) = enc_StreamStart s"
| "enc_payload (ServerStateP s) = enc_ServerStateMessage s"
| "enc_payload (ServerTimeP t) = enc_ServerTime t"
| "enc_payload (StreamEndP roles) = enc_roles roles"
| "enc_payload (OtherP j) = j"

fun wire_message :: "outgoing \<Rightarrow> ws_message" where
  "wire_message (Frame data) = BinaryMessage data"
| "wire_message (Control ty p) = TextMessage (Some (enc_Message ty (enc_payload p)))"

text \<open>
  The receiver's handlers, each run to its end before the next message is read; \<open>now\<close> is the server
  time that they read.
\<close>

fun handle_incoming :: "'d decoder_libs \<Rightarrow> int \<Rightarrow> incoming \<Rightarrow> 'd Receiver \<Rightarrow> 'd Receiver option" where
  "handle_incoming libs now (InAudio ts d) r = handleAudioChunks libs ts d r"
| "handle_incoming libs now (InStreamStart s) r = Some (handleStreamStart libs s r)"
| "handle_incoming libs now (InStreamClear roles) r = Some (handleStreamClear roles r)"
| "handle_incoming libs now (InStreamEnd roles) r = Some (handleStreamEnd roles r)"
| "handle_incoming libs now (InState s) r = Some (handleServerState now s r)"
| "handle_incoming libs now (InGroup u) r = Some (handleGroupUpdates u r)"
| "handle_incoming libs now _ r = Some r"

definition receive :: "'d decoder_libs \<Rightarrow> int \<Rightarrow> ws_message \<Rightarrow> 'd Receiver \<Rightarrow> 'd Receiver option" where
  "receive libs now m r =
     (case incoming_of m of None \<Rightarrow> Some r | Some x \<Rightarrow> handle_incoming libs now x r)"

fun receive_all :: "'d decoder_libs \<Rightarrow> int \<Rightarrow> ws_message list \<Rightarrow> 'd Receiver \<Rightarrow> 'd Receiver option" where
  "receive_all libs now [] r = Some r"
| "receive_all libs now (m # ms) r = Option.bind (receive libs now m r) (receive_all libs now ms)"

section \<open>The default decoders\<close>

datatype 'o any_decoder = PcmDec PCMDecoder | OpusDec "'o OpusDecoder" | FlacDec FLACDecoder

definition into :: "('a \<Rightarrow> 'b) \<Rightarrow> codec_error + 'a \<Rightarrow> codec_error + 'b" where
  "into f r = (case r of Inl e \<Rightarrow> Inl e | Inr d \<Rightarrow> Inr (f d))"

text \<open>
  The Opus library is given by its constructor and its decoder, the FLAC library by the frames that it
  completes on a chunk.
\<close>

definition any_Decode ::
  "(byte list \<Rightarrow> int16 list \<Rightarrow> 'o \<Rightarrow> (string + nat) \<times> int16 list \<times> 'o) \<Rightarrow>
   (byte list \<Rightarrow> sample list list) \<Rightarrow> byte list \<Rightarrow> 'o any_decoder \<Rightarrow>
   ((codec_error + sample list) \<times> 'o any_decoder) option" where
  "any_Decode dec frames data d =
     (case d of
        PcmDec p \<Rightarrow> Some (pcm_Decode p data, PcmDec p)
      | OpusDec o' \<Rightarrow> (case opus_Decode dec o' data of (r, o') \<Rightarrow> Some (r, OpusDec o'))
      | FlacDec f \<Rightarrow>
          (case flac_Decode (frames data) f of
             None \<Rightarrow> None
           | Some (Inl e, f) \<Rightarrow> Some (Inl e, FlacDec f)
           | Some (Inr None, f) \<Rightarrow> Some (Inr [], FlacDec f)
           | Some (Inr (Some xs), f) \<Rightarrow> Some (Inr xs, FlacDec f)))"

definition default_libs ::
  "(int \<Rightarrow> int \<Rightarrow> string + 'o) \<Rightarrow>
   (byte list \<Rightarrow> int16 list \<Rightarrow> 'o \<Rightarrow> (string + nat) \<times> int16 list \<times> 'o) \<Rightarrow>
   (byte list \<Rightarrow> sample list list) \<Rightarrow> 'o any_decoder decoder_libs" where
  "default_libs new_dec dec frames =
     \<lparr>dl_opus = (\<lambda>fmt. into OpusDec (NewOpus new_dec fmt)), dl_pcm = (\<lambda>fmt. into PcmDec (NewPCM fmt)),
      dl_flac = (\<lambda>fmt. into FlacDec (NewFLAC fmt)), dl_Decode = any_Decode dec frames\<rparr>"

section \<open>What a PCM client is sent\<close>

fun is_control :: "outgoing \<Rightarrow> bool" where
  "is_control (Control ty p) = True"
| "is_control (Frame d) = False"

fun is_queue :: "stream_event \<Rightarrow> bool" where
  "is_queue (Queue ty p) = True"
| "is_queue _ = False"

lemma client_run_controls:
  assumes "sc_codec c \<noteq> ''opus''" "sc_codec c \<noteq> ''flac''" "list_all (\<lambda>ev. \<not> is_queue ev) evs"
    "client_run libs evs c = Some (wire, c')"
  shows "filter is_control (wire @ chan_buf (sc_sendChan c')) = filter is_control (chan_buf (sc_sendChan c))"
  using assms
proof (induction evs arbitrary: c wire)
  case (Cons ev evs)
  show ?case
  proof (cases ev)
    case (Tick now samples)
    let ?c1 = "send_chunk now (playback_time now) (encodePCM samples) c"
    have "client_run libs (ev # evs) c = client_run libs evs ?c1"
      using Tick Cons.prems by (simp add: stream_to_client_def encode_chunk_pcm)
    with Cons.IH [of ?c1 wire] Cons.prems send_chunk_pcm [of now "playback_time now" "encodePCM samples" c]
    show ?thesis by auto
  next
    case (Queue ty p)
    with Cons.prems(3) show ?thesis by simp
  next
    case WriterTurn
    show ?thesis
    proof (cases "writer_turn True c")
      case None
      with WriterTurn Cons show ?thesis by simp
    next
      case (Some x)
      then obtain m ms where w: "writer_turn True c = Some (m, True, c\<lparr>sc_sendChan := (sc_sendChan c)\<lparr>chan_buf := ms\<rparr>\<rparr>)"
        and buf: "chan_buf (sc_sendChan c) = m # ms"
        by (cases x) (auto simp: writer_turn_Some)
      with WriterTurn Cons.prems(4) obtain wire' where wire: "wire = m # wire'"
        and run: "client_run libs evs (c\<lparr>sc_sendChan := (sc_sendChan c)\<lparr>chan_buf := ms\<rparr>\<rparr>) = Some (wire', c')"
        by auto
      from Cons.IH [OF _ _ _ run] Cons.prems(1-3) show ?thesis by (simp add: wire buf)
    qed
  qed
qed simp

lemma subseq_of_map:
  "subseq ys (map f xs) \<Longrightarrow> \<exists>zs. ys = map f zs \<and> subseq zs xs"
proof (induction xs arbitrary: ys)
  case Nil
  then have "ys = []" by (simp add: list_emb_Nil2)
  then show ?case by simp
next
  case (Cons x xs)
  show ?case
  proof (cases ys)
    case (Cons y ys')
    show ?thesis
    proof (cases "y = f x")
      case True
      with Cons Cons.prems have "subseq ys' (map f xs)" by (simp add: subseq_Cons2_iff)
      from Cons.IH [OF this] obtain zs where "ys' = map f zs" "subseq zs xs" by blast
      then show ?thesis using True Cons by (intro exI [of _ "x # zs"]) simp
    next
      case False
      with Cons Cons.prems have "subseq ys (map f xs)" by (simp add: subseq_Cons2_iff)
      from Cons.IH [OF this] obtain zs where "ys = map f zs" "subseq zs xs" by blast
      then show ?thesis by (intro exI [of _ zs]) (simp add: list_emb_Cons)
    qed
  qed simp
qed

text \<open>The audio of a tick, and its frame.\<close>

fun source_of :: "stream_event \<Rightarrow> (int \<times> sample list) list" where
  "source_of (Tick now samples) = [(playback_time now, samples)]"
| "source_of _ = []"

definition pcm_frame :: "int \<times> sample list \<Rightarrow> byte list" where
  "pcm_frame x = CreateAudioChunk (fst x) (encodePCM (snd x))"

lemma audio_of_source: "concat (map audio_of_event evs) = map pcm_frame (concat (map source_of evs))"
proof (induction evs)
  case (Cons ev evs)
  then show ?case by (cases ev) (simp_all add: pcm_frame_def)
qed simp

lemma only_frames: "filter is_control ms = [] \<Longrightarrow> ms = map Frame (frames_of ms)"
proof (induction ms)
  case (Cons m ms)
  then show ?case by (cases m) (simp_all add: map_filter_simps')
qed (simp add: map_filter_simps')

text \<open>
  What a client that has just joined is written: nothing yet, or its \<open>stream/start\<close> and then frames of
  the source in order.
\<close>

lemma pcm_wire:
  assumes "sc_codec c \<noteq> ''opus''" "sc_codec c \<noteq> ''flac''" "list_all (\<lambda>ev. \<not> is_queue ev) evs"
    "client_run libs evs c = Some (wire, c')" "chan_buf (sc_sendChan c) = [Control ty p]"
  shows "wire = [] \<or> (\<exists>heard. wire = Control ty p # map (Frame \<circ> pcm_frame) heard \<and>
    subseq heard (concat (map source_of evs)))"
proof (cases wire)
  case (Cons m w)
  obtain sent where sent: "wire @ chan_buf (sc_sendChan c') = [Control ty p] @ sent"
    "subseq (frames_of sent) (concat (map audio_of_event evs))"
    using client_run_pcm [OF assms(1,2), of libs evs] assms(4,5) by auto
  have "filter is_control (Control ty p # sent) = [Control ty p]"
    using client_run_controls [OF assms(1-4)] sent(1) assms(5) by simp
  then have "filter is_control sent = []" by simp
  moreover have "sent = w @ chan_buf (sc_sendChan c')" "m = Control ty p" using sent(1) Cons by simp_all
  ultimately have w: "w = map Frame (frames_of w)" by (intro only_frames) simp
  have "subseq (frames_of w) (frames_of sent)"
    by (rule prefix_imp_subseq) (simp add: \<open>sent = w @ _\<close> map_filter_append)
  then have "subseq (frames_of w) (map pcm_frame (concat (map source_of evs)))"
    using sent(2) unfolding audio_of_source by (rule subseq_order.trans)
  from subseq_of_map [OF this] obtain heard where "frames_of w = map pcm_frame heard"
    "subseq heard (concat (map source_of evs))" by blast
  with w Cons \<open>m = _\<close> show ?thesis by (metis map_map)
qed simp

section \<open>What the receiver does with it\<close>

text \<open>A receiver with a 24-bit PCM decoder whose scheduler has been given the audio \<open>heard\<close>.\<close>

definition pcm_receiver :: "Format \<Rightarrow> (int \<times> sample list) list \<Rightarrow> 'o any_decoder Receiver \<Rightarrow> bool" where
  "pcm_receiver fmt heard r \<longleftrightarrow>
     rv_decoder r = Some (PcmDec \<lparr>pcm_bitDepth = 24\<rparr>) \<and> rv_format r = fmt \<and>
     (\<exists>s. rv_scheduler r = Some s \<and> heap_ok PlayAt (bufferQ s) \<and> received s = length heard \<and>
       image_mset (\<lambda>b. (Timestamp b, Samples b)) (mset (bufferQ s)) = mset heard \<and>
       (\<forall>b \<in> set (bufferQ s). buf_Format b = fmt \<and>
          PlayAt b = ServerToLocalTime (rv_clockSync r) (Timestamp b) + staticDelay s))"

definition audible :: "int \<times> sample list \<Rightarrow> bool" where
  "audible x \<longleftrightarrow> snd x \<noteq> []"

lemma pcm_decodes:
  "list_all in_24bit xs \<Longrightarrow> pcm_Decode \<lparr>pcm_bitDepth = 24\<rparr> (encodePCM xs) = Inr xs"
  by (auto simp: decode_encoded24 from24_to24 list_all_iff intro!: map_idI)

lemma receive_frame:
  assumes "pcm_receiver fmt heard r" "list_all in_24bit xs" "is_int64 t"
  shows "\<exists>r'. receive (default_libs new_dec dec frames) now (BinaryMessage (pcm_frame (t, xs))) r = Some r' \<and>
    pcm_receiver fmt (heard @ filter audible [(t, xs)]) r' \<and> rv_callbacks r' = rv_callbacks r \<and>
    rv_clockSync r' = rv_clockSync r"
proof -
  obtain s where r: "rv_decoder r = Some (PcmDec \<lparr>pcm_bitDepth = 24\<rparr>)" "rv_scheduler r = Some s"
    and ok: "heap_ok PlayAt (bufferQ s)"
    using assms(1) by (auto simp: pcm_receiver_def)
  let ?b = "\<lparr>Timestamp = t, PlayAt = zero_time, Samples = xs, buf_Format = rv_format r\<rparr>"
  have run: "receive (default_libs new_dec dec frames) now (BinaryMessage (pcm_frame (t, xs))) r =
      Some (if xs = [] then r\<lparr>rv_decoder := rv_decoder r\<rparr>
            else r\<lparr>rv_decoder := rv_decoder r,
                   rv_scheduler := Some (Schedule (rv_clockSync r) ?b s)\<rparr>)"
    using assms(2,3) r
    by (simp add: receive_def pcm_frame_def handleBinaryMessage_def parse_audio wrap64_id handleAudioChunks_def
        default_libs_def any_Decode_def pcm_decodes)
  show ?thesis
  proof (cases "xs = []")
    case True
    with run assms(1) show ?thesis by (simp add: audible_def pcm_receiver_def)
  next
    case False
    have m: "mset (bufferQ (Schedule (rv_clockSync r) ?b s)) =
        add_mset (?b\<lparr>PlayAt := ServerToLocalTime (rv_clockSync r) t + staticDelay s\<rparr>) (mset (bufferQ s))"
      using pq.push_contents [OF ok] by (simp add: Schedule_def Let_def)
    then have "set (bufferQ (Schedule (rv_clockSync r) ?b s)) =
        insert (?b\<lparr>PlayAt := ServerToLocalTime (rv_clockSync r) t + staticDelay s\<rparr>) (set (bufferQ s))"
      by (metis set_mset_add_mset_insert set_mset_mset)
    moreover have "heap_ok PlayAt (bufferQ (Schedule (rv_clockSync r) ?b s))"
      using pq.push_wf [OF ok] by (simp add: Schedule_def Let_def)
    moreover have "received (Schedule (rv_clockSync r) ?b s) = received s + 1"
      "staticDelay (Schedule (rv_clockSync r) ?b s) = staticDelay s"
      by (simp_all add: Schedule_def Let_def)
    ultimately show ?thesis
      using run False assms(1) r m by (simp add: audible_def pcm_receiver_def)
  qed
qed

lemma source_of_int64: "x \<in> set (source_of ev) \<Longrightarrow> is_int64 (fst x)"
  by (cases ev) (simp_all add: playback_time_def)

lemma receive_frames:
  assumes "pcm_receiver fmt heard r" "list_all (\<lambda>x. is_int64 (fst x) \<and> list_all in_24bit (snd x)) new"
  shows "\<exists>r'. receive_all (default_libs new_dec dec frames) now (map (BinaryMessage \<circ> pcm_frame) new) r = Some r' \<and>
    pcm_receiver fmt (heard @ filter audible new) r' \<and> rv_callbacks r' = rv_callbacks r \<and>
    rv_clockSync r' = rv_clockSync r"
  using assms
proof (induction new arbitrary: heard r)
  case (Cons x new)
  obtain t xs where x: "x = (t, xs)" by (cases x)
  obtain r1 where r1: "receive (default_libs new_dec dec frames) now (BinaryMessage (pcm_frame x)) r = Some r1"
    "pcm_receiver fmt (heard @ filter audible [x]) r1" "rv_callbacks r1 = rv_callbacks r"
    "rv_clockSync r1 = rv_clockSync r"
    using receive_frame [OF Cons.prems(1), of xs t new_dec dec frames now] Cons.prems(2) by (auto simp: x)
  from Cons.IH [OF r1(2)] Cons.prems(2) r1 show ?case by (auto split: if_splits)
qed simp

definition pcm_format :: "('o, 'f) PlayerRoleConfig \<Rightarrow> Format" where
  "pcm_format cfg =
     \<lparr>Codec = ''pcm'', SampleRate = prc_SampleRate cfg, Channels = int (prc_Channels cfg), BitDepth = 24,
      CodecHeader = []\<rparr>"

lemma receive_stream_start:
  assumes "small_player (stream_start_for cfg ''pcm'' None)" "prc_BitDepth cfg = 24"
    "rc_DecoderFactory (rv_config r) = None"
  shows "\<exists>r'. receive (default_libs new_dec dec frames) now (wire_message (Control ''stream/start''
      (StreamStartP \<lparr>ss_Player = Some (stream_start_for cfg ''pcm'' None), ss_Artwork = None\<rparr>))) r = Some r' \<and>
    pcm_receiver (pcm_format cfg) [] r' \<and> rv_clockSync r' = rv_clockSync r \<and>
    rv_callbacks r' = rv_callbacks r @ [OnStreamStart (pcm_format cfg)]"
proof -
  have fmt: "stream_format (stream_start_for cfg ''pcm'' None) = pcm_format cfg"
    by (simp add: stream_format_def stream_start_for_def pcm_format_def assms(2))
  have dec: "make_decoder (default_libs new_dec dec frames) (rv_config r) (pcm_format cfg)
      = Inr (PcmDec \<lparr>pcm_bitDepth = 24\<rparr>)"
    by (simp add: make_decoder_def assms(3) defaultDecoder_def default_libs_def pcm_format_def NewPCM_def
        into_def Let_def)
  have "incoming_of (wire_message (Control ''stream/start''
      (StreamStartP \<lparr>ss_Player = Some (stream_start_for cfg ''pcm'' None), ss_Artwork = None\<rparr>)))
    = Some (InStreamStart \<lparr>ss_Player = Some (stream_start_for cfg ''pcm'' None), ss_Artwork = None\<rparr>)"
    by (simp add: handleJSONMessage_def route_json_def stream_start_roundtrip [OF assms(1)])
  then show ?thesis
    by (simp add: receive_def handleStreamStart_def fmt dec Let_def notify_def pcm_receiver_def
        NewScheduler_def pq.empty_wf) (simp add: NewBufferQueue_def)
qed

text \<open>
  C1. End to end: for a player that joins with an empty queue and is streamed 24-bit PCM, whatever the
  pacing and the writer do, the receiver that handles what has been written schedules exactly a
  subsequence of the source's chunks, each with its samples and its time stamp unchanged and due at the
  local time of that time stamp plus the static delay, and reports the start of the stream and no error.
\<close>

theorem pcm_end_to_end:
  assumes joined: "HasRole c0 ''player''" "chan_buf (sc_sendChan c0) = []" "chan_room (sc_sendChan c0)"
      "negotiateCodec c0 (prc_SampleRate cfg) = ''pcm''"
    and depth: "prc_BitDepth cfg = 24" "small_player (stream_start_for cfg ''pcm'' None)"
    and run: "client_run libs evs (player_OnClientJoin cfg c0) = Some (wire, c')"
      "list_all (\<lambda>ev. \<not> is_queue ev) evs"
      "list_all (\<lambda>x. list_all in_24bit (snd x)) (concat (map source_of evs))"
    and receiver: "rc_DecoderFactory (rv_config r) = None" "wire \<noteq> []"
  shows "\<exists>r' heard. receive_all (default_libs new_dec dec frames) now (map wire_message wire) r = Some r' \<and>
    subseq heard (concat (map source_of evs)) \<and> pcm_receiver (pcm_format cfg) (filter audible heard) r' \<and>
    rv_callbacks r' = rv_callbacks r @ [OnStreamStart (pcm_format cfg)] \<and> length wire = Suc (length heard)"
proof -
  let ?start = "Control ''stream/start''
      (StreamStartP \<lparr>ss_Player = Some (stream_start_for cfg ''pcm'' None), ss_Artwork = None\<rparr>)"
  define c where "c = player_OnClientJoin cfg c0"
  have c: "sc_codec c = ''pcm''" "chan_buf (sc_sendChan c) = [?start]"
    using joined by (simp_all add: c_def player_OnClientJoin_def setup_codec_def Let_def try_send_eq)
  obtain heard where heard: "wire = ?start # map (Frame \<circ> pcm_frame) heard"
    "subseq heard (concat (map source_of evs))"
    using pcm_wire [OF _ _ run(2) run(1) [folded c_def] c(2)] c(1) receiver(2) by auto
  have "is_int64 (fst x)" if "x \<in> set (concat (map source_of evs))" for x
    using that by (auto dest: source_of_int64)
  moreover have "set heard \<subseteq> set (concat (map source_of evs))"
    using heard(2) by (auto elim: list_emb_set)
  ultimately have sane: "list_all (\<lambda>x. is_int64 (fst x) \<and> list_all in_24bit (snd x)) heard"
    using run(3) unfolding list_all_iff by blast
  obtain r1 where r1: "receive (default_libs new_dec dec frames) now (wire_message ?start) r = Some r1"
    "pcm_receiver (pcm_format cfg) [] r1" "rv_callbacks r1 = rv_callbacks r @ [OnStreamStart (pcm_format cfg)]"
    using receive_stream_start [OF depth(2,1) receiver(1)] by blast
  obtain r2 where r2: "receive_all (default_libs new_dec dec frames) now (map (BinaryMessage \<circ> pcm_frame) heard) r1 = Some r2"
    "pcm_receiver (pcm_format cfg) ([] @ filter audible heard) r2" "rv_callbacks r2 = rv_callbacks r1"
    using receive_frames [OF r1(2) sane] by blast
  have "map wire_message wire = wire_message ?start # map (BinaryMessage \<circ> pcm_frame) heard"
    by (simp add: heard(1))
  then have "receive_all (default_libs new_dec dec frames) now (map wire_message wire) r = Some r2"
    using r1(1) r2(1) by (simp del: wire_message.simps)
  with r1 r2 heard show ?thesis by (intro exI [of _ r2] exI [of _ heard]) simp
qed

definition pcm_cfg_example :: "(unit, unit) PlayerRoleConfig" where
  "pcm_cfg_example =
     \<lparr>prc_SampleRate = 48000, prc_Channels = 2, prc_BitDepth = 24, prc_NewEncoder = None,
      prc_NewFLACEncoder = None\<rparr>"

definition pcm_client_example :: "(unit, unit) ServerClient" where
  "pcm_client_example = new_client ''id'' ''speaker'' [''player@v1''] None"

definition pcm_events_example :: "stream_event list" where
  "pcm_events_example = [WriterTurn, Tick 5 [1, 2, 3], WriterTurn]"

definition any_receiver_example :: "unit any_decoder Receiver" where
  "any_receiver_example = the (NewReceiver
     \<lparr>rc_ServerAddr = ''host:8927'', rc_PlayerName = ''Kitchen'', rc_BufferMs = 500,
      rc_StaticDelayMs = 0, rc_PreferredCodec = [], rc_BufferCapacity = 0, rc_MaxSampleRate = 0,
      rc_MaxBitDepth = 0, rc_ClientID = ''id'',
      rc_DeviceInfo = \<lparr>di_ProductName = [], di_Manufacturer = [], di_SoftwareVersion = []\<rparr>,
      rc_DecoderFactory = None\<rparr>)"

lemma pcm_run_example:
  "\<exists>m1 m2 c'. client_run libs_example pcm_events_example (player_OnClientJoin pcm_cfg_example pcm_client_example)
     = Some ([m1, m2], c')"
proof -
  have len: "length (CreateAudioChunk t (encodePCM [1, 2, 3])) = 18" for t
    by (simp add: length_CreateAudioChunk BinaryMessageHeaderSize_def)
  have prune: "PruneConsumed 5 (NewBufferTracker 1048576) = NewBufferTracker 1048576"
    by (subst PruneConsumed.simps) (simp add: NewBufferTracker_def)
  have can: "CanSend (NewBufferTracker 1048576) 18 20000"
    by (simp add: CanSend_def NewBufferTracker_def wrap64_id is_int64_def DefaultMaxBufferDurationUs_def)
  have "HasRole pcm_client_example ''player''" by code_simp
  note role = this [unfolded pcm_client_example_def new_client_def]
  show ?thesis
    by (simp add: pcm_events_example_def player_OnClientJoin_def role try_send_eq setup_codec_def
        negotiateCodec_def pcm_client_example_def new_client_def Let_def chan_room_def writer_turn_def
        chan_take_def chan_put_def stream_to_client_def encode_chunk_def send_chunk_def len prune can
        ChunkDurationMs_def SendBinary_def send_outgoing_def chan_offer_def)
qed

theorem pcm_end_to_end_witness:
  "\<exists>wire r' s. receive_all (default_libs (\<lambda>_ _. Inl []) (\<lambda>_ b d. (Inr 0, b, d)) (\<lambda>_. [])) 0
      (map wire_message wire) any_receiver_example = Some r' \<and> rv_scheduler r' = Some s \<and>
    map (\<lambda>b. (Timestamp b, Samples b)) (bufferQ s) = [(500005, [1, 2, 3])]"
proof -
  obtain m1 m2 c' where run: "client_run libs_example pcm_events_example
      (player_OnClientJoin pcm_cfg_example pcm_client_example) = Some ([m1, m2], c')"
    using pcm_run_example by blast
  have joined: "HasRole pcm_client_example ''player''" by code_simp
  have c0: "chan_buf (sc_sendChan pcm_client_example) = []" "chan_room (sc_sendChan pcm_client_example)"
    "negotiateCodec pcm_client_example (prc_SampleRate pcm_cfg_example) = ''pcm''"
    by (simp_all add: pcm_client_example_def new_client_def chan_room_def negotiateCodec_def)
  have cfg: "prc_BitDepth pcm_cfg_example = 24" "small_player (stream_start_for pcm_cfg_example ''pcm'' None)"
    by (simp_all add: pcm_cfg_example_def small_player_def stream_start_for_def small_int_def)
  have evs: "list_all (\<lambda>ev. \<not> is_queue ev) pcm_events_example"
    "concat (map source_of pcm_events_example) = [(500005, [1, 2, 3])]"
    by (simp_all add: pcm_events_example_def playback_time_def BufferAheadMs_def wrap64_id is_int64_def)
  have in24: "list_all (\<lambda>x. list_all in_24bit (snd x)) (concat (map source_of pcm_events_example))"
    unfolding evs by (simp add: in_24bit_def Min24Bit_def Max24Bit_def)
  have factory: "rc_DecoderFactory (rv_config any_receiver_example) = None"
    by (simp add: any_receiver_example_def NewReceiver_def)
  note all = pcm_end_to_end [OF joined c0 cfg run evs(1) in24 factory list.distinct(2),
      of "\<lambda>_ _. Inl []" "\<lambda>_ b d. (Inr 0, b, d)" "\<lambda>_. []" 0, unfolded evs(2)]
  obtain r' heard where r': "receive_all (default_libs (\<lambda>_ _. Inl []) (\<lambda>_ b d. (Inr 0, b, d)) (\<lambda>_. [])) 0
      (map wire_message [m1, m2]) any_receiver_example = Some r'"
    "subseq heard [(500005, [1, 2, 3])]" "pcm_receiver (pcm_format pcm_cfg_example) (filter audible heard) r'"
    "length [m1, m2] = Suc (length heard)"
    using all by (elim exE conjE) (rule that)
  have "heard = [(500005, [1, 2, 3])]" using r'(2,4) by (intro subseq_same_length) simp_all
  then have "filter audible heard = [(500005, [1, 2, 3])]" by (simp add: audible_def)
  with r'(3) obtain s where s: "rv_scheduler r' = Some s"
    "image_mset (\<lambda>b. (Timestamp b, Samples b)) (mset (bufferQ s)) = {#(500005, [1, 2, 3])#}"
    unfolding pcm_receiver_def by (elim exE conjE) (rule that, assumption, simp)
  have "mset (map (\<lambda>b. (Timestamp b, Samples b)) (bufferQ s)) = {#(500005, [1, 2, 3])#}"
    unfolding mset_map by (rule s(2))
  then have "map (\<lambda>b. (Timestamp b, Samples b)) (bufferQ s) = [(500005, [1, 2, 3])]"
    by (simp only: mset_single_iff)
  with r'(1) s(1) show ?thesis by (intro exI [of _ "[m1, m2]"] exI [of _ r'] exI [of _ s] conjI)
qed

section \<open>The codec of a stream\<close>

lemma negotiate_skip:
  "(\<And>f. f \<in> set xs \<Longrightarrow> af_Codec f = ''pcm'' \<and> af_SampleRate f \<noteq> rate) \<Longrightarrow>
   negotiate_loop (xs @ ys) rate = negotiate_loop ys rate"
  by (induction xs) auto

lemma negotiate_flac:
  "xs \<noteq> [] \<Longrightarrow> (\<And>f. f \<in> set xs \<Longrightarrow> af_Codec f = ''flac'') \<Longrightarrow> negotiate_loop (xs @ ys) rate = ''flac''"
  by (cases xs) auto

lemma formats_by_codec:
  "allFormats = filter (\<lambda>f. af_Codec f = ''pcm'') allFormats @ filter (\<lambda>f. af_Codec f = ''flac'') allFormats
     @ filter (\<lambda>f. af_Codec f = ''opus'') allFormats"
  by (simp add: allFormats_def)

text \<open>
  A cap on the sample rate does not bound the stream. For a source above the cap, a client that does
  not prefer Opus is streamed FLAC as soon as one FLAC format is below the caps, and \<open>stream/start\<close>
  announces the rate of the source, which the client did not advertise.
\<close>

theorem capped_client_gets_source_rate:
  assumes "codec \<in> {[], ''pcm'', ''flac''}" "44100 \<le> maxRate" "maxRate < prc_SampleRate cfg"
    "maxDepth \<le> 0 \<or> 16 \<le> maxDepth"
    "sc_capabilities c = Some caps" "ps_SupportedFormats caps = buildSupportedFormats codec maxRate maxDepth"
  shows "negotiateCodec c (prc_SampleRate cfg) = ''flac'' \<and>
    list_all (\<lambda>f. af_SampleRate f < sp_SampleRate (stream_start_for cfg ''flac'' enc)) (ps_SupportedFormats caps)"
proof -
  define ok where "ok = (\<lambda>f :: AudioFormat. (maxRate \<le> 0 \<or> af_SampleRate f \<le> maxRate) \<and>
      (maxDepth \<le> 0 \<or> af_BitDepth f \<le> maxDepth))"
  define part where "part = (\<lambda>k. filter ok (filter (\<lambda>f. af_Codec f = k) allFormats))"
  have part: "filter ok allFormats = part ''pcm'' @ part ''flac'' @ part ''opus''"
    unfolding part_def filter_append [symmetric] formats_by_codec [symmetric] by (rule refl)
  have codecs: "af_Codec f = k" if "f \<in> set (part k)" for f k using that by (simp add: part_def)
  have rates: "af_SampleRate f < prc_SampleRate cfg" if "ok f" for f using that assms(2,3) by (auto simp: ok_def)
  have pcm: "af_Codec f = ''pcm'' \<and> af_SampleRate f \<noteq> prc_SampleRate cfg" if "f \<in> set (part ''pcm'')" for f
    using that rates [of f] by (auto simp: part_def)
  have "\<lparr>af_Codec = ''flac'', af_Channels = 2, af_SampleRate = 44100, af_BitDepth = 16\<rparr> \<in> set (part ''flac'')"
    using assms(2,4) by (auto simp: part_def ok_def allFormats_def)
  then have flac: "part ''flac'' \<noteq> []" by auto
  have fs: "ps_SupportedFormats caps \<in> {part ''pcm'' @ part ''flac'' @ part ''opus'',
      part ''flac'' @ part ''pcm'' @ part ''opus''}"
  proof -
    have cap: "cap_formats maxRate maxDepth allFormats = part ''pcm'' @ part ''flac'' @ part ''opus''"
      unfolding part [symmetric] cap_formats_filter ok_def by (rule refl)
    have sel: "filter (\<lambda>f. af_Codec f = k) (part k') = (if k = k' then part k' else [])"
      "filter (\<lambda>f. af_Codec f \<noteq> k) (part k') = (if k = k' then [] else part k')" for k k'
      using codecs by (auto simp: filter_empty_conv filter_id_conv)
    show ?thesis
      using assms(1,6) by (auto simp: buildSupportedFormats_def Let_def cap split_preferred_filter sel)
  qed
  have "negotiate_loop (ps_SupportedFormats caps) (prc_SampleRate cfg) = ''flac''"
    using fs negotiate_skip [OF pcm] negotiate_flac [OF flac codecs] by auto
  moreover have "set (ps_SupportedFormats caps) \<subseteq> {f. ok f}" using fs by (auto simp: part_def)
  ultimately show ?thesis
    using rates assms(5) by (auto simp: negotiateCodec_def stream_start_for_def list_all_iff)
qed

theorem capped_client_gets_source_rate_witness:
  "negotiateCodec
     (new_client ''id'' ''speaker'' [''player@v1'']
       (Some \<lparr>ps_SupportedFormats = buildSupportedFormats [] 48000 16, ps_BufferCapacity = 1048576,
              ps_SupportedCommands = []\<rparr>) :: (unit, unit) ServerClient) 192000 = ''flac'' \<and>
   sp_SampleRate (stream_start_for (pcm_cfg_example\<lparr>prc_SampleRate := 192000\<rparr>) ''flac'' None) = 192000"
  using capped_client_gets_source_rate [of "[]" 48000 "pcm_cfg_example\<lparr>prc_SampleRate := 192000\<rparr>" 16
      "new_client ''id'' ''speaker'' [''player@v1'']
       (Some \<lparr>ps_SupportedFormats = buildSupportedFormats [] 48000 16, ps_BufferCapacity = 1048576,
              ps_SupportedCommands = []\<rparr>) :: (unit, unit) ServerClient"]
  by (simp add: new_client_def stream_start_for_def)

end
