(* ===== verification/Config_Files.thy ===== *)
theory Config_Files
  imports Wire_Frames Go_Strings
begin

text \<open>
  The configuration of the two programs: the flags of \<open>main.go\<close> and \<open>cmd/sendspin-server/main.go\<close>,
  the YAML files and environment variables laid over them (\<open>config_common.go\<close>,
  \<open>config_player.go\<close>, \<open>config_server.go\<close>) and the values written back to the file. The YAML library
  is a parameter (\<open>yaml_ops\<close>), as are the results of the calls of the operating system.
\<close>

section \<open>Laying values over flags\<close>

text \<open>\<open>strings.ToUpper\<close> and \<open>strings.ReplaceAll\<close> on flag names, which are ASCII.\<close>

definition upper_char :: "char \<Rightarrow> char" where
  "upper_char c =
     (let n = of_char c :: nat in if 97 \<le> n \<and> n \<le> 122 then char_of (n - 32) else c)"

definition to_upper :: "string \<Rightarrow> string" where
  "to_upper s = map upper_char s"

definition snake :: "string \<Rightarrow> string" where
  "snake s = map (\<lambda>c. if c = CHR ''-'' then CHR ''_'' else c) s"

definition env_key :: "string \<Rightarrow> string \<Rightarrow> string" where
  "env_key pre name = pre @ to_upper (snake name)"

record 'v Flag =
  fg_Name :: string
  fg_Value :: 'v

datatype overlay_error = EnvError string string string | FileError string string string

text \<open>
  \<open>set_value v s\<close> is the method \<open>Set\<close> of the interface \<open>flag.Value\<close>: the error, if any, and the
  value that the flag then has. \<open>env\<close> is \<open>os.LookupEnv\<close>. One visit of a flag:
\<close>

definition overlay_flag ::
  "('v \<Rightarrow> string \<Rightarrow> string option \<times> 'v) \<Rightarrow> (string \<Rightarrow> bool) \<Rightarrow> string \<Rightarrow> (string \<Rightarrow> string option) \<Rightarrow>
   (string \<rightharpoonup> string) \<Rightarrow> 'v Flag \<Rightarrow> overlay_error option \<times> 'v Flag" where
  "overlay_flag set_value setByUser pre env fileValues f =
     (if setByUser (fg_Name f) then (None, f)
      else let envKey = env_key pre (fg_Name f) in
        case env envKey of
          Some val \<Rightarrow>
            (case set_value (fg_Value f) val of
               (e, v) \<Rightarrow> (map_option (EnvError envKey (fg_Name f)) e, f\<lparr>fg_Value := v\<rparr>))
        | None \<Rightarrow>
            (let configKey = snake (fg_Name f) in
             case fileValues configKey of
               None \<Rightarrow> (None, f)
             | Some val \<Rightarrow>
                 (case set_value (fg_Value f) val of
                    (e, v) \<Rightarrow> (map_option (FileError configKey (fg_Name f)) e, f\<lparr>fg_Value := v\<rparr>))))"

text \<open>\<open>VisitAll\<close> visits the flags in the order of their names; after an error nothing is set.\<close>

fun ApplyEnvAndFile ::
  "('v \<Rightarrow> string \<Rightarrow> string option \<times> 'v) \<Rightarrow> (string \<Rightarrow> bool) \<Rightarrow> string \<Rightarrow> (string \<Rightarrow> string option) \<Rightarrow>
   (string \<rightharpoonup> string) \<Rightarrow> 'v Flag list \<Rightarrow> overlay_error option \<times> 'v Flag list" where
  "ApplyEnvAndFile set_value setByUser pre env fileValues [] = (None, [])"
| "ApplyEnvAndFile set_value setByUser pre env fileValues (f # fs) =
     (case overlay_flag set_value setByUser pre env fileValues f of
        (Some e, f) \<Rightarrow> (Some e, f # fs)
      | (None, f) \<Rightarrow>
          (case ApplyEnvAndFile set_value setByUser pre env fileValues fs of
             (e, fs) \<Rightarrow> (e, f # fs)))"

section \<open>Flag values\<close>

datatype flag_value = StringFlag string | IntFlag int | BoolFlag bool

text \<open>\<open>strconv.ParseBool\<close>.\<close>

definition parse_bool :: "string \<Rightarrow> bool option" where
  "parse_bool s =
     (if s \<in> {''1'', ''t'', ''T'', ''TRUE'', ''true'', ''True''} then Some True
      else if s \<in> {''0'', ''f'', ''F'', ''FALSE'', ''false'', ''False''} then Some False
      else None)"

definition format_bool :: "bool \<Rightarrow> string" where
  "format_bool b = (if b then ''true'' else ''false'')"

text \<open>
  \<open>strconv.ParseInt(s, 0, 64)\<close>: a sign, a prefix that gives the base, digits that may be separated
  by underscores. The second result is what \<open>Set\<close> stores: 0 after a syntax error, the nearest
  64-bit integer when the number is out of range.
\<close>

definition digit_of :: "char \<Rightarrow> nat option" where
  "digit_of c =
     (let n = of_char c :: nat in
      if 48 \<le> n \<and> n \<le> 57 then Some (n - 48)
      else if 97 \<le> n \<and> n \<le> 122 then Some (n - 87)
      else if 65 \<le> n \<and> n \<le> 90 then Some (n - 55)
      else None)"

datatype parsed = SyntaxError | RangeError | Parsed nat

fun parse_digits :: "nat \<Rightarrow> nat \<Rightarrow> string \<Rightarrow> parsed" where
  "parse_digits base acc [] = Parsed acc"
| "parse_digits base acc (c # cs) =
     (if c = CHR ''_'' then parse_digits base acc cs
      else case digit_of c of
        None \<Rightarrow> SyntaxError
      | Some d \<Rightarrow>
          if base \<le> d then SyntaxError
          else if 2 ^ 64 \<le> base * acc + d then RangeError
          else parse_digits base (base * acc + d) cs)"

definition int_prefix :: "string \<Rightarrow> nat \<times> string" where
  "int_prefix s =
     (case s of
        c # x # cs \<Rightarrow>
          if c \<noteq> CHR ''0'' then (10, s)
          else if cs \<noteq> [] \<and> x \<in> {CHR ''b'', CHR ''B''} then (2, cs)
          else if cs \<noteq> [] \<and> x \<in> {CHR ''o'', CHR ''O''} then (8, cs)
          else if cs \<noteq> [] \<and> x \<in> {CHR ''x'', CHR ''X''} then (16, cs)
          else (8, x # cs)
      | [c] \<Rightarrow> if c = CHR ''0'' then (8, []) else (10, s)
      | [] \<Rightarrow> (10, []))"

text \<open>An underscore stands between two digits, or between the base prefix and a digit.\<close>

fun underscores_ok :: "bool \<Rightarrow> string \<Rightarrow> bool" where
  "underscores_ok after_digit [] \<longleftrightarrow> True"
| "underscores_ok after_digit [c] \<longleftrightarrow> c \<noteq> CHR ''_''"
| "underscores_ok after_digit (c # d # cs) \<longleftrightarrow>
     (if c = CHR ''_'' then after_digit \<and> d \<noteq> CHR ''_'' \<and> underscores_ok False (d # cs)
      else underscores_ok True (d # cs))"

definition parse_int :: "string \<Rightarrow> string option \<times> int" where
  "parse_int s0 =
     (let neg = (s0 \<noteq> [] \<and> hd s0 = CHR ''-'');
          s = (if s0 \<noteq> [] \<and> hd s0 \<in> {CHR ''-'', CHR ''+''} then tl s0 else s0);
          base = fst (int_prefix s); digits = snd (int_prefix s);
          out_of_range = (Some ''value out of range'', if neg then - (2 ^ 63) else 2 ^ 63 - 1)
      in if s = [] then (Some ''parse error'', 0)
         else case parse_digits base 0 digits of
           SyntaxError \<Rightarrow> (Some ''parse error'', 0)
         | RangeError \<Rightarrow> out_of_range
         | Parsed n \<Rightarrow>
             if \<not> underscores_ok (base \<noteq> 10) digits then (Some ''parse error'', 0)
             else if (if neg then 2 ^ 63 < n else 2 ^ 63 \<le> n) then out_of_range
             else (None, if neg then - int n else int n))"

definition set_flag :: "flag_value \<Rightarrow> string \<Rightarrow> string option \<times> flag_value" where
  "set_flag v s =
     (case v of
        StringFlag _ \<Rightarrow> (None, StringFlag s)
      | IntFlag _ \<Rightarrow> (case parse_int s of (e, i) \<Rightarrow> (e, IntFlag i))
      | BoolFlag _ \<Rightarrow>
          (case parse_bool s of
             None \<Rightarrow> (Some ''parse error'', BoolFlag False)
           | Some b \<Rightarrow> (None, BoolFlag b)))"

section \<open>The files\<close>

record PlayerConfigFile =
  cp_Name :: string
  cp_Server :: string
  cp_Port :: "int option"
  cp_BufferMs :: "int option"
  cp_StaticDelayMs :: "int option"
  cp_LogFile :: string
  cp_NoTUI :: "bool option"
  cp_StreamLogs :: "bool option"
  cp_ProductName :: string
  cp_Manufacturer :: string
  cp_NoReconnect :: "bool option"
  cp_Daemon :: "bool option"
  cp_PreferredCodec :: string
  cp_BufferCapacity :: "int option"
  cp_ClientID :: string
  cp_AudioDevice :: string
  cp_MaxSampleRate :: "int option"
  cp_MaxBitDepth :: "int option"

record ServerConfigFile =
  cs_Name :: string
  cs_Port :: "int option"
  cs_LogFile :: string
  cs_Debug :: "bool option"
  cs_NoMDNS :: "bool option"
  cs_NoTUI :: "bool option"
  cs_Audio :: string
  cs_DiscoverClients :: "bool option"
  cs_Daemon :: "bool option"

text \<open>One \<open>if\<close> of \<open>AsStringMap\<close>, for a string, an integer and a flag that may be absent.\<close>

definition add_string :: "string \<Rightarrow> string \<Rightarrow> (string \<rightharpoonup> string) \<Rightarrow> (string \<rightharpoonup> string)" where
  "add_string k s m = (if s \<noteq> [] then m(k \<mapsto> s) else m)"

definition add_int :: "string \<Rightarrow> int option \<Rightarrow> (string \<rightharpoonup> string) \<Rightarrow> (string \<rightharpoonup> string)" where
  "add_int k i m = (case i of None \<Rightarrow> m | Some i \<Rightarrow> m(k \<mapsto> show_int i))"

definition add_bool :: "string \<Rightarrow> bool option \<Rightarrow> (string \<rightharpoonup> string) \<Rightarrow> (string \<rightharpoonup> string)" where
  "add_bool k b m = (case b of None \<Rightarrow> m | Some b \<Rightarrow> m(k \<mapsto> format_bool b))"

definition player_AsStringMap :: "PlayerConfigFile option \<Rightarrow> (string \<rightharpoonup> string)" where
  "player_AsStringMap cfg =
     (case cfg of
        None \<Rightarrow> Map.empty
      | Some c \<Rightarrow>
          let m = add_string ''name'' (cp_Name c) Map.empty;
              m = add_string ''server'' (cp_Server c) m;
              m = add_int ''port'' (cp_Port c) m;
              m = add_int ''buffer_ms'' (cp_BufferMs c) m;
              m = add_int ''static_delay_ms'' (cp_StaticDelayMs c) m;
              m = add_string ''log_file'' (cp_LogFile c) m;
              m = add_bool ''no_tui'' (cp_NoTUI c) m;
              m = add_bool ''stream_logs'' (cp_StreamLogs c) m;
              m = add_string ''product_name'' (cp_ProductName c) m;
              m = add_string ''manufacturer'' (cp_Manufacturer c) m;
              m = add_bool ''no_reconnect'' (cp_NoReconnect c) m;
              m = add_bool ''daemon'' (cp_Daemon c) m;
              m = add_string ''preferred_codec'' (cp_PreferredCodec c) m;
              m = add_int ''buffer_capacity'' (cp_BufferCapacity c) m;
              m = add_string ''client_id'' (cp_ClientID c) m;
              m = add_string ''audio_device'' (cp_AudioDevice c) m;
              m = add_int ''max_sample_rate'' (cp_MaxSampleRate c) m
          in add_int ''max_bit_depth'' (cp_MaxBitDepth c) m)"

definition server_AsStringMap :: "ServerConfigFile option \<Rightarrow> (string \<rightharpoonup> string)" where
  "server_AsStringMap cfg =
     (case cfg of
        None \<Rightarrow> Map.empty
      | Some c \<Rightarrow>
          let m = add_string ''name'' (cs_Name c) Map.empty;
              m = add_int ''port'' (cs_Port c) m;
              m = add_string ''log_file'' (cs_LogFile c) m;
              m = add_bool ''debug'' (cs_Debug c) m;
              m = add_bool ''no_mdns'' (cs_NoMDNS c) m;
              m = add_bool ''no_tui'' (cs_NoTUI c) m;
              m = add_string ''audio'' (cs_Audio c) m;
              m = add_bool ''discover_clients'' (cs_DiscoverClients c) m
          in add_bool ''daemon'' (cs_Daemon c) m)"

section \<open>The flags of the two programs\<close>

text \<open>In the order in which \<open>VisitAll\<close> visits them.\<close>

definition player_flags :: "flag_value Flag list" where
  "player_flags = map (\<lambda>(n, v). \<lparr>fg_Name = n, fg_Value = v\<rparr>)
     [(''audio-device'', StringFlag ''''),
      (''buffer-capacity'', IntFlag 1048576),
      (''buffer-ms'', IntFlag 150),
      (''client-id'', StringFlag ''''),
      (''config'', StringFlag ''''),
      (''daemon'', BoolFlag False),
      (''list-audio-devices'', BoolFlag False),
      (''log-file'', StringFlag ''sendspin-player.log''),
      (''manufacturer'', StringFlag ''''),
      (''max-bit-depth'', IntFlag 0),
      (''max-sample-rate'', IntFlag 0),
      (''name'', StringFlag ''''),
      (''no-reconnect'', BoolFlag False),
      (''no-tui'', BoolFlag False),
      (''port'', IntFlag 8927),
      (''preferred-codec'', StringFlag ''''),
      (''product-name'', StringFlag ''''),
      (''server'', StringFlag ''''),
      (''static-delay-ms'', IntFlag 0),
      (''stream-logs'', BoolFlag False)]"

definition server_flags :: "flag_value Flag list" where
  "server_flags = map (\<lambda>(n, v). \<lparr>fg_Name = n, fg_Value = v\<rparr>)
     [(''audio'', StringFlag ''''),
      (''config'', StringFlag ''''),
      (''daemon'', BoolFlag False),
      (''debug'', BoolFlag False),
      (''discover-clients'', BoolFlag False),
      (''log-file'', StringFlag ''sendspin-server.log''),
      (''name'', StringFlag ''''),
      (''no-mdns'', BoolFlag False),
      (''no-tui'', BoolFlag False),
      (''port'', IntFlag 8927)]"

text \<open>\<open>setByUser\<close>: the flags that \<open>flag.Visit\<close> reports as given, and those the overlay leaves alone.\<close>

definition player_setByUser :: "(string \<Rightarrow> bool) \<Rightarrow> string \<Rightarrow> bool" where
  "player_setByUser given name \<longleftrightarrow>
     name \<in> {''client-id'', ''config'', ''list-audio-devices''} \<or> given name"

definition server_setByUser :: "(string \<Rightarrow> bool) \<Rightarrow> string \<Rightarrow> bool" where
  "server_setByUser given name \<longleftrightarrow> name = ''config'' \<or> given name"

section \<open>Finding and loading a file\<close>

text \<open>What \<open>os.ReadFile\<close> returns, and the functions of the YAML library that the code calls.\<close>

datatype 'b read_result = NotExist | ReadError string | ReadOk 'b

datatype node_kind = ZeroNode | DocumentNode | SequenceNode | MappingNode | ScalarNode | AliasNode

datatype Node =
  Node (nd_Kind: node_kind) (nd_Tag: string) (nd_Value: string) (nd_Style: nat)
    (nd_Content: "Node list") (nd_Comments: "string list")

record ('b, 'cfg) yaml_ops =
  ym_Unmarshal :: "'b \<Rightarrow> string + Node"
  ym_Decode :: "'b \<Rightarrow> string + 'cfg"
  ym_Marshal :: "Node \<Rightarrow> string + 'b"

datatype config_error =
    ReadFailed string string
  | ParseFailed string string
  | MarshalFailed string
  | MkdirFailed string string
  | WriteTempFailed string
  | RenameFailed string

text \<open>The path that was tried last, and its contents or the error; \<open>([], Inr None)\<close> when none exists.\<close>

fun loadYAMLConfig ::
  "(string \<Rightarrow> 'b read_result) \<Rightarrow> ('b \<Rightarrow> string + 'cfg) \<Rightarrow> string list \<Rightarrow>
   string \<times> (config_error + 'cfg option)" where
  "loadYAMLConfig read decode [] = ([], Inr None)"
| "loadYAMLConfig read decode (candidate # paths) =
     (if candidate = [] then loadYAMLConfig read decode paths
      else case read candidate of
        NotExist \<Rightarrow> loadYAMLConfig read decode paths
      | ReadError e \<Rightarrow> (candidate, Inl (ReadFailed candidate e))
      | ReadOk data \<Rightarrow>
          (case decode data of
             Inl e \<Rightarrow> (candidate, Inl (ParseFailed candidate e))
           | Inr cfg \<Rightarrow> (candidate, Inr (Some cfg))))"

text \<open>\<open>filepath.Join(dir, "sendspin", relative)\<close> for a clean directory on Unix.\<close>

definition userConfigPath :: "string + string \<Rightarrow> string \<Rightarrow> string + string" where
  "userConfigPath dir relative =
     (case dir of Inl e \<Rightarrow> Inl e | Inr d \<Rightarrow> Inr (d @ ''/sendspin/'' @ relative))"

definition search_paths :: "string \<Rightarrow> string option \<Rightarrow> string + string \<Rightarrow> string \<Rightarrow> string \<Rightarrow> string list" where
  "search_paths explicit env dir relative system =
     (if explicit \<noteq> [] then [explicit] else []) @
     (case env of None \<Rightarrow> [] | Some e \<Rightarrow> if e \<noteq> [] then [e] else []) @
     (case userConfigPath dir relative of Inl e \<Rightarrow> [] | Inr p \<Rightarrow> [p]) @
     [system]"

definition playerConfigSearchPaths ::
  "(string \<Rightarrow> string option) \<Rightarrow> string + string \<Rightarrow> string \<Rightarrow> string list" where
  "playerConfigSearchPaths env dir explicit =
     search_paths explicit (env ''SENDSPIN_PLAYER_CONFIG'') dir ''player.yaml'' ''/etc/sendspin/player.yaml''"

definition serverConfigSearchPaths ::
  "(string \<Rightarrow> string option) \<Rightarrow> string + string \<Rightarrow> string \<Rightarrow> string list" where
  "serverConfigSearchPaths env dir explicit =
     search_paths explicit (env ''SENDSPIN_SERVER_CONFIG'') dir ''server.yaml'' ''/etc/sendspin/server.yaml''"

text \<open>\<open>LoadPlayerConfig\<close> and \<open>LoadServerConfig\<close>: the configuration (or \<open>nil\<close>) and its path.\<close>

definition load_config ::
  "(string \<Rightarrow> 'b read_result) \<Rightarrow> ('b \<Rightarrow> string + 'cfg) \<Rightarrow> string list \<Rightarrow>
   'cfg option \<times> string \<times> config_error option" where
  "load_config read decode paths =
     (case loadYAMLConfig read decode paths of
        (used, Inl e) \<Rightarrow> (None, used, Some e)
      | (used, Inr cfg) \<Rightarrow> if used = [] then (None, [], None) else (cfg, used, None))"

section \<open>Writing a key back\<close>

text \<open>
  \<open>topLevelMapping\<close> returns a pointer into the document it may have initialised; here the document
  is returned, and its mapping is its first content.
\<close>

definition has_mapping :: "Node \<Rightarrow> bool" where
  "has_mapping root \<longleftrightarrow>
     nd_Kind root = DocumentNode \<and> nd_Content root \<noteq> [] \<and> nd_Kind (hd (nd_Content root)) = MappingNode"

definition with_content :: "Node list \<Rightarrow> Node \<Rightarrow> Node" where
  "with_content cs n = Node (nd_Kind n) (nd_Tag n) (nd_Value n) (nd_Style n) cs (nd_Comments n)"

definition topLevelMapping :: "Node \<Rightarrow> Node" where
  "topLevelMapping root =
     (if has_mapping root then root
      else Node DocumentNode (nd_Tag root) (nd_Value root) (nd_Style root)
             [Node MappingNode '''' '''' 0 [] []] (nd_Comments root))"

text \<open>The loop of \<open>setOrAppendScalarKey\<close> over the alternating keys and values.\<close>

fun set_or_append :: "string \<Rightarrow> string \<Rightarrow> string \<Rightarrow> Node list \<Rightarrow> Node list" where
  "set_or_append key val tag (k # v # rest) =
     (if nd_Value k = key
      then k # Node ScalarNode tag val 0 (nd_Content v) (nd_Comments v) # rest
      else k # v # set_or_append key val tag rest)"
| "set_or_append key val tag rest =
     rest @ [Node ScalarNode ''!!str'' key 0 [] [], Node ScalarNode tag val 0 [] []]"

definition setOrAppendScalarKey :: "string \<Rightarrow> string \<Rightarrow> string \<Rightarrow> Node \<Rightarrow> Node" where
  "setOrAppendScalarKey key val tag mapping =
     with_content (set_or_append key val tag (nd_Content mapping)) mapping"

text \<open>
  The file system is a map from paths to contents. \<open>os_io\<close> are the results of the system calls:
  an error where a call fails, and what a failed \<open>WriteFile\<close> leaves behind.
\<close>

record 'b os_io =
  os_mkdir :: "string option"
  os_write :: "string option"
  os_partial :: "'b option"
  os_rename :: "string option"

definition atomicWriteFile ::
  "'b os_io \<Rightarrow> string \<Rightarrow> 'b \<Rightarrow> (string \<rightharpoonup> 'b) \<Rightarrow> config_error option \<times> (string \<rightharpoonup> 'b)" where
  "atomicWriteFile io path data files =
     (let tmp = path @ ''.tmp'' in
      case os_mkdir io of
        Some e \<Rightarrow> (Some (MkdirFailed path e), files)
      | None \<Rightarrow>
          (case os_write io of
             Some e \<Rightarrow> (Some (WriteTempFailed e), files(tmp := os_partial io))
           | None \<Rightarrow>
               (case os_rename io of
                  Some e \<Rightarrow> (Some (RenameFailed e), files(tmp := None))
                | None \<Rightarrow> (None, (files(tmp := None))(path \<mapsto> data)))))"

text \<open>Reading; \<open>bad\<close> is an error other than that the file does not exist.\<close>

definition read_file :: "string option \<Rightarrow> (string \<rightharpoonup> 'b) \<Rightarrow> string \<Rightarrow> 'b read_result" where
  "read_file bad files path =
     (case bad of
        Some e \<Rightarrow> ReadError e
      | None \<Rightarrow> (case files path of None \<Rightarrow> NotExist | Some data \<Rightarrow> ReadOk data))"

definition writeScalarKey ::
  "('b, 'cfg) yaml_ops \<Rightarrow> string option \<Rightarrow> 'b os_io \<Rightarrow> string \<Rightarrow> string \<Rightarrow> string \<Rightarrow> string \<Rightarrow>
   (string \<rightharpoonup> 'b) \<Rightarrow> config_error option \<times> (string \<rightharpoonup> 'b)" where
  "writeScalarKey ym bad io path key val tag files =
     (case (case read_file bad files path of
              ReadOk data \<Rightarrow> (case ym_Unmarshal ym data of
                               Inl e \<Rightarrow> Inl (ParseFailed path e) | Inr root \<Rightarrow> Inr root)
            | NotExist \<Rightarrow> Inr (Node ZeroNode '''' '''' 0 [] [])
            | ReadError e \<Rightarrow> Inl (ReadFailed path e)) of
        Inl e \<Rightarrow> (Some e, files)
      | Inr root \<Rightarrow>
          (let root = topLevelMapping root;
               root = with_content
                 (setOrAppendScalarKey key val tag (hd (nd_Content root)) # tl (nd_Content root)) root
           in case ym_Marshal ym root of
                Inl e \<Rightarrow> (Some (MarshalFailed e), files)
              | Inr buf \<Rightarrow> atomicWriteFile io path buf files))"

definition WriteStringKey where
  "WriteStringKey ym bad io path key val files = writeScalarKey ym bad io path key val ''!!str'' files"

definition WriteIntKey where
  "WriteIntKey ym bad io path key val files =
     writeScalarKey ym bad io path key (show_int val) ''!!int'' files"

definition PersistStaticDelay ::
  "('b, 'cfg) yaml_ops \<Rightarrow> string option \<Rightarrow> 'b os_io \<Rightarrow> string \<Rightarrow> int option \<Rightarrow> int \<Rightarrow>
   (string \<rightharpoonup> 'b) \<Rightarrow> (config_error + bool) \<times> (string \<rightharpoonup> 'b)" where
  "PersistStaticDelay ym bad io path current val files =
     (if current = Some val then (Inr False, files)
      else case WriteIntKey ym bad io path ''static_delay_ms'' val files of
        (Some e, files) \<Rightarrow> (Inl e, files)
      | (None, files) \<Rightarrow> (Inr True, files))"

section \<open>Decimal integers are read back\<close>

lemma parse_digits_append:
  "parse_digits b acc (xs @ ys) =
     (case parse_digits b acc xs of
        Parsed a \<Rightarrow> parse_digits b a ys | SyntaxError \<Rightarrow> SyntaxError | RangeError \<Rightarrow> RangeError)"
  by (induction b acc xs rule: parse_digits.induct) (simp_all split: option.split)

lemma digit_of_digit_char: "d < 10 \<Longrightarrow> digit_of (digit_char d) = Some d"
  by (simp add: digit_of_def digit_char_def Let_def)

lemma digit_char_not_underscore: "d < 10 \<Longrightarrow> digit_char d \<noteq> CHR ''_''"
  using digit_value_char [of d] by (auto simp: digit_value_def)

lemma digit_char_0: "digit_char 0 = CHR ''0''"
  by code_simp

lemma parse_show_nat: "n < 2 ^ 64 \<Longrightarrow> parse_digits 10 0 (show_nat n) = Parsed n"
proof (induction n rule: less_induct)
  case (less n)
  show ?case
  proof (cases "n < 10")
    case True
    with less.prems show ?thesis
      by (simp add: show_nat.simps [of n] digit_of_digit_char digit_char_not_underscore)
  next
    case False
    have "parse_digits 10 0 (show_nat (n div 10)) = Parsed (n div 10)"
      by (rule less.IH) (use False less.prems in auto)
    moreover have "10 * (n div 10) + n mod 10 = n" by simp
    ultimately show ?thesis
      using False less.prems
      by (simp add: show_nat.simps [of n] parse_digits_append digit_of_digit_char
          digit_char_not_underscore)
  qed
qed

lemma hd_show_nat: "0 < n \<Longrightarrow> hd (show_nat n) \<noteq> CHR ''0''"
proof (induction n rule: less_induct)
  case (less n)
  show ?case
  proof (cases "n < 10")
    case True
    with less.prems digit_char_inj [of n 0] show ?thesis
      by (simp add: show_nat.simps [of n] digit_char_0)
  next
    case False
    with less.IH [of "n div 10"] show ?thesis by (simp add: show_nat.simps [of n])
  qed
qed

lemma int_prefix_show_nat: "0 < n \<Longrightarrow> int_prefix (show_nat n) = (10, show_nat n)"
proof -
  assume "0 < n"
  obtain c cs where c: "show_nat n = c # cs" by (cases "show_nat n") auto
  with hd_show_nat [OF \<open>0 < n\<close>] have "c \<noteq> CHR ''0''" by simp
  then show "int_prefix (show_nat n) = (10, show_nat n)"
    unfolding c int_prefix_def by (cases cs) simp_all
qed

lemma underscores_ok_digits: "CHR ''_'' \<notin> set s \<Longrightarrow> underscores_ok a s"
  by (induction a s rule: underscores_ok.induct) auto

lemma show_nat_no_underscore: "CHR ''_'' \<notin> set (show_nat n)"
proof
  assume "CHR ''_'' \<in> set (show_nat n)"
  then obtain d where "d < 10" "CHR ''_'' = digit_char d" by (blast dest: show_nat_digits)
  with digit_char_not_underscore [of d] show False by simp
qed

lemma show_nat_0: "show_nat 0 = ''0''"
  by (simp add: show_nat.simps digit_char_0)

lemma hd_show_nat_not_sign: "hd (show_nat n) \<noteq> CHR ''-'' \<and> hd (show_nat n) \<noteq> CHR ''+''"
proof -
  obtain d where "d < 10" "hd (show_nat n) = digit_char d"
    using show_nat_digits [of "hd (show_nat n)" n] by auto
  then show ?thesis using digit_not_sign by metis
qed

lemma parse_show_int:
  assumes "- (2 ^ 63) \<le> i" "i < 2 ^ 63"
  shows "parse_int (show_int i) = (None, i)"
proof (cases i "0 :: int" rule: linorder_cases)
  case equal
  then show ?thesis by (simp add: parse_int_def show_int_def show_nat_0 int_prefix_def)
next
  case less
  define n where "n = nat (- i)"
  have n: "0 < n" "n \<le> 2 ^ 63" "- int n = i"
    using assms less by (auto simp: n_def nat_le_iff)
  from n(2) have "parse_digits 10 0 (show_nat n) = Parsed n" by (intro parse_show_nat) simp
  with n less show ?thesis
    by (simp add: parse_int_def show_int_def n_def [symmetric] int_prefix_show_nat
        underscores_ok_digits show_nat_no_underscore)
next
  case greater
  define n where "n = nat i"
  have n: "0 < n" "n < 2 ^ 63" "int n = i"
    using assms greater by (auto simp: n_def nat_less_iff)
  from n(2) have "parse_digits 10 0 (show_nat n) = Parsed n" by (intro parse_show_nat) simp
  with n greater hd_show_nat_not_sign [of n] show ?thesis
    by (simp add: parse_int_def show_int_def n_def [symmetric] int_prefix_show_nat
        underscores_ok_digits show_nat_no_underscore)
qed

section \<open>What the overlay does\<close>

text \<open>A value that prints and reads: the contract between \<open>AsStringMap\<close> and \<open>flag.Value\<close>.\<close>

locale printed_value =
  fixes set_value :: "'v \<Rightarrow> string \<Rightarrow> string option \<times> 'v"
    and show_value :: "'v \<Rightarrow> string"
    and like :: "'v \<Rightarrow> 'v \<Rightarrow> bool"
  assumes set_show: "like v w \<Longrightarrow> set_value v (show_value w) = (None, w)"
begin

lemma overlay_from_file:
  assumes "\<not> setByUser (fg_Name f)" "env (env_key pre (fg_Name f)) = None"
    and "fileValues (snake (fg_Name f)) = map_option show_value w"
    and "\<And>x. w = Some x \<Longrightarrow> like (fg_Value f) x"
  shows "overlay_flag set_value setByUser pre env fileValues f =
         (None, f\<lparr>fg_Value := (case w of None \<Rightarrow> fg_Value f | Some x \<Rightarrow> x)\<rparr>)"
  using assms by (cases w) (simp_all add: overlay_flag_def set_show Let_def)

end

definition show_flag :: "flag_value \<Rightarrow> string" where
  "show_flag v =
     (case v of StringFlag s \<Rightarrow> s | IntFlag i \<Rightarrow> show_int i | BoolFlag b \<Rightarrow> format_bool b)"

definition same_kind :: "flag_value \<Rightarrow> flag_value \<Rightarrow> bool" where
  "same_kind v w =
     (case (v, w) of
        (StringFlag _, StringFlag _) \<Rightarrow> True
      | (IntFlag _, IntFlag i) \<Rightarrow> - (2 ^ 63) \<le> i \<and> i < 2 ^ 63
      | (BoolFlag _, BoolFlag _) \<Rightarrow> True
      | _ \<Rightarrow> False)"

lemma parse_format_bool: "parse_bool (format_bool b) = Some b"
  by (simp add: parse_bool_def format_bool_def)

interpretation flag_value: printed_value set_flag show_flag same_kind
proof
  fix v w
  assume "same_kind v w"
  then show "set_flag v (show_flag w) = (None, w)"
    by (cases v; cases w)
      (simp_all add: same_kind_def set_flag_def show_flag_def parse_show_int parse_format_bool)
qed

text \<open>Looking a key up in the map of a file.\<close>

lemma add_string_lookup:
  "add_string k s m k' = (if k' = k \<and> s \<noteq> [] then Some s else m k')"
  by (simp add: add_string_def)

lemma add_int_lookup:
  "add_int k i m k' = (if k' = k \<and> i \<noteq> None then map_option show_int i else m k')"
  by (cases i) (simp_all add: add_int_def)

lemma add_bool_lookup:
  "add_bool k b m k' = (if k' = k \<and> b \<noteq> None then map_option format_bool b else m k')"
  by (cases b) (simp_all add: add_bool_def)

lemmas as_map_simps = add_string_lookup add_int_lookup add_bool_lookup

text \<open>
  When every value is accepted, a flag ends with the value of the command line if it was given
  there, else of its environment variable, else of its key in the file, else its default.
\<close>

theorem overlay_precedence:
  assumes "ApplyEnvAndFile set_value setByUser pre env fileValues flags = (None, flags')"
  shows "flags' = map (\<lambda>f. f\<lparr>fg_Value :=
           (if setByUser (fg_Name f) then fg_Value f
            else case env (env_key pre (fg_Name f)) of
              Some s \<Rightarrow> snd (set_value (fg_Value f) s)
            | None \<Rightarrow> (case fileValues (snake (fg_Name f)) of
                Some s \<Rightarrow> snd (set_value (fg_Value f) s)
              | None \<Rightarrow> fg_Value f))\<rparr>) flags"
  using assms
proof (induction flags arbitrary: flags')
  case Nil
  then show ?case by simp
next
  case (Cons f flags)
  then show ?case
    by (auto simp: overlay_flag_def Let_def split: prod.splits option.splits if_splits)
qed

section \<open>From the file to the flags\<close>

definition string_key :: "string \<Rightarrow> string option" where
  "string_key s = (if s \<noteq> [] then Some s else None)"

lemma absent_key: "(if i \<noteq> None then map_option f i else None) = map_option f i"
  by (cases i) simp_all

lemma player_map:
  "player_AsStringMap (Some c) ''name'' = string_key (cp_Name c)"
  "player_AsStringMap (Some c) ''server'' = string_key (cp_Server c)"
  "player_AsStringMap (Some c) ''port'' = map_option show_int (cp_Port c)"
  "player_AsStringMap (Some c) ''buffer_ms'' = map_option show_int (cp_BufferMs c)"
  "player_AsStringMap (Some c) ''static_delay_ms'' = map_option show_int (cp_StaticDelayMs c)"
  "player_AsStringMap (Some c) ''log_file'' = string_key (cp_LogFile c)"
  "player_AsStringMap (Some c) ''no_tui'' = map_option format_bool (cp_NoTUI c)"
  "player_AsStringMap (Some c) ''stream_logs'' = map_option format_bool (cp_StreamLogs c)"
  "player_AsStringMap (Some c) ''product_name'' = string_key (cp_ProductName c)"
  "player_AsStringMap (Some c) ''manufacturer'' = string_key (cp_Manufacturer c)"
  "player_AsStringMap (Some c) ''no_reconnect'' = map_option format_bool (cp_NoReconnect c)"
  "player_AsStringMap (Some c) ''daemon'' = map_option format_bool (cp_Daemon c)"
  "player_AsStringMap (Some c) ''preferred_codec'' = string_key (cp_PreferredCodec c)"
  "player_AsStringMap (Some c) ''buffer_capacity'' = map_option show_int (cp_BufferCapacity c)"
  "player_AsStringMap (Some c) ''client_id'' = string_key (cp_ClientID c)"
  "player_AsStringMap (Some c) ''audio_device'' = string_key (cp_AudioDevice c)"
  "player_AsStringMap (Some c) ''max_sample_rate'' = map_option show_int (cp_MaxSampleRate c)"
  "player_AsStringMap (Some c) ''max_bit_depth'' = map_option show_int (cp_MaxBitDepth c)"
  by (simp_all add: player_AsStringMap_def as_map_simps Let_def string_key_def absent_key)

lemma server_map:
  "server_AsStringMap (Some c) ''name'' = string_key (cs_Name c)"
  "server_AsStringMap (Some c) ''port'' = map_option show_int (cs_Port c)"
  "server_AsStringMap (Some c) ''log_file'' = string_key (cs_LogFile c)"
  "server_AsStringMap (Some c) ''debug'' = map_option format_bool (cs_Debug c)"
  "server_AsStringMap (Some c) ''no_mdns'' = map_option format_bool (cs_NoMDNS c)"
  "server_AsStringMap (Some c) ''no_tui'' = map_option format_bool (cs_NoTUI c)"
  "server_AsStringMap (Some c) ''audio'' = string_key (cs_Audio c)"
  "server_AsStringMap (Some c) ''discover_clients'' = map_option format_bool (cs_DiscoverClients c)"
  "server_AsStringMap (Some c) ''daemon'' = map_option format_bool (cs_Daemon c)"
  by (simp_all add: server_AsStringMap_def as_map_simps Let_def string_key_def absent_key)

definition ints_fit :: "int option list \<Rightarrow> bool" where
  "ints_fit xs \<longleftrightarrow> list_all (\<lambda>i. case i of None \<Rightarrow> True | Some i \<Rightarrow> - (2 ^ 63) \<le> i \<and> i < 2 ^ 63) xs"

lemma ApplyEnvAndFile_all2:
  assumes "list_all2 (\<lambda>f g. overlay_flag set_value u pre env m f = (None, g)) fs gs"
  shows "ApplyEnvAndFile set_value u pre env m fs = (None, gs)"
  using assms by (induction rule: list_all2_induct) simp_all

text \<open>One flag of each type against the value that the file may hold for it.\<close>

lemma string_from_file:
  assumes "\<not> u n" "m (snake n) = string_key s"
  shows "overlay_flag set_flag u pre (\<lambda>_. None) m \<lparr>fg_Name = n, fg_Value = StringFlag d\<rparr> =
         (None, \<lparr>fg_Name = n, fg_Value = StringFlag (if s = [] then d else s)\<rparr>)"
  using flag_value.overlay_from_file [where w = "map_option StringFlag (string_key s)"
      and f = "\<lparr>fg_Name = n, fg_Value = StringFlag d\<rparr>" and setByUser = u and fileValues = m
      and env = "\<lambda>_. None" and pre = pre] assms
  by (cases "s = []") (simp_all add: string_key_def show_flag_def same_kind_def)

lemma empty_from_file:
  assumes "\<not> u n" "m (snake n) = string_key s"
  shows "overlay_flag set_flag u pre (\<lambda>_. None) m \<lparr>fg_Name = n, fg_Value = StringFlag ''''\<rparr> =
         (None, \<lparr>fg_Name = n, fg_Value = StringFlag s\<rparr>)"
  using string_from_file [of u n m s pre "''''"] assms by simp

lemma int_from_file:
  assumes "\<not> u n" "m (snake n) = map_option show_int i"
    and "case i of None \<Rightarrow> True | Some i \<Rightarrow> - (2 ^ 63) \<le> i \<and> i < 2 ^ 63"
  shows "overlay_flag set_flag u pre (\<lambda>_. None) m \<lparr>fg_Name = n, fg_Value = IntFlag d\<rparr> =
         (None, \<lparr>fg_Name = n, fg_Value = IntFlag (case i of None \<Rightarrow> d | Some i \<Rightarrow> i)\<rparr>)"
  using flag_value.overlay_from_file [where w = "map_option IntFlag i"
      and f = "\<lparr>fg_Name = n, fg_Value = IntFlag d\<rparr>" and setByUser = u and fileValues = m
      and env = "\<lambda>_. None" and pre = pre] assms
  by (cases i) (simp_all add: show_flag_def same_kind_def)

lemma bool_from_file:
  assumes "\<not> u n" "m (snake n) = map_option format_bool b"
  shows "overlay_flag set_flag u pre (\<lambda>_. None) m \<lparr>fg_Name = n, fg_Value = BoolFlag d\<rparr> =
         (None, \<lparr>fg_Name = n, fg_Value = BoolFlag (case b of None \<Rightarrow> d | Some b \<Rightarrow> b)\<rparr>)"
  using flag_value.overlay_from_file [where w = "map_option BoolFlag b"
      and f = "\<lparr>fg_Name = n, fg_Value = BoolFlag d\<rparr>" and setByUser = u and fileValues = m
      and env = "\<lambda>_. None" and pre = pre] assms
  by (cases b) (simp_all add: show_flag_def same_kind_def)

lemma left_alone: "u n \<Longrightarrow> overlay_flag set_flag u pre env m \<lparr>fg_Name = n, fg_Value = v\<rparr> =
    (None, \<lparr>fg_Name = n, fg_Value = v\<rparr>)"
  by (simp add: overlay_flag_def)

text \<open>
  Without flags and environment variables the flags end with the typed values of the file:
  every key is printed, found under the name of its flag, and parsed back to the same value.
\<close>

theorem config_file_reaches_flags:
  assumes "ints_fit [cp_Port c, cp_BufferMs c, cp_StaticDelayMs c, cp_BufferCapacity c,
                     cp_MaxSampleRate c, cp_MaxBitDepth c]"
  shows "ApplyEnvAndFile set_flag (player_setByUser (\<lambda>_. False)) ''SENDSPIN_PLAYER_'' (\<lambda>_. None)
           (player_AsStringMap (Some c)) player_flags =
         (None, map (\<lambda>(n, v). \<lparr>fg_Name = n, fg_Value = v\<rparr>)
           [(''audio-device'', StringFlag (cp_AudioDevice c)),
            (''buffer-capacity'', IntFlag (case cp_BufferCapacity c of None \<Rightarrow> 1048576 | Some x \<Rightarrow> x)),
            (''buffer-ms'', IntFlag (case cp_BufferMs c of None \<Rightarrow> 150 | Some x \<Rightarrow> x)),
            (''client-id'', StringFlag ''''),
            (''config'', StringFlag ''''),
            (''daemon'', BoolFlag (case cp_Daemon c of None \<Rightarrow> False | Some x \<Rightarrow> x)),
            (''list-audio-devices'', BoolFlag False),
            (''log-file'', StringFlag (if cp_LogFile c = [] then ''sendspin-player.log'' else cp_LogFile c)),
            (''manufacturer'', StringFlag (cp_Manufacturer c)),
            (''max-bit-depth'', IntFlag (case cp_MaxBitDepth c of None \<Rightarrow> 0 | Some x \<Rightarrow> x)),
            (''max-sample-rate'', IntFlag (case cp_MaxSampleRate c of None \<Rightarrow> 0 | Some x \<Rightarrow> x)),
            (''name'', StringFlag (cp_Name c)),
            (''no-reconnect'', BoolFlag (case cp_NoReconnect c of None \<Rightarrow> False | Some x \<Rightarrow> x)),
            (''no-tui'', BoolFlag (case cp_NoTUI c of None \<Rightarrow> False | Some x \<Rightarrow> x)),
            (''port'', IntFlag (case cp_Port c of None \<Rightarrow> 8927 | Some x \<Rightarrow> x)),
            (''preferred-codec'', StringFlag (cp_PreferredCodec c)),
            (''product-name'', StringFlag (cp_ProductName c)),
            (''server'', StringFlag (cp_Server c)),
            (''static-delay-ms'', IntFlag (case cp_StaticDelayMs c of None \<Rightarrow> 0 | Some x \<Rightarrow> x)),
            (''stream-logs'', BoolFlag (case cp_StreamLogs c of None \<Rightarrow> False | Some x \<Rightarrow> x))])" (is "_ = (None, ?flags)")
proof -
  note ints = assms [unfolded ints_fit_def list.pred_inject]
  note found = player_map [of c] player_setByUser_def snake_def
  have "list_all2 (\<lambda>f g. overlay_flag set_flag (player_setByUser (\<lambda>_. False)) ''SENDSPIN_PLAYER_'' (\<lambda>_. None)
      (player_AsStringMap (Some c)) f = (None, g)) player_flags ?flags"
    unfolding player_flags_def list.map prod.case list_all2_Cons list_all2_Nil
    by (intro conjI refl;
        ((rule left_alone, (simp add: player_setByUser_def; fail)) | rule empty_from_file |
          rule string_from_file | rule int_from_file | rule bool_from_file);
        simp add: found ints)
  then show ?thesis by (rule ApplyEnvAndFile_all2)
qed

theorem overlay_precedence_witness:
  "ApplyEnvAndFile set_flag (\<lambda>n. n = ''port'') ''SENDSPIN_PLAYER_''
     (\<lambda>k. if k = ''SENDSPIN_PLAYER_NAME'' then Some ''Hall'' else None)
     [''name'' \<mapsto> ''Den'', ''port'' \<mapsto> ''1'', ''server'' \<mapsto> ''h:1'']
     [\<lparr>fg_Name = ''name'', fg_Value = StringFlag ''''\<rparr>, \<lparr>fg_Name = ''port'', fg_Value = IntFlag 9\<rparr>,
      \<lparr>fg_Name = ''server'', fg_Value = StringFlag ''''\<rparr>] =
   (None, [\<lparr>fg_Name = ''name'', fg_Value = StringFlag ''Hall''\<rparr>, \<lparr>fg_Name = ''port'', fg_Value = IntFlag 9\<rparr>,
      \<lparr>fg_Name = ''server'', fg_Value = StringFlag ''h:1''\<rparr>])"
  (is "ApplyEnvAndFile ?set ?u ?p ?env ?m ?fs = (None, ?gs)")
proof -
  have key: "env_key ''SENDSPIN_PLAYER_'' ''name'' = ''SENDSPIN_PLAYER_NAME''"
    "env_key ''SENDSPIN_PLAYER_'' ''server'' = ''SENDSPIN_PLAYER_SERVER''"
    by code_simp+
  have "fst (ApplyEnvAndFile ?set ?u ?p ?env ?m ?fs) = None"
    by (simp add: overlay_flag_def key snake_def set_flag_def)
  then obtain gs where gs: "ApplyEnvAndFile ?set ?u ?p ?env ?m ?fs = (None, gs)"
    by (cases "ApplyEnvAndFile ?set ?u ?p ?env ?m ?fs") simp
  from overlay_precedence [OF gs] have "gs = ?gs"
    by (simp add: key snake_def set_flag_def)
  with gs show ?thesis by simp
qed

definition sample_player_config :: PlayerConfigFile where
  "sample_player_config =
     \<lparr>cp_Name = ''Hall'', cp_Server = '''', cp_Port = Some 9000, cp_BufferMs = None,
      cp_StaticDelayMs = Some (- 20), cp_LogFile = '''', cp_NoTUI = Some True, cp_StreamLogs = None,
      cp_ProductName = '''', cp_Manufacturer = '''', cp_NoReconnect = None, cp_Daemon = None,
      cp_PreferredCodec = ''flac'', cp_BufferCapacity = None, cp_ClientID = ''c'', cp_AudioDevice = '''',
      cp_MaxSampleRate = None, cp_MaxBitDepth = None\<rparr>"

theorem config_file_reaches_flags_witness:
  "\<lparr>fg_Name = ''static-delay-ms'', fg_Value = IntFlag (- 20)\<rparr> \<in> set (snd (ApplyEnvAndFile set_flag
      (player_setByUser (\<lambda>_. False)) ''SENDSPIN_PLAYER_'' (\<lambda>_. None)
      (player_AsStringMap (Some sample_player_config)) player_flags))"
proof -
  have "ints_fit [cp_Port sample_player_config, cp_BufferMs sample_player_config,
      cp_StaticDelayMs sample_player_config, cp_BufferCapacity sample_player_config,
      cp_MaxSampleRate sample_player_config, cp_MaxBitDepth sample_player_config]"
    by (simp add: ints_fit_def sample_player_config_def)
  from config_file_reaches_flags [OF this] show ?thesis
    by (simp add: sample_player_config_def)
qed

section \<open>What a write changes\<close>

fun scalar_in :: "Node list \<Rightarrow> string \<Rightarrow> string option" where
  "scalar_in (k # v # rest) key = (if nd_Value k = key then Some (nd_Value v) else scalar_in rest key)"
| "scalar_in rest key = None"

definition top_scalar :: "Node \<Rightarrow> string \<Rightarrow> string option" where
  "top_scalar root key = (if has_mapping root then scalar_in (nd_Content (hd (nd_Content root))) key else None)"

text \<open>
  What the code relies on in the YAML library: the contents of a mapping are pairs; a document with
  a mapping at the top can be written, and when it is read again its scalars are the same; a file
  that decodes parses, and the decoded \<open>client_id\<close> is the scalar of that key.
\<close>

definition well_paired :: "Node \<Rightarrow> bool" where
  "well_paired root \<longleftrightarrow> (has_mapping root \<longrightarrow> even (length (nd_Content (hd (nd_Content root)))))"

definition yaml_ok :: "('b, PlayerConfigFile) yaml_ops \<Rightarrow> bool" where
  "yaml_ok ym \<longleftrightarrow>
     (\<forall>root. has_mapping root \<and> well_paired root \<longrightarrow>
        (\<exists>data root'. ym_Marshal ym root = Inr data \<and> ym_Unmarshal ym data = Inr root' \<and>
           top_scalar root' = top_scalar root)) \<and>
     (\<forall>data root. ym_Unmarshal ym data = Inr root \<longrightarrow> well_paired root) \<and>
     (\<forall>data c. ym_Decode ym data = Inr c \<longrightarrow>
        (\<exists>root. ym_Unmarshal ym data = Inr root \<and>
           cp_ClientID c = (case top_scalar root ''client_id'' of None \<Rightarrow> [] | Some s \<Rightarrow> s)))"

lemma scalar_in_set_or_append:
  "even (length cs) \<Longrightarrow> scalar_in (set_or_append key val tag cs) k =
     (if k = key then Some val else scalar_in cs k)"
  by (induction key val tag cs rule: set_or_append.induct) auto

definition written_document :: "string \<Rightarrow> string \<Rightarrow> string \<Rightarrow> Node \<Rightarrow> Node" where
  "written_document key val tag root =
     (let root = topLevelMapping root
      in with_content (setOrAppendScalarKey key val tag (hd (nd_Content root)) # tl (nd_Content root)) root)"

lemma has_mapping_top: "has_mapping (topLevelMapping root)"
  by (simp add: topLevelMapping_def has_mapping_def)

lemma has_mapping_written: "has_mapping (written_document key val tag root)"
  using has_mapping_top [of root]
  by (simp add: written_document_def has_mapping_def with_content_def setOrAppendScalarKey_def Let_def)

lemma even_set_or_append: "even (length (set_or_append key val tag cs)) = even (length cs)"
  by (induction key val tag cs rule: set_or_append.induct) auto

lemma well_paired_written: "well_paired root \<Longrightarrow> well_paired (written_document key val tag root)"
  by (auto simp: well_paired_def written_document_def Let_def with_content_def setOrAppendScalarKey_def
      even_set_or_append topLevelMapping_def)

lemma top_scalar_written:
  assumes "well_paired root"
  shows "top_scalar (written_document key val tag root) k = (if k = key then Some val else top_scalar root k)"
proof -
  have "top_scalar (topLevelMapping root) k = top_scalar root k"
    by (simp add: topLevelMapping_def top_scalar_def has_mapping_def)
  moreover have "even (length (nd_Content (hd (nd_Content (topLevelMapping root)))))"
    using assms by (simp add: topLevelMapping_def well_paired_def)
  ultimately show ?thesis
    using has_mapping_written [of key val tag root] has_mapping_top [of root]
    by (simp add: top_scalar_def written_document_def Let_def with_content_def setOrAppendScalarKey_def
        scalar_in_set_or_append)
qed

text \<open>The document that a write starts from.\<close>

definition old_document :: "('b, 'cfg) yaml_ops \<Rightarrow> (string \<rightharpoonup> 'b) \<Rightarrow> string \<Rightarrow> string + Node" where
  "old_document ym files path =
     (case files path of None \<Rightarrow> Inr (Node ZeroNode '''' '''' 0 [] []) | Some data \<Rightarrow> ym_Unmarshal ym data)"

lemma writeScalarKey_None:
  assumes "yaml_ok ym" "writeScalarKey ym bad io path key val tag files = (None, files')"
  shows "\<exists>root data root'. old_document ym files path = Inr root \<and> well_paired root \<and>
           files' = (files(path @ ''.tmp'' := None))(path \<mapsto> data) \<and>
           ym_Unmarshal ym data = Inr root' \<and> top_scalar root' = top_scalar (written_document key val tag root)"
proof -
  obtain root where root: "old_document ym files path = Inr root"
    and buf: "(case ym_Marshal ym (written_document key val tag root) of
                 Inl e \<Rightarrow> (Some (MarshalFailed e), files)
               | Inr buf \<Rightarrow> atomicWriteFile io path buf files) = (None, files')"
    using assms(2)
    by (auto simp: writeScalarKey_def read_file_def old_document_def written_document_def Let_def
        split: option.splits sum.splits)
  have wp: "well_paired root"
  proof (cases "files path")
    case None
    with root show ?thesis by (simp add: old_document_def well_paired_def has_mapping_def) auto
  next
    case (Some d)
    with root assms(1) show ?thesis by (auto simp: old_document_def yaml_ok_def)
  qed
  then obtain data root' where data: "ym_Marshal ym (written_document key val tag root) = Inr data"
    "ym_Unmarshal ym data = Inr root'" "top_scalar root' = top_scalar (written_document key val tag root)"
    using assms(1) has_mapping_written [of key val tag root] well_paired_written
    unfolding yaml_ok_def by blast
  moreover have "files' = (files(path @ ''.tmp'' := None))(path \<mapsto> data)"
    using buf data(1) by (simp add: atomicWriteFile_def Let_def split: option.splits)
  ultimately show ?thesis using root wp by blast
qed

lemma writeScalarKey_others:
  assumes "writeScalarKey ym bad io path key val tag files = (e, files')"
    and "p \<noteq> path @ ''.tmp''" "p = path \<Longrightarrow> e \<noteq> None"
  shows "files' p = files p"
  using assms
  by (auto simp: writeScalarKey_def atomicWriteFile_def Let_def split: option.splits sum.splits
      read_result.splits)

text \<open>What is left of the temporary file.\<close>

definition temp_file_after ::
  "'b os_io \<Rightarrow> config_error option \<Rightarrow> 'b option \<Rightarrow> 'b option" where
  "temp_file_after io e before =
     (case e of
        None \<Rightarrow> None
      | Some (RenameFailed x) \<Rightarrow> None
      | Some (WriteTempFailed x) \<Rightarrow> os_partial io
      | Some _ \<Rightarrow> before)"

lemma writeScalarKey_temp:
  assumes "writeScalarKey ym bad io path key val tag files = (e, files')"
  shows "files' (path @ ''.tmp'') = temp_file_after io e (files (path @ ''.tmp''))"
  using assms
  by (auto simp: writeScalarKey_def atomicWriteFile_def temp_file_after_def Let_def
      split: option.splits sum.splits read_result.splits)

lemma writeScalarKey_outcome:
  assumes "yaml_ok ym" "writeScalarKey ym bad io path key val tag files = (e, files')"
  shows "if e \<noteq> None then files' path = files path
         else \<exists>root data root'. old_document ym files path = Inr root \<and> files' path = Some data \<and>
                ym_Unmarshal ym data = Inr root' \<and> top_scalar root' = (top_scalar root)(key \<mapsto> val)"
proof (cases e)
  case (Some err)
  with writeScalarKey_others [of ym bad io path key val tag files e files' path] assms(2)
  show ?thesis by simp
next
  case None
  with writeScalarKey_None [OF assms(1), of bad io path key val tag files files'] assms(2)
  obtain root data root' where "old_document ym files path = Inr root" "well_paired root"
    "files' = (files(path @ ''.tmp'' := None))(path \<mapsto> data)" "ym_Unmarshal ym data = Inr root'"
    "top_scalar root' = top_scalar (written_document key val tag root)"
    by auto
  with top_scalar_written [of root key val tag] None show ?thesis
    by (intro if_not_P [THEN iffD2] exI [of _ root] exI [of _ data] exI [of _ root']) (auto simp: fun_eq_iff)
qed


section \<open>A concrete file\<close>

text \<open>A library whose files are documents, and a machine on which every call succeeds.\<close>

definition plain_yaml :: "(Node, PlayerConfigFile) yaml_ops" where
  "plain_yaml =
     \<lparr>ym_Unmarshal = \<lambda>n. if well_paired n then Inr n else Inl ''odd'',
      ym_Decode = \<lambda>n. if well_paired n
        then Inr (sample_player_config\<lparr>cp_ClientID :=
               (case top_scalar n ''client_id'' of None \<Rightarrow> [] | Some s \<Rightarrow> s)\<rparr>)
        else Inl ''odd'',
      ym_Marshal = Inr\<rparr>"

definition good_io :: "'b os_io" where
  "good_io = \<lparr>os_mkdir = None, os_write = None, os_partial = None, os_rename = None\<rparr>"

definition plain_file :: Node where
  "plain_file = Node DocumentNode '''' '''' 0
     [Node MappingNode '''' '''' 0
        [Node ScalarNode '''' ''name'' 0 [] [], Node ScalarNode '''' ''Den'' 0 [] [],
         Node ScalarNode '''' ''port'' 0 [] [], Node ScalarNode '''' ''8927'' 0 [] []] []] []"

lemma yaml_ok_plain: "yaml_ok plain_yaml"
  by (simp add: yaml_ok_def plain_yaml_def)

lemma top_scalar_plain_file: "top_scalar plain_file = [''name'' \<mapsto> ''Den'', ''port'' \<mapsto> ''8927'']"
  by (auto simp: top_scalar_def has_mapping_def plain_file_def fun_eq_iff)

lemma write_example:
  "fst (WriteIntKey plain_yaml None good_io ''p.yaml'' ''port'' 9000 [''p.yaml'' \<mapsto> plain_file]) = None"
  "fst (WriteStringKey plain_yaml None (good_io\<lparr>os_write := Some ''full''\<rparr>) ''p.yaml'' ''name'' ''Hall''
     [''p.yaml'' \<mapsto> plain_file]) = Some (WriteTempFailed ''full'')"
  by (simp_all add: WriteStringKey_def WriteIntKey_def writeScalarKey_def read_file_def plain_yaml_def
      good_io_def atomicWriteFile_def Let_def well_paired_def plain_file_def)


end
