(* ===== verification/Client_Id.thy ===== *)
theory Client_Id
  imports Config_Files "HOL-Library.List_Lexorder" "HOL-Library.Char_ord"
begin

text \<open>
  The identity of a player (\<open>pkg/sendspin/client_id.go\<close> and the wiring of \<open>main.go\<close>): where the
  client id comes from, when it is written to the configuration file, and what the next launch
  reads.
\<close>

unbundle bit_operations_syntax

section \<open>The address of the machine\<close>

record Interface =
  if_Name :: string
  if_Flags :: "64 word"
  if_HardwareAddr :: "byte list"

definition FlagUp :: "64 word" where "FlagUp = 1"
definition FlagLoopback :: "64 word" where "FlagLoopback = 4"

definition isZeroMAC :: "byte list \<Rightarrow> bool" where
  "isZeroMAC mac \<longleftrightarrow> mac = [0, 0, 0, 0, 0, 0]"

definition isBroadcastMAC :: "byte list \<Rightarrow> bool" where
  "isBroadcastMAC mac \<longleftrightarrow> mac = [255, 255, 255, 255, 255, 255]"

definition eligible :: "Interface \<Rightarrow> bool" where
  "eligible iface \<longleftrightarrow>
     \<not> (if_Flags iface AND FlagUp = 0) \<and>
     \<not> (if_Flags iface AND FlagLoopback \<noteq> 0) \<and>
     \<not> length (if_HardwareAddr iface) \<noteq> 6 \<and>
     \<not> (isZeroMAC (if_HardwareAddr iface) \<or> isBroadcastMAC (if_HardwareAddr iface))"

text \<open>\<open>HardwareAddr.String\<close>: two hexadecimal digits per byte, joined by colons.\<close>

definition hex_digit :: "nat \<Rightarrow> char" where
  "hex_digit n = char_of (if n < 10 then 48 + n else 87 + n)"

definition hex_byte :: "byte \<Rightarrow> string" where
  "hex_byte b = [hex_digit (unat b div 16), hex_digit (unat b mod 16)]"

definition mac_string :: "byte list \<Rightarrow> string" where
  "mac_string mac = join_with '':'' (map hex_byte mac)"

definition pickStableMAC :: "Interface list \<Rightarrow> string option" where
  "pickStableMAC ifaces =
     (case sort_key if_Name (filter eligible ifaces) of
        [] \<Rightarrow> None
      | iface # _ \<Rightarrow> Some (mac_string (if_HardwareAddr iface)))"

section \<open>Resolution\<close>

text \<open>
  \<open>persist\<close> is the callback: what it does to the state \<open>'s\<close>, with an error if it fails, which is
  logged and otherwise ignored. \<open>generated\<close> is the result of \<open>uuid.New\<close>.
\<close>

definition tryPersist :: "(string \<Rightarrow> 's \<Rightarrow> 'e option \<times> 's) option \<Rightarrow> string \<Rightarrow> 's \<Rightarrow> 's" where
  "tryPersist persist cid s = (case persist of None \<Rightarrow> s | Some f \<Rightarrow> snd (f cid s))"

definition ResolveClientID ::
  "Interface list \<Rightarrow> string \<Rightarrow> string \<Rightarrow> string \<Rightarrow> (string \<Rightarrow> 's \<Rightarrow> 'e option \<times> 's) option \<Rightarrow> 's \<Rightarrow>
   string \<times> 's" where
  "ResolveClientID ifaces generated override fromConfig persist s =
     (if override \<noteq> [] then
        (override, if override \<noteq> fromConfig then tryPersist persist override s else s)
      else if fromConfig \<noteq> [] then (fromConfig, s)
      else case pickStableMAC ifaces of
        Some mac \<Rightarrow> (mac, s)
      | None \<Rightarrow> (generated, tryPersist persist generated s))"

text \<open>\<open>resolveClientID\<close> of \<open>main.go\<close>; the state is the file system.\<close>

definition persist_path :: "string + string \<Rightarrow> string \<Rightarrow> string option" where
  "persist_path dir loaded =
     (if loaded = [] then (case userConfigPath dir ''player.yaml'' of Inl e \<Rightarrow> None | Inr p \<Rightarrow> Some p)
      else Some loaded)"

definition resolveClientID ::
  "('b, PlayerConfigFile) yaml_ops \<Rightarrow> string option \<Rightarrow> 'b os_io \<Rightarrow> string + string \<Rightarrow> Interface list \<Rightarrow>
   string \<Rightarrow> string \<Rightarrow> PlayerConfigFile option \<Rightarrow> string \<Rightarrow> (string \<rightharpoonup> 'b) \<Rightarrow> string \<times> (string \<rightharpoonup> 'b)" where
  "resolveClientID ym bad io dir ifaces generated override cfg loaded files =
     (let persist = map_option (\<lambda>p cid. WriteStringKey ym bad io p ''client_id'' cid)
                      (persist_path dir loaded);
          fromConfig = (case cfg of None \<Rightarrow> [] | Some c \<Rightarrow> cp_ClientID c)
      in ResolveClientID ifaces generated override fromConfig persist files)"

text \<open>The part of \<open>main\<close> that decides the id of a launch: loading the configuration, then resolving.\<close>

definition launch_on ::
  "('b, PlayerConfigFile) yaml_ops \<Rightarrow> 'b os_io \<Rightarrow> string + string \<Rightarrow> Interface list \<Rightarrow> string \<Rightarrow>
   string list \<Rightarrow> string \<Rightarrow> (string \<rightharpoonup> 'b) \<Rightarrow> config_error + string \<times> (string \<rightharpoonup> 'b)" where
  "launch_on ym io dir ifaces generated paths override files =
     (case load_config (read_file None files) (ym_Decode ym) paths of
        (cfg, loaded, Some e) \<Rightarrow> Inl e
      | (cfg, loaded, None) \<Rightarrow>
          Inr (resolveClientID ym None io dir ifaces generated override cfg loaded files))"

definition launch_id ::
  "('b, PlayerConfigFile) yaml_ops \<Rightarrow> 'b os_io \<Rightarrow> (string \<Rightarrow> string option) \<Rightarrow> string + string \<Rightarrow>
   Interface list \<Rightarrow> string \<Rightarrow> string \<Rightarrow> string \<Rightarrow> (string \<rightharpoonup> 'b) \<Rightarrow>
   config_error + string \<times> (string \<rightharpoonup> 'b)" where
  "launch_id ym io env dir ifaces generated explicit override files =
     launch_on ym io dir ifaces generated (playerConfigSearchPaths env dir explicit) override files"

text \<open>\<open>persistStaticDelay\<close> of \<open>main.go\<close>, called when \<open>-static-delay-ms\<close> was given.\<close>

definition persistStaticDelay ::
  "('b, PlayerConfigFile) yaml_ops \<Rightarrow> string option \<Rightarrow> 'b os_io \<Rightarrow> string + string \<Rightarrow> int \<Rightarrow>
   PlayerConfigFile option \<Rightarrow> string \<Rightarrow> (string \<rightharpoonup> 'b) \<Rightarrow> (string \<rightharpoonup> 'b)" where
  "persistStaticDelay ym bad io dir val cfg loaded files =
     (case persist_path dir loaded of
        None \<Rightarrow> files
      | Some p \<Rightarrow>
          snd (PersistStaticDelay ym bad io p
                 (case cfg of None \<Rightarrow> None | Some c \<Rightarrow> cp_StaticDelayMs c) val files))"

section \<open>The next launch\<close>

lemma load_cases:
  assumes "load_config (read_file None files) dec paths = (cfg, loaded, None)"
  shows "(cfg = None \<and> loaded = [] \<and> (\<forall>p \<in> set paths. p \<noteq> [] \<longrightarrow> files p = None)) \<or>
         (\<exists>c data. cfg = Some c \<and> loaded \<noteq> [] \<and> files loaded = Some data \<and> dec data = Inr c)"
  using assms
  by (induction paths)
    (auto simp: load_config_def read_file_def split: option.splits sum.splits if_splits)

text \<open>After a write to the file that was loaded, or would have been, the next search finds it.\<close>

lemma load_after_write:
  assumes "load_config (read_file None files) dec paths = (cfg, loaded, None)"
    and "loaded = p \<or> loaded = [] \<and> p \<in> set paths" "p \<noteq> []"
    and "files' = (files(p @ ''.tmp'' := None))(p \<mapsto> data)"
    and "load_config (read_file None files') dec paths = (cfg', loaded', None)"
  shows "\<exists>c. cfg' = Some c \<and> loaded' = p \<and> dec data = Inr c"
  using assms
proof (induction paths)
  case Nil
  then show ?case by (auto simp: load_config_def)
next
  case (Cons q paths)
  consider "q = []" | "q \<noteq> []" "q = p" | "q \<noteq> []" "q \<noteq> p" "files q = None" | d where "q \<noteq> []" "q \<noteq> p" "files q = Some d"
    by (cases "files q") auto
  then show ?case
  proof cases
    case 1
    with Cons show ?thesis by (simp add: load_config_def)
  next
    case 2
    with Cons.prems show ?thesis
      by (auto simp: load_config_def read_file_def split: sum.splits)
  next
    case 3
    then have "files' q = None" using Cons.prems(4) by simp
    with 3 Cons show ?thesis by (auto simp: load_config_def read_file_def)
  next
    case 4
    with Cons.prems(1,2) show ?thesis
      by (auto simp: load_config_def read_file_def split: sum.splits)
  qed
qed

lemma write_succeeds:
  assumes "yaml_ok ym" "old_document ym files path = Inr root"
  shows "fst (writeScalarKey ym None good_io path key val tag files) = None"
proof -
  have "well_paired root"
    using assms by (auto simp: old_document_def yaml_ok_def well_paired_def has_mapping_def split: option.splits)
  then obtain data where "ym_Marshal ym (written_document key val tag root) = Inr data"
    using assms(1) has_mapping_written [of key val tag root] well_paired_written
    unfolding yaml_ok_def by blast
  then show ?thesis
    using assms(2)
    by (auto simp: writeScalarKey_def read_file_def old_document_def written_document_def
        Let_def atomicWriteFile_def good_io_def split: option.splits)
qed

text \<open>The file that a launch writes to, when it has loaded its configuration.\<close>

lemma persist_target:
  assumes "yaml_ok ym" "dir = Inr d" "d @ ''/sendspin/player.yaml'' \<in> set paths"
    and load: "load_config (read_file None files) (ym_Decode ym) paths = (cfg, loaded, None)"
    and path: "persist_path dir loaded = Some p"
  shows "p \<noteq> []" "loaded = p \<or> loaded = [] \<and> p \<in> set paths" "\<exists>root. old_document ym files p = Inr root"
proof -
  show p: "p \<noteq> []" "loaded = p \<or> loaded = [] \<and> p \<in> set paths"
    using path assms(2,3) by (auto simp: persist_path_def userConfigPath_def split: if_splits)
  show "\<exists>root. old_document ym files p = Inr root"
    using load_cases [OF load]
  proof
    assume "cfg = None \<and> loaded = [] \<and> (\<forall>p \<in> set paths. p \<noteq> [] \<longrightarrow> files p = None)"
    with p have "files p = None" by auto
    then show ?thesis by (simp add: old_document_def)
  next
    assume "\<exists>c data. cfg = Some c \<and> loaded \<noteq> [] \<and> files loaded = Some data \<and> ym_Decode ym data = Inr c"
    with p obtain data c where "files p = Some data" "ym_Decode ym data = Inr c" by auto
    with assms(1) show ?thesis unfolding yaml_ok_def old_document_def by fastforce
  qed
qed

lemma persisted_id:
  assumes ok: "yaml_ok ym" and dir: "dir = Inr d"
    and load: "load_config (read_file None files) (ym_Decode ym) paths = (cfg, loaded, None)"
    and path: "persist_path dir loaded = Some p" and home: "d @ ''/sendspin/player.yaml'' \<in> set paths"
    and written: "files' = snd (WriteStringKey ym None good_io p ''client_id'' cid files)"
    and again: "load_config (read_file None files') (ym_Decode ym) paths = (cfg', loaded', None)"
  shows "\<exists>c. cfg' = Some c \<and> cp_ClientID c = cid"
proof -
  note p = persist_target [OF ok dir home load path]
  from p(3) obtain root where "old_document ym files p = Inr root" ..
  from write_succeeds [OF ok this, of "''client_id''" cid "''!!str''"] written
  have "writeScalarKey ym None good_io p ''client_id'' cid ''!!str'' files = (None, files')"
    by (simp add: WriteStringKey_def prod_eq_iff)
  from writeScalarKey_None [OF ok this] obtain root data root' where w: "well_paired root"
    "files' = (files(p @ ''.tmp'' := None))(p \<mapsto> data)" "ym_Unmarshal ym data = Inr root'"
    "top_scalar root' = top_scalar (written_document ''client_id'' cid ''!!str'' root)" by blast
  from load_after_write [OF load p(2,1) w(2) again] obtain c where
    c: "cfg' = Some c" "ym_Decode ym data = Inr c" by blast
  with ok w(3) have "cp_ClientID c = (case top_scalar root' ''client_id'' of None \<Rightarrow> [] | Some s \<Rightarrow> s)"
    unfolding yaml_ok_def by fastforce
  with w(1,4) top_scalar_written [of root] c(1) show ?thesis by simp
qed

lemma relaunch:
  assumes ok: "yaml_ok ym" and dir: "dir = Inr d" and "generated \<noteq> []"
    and first: "launch_on ym good_io dir ifaces generated paths override files = Inr (cid, files1)"
    and next_launch: "launch_on ym io' dir ifaces' generated' paths' [] files1 = Inr (cid', files2)"
    and same: "load_config (read_file None files) (ym_Decode ym) paths' =
               load_config (read_file None files) (ym_Decode ym) paths"
    and home: "d @ ''/sendspin/player.yaml'' \<in> set paths'"
    and stable: "override \<noteq> [] \<or> pickStableMAC ifaces = None \<or> pickStableMAC ifaces' = pickStableMAC ifaces"
  shows "cid' = cid \<and> files2 = files1"
proof -
  obtain cfg loaded where load: "load_config (read_file None files) (ym_Decode ym) paths = (cfg, loaded, None)"
    and cid: "resolveClientID ym None good_io dir ifaces generated override cfg loaded files = (cid, files1)"
    using first by (auto simp: launch_on_def split: prod.splits option.splits)
  obtain cfg' loaded' where again: "load_config (read_file None files1) (ym_Decode ym) paths' = (cfg', loaded', None)"
    and cid': "resolveClientID ym None io' dir ifaces' generated' [] cfg' loaded' files1 = (cid', files2)"
    using next_launch by (auto simp: launch_on_def split: prod.splits option.splits)
  obtain p where p: "persist_path dir loaded = Some p"
    using dir by (cases "loaded = []") (auto simp: persist_path_def userConfigPath_def)
  define from_file where "from_file = (case cfg of None \<Rightarrow> [] | Some c \<Rightarrow> cp_ClientID c)"
  have found: "cfg' = Some c \<Longrightarrow> cp_ClientID c = cid \<Longrightarrow> cid \<noteq> [] \<Longrightarrow> ?thesis" for c
    using cid' by (simp add: resolveClientID_def ResolveClientID_def Let_def)
  consider (written) "files1 = snd (WriteStringKey ym None good_io p ''client_id'' cid files)" "cid \<noteq> []"
    | (kept) "files1 = files" "cid = from_file" "cid \<noteq> []"
    | (mac) mac where "files1 = files" "from_file = []" "override = []" "pickStableMAC ifaces = Some mac" "cid = mac"
    using cid p \<open>generated \<noteq> []\<close>
    by (auto simp: resolveClientID_def ResolveClientID_def tryPersist_def from_file_def Let_def
        split: if_splits option.splits)
  then show ?thesis
  proof cases
    case written
    from load same have "load_config (read_file None files) (ym_Decode ym) paths' = (cfg, loaded, None)"
      by simp
    from persisted_id [OF ok dir this p home written(1) again] written(2) found show ?thesis by blast
  next
    case kept
    with load same again have "cfg' = cfg" by simp
    with kept found show ?thesis by (auto simp: from_file_def split: option.splits)
  next
    case mac
    with load same again have "cfg' = cfg" by simp
    with mac stable cid' show ?thesis
      by (auto simp: resolveClientID_def ResolveClientID_def from_file_def Let_def split: option.splits)
  qed
qed

lemma home_in_search_paths:
  "dir = Inr d \<Longrightarrow> d @ ''/sendspin/player.yaml'' \<in> set (playerConfigSearchPaths env dir explicit)"
  by (simp add: playerConfigSearchPaths_def search_paths_def userConfigPath_def)

text \<open>
  C24. The id of a launch is the id of the next one, and the next one writes nothing: an id that was
  given or generated is found in the file, whatever has become of the network interfaces; an id
  that is the address of an interface stays while that address does.
\<close>

theorem client_id_survives_restart:
  assumes "yaml_ok ym" "generated \<noteq> []"
    and "launch_id ym good_io env (Inr d) ifaces generated explicit override files = Inr (cid, files1)"
    and "launch_id ym io' env (Inr d) ifaces' generated' explicit [] files1 = Inr (cid', files2)"
    and "override \<noteq> [] \<or> pickStableMAC ifaces = None \<or> pickStableMAC ifaces' = pickStableMAC ifaces"
  shows "cid' = cid \<and> files2 = files1"
  by (rule relaunch [OF assms(1) refl assms(2) assms(3) [unfolded launch_id_def]
        assms(4) [unfolded launch_id_def] refl home_in_search_paths [OF refl] assms(5)])

text \<open>
  Two players on one machine that are given different configuration files, neither of which
  exists yet, get the same id: it is the address of the machine, or it is written to the default
  file, which both of them load.
\<close>

theorem separate_configs_share_id:
  assumes "yaml_ok ym" "generated \<noteq> []"
    and "kitchen \<noteq> []" "files kitchen = None" "bedroom \<noteq> []" "files bedroom = None"
    and "launch_id ym good_io env (Inr d) ifaces generated kitchen [] files = Inr (cid, files1)"
    and "launch_id ym io' env (Inr d) ifaces generated' bedroom [] files1 = Inr (cid', files2)"
  shows "cid' = cid"
proof -
  have skip: "load_config (read_file None files) (ym_Decode ym) (playerConfigSearchPaths env (Inr d) q) =
      load_config (read_file None files) (ym_Decode ym) (playerConfigSearchPaths env (Inr d) [])"
    if "q \<noteq> []" "files q = None" for q
    using that by (simp add: playerConfigSearchPaths_def search_paths_def load_config_def read_file_def)
  show ?thesis
    by (rule conjunct1 [OF relaunch [OF assms(1) refl assms(2) assms(7) [unfolded launch_id_def]
          assms(8) [unfolded launch_id_def] _ home_in_search_paths [OF refl]]])
      (simp_all add: skip assms)
qed

text \<open>An id that comes from an interface is not written back, whatever file is in use.\<close>

lemma mac_not_persisted:
  assumes "cfg = None \<or> cfg = Some c \<and> cp_ClientID c = []" "pickStableMAC ifaces = Some mac"
  shows "resolveClientID ym bad io dir ifaces generated [] cfg loaded files = (mac, files)"
  using assms by (auto simp: resolveClientID_def ResolveClientID_def Let_def)

section \<open>Concrete launches\<close>

definition lan_interface :: Interface where
  "lan_interface = \<lparr>if_Name = ''eth0'', if_Flags = 1, if_HardwareAddr = [1, 2, 3, 4, 5, 171]\<rparr>"

definition loopback :: Interface where
  "loopback = \<lparr>if_Name = ''lo'', if_Flags = 5, if_HardwareAddr = [1, 2, 3, 4, 5, 6]\<rparr>"

definition wifi :: Interface where
  "wifi = \<lparr>if_Name = ''wlan0'', if_Flags = 1, if_HardwareAddr = [9, 9, 9, 9, 9, 9]\<rparr>"

lemma pickStableMAC_examples:
  "pickStableMAC [wifi, loopback, lan_interface] = Some ''01:02:03:04:05:ab''" "pickStableMAC [loopback] = None"
  by code_simp+

definition default_path :: string where
  "default_path = ''h/sendspin/player.yaml''"

definition id_file :: "string \<Rightarrow> Node" where
  "id_file cid = Node DocumentNode '''' '''' 0
     [Node MappingNode '''' '''' 0
        [Node ScalarNode ''!!str'' ''client_id'' 0 [] [], Node ScalarNode ''!!str'' cid 0 [] []] []] []"

text \<open>A first launch without files, on a machine without a usable interface, and the next one.\<close>

lemma first_launch:
  "launch_id plain_yaml good_io (\<lambda>_. None) (Inr ''h'') [loopback] ''u1'' explicit [] Map.empty =
   Inr (''u1'', [default_path \<mapsto> id_file ''u1''])"
  by (simp add: launch_id_def launch_on_def resolveClientID_def ResolveClientID_def tryPersist_def
      Let_def persist_path_def userConfigPath_def pickStableMAC_examples(2) load_config_def
      read_file_def playerConfigSearchPaths_def search_paths_def WriteStringKey_def
      writeScalarKey_def topLevelMapping_def has_mapping_def with_content_def
      setOrAppendScalarKey_def plain_yaml_def atomicWriteFile_def good_io_def default_path_def
      id_file_def)

lemma second_launch:
  assumes "explicit \<in> {'''', ''b''}"
  shows "\<exists>cid files2. launch_id plain_yaml good_io (\<lambda>_. None) (Inr ''h'') ifaces ''u2'' explicit []
           [default_path \<mapsto> id_file ''u1''] = Inr (cid, files2)"
  using assms
  by (auto simp: launch_id_def launch_on_def load_config_def read_file_def
      playerConfigSearchPaths_def search_paths_def userConfigPath_def default_path_def plain_yaml_def
      well_paired_def id_file_def prod_eq_iff)

theorem client_id_survives_restart_witness:
  "launch_id plain_yaml good_io (\<lambda>_. None) (Inr ''h'') [lan_interface] ''u2'' '''' [] [default_path \<mapsto> id_file ''u1''] =
   Inr (''u1'', [default_path \<mapsto> id_file ''u1''])"
proof -
  obtain cid files2 where again: "launch_id plain_yaml good_io (\<lambda>_. None) (Inr ''h'') [lan_interface] ''u2'' '''' []
      [default_path \<mapsto> id_file ''u1''] = Inr (cid, files2)"
    using second_launch [of "''''"] by blast
  from client_id_survives_restart [OF yaml_ok_plain _ first_launch again] again show ?thesis
    by (simp add: pickStableMAC_examples(2))
qed

theorem separate_configs_share_id_witness:
  "\<exists>files2. launch_id plain_yaml good_io (\<lambda>_. None) (Inr ''h'') [loopback] ''u2'' ''b'' []
      [default_path \<mapsto> id_file ''u1''] = Inr (''u1'', files2)"
proof -
  obtain cid files2 where again: "launch_id plain_yaml good_io (\<lambda>_. None) (Inr ''h'') [loopback] ''u2'' ''b'' []
      [default_path \<mapsto> id_file ''u1''] = Inr (cid, files2)"
    using second_launch [of "''b''"] by blast
  from separate_configs_share_id [OF yaml_ok_plain _ _ _ _ _ first_launch [of "''k''"] again] again
  show ?thesis by simp
qed

end
