(* ===== verification/Audio_Sources.thy ===== *)
theory Audio_Sources
  imports Server_Client Go_Strings
begin

text \<open>
  The audio sources of the server: the files and streams of \<open>internal/server/audio_source.go\<close> and the
  test tones of \<open>internal/server/test_tone_source.go\<close> and \<open>pkg/sendspin/source_testtone.go\<close>. The MP3
  and FLAC libraries, the files and the pipe from ffmpeg are parameters.
\<close>

section \<open>Readers of 16-bit bytes\<close>

datatype source_error =
    EndOfFile
  | UnexpectedEOF
  | ReaderError string
  | SeekFailed string
  | ReopenFailed string

text \<open>
  The loop that the MP3, HTTP and ffmpeg sources share: \<open>n / 2\<close> little-endian 16-bit samples, each
  shifted into the 24-bit range.
\<close>

definition samples_of_bytes :: "byte list \<Rightarrow> sample list" where
  "samples_of_bytes buf =
     map (\<lambda>i. push_bit 8 (scast (uint16_le (buf ! (i * 2)) (buf ! (i * 2 + 1)))))
       [0..<length buf div 2]"

text \<open>
  \<open>decoder.Read\<close> on a buffer of \<open>n\<close> bytes: the bytes that it filled, an error, the new decoder.
\<close>

type_synonym 'd byte_reader = "nat \<Rightarrow> 'd \<Rightarrow> byte list \<times> source_error option \<times> 'd"

record 'd MP3Source =
  ms_decoder :: 'd
  ms_sampleRate :: int
  ms_channels :: int
  ms_title :: string
  ms_artist :: string
  ms_album :: string

text \<open>
  \<open>Read\<close> returns the samples that it wrote and counted, and the error. \<open>reopen\<close> is what seeking to the
  start and opening a new decoder give.
\<close>

definition mp3_Read ::
  "'d byte_reader \<Rightarrow> source_error + 'd \<Rightarrow> nat \<Rightarrow> 'd MP3Source \<Rightarrow>
   sample list \<times> source_error option \<times> 'd MP3Source" where
  "mp3_Read rd reopen len s =
     (case rd (len * 2) (ms_decoder s) of
        (buf, err, d) \<Rightarrow>
          (let s = s\<lparr>ms_decoder := d\<rparr> in
           if err \<noteq> None \<and> err \<noteq> Some EndOfFile then ([], err, s)
           else if err = Some EndOfFile then
             (case reopen of
                Inl e \<Rightarrow> (samples_of_bytes buf, Some e, s)
              | Inr d' \<Rightarrow> (samples_of_bytes buf, None, s\<lparr>ms_decoder := d'\<rparr>))
           else (samples_of_bytes buf, None, s)))"

record 'd HTTPMP3Source =
  hs_decoder :: 'd
  hs_sampleRate :: int
  hs_channels :: int
  hs_title :: string

text \<open>The stream is not restarted, and an error, the end included, discards what was read with it.\<close>

definition http_Read ::
  "'d byte_reader \<Rightarrow> nat \<Rightarrow> 'd HTTPMP3Source \<Rightarrow> sample list \<times> source_error option \<times> 'd HTTPMP3Source" where
  "http_Read rd len s =
     (case rd (len * 2) (hs_decoder s) of
        (buf, err, d) \<Rightarrow>
          (let s = s\<lparr>hs_decoder := d\<rparr>
           in if err \<noteq> None then ([], err, s) else (samples_of_bytes buf, None, s)))"

text \<open>\<open>io.ReadFull\<close> on a pipe whose remaining bytes are known.\<close>

definition ReadFull :: "nat \<Rightarrow> byte list \<Rightarrow> byte list \<times> source_error option \<times> byte list" where
  "ReadFull n pipe =
     (if n \<le> length pipe then (take n pipe, None, drop n pipe)
      else if pipe = [] then ([], Some EndOfFile, [])
      else (pipe, Some UnexpectedEOF, []))"

record FFmpegSource =
  ff_reader :: "byte list"
  ff_sampleRate :: int
  ff_source_channels :: int
  ff_title :: string

definition ffmpeg_Read :: "nat \<Rightarrow> FFmpegSource \<Rightarrow> sample list \<times> source_error option \<times> FFmpegSource" where
  "ffmpeg_Read len s =
     (case ReadFull (len * 2) (ff_reader s) of
        (buf, err, pipe) \<Rightarrow>
          (let s = s\<lparr>ff_reader := pipe\<rparr>
           in if err \<noteq> None then ([], err, s) else (samples_of_bytes buf, None, s)))"

section \<open>FLAC files\<close>

text \<open>A frame of the library, and what \<open>ParseNext\<close> returns.\<close>

record source_frame =
  sf_BlockSize :: nat
  sf_Subframes :: "sample list list"

datatype parse_result = ParsedFrame source_frame | ParseError source_error

record 'st FLACSource =
  fs_stream :: 'st
  fs_sampleRate :: int
  fs_channels :: nat
  fs_bitDepth :: int
  fs_title :: string
  fs_artist :: string
  fs_album :: string
  fs_frameBuffer :: "sample list"
  fs_frameBufferPos :: nat

text \<open>The two nested loops over a frame; \<open>None\<close> is an index out of range.\<close>

definition frame_samples :: "nat \<Rightarrow> int \<Rightarrow> source_frame \<Rightarrow> sample list option" where
  "frame_samples channels bitDepth f =
     (if sf_BlockSize f = 0 \<or>
         channels \<le> length (sf_Subframes f) \<and>
         (\<forall>ch < channels. sf_BlockSize f \<le> length (sf_Subframes f ! ch))
      then Some (concat (map (\<lambda>i. map (\<lambda>ch. flac_scale bitDepth (sf_Subframes f ! ch ! i)) [0..<channels])
             [0..<sf_BlockSize f]))
      else None)"

text \<open>
  The reading loop. \<open>out\<close> is what has been copied so far. The loop need not end: the result is \<open>None\<close>
  if it does not, and \<open>Some None\<close> is a panic.
\<close>

partial_function (option) flac_fill ::
  "('st \<Rightarrow> parse_result \<times> 'st) \<Rightarrow> source_error + 'st \<Rightarrow> nat \<Rightarrow> sample list \<Rightarrow> 'st FLACSource \<Rightarrow>
   (sample list \<times> source_error option \<times> 'st FLACSource) option option" where
  "flac_fill parse reopen len out s =
     (if length out < len then
        (case parse (fs_stream s) of
           (ParseError e, st) \<Rightarrow>
             (let s = s\<lparr>fs_stream := st\<rparr> in
              if e = EndOfFile then
                (case reopen of
                   Inl e \<Rightarrow> Some (Some (out, Some e, s))
                 | Inr st \<Rightarrow>
                     flac_fill parse reopen len out
                       (s\<lparr>fs_stream := st, fs_frameBuffer := [], fs_frameBufferPos := 0\<rparr>))
              else Some (Some (out, Some e, s)))
         | (ParsedFrame f, st) \<Rightarrow>
             (let s = s\<lparr>fs_stream := st\<rparr> in
              case frame_samples (fs_channels s) (fs_bitDepth s) f of
                None \<Rightarrow> Some None
              | Some frameSamples \<Rightarrow>
                  (let toCopy = min (length frameSamples) (len - length out);
                       out = out @ take toCopy frameSamples
                   in if toCopy < length frameSamples
                      then Some (Some (out, None,
                             s\<lparr>fs_frameBuffer := frameSamples, fs_frameBufferPos := toCopy\<rparr>))
                      else flac_fill parse reopen len out s)))
      else Some (Some (out, None, s)))"

text \<open>
  \<open>Read\<close>: what a previous frame left over first. A \<open>nil\<close> buffer is an empty one: the code tests both
  together.
\<close>

definition flac_Read ::
  "('st \<Rightarrow> parse_result \<times> 'st) \<Rightarrow> source_error + 'st \<Rightarrow> nat \<Rightarrow> 'st FLACSource \<Rightarrow>
   (sample list \<times> source_error option \<times> 'st FLACSource) option option" where
  "flac_Read parse reopen len s =
     (if fs_frameBufferPos s < length (fs_frameBuffer s) then
        (let available = length (fs_frameBuffer s) - fs_frameBufferPos s;
             toCopy = min len available;
             out = take toCopy (drop (fs_frameBufferPos s) (fs_frameBuffer s));
             s = s\<lparr>fs_frameBufferPos := fs_frameBufferPos s + toCopy\<rparr>
         in if len \<le> toCopy then Some (Some (out, None, s))
            else flac_fill parse reopen len out
              (if length (fs_frameBuffer s) \<le> fs_frameBufferPos s
               then s\<lparr>fs_frameBuffer := [], fs_frameBufferPos := 0\<rparr> else s))
      else flac_fill parse reopen len [] s)"

section \<open>Test tones\<close>

definition f64_two_pi :: f64 where
  "f64_two_pi = Fin (884279719003555 / 140737488355328)"

text \<open>
  One frame of the tone: \<open>sin\<close> is \<open>math.Sin\<close>. The index is a \<open>uint64\<close> that wraps around.
\<close>

definition tone_value :: "(f64 \<Rightarrow> f64) \<Rightarrow> f64 \<Rightarrow> int \<Rightarrow> nat \<Rightarrow> sample" where
  "tone_value sin' frequency sampleRate index =
     (let t = f64_div (f64_of_int (int (index mod 2 ^ 64))) (f64_of_int sampleRate);
          sample = sin' (f64_mul (f64_mul f64_two_pi frequency) t)
      in f64_to_int32 (f64_mul (f64_mul sample (Fin 8388607)) (Fin (1 / 2))))"

record TestToneSource =
  tt_sampleIndex :: nat
  tt_frequency :: f64
  tt_sampleRate :: int
  tt_channels :: int

definition NewTestTone :: "int \<Rightarrow> int \<Rightarrow> TestToneSource" where
  "NewTestTone sampleRate channels =
     \<lparr>tt_sampleIndex = 0, tt_frequency = Fin 440,
      tt_sampleRate = (if sampleRate = 0 then 192000 else sampleRate),
      tt_channels = (if channels = 0 then 2 else channels)\<rparr>"

text \<open>
  \<open>Read\<close> writes whole frames and leaves the rest of the buffer as it is, but counts all of it. A
  negative number of channels makes it count frames backwards and write nothing.
\<close>

definition tone_Read :: "(f64 \<Rightarrow> f64) \<Rightarrow> sample list \<Rightarrow> TestToneSource \<Rightarrow> (sample list \<times> nat \<times> TestToneSource) option" where
  "tone_Read sin' samples s =
     (if tt_channels s = 0 then None
      else
        let numSamples = go_quot (int (length samples)) (tt_channels s);
            frames = map (\<lambda>i. replicate (nat (tt_channels s))
                (tone_value sin' (tt_frequency s) (tt_sampleRate s) (tt_sampleIndex s + i))) [0..<nat numSamples]
        in Some (concat frames @ drop (length (concat frames)) samples, length samples,
                 s\<lparr>tt_sampleIndex := nat ((int (tt_sampleIndex s) + numSamples) mod 2 ^ 64)\<rparr>))"

section \<open>Choosing a source\<close>

text \<open>
  \<open>filepath.Ext\<close> and \<open>filepath.Base\<close> for paths that do not end in a separator, and the title that a
  file gets.
\<close>

definition base_name :: "string \<Rightarrow> string" where
  "base_name path = last (split_at_char (CHR ''/'') path)"

fun ext_rev :: "string \<Rightarrow> string \<Rightarrow> string" where
  "ext_rev [] acc = []"
| "ext_rev (c # cs) acc =
     (if c = CHR ''/'' then [] else if c = CHR ''.'' then c # acc else ext_rev cs (c # acc))"

definition file_ext :: "string \<Rightarrow> string" where
  "file_ext path = ext_rev (rev path) []"

definition file_title :: "string \<Rightarrow> string" where
  "file_title path = (let filename = base_name path
                      in take (length filename - length (file_ext filename)) filename)"

datatype source_kind =
    ToneKind | FFmpegKind string | HTTPMP3Kind string | MP3Kind string | FLACKind string

datatype open_error =
    FileNotFound string | UnsupportedFormat string | UnsupportedScheme
  | OpenFailed string | DecodeFailed string | FetchFailed string | HTTPError int
  | FFmpegMissing string | PipeFailed string | StartFailed string

text \<open>
  \<open>NewAudioSource\<close>: the constructor that it calls; \<open>missing\<close> tells whether \<open>os.Stat\<close> says that the file
  does not exist.
\<close>

definition NewAudioSource :: "(string \<Rightarrow> bool) \<Rightarrow> string \<Rightarrow> open_error + source_kind" where
  "NewAudioSource missing pathOrURL =
     (if pathOrURL = [] then Inr ToneKind
      else if has_prefix pathOrURL ''http://'' \<or> has_prefix pathOrURL ''https://'' then
        (if contains pathOrURL ''.m3u8'' then Inr (FFmpegKind pathOrURL) else Inr (HTTPMP3Kind pathOrURL))
      else if missing pathOrURL then Inl (FileNotFound pathOrURL)
      else
        let ext = to_lower (file_ext pathOrURL)
        in if ext = ''.mp3'' then Inr (MP3Kind pathOrURL)
           else if ext = ''.flac'' then Inr (FLACKind pathOrURL)
           else Inl (UnsupportedFormat ext))"

text \<open>
  The constructors. \<open>opened\<close> is the error of opening the file, \<open>decoded\<close> what the library makes of its
  header; for HTTP \<open>got\<close> is an error or the status of the answer; for ffmpeg \<open>found\<close> and
  \<open>piped\<close> are the errors of finding and connecting the program and \<open>start\<close> runs it.
\<close>

definition NewMP3Source ::
  "string \<Rightarrow> string option \<Rightarrow> string + int \<times> 'd \<Rightarrow> open_error + 'd MP3Source" where
  "NewMP3Source path opened decoded =
     (case opened of Some e \<Rightarrow> Inl (OpenFailed e)
      | None \<Rightarrow>
          (case decoded of Inl e \<Rightarrow> Inl (DecodeFailed e)
           | Inr (rate, decoder) \<Rightarrow>
               Inr \<lparr>ms_decoder = decoder, ms_sampleRate = rate, ms_channels = 2, ms_title = file_title path,
                    ms_artist = ''Unknown Artist'', ms_album = ''Unknown Album''\<rparr>))"

definition new_flac_source :: "string \<Rightarrow> int \<Rightarrow> nat \<Rightarrow> int \<Rightarrow> 'st \<Rightarrow> 'st FLACSource" where
  "new_flac_source path rate channels bitDepth stream =
     \<lparr>fs_stream = stream, fs_sampleRate = rate, fs_channels = channels, fs_bitDepth = bitDepth,
      fs_title = file_title path, fs_artist = ''Unknown Artist'', fs_album = ''Unknown Album'',
      fs_frameBuffer = [], fs_frameBufferPos = 0\<rparr>"

definition NewFLACSource ::
  "string \<Rightarrow> string option \<Rightarrow> string + (int \<times> nat \<times> int) \<times> 'st \<Rightarrow> open_error + 'st FLACSource" where
  "NewFLACSource path opened decoded =
     (case opened of Some e \<Rightarrow> Inl (OpenFailed e)
      | None \<Rightarrow>
          (case decoded of Inl e \<Rightarrow> Inl (DecodeFailed e)
           | Inr ((rate, channels, bitDepth), stream) \<Rightarrow>
               Inr (new_flac_source path rate channels bitDepth stream)))"

definition NewHTTPMP3Source ::
  "string + int \<Rightarrow> string + int \<times> 'd \<Rightarrow> open_error + 'd HTTPMP3Source" where
  "NewHTTPMP3Source got decoded =
     (case got of Inl e \<Rightarrow> Inl (FetchFailed e)
      | Inr status \<Rightarrow>
          if status \<noteq> 200 then Inl (HTTPError status)
          else
            (case decoded of Inl e \<Rightarrow> Inl (DecodeFailed e)
             | Inr (rate, decoder) \<Rightarrow>
                 Inr \<lparr>hs_decoder = decoder, hs_sampleRate = rate, hs_channels = 2,
                      hs_title = ''HTTP Stream''\<rparr>))"

definition ffmpeg_args :: "string \<Rightarrow> string list" where
  "ffmpeg_args url = [''-loglevel'', ''error'', ''-i'', url, ''-f'', ''s16le'', ''-ar'', ''48000'', ''-ac'', ''2'', ''-'']"

definition NewFFmpegSource ::
  "string \<Rightarrow> string option \<Rightarrow> string option \<Rightarrow> (string list \<Rightarrow> string + byte list) \<Rightarrow> open_error + FFmpegSource" where
  "NewFFmpegSource url found piped start =
     (if \<not> has_prefix url ''http://'' \<and> \<not> has_prefix url ''https://'' then Inl UnsupportedScheme
      else case found of Some e \<Rightarrow> Inl (FFmpegMissing e)
      | None \<Rightarrow>
          (case piped of Some e \<Rightarrow> Inl (PipeFailed e)
           | None \<Rightarrow>
               (case start (ffmpeg_args url) of Inl e \<Rightarrow> Inl (StartFailed e)
                | Inr output \<Rightarrow>
                    Inr \<lparr>ff_reader = output, ff_sampleRate = 48000, ff_source_channels = 2,
                         ff_title = ''Live Stream''\<rparr>)))"

text \<open>What \<open>Metadata\<close> returns: title, artist and album.\<close>

definition mp3_Metadata :: "'d MP3Source \<Rightarrow> string \<times> string \<times> string" where
  "mp3_Metadata s = (ms_title s, ms_artist s, ms_album s)"

definition flac_Metadata :: "'st FLACSource \<Rightarrow> string \<times> string \<times> string" where
  "flac_Metadata s = (fs_title s, fs_artist s, fs_album s)"

definition http_Metadata :: "'d HTTPMP3Source \<Rightarrow> string \<times> string \<times> string" where
  "http_Metadata s = (hs_title s, ''HTTP Stream'', [])"

definition ffmpeg_Metadata :: "FFmpegSource \<Rightarrow> string \<times> string \<times> string" where
  "ffmpeg_Metadata s = (ff_title s, ''Live Stream'', [])"

text \<open>The test tone of the command-line server, always at the default rate and in stereo.\<close>

definition NewTestToneSource :: TestToneSource where
  "NewTestToneSource =
     \<lparr>tt_sampleIndex = 0, tt_frequency = Fin 440, tt_sampleRate = 192000, tt_channels = 2\<rparr>"

definition server_tone_Read :: "(f64 \<Rightarrow> f64) \<Rightarrow> sample list \<Rightarrow> TestToneSource \<Rightarrow> sample list \<times> nat \<times> TestToneSource" where
  "server_tone_Read sin' samples s =
     (let numSamples = length samples div 2;
          frames = map (\<lambda>i. let v = tone_value sin' (tt_frequency s) 192000 (tt_sampleIndex s + i) in [v, v])
            [0..<numSamples]
      in (concat frames @ drop (length (concat frames)) samples, length samples,
          s\<lparr>tt_sampleIndex := (tt_sampleIndex s + numSamples) mod 2 ^ 64\<rparr>))"

text \<open>The two generators agree: the one of the package with the default format is the one of the server.\<close>

lemma server_tone_is_default_tone:
  assumes "tt_sampleRate s = 192000" "tt_channels s = 2"
  shows "tone_Read sin' samples s = Some (server_tone_Read sin' samples s)"
    and "NewTestToneSource = NewTestTone 0 0"
proof -
  have q: "go_quot (int n) 2 = int (n div 2)" for n by (simp add: go_quot_nonneg zdiv_int)
  have "nat ((int a + int b) mod 2 ^ 64) = (a + b) mod 2 ^ 64" for a b
    by (metis nat_int of_nat_add of_nat_mod of_nat_numeral of_nat_power)
  then show "tone_Read sin' samples s = Some (server_tone_Read sin' samples s)"
    by (simp add: tone_Read_def server_tone_Read_def assms q Let_def numeral_2_eq_2)
  show "NewTestToneSource = NewTestTone 0 0" by (simp add: NewTestToneSource_def NewTestTone_def)
qed

section \<open>A FLAC file as an endless stream\<close>

text \<open>
  What the source relies on in the FLAC library: \<open>ParseNext\<close> delivers the frames of the file one
  after the other and then reports the end; a stream opened at the start delivers all of them;
  the frames have samples for all channels.
\<close>

definition flac_library ::
  "('st \<Rightarrow> parse_result \<times> 'st) \<Rightarrow> source_error + 'st \<Rightarrow> ('st \<Rightarrow> source_frame list) \<Rightarrow>
   source_frame list \<Rightarrow> bool" where
  "flac_library parse reopen remaining file \<longleftrightarrow>
     (\<forall>st. case remaining st of
        [] \<Rightarrow> fst (parse st) = ParseError EndOfFile
      | f # fs \<Rightarrow> fst (parse st) = ParsedFrame f \<and> remaining (snd (parse st)) = fs) \<and>
     (\<exists>st. reopen = Inr st \<and> remaining st = file)"

definition frame_out :: "'st FLACSource \<Rightarrow> source_frame \<Rightarrow> sample list" where
  "frame_out s f = the (frame_samples (fs_channels s) (fs_bitDepth s) f)"

definition playable :: "'st FLACSource \<Rightarrow> source_frame \<Rightarrow> bool" where
  "playable s f \<longleftrightarrow> frame_samples (fs_channels s) (fs_bitDepth s) f \<noteq> None \<and> frame_out s f \<noteq> []"

text \<open>The samples still to come from the frames at hand, and after them the whole file for ever.\<close>

definition endless :: "sample list \<Rightarrow> sample list \<Rightarrow> nat \<Rightarrow> sample" where
  "endless rest loop i = (if i < length rest then rest ! i else loop ! ((i - length rest) mod length loop))"

definition pending :: "('st \<Rightarrow> source_frame list) \<Rightarrow> 'st FLACSource \<Rightarrow> sample list" where
  "pending remaining s =
     drop (fs_frameBufferPos s) (fs_frameBuffer s) @ concat (map (frame_out s) (remaining (fs_stream s)))"

definition playing :: "('st \<Rightarrow> source_frame list) \<Rightarrow> source_frame list \<Rightarrow> 'st FLACSource \<Rightarrow> nat \<Rightarrow> sample" where
  "playing remaining file s = endless (pending remaining s) (concat (map (frame_out s) file))"

definition source_ok :: "('st \<Rightarrow> source_frame list) \<Rightarrow> source_frame list \<Rightarrow> 'st FLACSource \<Rightarrow> bool" where
  "source_ok remaining file s \<longleftrightarrow>
     file \<noteq> [] \<and> (\<forall>f \<in> set file. playable s f) \<and> set (remaining (fs_stream s)) \<subseteq> set file"

lemma endless_loop: "loop \<noteq> [] \<Longrightarrow> endless [] loop = endless loop loop"
  by (auto simp: endless_def fun_eq_iff not_less le_mod_geq)

lemma endless_drop: "n \<le> length rest \<Longrightarrow> endless rest loop (n + i) = endless (drop n rest) loop i"
  by (auto simp: endless_def add.commute)

lemma endless_take: "n \<le> length rest \<Longrightarrow> map (endless rest loop) [0..<n] = take n rest"
  by (rule nth_equalityI) (auto simp: endless_def)

lemma endless_split:
  "n \<le> length rest \<Longrightarrow> map (endless rest loop) [0..<n + m] = take n rest @ map (endless (drop n rest) loop) [0..<m]"
proof (rule nth_equalityI)
  fix i
  assume n: "n \<le> length rest" and "i < length (map (endless rest loop) [0..<n + m])"
  then have "i < n + m" by simp
  with n show "map (endless rest loop) [0..<n + m] ! i =
      (take n rest @ map (endless (drop n rest) loop) [0..<m]) ! i"
    using endless_drop [of n rest loop "i - n"]
    by (cases "i < n") (simp_all add: nth_append endless_def)
qed simp

lemma flac_libraryD:
  "flac_library parse reopen remaining file \<Longrightarrow> remaining st = [] \<Longrightarrow>
     \<exists>st'. parse st = (ParseError EndOfFile, st')"
  "flac_library parse reopen remaining file \<Longrightarrow> remaining st = f # fs \<Longrightarrow>
     \<exists>st'. parse st = (ParsedFrame f, st') \<and> remaining st' = fs"
  "flac_library parse reopen remaining file \<Longrightarrow> \<exists>st. reopen = Inr st \<and> remaining st = file"
proof -
  assume lib: "flac_library parse reopen remaining file"
  then have step: "case remaining st of
        [] \<Rightarrow> fst (parse st) = ParseError EndOfFile
      | f # fs \<Rightarrow> fst (parse st) = ParsedFrame f \<and> remaining (snd (parse st)) = fs"
    by (simp add: flac_library_def)
  show "\<exists>st'. parse st = (ParseError EndOfFile, st')" if "remaining st = []"
    using step that by (cases "parse st") simp
  show "\<exists>st'. parse st = (ParsedFrame f, st') \<and> remaining st' = fs" if "remaining st = f # fs"
    using step that by (cases "parse st") simp
  show "\<exists>st. reopen = Inr st \<and> remaining st = file"
    using lib by (simp add: flac_library_def)
qed

text \<open>A frame that is at hand, and the end of the file.\<close>

lemma fill_frame:
  assumes "flac_library parse reopen remaining file" "remaining (fs_stream s) = f # fs" "playable s f"
    and "length out < len"
  shows "\<exists>st. remaining st = fs \<and>
    flac_fill parse reopen len out s =
      (let xs = frame_out s f; n = min (length xs) (len - length out)
       in if n < length xs
          then Some (Some (out @ take n xs, None, s\<lparr>fs_stream := st, fs_frameBuffer := xs, fs_frameBufferPos := n\<rparr>))
          else flac_fill parse reopen len (out @ xs) (s\<lparr>fs_stream := st\<rparr>))"
proof -
  obtain st where st: "parse (fs_stream s) = (ParsedFrame f, st)" "remaining st = fs"
    using flac_libraryD(2) [OF assms(1,2)] by blast
  obtain xs where xs: "frame_samples (fs_channels s) (fs_bitDepth s) f = Some xs"
    using assms(3) by (auto simp: playable_def)
  have "flac_fill parse reopen len out s =
      (let n = min (length xs) (len - length out)
       in if n < length xs
          then Some (Some (out @ take n xs, None, s\<lparr>fs_stream := st, fs_frameBuffer := xs, fs_frameBufferPos := n\<rparr>))
          else flac_fill parse reopen len (out @ take n xs) (s\<lparr>fs_stream := st\<rparr>))"
    by (subst flac_fill.simps) (simp add: assms(4) st(1) xs Let_def)
  then show ?thesis
    by (intro exI [of _ st] conjI st(2)) (simp add: frame_out_def xs Let_def)
qed

lemma fill_end:
  assumes "flac_library parse reopen remaining file" "remaining (fs_stream s) = []" "length out < len"
  shows "\<exists>st. remaining st = file \<and>
    flac_fill parse reopen len out s =
    flac_fill parse reopen len out (s\<lparr>fs_stream := st, fs_frameBuffer := [], fs_frameBufferPos := 0\<rparr>)"
proof -
  obtain st where st: "parse (fs_stream s) = (ParseError EndOfFile, st)"
    using flac_libraryD(1) [OF assms(1,2)] by blast
  obtain st' where st': "reopen = Inr st'" "remaining st' = file"
    using flac_libraryD(3) [OF assms(1)] by blast
  have "flac_fill parse reopen len out s =
    flac_fill parse reopen len out (s\<lparr>fs_stream := st', fs_frameBuffer := [], fs_frameBufferPos := 0\<rparr>)"
    by (subst flac_fill.simps) (simp add: assms(3) st st'(1) Let_def)
  with st'(2) show ?thesis by blast
qed

definition plays ::
  "('st \<Rightarrow> source_frame list) \<Rightarrow> source_frame list \<Rightarrow> 'st FLACSource \<Rightarrow> nat \<Rightarrow> sample list \<Rightarrow>
   (sample list \<times> source_error option \<times> 'st FLACSource) option option \<Rightarrow> bool" where
  "plays remaining file s n out r \<longleftrightarrow>
     (\<exists>s'. r = Some (Some (out @ map (playing remaining file s) [0..<n], None, s')) \<and>
           playing remaining file s' = (\<lambda>i. playing remaining file s (n + i)) \<and>
           source_ok remaining file s')"

lemma playing_stream_update:
  "pending remaining s = xs @ pending remaining s' \<Longrightarrow> frame_out s' = frame_out s \<Longrightarrow>
   playing remaining file s = endless (xs @ pending remaining s') (concat (map (frame_out s) file)) \<and>
   playing remaining file s' = endless (pending remaining s') (concat (map (frame_out s) file))"
  by (simp add: playing_def)

lemma fill_plays_frame:
  assumes lib: "flac_library parse reopen remaining file" and ok: "source_ok remaining file s"
    and drained: "length (fs_frameBuffer s) \<le> fs_frameBufferPos s"
    and frames: "remaining (fs_stream s) = f # fs" and n: "len = length out + n" "0 < n"
    and IH: "\<And>m out s. m < n \<Longrightarrow> source_ok remaining file s \<Longrightarrow>
      length (fs_frameBuffer s) \<le> fs_frameBufferPos s \<Longrightarrow> len = length out + m \<Longrightarrow>
      plays remaining file s m out (flac_fill parse reopen len out s)"
  shows "plays remaining file s n out (flac_fill parse reopen len out s)"
proof -
  define xs where "xs = frame_out s f"
  define rest where "rest = concat (map (frame_out s) fs)"
  define loop where "loop = concat (map (frame_out s) file)"
  have f: "playable s f" using ok frames by (auto simp: source_ok_def)
  then have "xs \<noteq> []" by (simp add: playable_def xs_def)
  have playing: "playing remaining file s = endless (xs @ rest) loop"
    using drained frames by (simp add: playing_def pending_def xs_def rest_def loop_def)
  obtain st where st: "remaining st = fs" and fill: "flac_fill parse reopen len out s =
      (let xs = frame_out s f; n = min (length xs) (len - length out)
       in if n < length xs
          then Some (Some (out @ take n xs, None, s\<lparr>fs_stream := st, fs_frameBuffer := xs, fs_frameBufferPos := n\<rparr>))
          else flac_fill parse reopen len (out @ xs) (s\<lparr>fs_stream := st\<rparr>))"
    using fill_frame [OF lib frames f, of out len] n by auto
  have sub: "set fs \<subseteq> set file" using ok frames by (simp add: source_ok_def)
  show ?thesis
  proof (cases "n < length xs")
    case True
    define s' where "s' = s\<lparr>fs_stream := st, fs_frameBuffer := xs, fs_frameBufferPos := n\<rparr>"
    have "frame_out s' = frame_out s" "playable s' = playable s"
      by (simp_all add: s'_def frame_out_def playable_def fun_eq_iff)
    then have "playing remaining file s' = endless (drop n (xs @ rest)) loop" "source_ok remaining file s'"
      using True ok st sub by (simp_all add: playing_def pending_def s'_def rest_def loop_def source_ok_def)
    moreover have "flac_fill parse reopen len out s = Some (Some (out @ take n xs, None, s'))"
      using fill True n by (simp add: xs_def s'_def Let_def)
    ultimately show ?thesis
      using True endless_drop [of n "xs @ rest" loop] endless_take [of n "xs @ rest" loop]
      by (auto simp: plays_def playing fun_eq_iff intro!: exI [of _ s'])
  next
    case False
    define s' where "s' = s\<lparr>fs_stream := st\<rparr>"
    define m where "m = n - length xs"
    have m: "n = length xs + m" "m < n" using False \<open>xs \<noteq> []\<close> n(2) by (auto simp: m_def)
    have "frame_out s' = frame_out s" "playable s' = playable s"
      by (simp_all add: s'_def frame_out_def playable_def fun_eq_iff)
    then have s': "playing remaining file s' = endless rest loop" "source_ok remaining file s'"
      using drained ok st sub by (simp_all add: playing_def pending_def s'_def rest_def loop_def source_ok_def)
    have "plays remaining file s' m (out @ xs) (flac_fill parse reopen len (out @ xs) s')"
      by (rule IH) (use m n drained s'(2) in \<open>simp_all add: s'_def\<close>)
    moreover have "flac_fill parse reopen len out s = flac_fill parse reopen len (out @ xs) s'"
      using fill False n by (simp add: xs_def s'_def Let_def)
    moreover have "map (endless (xs @ rest) loop) [0..<n] = xs @ map (endless rest loop) [0..<m]"
      using endless_split [of "length xs" "xs @ rest" loop m] m by simp
    moreover have "endless rest loop (m + i) = endless (xs @ rest) loop (n + i)" for i
      using endless_drop [of "length xs" "xs @ rest" loop "m + i"] m by (simp add: add.assoc)
    ultimately show ?thesis by (simp add: plays_def playing s'(1))
  qed
qed

lemma fill_plays:
  assumes lib: "flac_library parse reopen remaining file"
  shows "source_ok remaining file s \<Longrightarrow> length (fs_frameBuffer s) \<le> fs_frameBufferPos s \<Longrightarrow>
    len = length out + n \<Longrightarrow> plays remaining file s n out (flac_fill parse reopen len out s)"
proof (induction n arbitrary: out s rule: less_induct)
  case (less n)
  show ?case
  proof (cases "n = 0")
    case True
    with less.prems show ?thesis
      by (subst flac_fill.simps) (simp add: plays_def)
  next
    case False
    then have "0 < n" by simp
    note frame = fill_plays_frame [OF lib _ _ _ less.prems(3) this less.IH]
    show ?thesis
    proof (cases "remaining (fs_stream s)")
      case (Cons f fs)
      from frame [OF less.prems(1,2) this] show ?thesis by blast
    next
      case Nil
      then obtain st where st: "remaining st = file" and fill: "flac_fill parse reopen len out s =
          flac_fill parse reopen len out (s\<lparr>fs_stream := st, fs_frameBuffer := [], fs_frameBufferPos := 0\<rparr>)"
        using fill_end [OF lib Nil, of out len] less.prems(3) False by auto
      define s' where "s' = s\<lparr>fs_stream := st, fs_frameBuffer := [], fs_frameBufferPos := 0\<rparr>"
      obtain f fs where split: "file = f # fs" using less.prems(1) by (cases "file") (auto simp: source_ok_def)
      have same: "frame_out s' = frame_out s" "playable s' = playable s"
        by (simp_all add: s'_def frame_out_def playable_def fun_eq_iff)
      then have ok: "source_ok remaining file s'"
        using less.prems(1) st by (simp add: source_ok_def s'_def)
      have "concat (map (frame_out s) file) \<noteq> []"
        using less.prems(1) by (auto simp: source_ok_def playable_def split)
      then have "endless [] (concat (map (frame_out s) file)) =
          endless (concat (map (frame_out s) file)) (concat (map (frame_out s) file))"
        by (rule endless_loop)
      moreover have "pending remaining s = []" using Nil less.prems(2) by (simp add: pending_def)
      moreover have "pending remaining s' = concat (map (frame_out s) file)"
        by (simp add: pending_def same(1)) (simp add: s'_def st)
      ultimately have playing: "playing remaining file s' = playing remaining file s"
        by (simp only: playing_def same(1))
      have "length (fs_frameBuffer s') \<le> fs_frameBufferPos s'" "remaining (fs_stream s') = f # fs"
        using st split by (simp_all add: s'_def)
      from frame [OF ok this] have "plays remaining file s' n out (flac_fill parse reopen len out s')" .
      with fill playing show ?thesis by (simp only: plays_def s'_def)
    qed
  qed
qed

lemma read_plays:
  assumes lib: "flac_library parse reopen remaining file" and ok: "source_ok remaining file s"
  shows "plays remaining file s n [] (flac_Read parse reopen n s)"
proof (cases "fs_frameBufferPos s < length (fs_frameBuffer s)")
  case False
  with fill_plays [OF lib ok, of n "[]" n] show ?thesis by (simp add: flac_Read_def)
next
  case True
  define left where "left = drop (fs_frameBufferPos s) (fs_frameBuffer s)"
  define rest where "rest = concat (map (frame_out s) (remaining (fs_stream s)))"
  define loop where "loop = concat (map (frame_out s) file)"
  have playing: "playing remaining file s = endless (left @ rest) loop"
    by (simp add: playing_def pending_def left_def rest_def loop_def)
  have same: "frame_out (s\<lparr>fs_frameBuffer := b, fs_frameBufferPos := p\<rparr>) = frame_out s"
    "playable (s\<lparr>fs_frameBuffer := b, fs_frameBufferPos := p\<rparr>) = playable s" for p b
    by (simp_all add: frame_out_def playable_def fun_eq_iff)
  show ?thesis
  proof (cases "n \<le> length left")
    case enough: True
    define s' where "s' = s\<lparr>fs_frameBufferPos := fs_frameBufferPos s + n\<rparr>"
    have "frame_out s' = frame_out s" "playable s' = playable s"
      by (simp_all add: s'_def frame_out_def playable_def fun_eq_iff)
    then have "playing remaining file s' = endless (drop n (left @ rest)) loop" "source_ok remaining file s'"
      using enough ok by (simp_all add: playing_def pending_def s'_def left_def rest_def loop_def
          source_ok_def add.commute)
    moreover have "flac_Read parse reopen n s = Some (Some (take n left, None, s'))"
      using True enough by (simp add: flac_Read_def left_def s'_def Let_def)
    ultimately show ?thesis
      using enough endless_drop [of n "left @ rest" loop] endless_take [of n "left @ rest" loop]
      by (auto simp: plays_def playing fun_eq_iff intro!: exI [of _ s'])
  next
    case short: False
    define s' where "s' = s\<lparr>fs_frameBuffer := [], fs_frameBufferPos := 0\<rparr>"
    define m where "m = n - length left"
    have m: "n = length left + m" using short by (simp add: m_def)
    have s': "playing remaining file s' = endless rest loop" "source_ok remaining file s'"
      using ok same [where p = 0 and b = "[]"] by (simp_all add: playing_def pending_def s'_def rest_def loop_def source_ok_def)
    have "flac_Read parse reopen n s = flac_fill parse reopen n left s'"
      using True short by (simp add: flac_Read_def left_def s'_def Let_def)
    moreover have "plays remaining file s' m left (flac_fill parse reopen n left s')"
      by (rule fill_plays [OF lib s'(2) _ m]) (simp add: s'_def)
    moreover have "map (endless (left @ rest) loop) [0..<n] = left @ map (endless rest loop) [0..<m]"
      using endless_split [of "length left" "left @ rest" loop m] m by simp
    moreover have "endless rest loop (m + i) = endless (left @ rest) loop (n + i)" for i
      using endless_drop [of "length left" "left @ rest" loop "m + i"] m by (simp add: add.assoc)
    ultimately show ?thesis by (simp add: plays_def playing s'(1))
  qed
qed

text \<open>A sequence of calls that all return without an error.\<close>

fun flac_reads ::
  "('st \<Rightarrow> parse_result \<times> 'st) \<Rightarrow> source_error + 'st \<Rightarrow> nat list \<Rightarrow> 'st FLACSource \<Rightarrow> sample list list option" where
  "flac_reads parse reopen [] s = Some []"
| "flac_reads parse reopen (n # ns) s =
     (case flac_Read parse reopen n s of
        Some (Some (out, None, s)) \<Rightarrow> map_option ((#) out) (flac_reads parse reopen ns s)
      | _ \<Rightarrow> None)"

lemma map_upt_add: "map f [0..<a + b] = map f [0..<a] @ map (\<lambda>i. f (a + i)) [0..<b]"
  by (induction b) simp_all

text \<open>
  C10. Whatever lengths the server asks for, every call returns exactly that many samples, and the
  calls together play the file from where it was and then over and over, without a gap.
\<close>

theorem flac_source_stream:
  assumes "flac_library parse reopen remaining file" "source_ok remaining file s"
  shows "\<exists>outs. flac_reads parse reopen lens s = Some outs \<and> map length outs = lens \<and>
    concat outs = map (playing remaining file s) [0..<sum_list lens]"
  using assms(2)
proof (induction lens arbitrary: s)
  case Nil
  show ?case by simp
next
  case (Cons n ns)
  from read_plays [OF assms(1) Cons.prems, of n] obtain s' where s':
    "flac_Read parse reopen n s = Some (Some (map (playing remaining file s) [0..<n], None, s'))"
    "playing remaining file s' = (\<lambda>i. playing remaining file s (n + i))" "source_ok remaining file s'"
    by (auto simp: plays_def)
  from Cons.IH [OF s'(3)] show ?case by (auto simp: s'(1,2) map_upt_add)
qed

text \<open>A library over the list of the frames that are left.\<close>

definition list_parse :: "source_frame list \<Rightarrow> parse_result \<times> source_frame list" where
  "list_parse st = (case st of [] \<Rightarrow> (ParseError EndOfFile, []) | f # fs \<Rightarrow> (ParsedFrame f, fs))"

lemma list_library: "flac_library list_parse (Inr file) (\<lambda>st. st) file"
  by (simp add: flac_library_def list_parse_def split: list.split)

definition short_file :: "source_frame list" where
  "short_file = [\<lparr>sf_BlockSize = 2, sf_Subframes = [[1, 2], [3, 4]]\<rparr>,
                 \<lparr>sf_BlockSize = 1, sf_Subframes = [[5], [6]]\<rparr>]"

theorem flac_source_stream_witness:
  "\<exists>outs. flac_reads list_parse (Inr short_file) [4, 0, 5]
       (new_flac_source ''a.flac'' 44100 2 24 short_file) = Some outs \<and>
     concat outs = [1, 3, 2, 4, 5, 6, 1, 3, 2]"
proof -
  define s where "s = new_flac_source ''a.flac'' 44100 2 24 short_file"
  have out: "frame_samples 2 24 \<lparr>sf_BlockSize = 2, sf_Subframes = [[1, 2], [3, 4]]\<rparr> = Some [1, 3, 2, 4]"
    "frame_samples 2 24 \<lparr>sf_BlockSize = 1, sf_Subframes = [[5], [6]]\<rparr> = Some [5, 6]"
    by (simp_all add: frame_samples_def flac_scale_def upt_rec numeral_2_eq_2 less_Suc_eq)
  have whole: "concat (map (frame_out s) short_file) = [1, 3, 2, 4, 5, 6]"
    by (simp add: short_file_def frame_out_def s_def new_flac_source_def out del: One_nat_def)
  have "source_ok (\<lambda>st. st) short_file s"
    by (simp add: source_ok_def playable_def frame_out_def s_def new_flac_source_def out short_file_def
        del: One_nat_def)
  from flac_source_stream [OF list_library this, of "[4, 0, 5]"]
  obtain outs where "flac_reads list_parse (Inr short_file) [4, 0, 5] s = Some outs"
    "concat outs = map (playing (\<lambda>st. st) short_file s) [0..<9]" by auto
  moreover have "playing (\<lambda>st. st) short_file s = endless [1, 3, 2, 4, 5, 6] [1, 3, 2, 4, 5, 6]"
    using whole by (simp add: playing_def pending_def) (simp add: s_def new_flac_source_def)
  ultimately show ?thesis by (simp add: s_def endless_def upt_rec)
qed

section \<open>A file without samples\<close>

lemma fill_empty:
  assumes "flac_fill parse reopen len out s = Some r"
  shows "flac_library parse reopen remaining [] \<longrightarrow> remaining (fs_stream s) = [] \<longrightarrow> len \<le> length out"
proof (rule flac_fill.raw_induct [OF _ assms], goal_cases)
  case (1 fill parse reopen len out s r)
  show ?case
  proof (intro impI)
    assume lib: "flac_library parse reopen remaining []" "remaining (fs_stream s) = []"
    obtain st st' where "parse (fs_stream s) = (ParseError EndOfFile, st)" "reopen = Inr st'" "remaining st' = []"
      using flac_libraryD(1,3) [OF lib(1)] lib(2) by blast
    with 1(1) [of parse reopen len out "s\<lparr>fs_stream := st', fs_frameBuffer := [], fs_frameBufferPos := 0\<rparr>"] 1(2) lib(1)
    show "len \<le> length out" by (auto simp: Let_def split: if_splits)
  qed
qed

text \<open>
  \<open>Read\<close> never returns on a FLAC file without frames: at the end of the file it starts again,
  and finds the end again.
\<close>

theorem flac_empty_file_hangs:
  assumes "flac_library parse reopen remaining []" "remaining (fs_stream s) = []"
    and "length (fs_frameBuffer s) \<le> fs_frameBufferPos s" "0 < len"
  shows "flac_Read parse reopen len s = None"
proof -
  have "flac_Read parse reopen len s = flac_fill parse reopen len [] s"
    using assms(3) by (simp add: flac_Read_def)
  moreover have "flac_fill parse reopen len [] s = None"
  proof (rule ccontr)
    assume "flac_fill parse reopen len [] s \<noteq> None"
    then obtain r where "flac_fill parse reopen len [] s = Some r" by blast
    from fill_empty [OF this, of remaining] assms(1,2,4) show False by simp
  qed
  ultimately show ?thesis by simp
qed

theorem flac_empty_file_hangs_witness:
  "flac_Read list_parse (Inr []) 1764 (new_flac_source ''a.flac'' 44100 2 16 []) = None"
  by (rule flac_empty_file_hangs [OF list_library]) (simp_all add: new_flac_source_def)

section \<open>Short reads of the MP3 decoder\<close>

text \<open>
  \<open>Read\<close> of an MP3 source asks its decoder once. When the decoder returns fewer bytes than asked,
  as readers may, the chunk is short, and a client on FLAC is sent nothing for it: the encoder
  refuses the chunk, and the next call goes on after the samples that were dropped.
\<close>

theorem mp3_short_read_dropped:
  assumes "rd (len * 2) (ms_decoder s) = (buf, None, d)" "length buf < len * 2" "even (length buf)"
    and "sc_codec c = ''flac''" "sc_flacEncoder c = Some e" "flac_blockSize e * flac_channels e = len"
  shows "mp3_Read rd reopen len s = (samples_of_bytes buf, None, s\<lparr>ms_decoder := d\<rparr>) \<and>
         length (samples_of_bytes buf) = length buf div 2 \<and>
         stream_to_client libs now pt (samples_of_bytes buf) c = Some c"
proof -
  have "length (samples_of_bytes buf) = length buf div 2" by (simp add: samples_of_bytes_def)
  moreover from this have "length (samples_of_bytes buf) \<noteq> len" using assms(2) by simp
  moreover have "c\<lparr>sc_flacEncoder := Some e\<rparr> = c" using assms(5) by simp
  ultimately show ?thesis
    using assms
    by (simp add: mp3_Read_def stream_to_client_def encode_chunk_def flac_Encode_def Let_def)
qed

text \<open>A decoder that hands out one decoded frame at a time, here with 1080 bytes of it left.\<close>

definition frame_reader :: "byte list byte_reader" where
  "frame_reader n frame = (take n frame, None, drop n frame)"

theorem mp3_short_read_dropped_witness:
  "\<exists>xs s'. mp3_Read frame_reader (Inl EndOfFile) 1764
      \<lparr>ms_decoder = replicate 1080 0, ms_sampleRate = 44100, ms_channels = 2, ms_title = ''a'',
        ms_artist = ''Unknown Artist'', ms_album = ''Unknown Album''\<rparr> = (xs, None, s') \<and>
    length xs = 540 \<and> ms_decoder s' = [] \<and>
    stream_to_client libs 0 500000 xs
      (client_example\<lparr>sc_codec := ''flac'', sc_flacEncoder := Some \<lparr>flac_lib = (), flac_buf = [],
         flac_codecHeader = [], flac_sampleRate = 44100, flac_channels = 2, flac_bitDepth = 24,
         flac_blockSize = 882\<rparr>\<rparr>) =
    Some (client_example\<lparr>sc_codec := ''flac'', sc_flacEncoder := Some \<lparr>flac_lib = (), flac_buf = [],
         flac_codecHeader = [], flac_sampleRate = 44100, flac_channels = 2, flac_bitDepth = 24,
         flac_blockSize = 882\<rparr>\<rparr>)"
proof -
  define s where "s = \<lparr>ms_decoder = replicate 1080 (0 :: byte), ms_sampleRate = 44100, ms_channels = 2, ms_title = ''a'',
        ms_artist = ''Unknown Artist'', ms_album = ''Unknown Album''\<rparr>"
  have "frame_reader (1764 * 2) (ms_decoder s) = (replicate 1080 0, None, [])"
    by (simp add: frame_reader_def s_def)
  note short = mp3_short_read_dropped [where rd = frame_reader, OF this, of
      "client_example\<lparr>sc_codec := ''flac'', sc_flacEncoder := Some \<lparr>flac_lib = (), flac_buf = [],
         flac_codecHeader = [], flac_sampleRate = 44100, flac_channels = 2, flac_bitDepth = 24,
         flac_blockSize = 882\<rparr>\<rparr>" "\<lparr>flac_lib = (), flac_buf = [],
         flac_codecHeader = [], flac_sampleRate = 44100, flac_channels = 2, flac_bitDepth = 24,
         flac_blockSize = 882\<rparr>" "Inl EndOfFile" libs 0 500000]
  show ?thesis
    using short by (intro exI [of _ "samples_of_bytes (replicate 1080 0)"] exI [of _ "s\<lparr>ms_decoder := []\<rparr>"])
      (simp add: s_def)
qed

section \<open>The range of a tone\<close>

text \<open>What is used of \<open>math.Sin\<close>: on a finite number it is between -1 and 1.\<close>

definition sine_like :: "(f64 \<Rightarrow> f64) \<Rightarrow> bool" where
  "sine_like sin' \<longleftrightarrow> (\<forall>x. \<exists>y. sin' (Fin x) = Fin y \<and> \<bar>y\<bar> \<le> 1)"

lemma fl_below:
  assumes "\<bar>x\<bar> < pow2 k" "- 900 \<le> k" "k \<le> 1000"
  shows "\<exists>y. fl x = Fin y \<and> \<bar>y\<bar> < pow2 (k + 1)"
proof -
  have "\<bar>f64_round x - x\<bar> \<le> pow2 (k - 54)" and Fin: "fl x = Fin (f64_round x)"
    using fl_small [of x k] assms by auto
  moreover have "pow2 (k - 54) \<le> pow2 k" by (simp only: pow2_le_iff)
  moreover have "pow2 (k + 1) = 2 * pow2 k" by (simp add: power_int_add)
  ultimately have "\<bar>f64_round x\<bar> < pow2 (k + 1)" using assms(1) by linarith
  with Fin show ?thesis by blast
qed

lemma fl_product:
  assumes "\<bar>x\<bar> < pow2 j" "\<bar>y\<bar> < pow2 k" "- 900 \<le> j + k" "j + k \<le> 1000"
  shows "\<exists>z. fl (x * y) = Fin z \<and> \<bar>z\<bar> < pow2 (j + k + 1)"
proof (rule fl_below)
  have "\<bar>x * y\<bar> < pow2 j * pow2 k"
    unfolding abs_mult using assms(1,2) by (intro mult_strict_mono) auto
  then show "\<bar>x * y\<bar> < pow2 (j + k)" by (simp add: power_int_add)
qed (use assms in simp_all)

lemma rate_away_from_0:
  assumes "rate \<noteq> 0" "\<bar>rate\<bar> < 2 ^ 63"
  shows "\<exists>z. f64_of_int rate = Fin z \<and> 1 \<le> \<bar>z\<bar>"
proof -
  have "\<bar>of_int rate\<bar> < (of_int (2 ^ 63) :: rat)" using assms(2) by (simp only: of_int_less_iff flip: of_int_abs)
  then have "\<bar>of_int rate\<bar> < pow2 63" by (simp add: pow2_int)
  then have Fin: "f64_of_int rate = Fin (f64_round (of_int rate))"
    unfolding f64_of_int_def by (rule fl_small(1)) auto
  have one: "f64_representable 1" "f64_representable (- 1)"
    using f64_representable_of_int [of 1] f64_representable_of_int [of "- 1"] by simp_all
  consider "1 \<le> rate" | "rate \<le> - 1" using assms(1) by linarith
  then have "1 \<le> \<bar>f64_round (of_int rate)\<bar>"
  proof cases
    case 1
    then have "1 \<le> f64_round (of_int rate)" by (intro f64.rnd_ge one) simp
    then show ?thesis by linarith
  next
    case 2
    then have "of_int rate \<le> (of_int (- 1) :: rat)" by (simp only: of_int_le_iff)
    then have "f64_round (of_int rate) \<le> - 1" by (intro f64.rnd_le one) simp
    then show ?thesis by linarith
  qed
  with Fin show ?thesis by blast
qed

lemma tone_argument_finite:
  assumes "rate \<noteq> 0" "\<bar>rate\<bar> < 2 ^ 63"
  shows "\<exists>x. f64_mul (f64_mul f64_two_pi (Fin 440)) (f64_div (f64_of_int (int (index mod 2 ^ 64))) (f64_of_int rate)) = Fin x"
proof -
  define n where "n = int (index mod 2 ^ 64)"
  have "0 \<le> n" "n < 2 ^ 64" unfolding n_def by (simp_all flip: of_nat_power add: zmod_int)
  then have "\<bar>of_int n\<bar> < (of_int (2 ^ 64) :: rat)" by (simp only: of_int_less_iff flip: of_int_abs)
  then have "\<bar>of_int n\<bar> < pow2 64" by (simp add: pow2_int)
  then obtain r where r: "f64_of_int n = Fin r" "\<bar>r\<bar> < pow2 65"
    using fl_below [of "of_int n" 64] by (auto simp: f64_of_int_def)
  obtain z where z: "f64_of_int rate = Fin z" "1 \<le> \<bar>z\<bar>" using rate_away_from_0 [OF assms] by blast
  have "\<bar>r / z\<bar> = \<bar>r\<bar> / \<bar>z\<bar>" by (rule abs_divide)
  also have "\<dots> \<le> \<bar>r\<bar> / 1" using z(2) by (intro divide_left_mono) auto
  finally have "\<bar>r / z\<bar> < pow2 65" using r(2) by simp
  then obtain t where t: "fl (r / z) = Fin t" "\<bar>t\<bar> < pow2 66" using fl_below [of "r / z" 65] by auto
  have "\<bar>884279719003555 / 140737488355328 * 440\<bar> < pow2 12" by (simp add: power_int_def)
  then obtain v where v: "fl (884279719003555 / 140737488355328 * 440) = Fin v" "\<bar>v\<bar> < pow2 13"
    using fl_below [of "884279719003555 / 140737488355328 * 440" 12] by auto
  obtain x where "fl (v * t) = Fin x" using fl_product [OF v(2) t(2)] by auto
  moreover have "z \<noteq> 0" using z(2) by auto
  ultimately show ?thesis
    using r(1) z(1) t(1) v(1) by (simp add: f64_two_pi_def n_def)
qed

lemma tone_value_range:
  assumes "sine_like sin'" "rate \<noteq> 0" "\<bar>rate\<bar> < 2 ^ 63"
  shows "in_24bit (tone_value sin' (Fin 440) rate index)"
proof -
  obtain x where x: "f64_mul (f64_mul f64_two_pi (Fin 440)) (f64_div (f64_of_int (int (index mod 2 ^ 64))) (f64_of_int rate)) = Fin x"
    using tone_argument_finite [OF assms(2,3)] by blast
  obtain y where y: "sin' (Fin x) = Fin y" "\<bar>y\<bar> \<le> 1" using assms(1) by (auto simp: sine_like_def)
  then obtain a where a: "fl (y * 8388607) = Fin a" "- 8388607 \<le> a" "a \<le> 8388607"
    using fl_bounded [of "- 8388607" "y * 8388607" 8388607] by auto
  then obtain b where b: "fl (a / 2) = Fin b" "- 4194304 \<le> b" "b \<le> 4194304"
    using fl_bounded [of "- 4194304" "a / 2" 4194304] by auto
  define k where "k = f64_trunc b"
  have "\<bar>k\<bar> \<le> 4194304" unfolding k_def by (rule f64_trunc_abs_le) (use b in simp)
  then have "is_int64 k" "sint (word_of_int k :: sample) = k"
    by (auto simp: is_int64_def intro!: sint_of_24bit simp: Min24Bit_def Max24Bit_def)
  moreover have "tone_value sin' (Fin 440) rate index = word_of_int k"
    unfolding tone_value_def Let_def x y(1)
    using \<open>is_int64 k\<close> by (simp add: a b f64_to_int32_def f64_to_int64_def k_def)
  ultimately show ?thesis
    using \<open>\<bar>k\<bar> \<le> 4194304\<close> by (simp only: in_24bit_def Min24Bit_def Max24Bit_def abs_le_iff) linarith
qed

lemma length_frames:
  assumes "0 < (c :: int)"
  shows "length (concat (map (\<lambda>i. replicate (nat c) (f i)) [0..<nat (go_quot (int n) c)])) \<le> n"
proof -
  have "go_quot (int n) c = int n div c" using assms by (intro go_quot_nonneg) simp_all
  then have "length (concat (map (\<lambda>i. replicate (nat c) (f i)) [0..<nat (go_quot (int n) c)])) = nat c * nat (int n div c)"
    by (subst length_concat_uniform [where k = "nat c"]) simp_all
  also have "\<dots> = nat (c * (int n div c))" using assms by (simp add: nat_mult_distrib)
  also have "\<dots> \<le> n" using assms by (simp add: nat_le_iff minus_mod_eq_mult_div [symmetric])
  finally show ?thesis .
qed

text \<open>
  The built-in tone never leaves the 24-bit range, at any rate and however long it has played,
  and \<open>Read\<close> always fills its buffer without an error.
\<close>

theorem test_tone_in_range:
  assumes "sine_like sin'" "\<bar>rate\<bar> < 2 ^ 63" "0 \<le> channels" "list_all in_24bit samples"
  shows "\<exists>out s'. tone_Read sin' samples ((NewTestTone rate channels)\<lparr>tt_sampleIndex := i\<rparr>) =
      Some (out, length samples, s') \<and> length out = length samples \<and> list_all in_24bit out"
proof -
  define r where "r = tt_sampleRate (NewTestTone rate channels)"
  define c where "c = tt_channels (NewTestTone rate channels)"
  have r: "r \<noteq> 0" "\<bar>r\<bar> < 2 ^ 63" and c: "0 < c"
    using assms(2,3) by (auto simp: r_def c_def NewTestTone_def)
  define tone where "tone = concat (map (\<lambda>k. replicate (nat c) (tone_value sin' (Fin 440) r (i + k)))
      [0..<nat (go_quot (int (length samples)) c)])"
  have "in_24bit x" if "x \<in> set tone" for x
    using that tone_value_range [OF assms(1) r] by (auto simp: tone_def)
  moreover have "length tone \<le> length samples" unfolding tone_def by (rule length_frames [OF c])
  moreover have "\<exists>s'. tone_Read sin' samples ((NewTestTone rate channels)\<lparr>tt_sampleIndex := i\<rparr>) =
      Some (tone @ drop (length tone) samples, length samples, s')"
    using c by (simp add: tone_Read_def tone_def r_def [symmetric] c_def [symmetric] Let_def)
      (simp add: NewTestTone_def)
  ultimately show ?thesis
    using assms(4) set_drop_subset [of "length tone" samples] by (fastforce simp: list_all_iff)
qed

theorem test_tone_in_range_witness:
  "\<exists>out s'. tone_Read (\<lambda>x. Fin (1 / 2)) [0, 0, 0, 0] ((NewTestTone 0 0)\<lparr>tt_sampleIndex := 191999\<rparr>) =
      Some (out, 4, s') \<and> list_all in_24bit out"
proof -
  have "list_all in_24bit [0, 0, 0, 0]" by (simp add: in_24bit_def Min24Bit_def Max24Bit_def)
  moreover have "sine_like (\<lambda>x. Fin (1 / 2))" unfolding sine_like_def by (intro allI exI [of _ "1 / 2"]) simp
  ultimately obtain out s' where "tone_Read (\<lambda>x. Fin (1 / 2)) [0, 0, 0, 0]
      ((NewTestTone 0 0)\<lparr>tt_sampleIndex := 191999\<rparr>) = Some (out, length [0, 0, 0, 0 :: sample], s')"
    "list_all in_24bit out"
    using test_tone_in_range [of "\<lambda>x. Fin (1 / 2)" 0 0 "[0, 0, 0, 0]" 191999] by auto
  then show ?thesis by (intro exI [of _ out] exI [of _ s']) simp
qed

section \<open>Paths, schemes and tails\<close>

lemma ffmpeg_scheme_checked:
  "NewAudioSource missing path = Inr (FFmpegKind url) \<Longrightarrow> NewFFmpegSource url found piped start \<noteq> Inl UnsupportedScheme"
  by (auto simp: NewAudioSource_def NewFFmpegSource_def Let_def split: if_splits option.splits sum.splits)

lemma wav_unsupported: "NewAudioSource (\<lambda>_. False) ''music/a.wav'' = Inl (UnsupportedFormat ''.wav'')"
  by code_simp

lemma source_examples:
  "NewAudioSource (\<lambda>_. False) ''music/A.FLAC'' = Inr (FLACKind ''music/A.FLAC'')"
  "NewAudioSource (\<lambda>_. False) ''https://h/live.m3u8?id=1'' = Inr (FFmpegKind ''https://h/live.m3u8?id=1'')"
  "file_title ''music/A.b.flac'' = ''A.b''"
  by code_simp+

text \<open>The last chunk of a stream from ffmpeg is lost unless it is complete.\<close>

lemma ffmpeg_tail_lost:
  "length (ff_reader s) < len * 2 \<Longrightarrow> \<exists>e s'. ffmpeg_Read len s = ([], Some e, s') \<and> ff_reader s' = []"
  by (simp add: ffmpeg_Read_def ReadFull_def)

lemma http_tail_lost:
  "rd (len * 2) (hs_decoder s) = (buf, Some EndOfFile, d) \<Longrightarrow>
   http_Read rd len s = ([], Some EndOfFile, s\<lparr>hs_decoder := d\<rparr>)"
  by (simp add: http_Read_def)

end
