(* ===== verification/Player_Tui.thy ===== *)
theory Player_Tui
  imports Player_Model Config_Files
begin

text \<open>
  The terminal interface of the player: the model and its updates in \<open>internal/ui/model.go\<close>, the device
  picker of \<open>internal/ui/device_picker.go\<close>, the channels of \<open>internal/ui/tui.go\<close>, and the loops of
  \<open>main.go\<close> that carry its messages to the player, as events in any order (\<open>screen_run\<close>). The rendering
  of the views is in \<open>Tui_Render\<close>.
\<close>

section \<open>The device picker\<close>

datatype pickerAction = PickerNoop | PickerClose | PickerSave | PickerPropagate

record devicePicker =
  dp_devices :: "PlaybackDevice list"
  dp_index :: nat
  dp_current :: string
  dp_loadErr :: "string option"
  dp_saveEnabled :: bool

fun find_index :: "('a \<Rightarrow> bool) \<Rightarrow> 'a list \<Rightarrow> nat option" where
  "find_index P [] = None"
| "find_index P (x # xs) = (if P x then Some 0 else map_option Suc (find_index P xs))"

definition newDevicePicker ::
  "string + PlaybackDevice list \<Rightarrow> string \<Rightarrow> bool \<Rightarrow> devicePicker" where
  "newDevicePicker listed current saveEnabled =
     (case listed of
        Inl err \<Rightarrow> \<lparr>dp_devices = [], dp_index = 0, dp_current = current, dp_loadErr = Some err,
                    dp_saveEnabled = saveEnabled\<rparr>
      | Inr devices \<Rightarrow>
          \<lparr>dp_devices = devices,
           dp_index = (case find_index (\<lambda>d. dev_Name d = current) devices of
                         Some i \<Rightarrow> i
                       | None \<Rightarrow> (case find_index dev_IsDefault devices of Some i \<Rightarrow> i | None \<Rightarrow> 0)),
           dp_current = current, dp_loadErr = None, dp_saveEnabled = saveEnabled\<rparr>)"

definition handlePickerKey :: "string \<Rightarrow> devicePicker \<Rightarrow> devicePicker \<times> pickerAction" where
  "handlePickerKey key s =
     (if key = ''up'' then
        (if dp_devices s \<noteq> [] \<and> 0 < dp_index s then s\<lparr>dp_index := dp_index s - 1\<rparr> else s, PickerNoop)
      else if key = ''down'' then
        (if int (dp_index s) < int (length (dp_devices s)) - 1 then s\<lparr>dp_index := dp_index s + 1\<rparr> else s,
         PickerNoop)
      else if key = ''esc'' \<or> key = ''q'' then (s, PickerClose)
      else if key = ''enter'' then
        (s, if \<not> dp_saveEnabled s \<or> dp_devices s = [] then PickerNoop else PickerSave)
      else (s, PickerPropagate))"

definition selected :: "devicePicker \<Rightarrow> PlaybackDevice option" where
  "selected s =
     (if dp_loadErr s \<noteq> None \<or> dp_devices s = [] then None
      else if length (dp_devices s) \<le> dp_index s then None
      else Some (dp_devices s ! dp_index s))"

section \<open>The model\<close>

record VolumeChange =
  vc_Volume :: int
  vc_Muted :: bool

record VolumeControl =
  vol_Changes :: "VolumeChange chan"
  vol_Quit :: "unit chan"

definition NewVolumeControl :: VolumeControl where
  "NewVolumeControl = \<lparr>vol_Changes = make_chan 10, vol_Quit = make_chan 1\<rparr>"

definition NewTransportControl :: "string chan" where
  "NewTransportControl = make_chan 10"

datatype uiMode = ModeNormal | ModeDevicePicker

text \<open>The fields that the updates read or write; the channels are shared with the loops of \<open>main\<close>.\<close>

record Model =
  tm_connected :: bool
  tm_serverName :: string
  tm_syncRTT :: int
  tm_syncQuality :: Quality
  tm_codec :: string
  tm_sampleRate :: int
  tm_channels :: int
  tm_bitDepth :: int
  tm_title :: string
  tm_artist :: string
  tm_album :: string
  tm_artworkPath :: string
  tm_playbackState :: string
  tm_volume :: int
  tm_muted :: bool
  tm_received :: int
  tm_played :: int
  tm_dropped :: int
  tm_bufferDepth :: int
  tm_goroutines :: int
  tm_showDebug :: bool
  tm_width :: int
  tm_height :: int
  tm_volumeCtrl :: "VolumeControl option"
  tm_transportCtrl :: "string chan option"
  tm_audioDevice :: string
  tm_configPath :: string
  tm_mode :: uiMode
  tm_picker :: devicePicker
  tm_transientMsg :: string
  tm_transientNonce :: nat

definition NewModel :: "VolumeControl option \<Rightarrow> string chan option \<Rightarrow> string \<Rightarrow> string \<Rightarrow> Model" where
  "NewModel volumeCtrl transportCtrl configPath audioDevice =
     \<lparr>tm_connected = False, tm_serverName = [], tm_syncRTT = 0, tm_syncQuality = QualityGood,
      tm_codec = [], tm_sampleRate = 0, tm_channels = 0, tm_bitDepth = 0, tm_title = [], tm_artist = [],
      tm_album = [], tm_artworkPath = [], tm_playbackState = ''idle'', tm_volume = 100, tm_muted = False,
      tm_received = 0, tm_played = 0, tm_dropped = 0, tm_bufferDepth = 0, tm_goroutines = 0,
      tm_showDebug = False, tm_width = 0, tm_height = 0, tm_volumeCtrl = volumeCtrl,
      tm_transportCtrl = transportCtrl, tm_audioDevice = audioDevice, tm_configPath = configPath,
      tm_mode = ModeNormal,
      tm_picker = \<lparr>dp_devices = [], dp_index = 0, dp_current = [], dp_loadErr = None, dp_saveEnabled = False\<rparr>,
      tm_transientMsg = [], tm_transientNonce = 0\<rparr>"

section \<open>Status messages\<close>

record StatusMsg =
  sm_Connected :: "bool option"
  sm_ServerName :: string
  sm_PlaybackState :: string
  sm_SyncRTT :: int
  sm_SyncQuality :: Quality
  sm_Codec :: string
  sm_SampleRate :: int
  sm_Channels :: int
  sm_BitDepth :: int
  sm_Title :: string
  sm_Artist :: string
  sm_Album :: string
  sm_ArtworkPath :: string
  sm_Volume :: int
  sm_Received :: int
  sm_Played :: int
  sm_Dropped :: int
  sm_BufferDepth :: int
  sm_Goroutines :: int

definition no_status :: StatusMsg where
  "no_status =
     \<lparr>sm_Connected = None, sm_ServerName = [], sm_PlaybackState = [], sm_SyncRTT = 0,
      sm_SyncQuality = QualityGood, sm_Codec = [], sm_SampleRate = 0, sm_Channels = 0, sm_BitDepth = 0,
      sm_Title = [], sm_Artist = [], sm_Album = [], sm_ArtworkPath = [], sm_Volume = 0, sm_Received = 0,
      sm_Played = 0, sm_Dropped = 0, sm_BufferDepth = 0, sm_Goroutines = 0\<rparr>"

definition applyStatus :: "StatusMsg \<Rightarrow> Model \<Rightarrow> Model" where
  "applyStatus msg m =
     (let m = (case sm_Connected msg of None \<Rightarrow> m | Some c \<Rightarrow> m\<lparr>tm_connected := c\<rparr>);
          m = (if sm_ServerName msg \<noteq> [] then m\<lparr>tm_serverName := sm_ServerName msg\<rparr> else m);
          m = (if sm_PlaybackState msg \<noteq> [] then m\<lparr>tm_playbackState := sm_PlaybackState msg\<rparr> else m);
          m = (if sm_SyncRTT msg \<noteq> 0
               then m\<lparr>tm_syncRTT := sm_SyncRTT msg, tm_syncQuality := sm_SyncQuality msg\<rparr> else m);
          m = (if sm_Codec msg \<noteq> []
               then m\<lparr>tm_codec := sm_Codec msg, tm_sampleRate := sm_SampleRate msg,
                      tm_channels := sm_Channels msg, tm_bitDepth := sm_BitDepth msg\<rparr> else m);
          m = (if sm_Title msg \<noteq> []
               then m\<lparr>tm_title := sm_Title msg, tm_artist := sm_Artist msg, tm_album := sm_Album msg\<rparr>
               else m);
          m = (if sm_ArtworkPath msg \<noteq> [] then m\<lparr>tm_artworkPath := sm_ArtworkPath msg\<rparr> else m);
          m = (if sm_Volume msg \<noteq> 0 then m\<lparr>tm_volume := sm_Volume msg\<rparr> else m)
      in m\<lparr>tm_received := sm_Received msg, tm_played := sm_Played msg, tm_dropped := sm_Dropped msg,
           tm_bufferDepth := sm_BufferDepth msg, tm_goroutines := sm_Goroutines msg\<rparr>)"

section \<open>Keys\<close>

text \<open>A send that is skipped when the channel is full.\<close>

definition send_or_skip :: "'a \<Rightarrow> 'a chan \<Rightarrow> 'a chan" where
  "send_or_skip x c = (case chan_offer x c of None \<Rightarrow> c | Some c \<Rightarrow> c)"

definition send_volume :: "Model \<Rightarrow> Model" where
  "send_volume m =
     m\<lparr>tm_volumeCtrl := map_option (\<lambda>v. v\<lparr>vol_Changes :=
         send_or_skip \<lparr>vc_Volume = tm_volume m, vc_Muted = tm_muted m\<rparr> (vol_Changes v)\<rparr>) (tm_volumeCtrl m)\<rparr>"

definition send_transport :: "string \<Rightarrow> Model \<Rightarrow> Model" where
  "send_transport command m = m\<lparr>tm_transportCtrl := map_option (send_or_skip command) (tm_transportCtrl m)\<rparr>"

definition send_quit :: "Model \<Rightarrow> Model" where
  "send_quit m = m\<lparr>tm_volumeCtrl := map_option (\<lambda>v. v\<lparr>vol_Quit := send_or_skip () (vol_Quit v)\<rparr>) (tm_volumeCtrl m)\<rparr>"

text \<open>The commands that an update returns to the framework.\<close>

datatype tui_cmd = NoCmd | QuitCmd | ExpireCmd nat

definition openDevicePicker :: "string + PlaybackDevice list \<Rightarrow> Model \<Rightarrow> Model" where
  "openDevicePicker listed m =
     m\<lparr>tm_picker := newDevicePicker listed (tm_audioDevice m) (tm_configPath m \<noteq> []),
       tm_mode := ModeDevicePicker\<rparr>"

definition withTransient :: "string \<Rightarrow> Model \<Rightarrow> Model \<times> tui_cmd" where
  "withTransient msg m =
     (let m = m\<lparr>tm_transientNonce := tm_transientNonce m + 1, tm_transientMsg := msg\<rparr>
      in (m, ExpireCmd (tm_transientNonce m)))"

text \<open>
  \<open>write\<close> is \<open>writeConfigKey\<close>, over the state \<open>'f\<close> of the files. The texts of the banners keep only
  their fixed parts.
\<close>

definition handlePickerMode ::
  "(string \<Rightarrow> string \<Rightarrow> string \<Rightarrow> 'f \<Rightarrow> 'e option \<times> 'f) \<Rightarrow> string \<Rightarrow> Model \<Rightarrow> 'f \<Rightarrow>
   (Model \<times> tui_cmd) \<times> 'f" where
  "handlePickerMode write key m files =
     (case handlePickerKey key (tm_picker m) of
        (picker, action) \<Rightarrow>
          (let m = m\<lparr>tm_picker := picker\<rparr>; closed = m\<lparr>tm_mode := ModeNormal\<rparr> in
           case action of
             PickerNoop \<Rightarrow> ((m, NoCmd), files)
           | PickerClose \<Rightarrow> ((closed, NoCmd), files)
           | PickerPropagate \<Rightarrow> ((closed, NoCmd), files)
           | PickerSave \<Rightarrow>
               (case selected (tm_picker m) of
                  None \<Rightarrow> ((closed, NoCmd), files)
                | Some chosen \<Rightarrow>
                    (case (if dev_Name chosen \<noteq> tm_audioDevice m
                           then write (tm_configPath m) ''audio_device'' (dev_Name chosen) files
                           else (None, files)) of
                       (Some e, files) \<Rightarrow> (withTransient ''Save failed'' closed, files)
                     | (None, files) \<Rightarrow> (withTransient (''Saved audio_device='' @ dev_Name chosen) closed, files)))))"

definition handleKey ::
  "(string \<Rightarrow> string \<Rightarrow> string \<Rightarrow> 'f \<Rightarrow> 'e option \<times> 'f) \<Rightarrow> string + PlaybackDevice list \<Rightarrow> string \<Rightarrow>
   Model \<Rightarrow> 'f \<Rightarrow> (Model \<times> tui_cmd) \<times> 'f" where
  "handleKey write listed key m files =
     (if tm_mode m = ModeDevicePicker then handlePickerMode write key m files
      else if key = ''o'' then ((openDevicePicker listed m, NoCmd), files)
      else if key = ''q'' \<or> key = ''ctrl+c'' then ((send_quit m, QuitCmd), files)
      else
        ((if key = ''up'' then
            (if tm_volume m < 100 then send_volume (m\<lparr>tm_volume := min 100 (tm_volume m + 5)\<rparr>) else m)
          else if key = ''down'' then
            (if 0 < tm_volume m then send_volume (m\<lparr>tm_volume := max 0 (tm_volume m - 5)\<rparr>) else m)
          else if key = ''m'' then send_volume (m\<lparr>tm_muted := \<not> tm_muted m\<rparr>)
          else if key = '' '' then send_transport ''toggle'' m
          else if key = ''n'' then send_transport ''next'' m
          else if key = ''p'' then send_transport ''previous'' m
          else if key = ''r'' then send_transport ''reconnect'' m
          else if key = ''d'' then m\<lparr>tm_showDebug := \<not> tm_showDebug m\<rparr>
          else m, NoCmd), files))"

datatype tui_msg = KeyMsg string | WindowSizeMsg int int | Status StatusMsg | TransientExpire nat | OtherMsg

definition model_Update ::
  "(string \<Rightarrow> string \<Rightarrow> string \<Rightarrow> 'f \<Rightarrow> 'e option \<times> 'f) \<Rightarrow> string + PlaybackDevice list \<Rightarrow> tui_msg \<Rightarrow>
   Model \<Rightarrow> 'f \<Rightarrow> (Model \<times> tui_cmd) \<times> 'f" where
  "model_Update write listed msg m files =
     (case msg of
        KeyMsg key \<Rightarrow> handleKey write listed key m files
      | WindowSizeMsg w h \<Rightarrow> ((m\<lparr>tm_width := w, tm_height := h\<rparr>, NoCmd), files)
      | Status st \<Rightarrow> ((applyStatus st m, NoCmd), files)
      | TransientExpire nonce \<Rightarrow>
          ((if nonce = tm_transientNonce m then m\<lparr>tm_transientMsg := []\<rparr> else m, NoCmd), files)
      | OtherMsg \<Rightarrow> ((m, NoCmd), files))"

section \<open>The loops of main\<close>

text \<open>One message of \<open>handleVolumeControl\<close>; \<open>w\<close> and \<open>w'\<close> are the results of the writes to the server.\<close>

definition handle_volume ::
  "('e, 'err, 'o) output_ops \<Rightarrow> string option \<Rightarrow> string option \<Rightarrow> VolumeChange \<Rightarrow>
   ('d, 'o) Player \<Rightarrow> ('d, 'o) Player" where
  "handle_volume ops w w' vol p = player_Mute ops w' (vc_Muted vol) (player_SetVolume ops w (vc_Volume vol) p)"

text \<open>One command of \<open>handleTransportControl\<close>.\<close>

definition handle_transport :: "string option \<Rightarrow> string \<Rightarrow> ('d, 'o) Player \<Rightarrow> ('d, 'o) Player" where
  "handle_transport w cmd p =
     (if \<not> ps_Connected (pl_state p) then p
      else if cmd = ''toggle'' then
        (if ps_State (pl_state p) = ''playing'' then snd (SendCommand w ''pause'' p)
         else snd (SendCommand w ''play'' p))
      else if cmd \<in> {''play'', ''pause'', ''next'', ''previous''} then snd (SendCommand w cmd p)
      else p)"

text \<open>What \<open>OnStateChange\<close> and \<open>statsUpdateLoop\<close> send to the interface.\<close>

definition state_messages :: "string \<Rightarrow> player_state \<Rightarrow> StatusMsg list" where
  "state_messages serverAddress st =
     [no_status\<lparr>sm_Codec := ps_Codec st, sm_SampleRate := ps_SampleRate st, sm_Channels := ps_Channels st,
                sm_BitDepth := ps_BitDepth st, sm_PlaybackState := ps_State st\<rparr>,
      no_status\<lparr>sm_Connected := Some (ps_Connected st),
                sm_ServerName := (if ps_State st = ''reconnecting'' then ''reconnecting...'' else serverAddress)\<rparr>]"

definition stats_message :: "int \<Rightarrow> ('d, 'o) Player \<Rightarrow> StatusMsg" where
  "stats_message goroutines p =
     (case player_Stats p of
        ((rx, out, lost), depth, rtt, quality) \<Rightarrow>
          no_status\<lparr>sm_Received := int rx, sm_Played := int out, sm_Dropped := int lost,
                    sm_BufferDepth := depth, sm_SyncRTT := rtt, sm_SyncQuality := quality,
                    sm_Goroutines := goroutines\<rparr>)"

definition metadata_message :: "Metadata \<Rightarrow> StatusMsg" where
  "metadata_message meta =
     no_status\<lparr>sm_Title := mm_Title meta, sm_Artist := mm_Artist meta, sm_Album := mm_Album meta\<rparr>"

text \<open>
  One turn of the loop of \<open>handleVolumeControl\<close> that finds a change: \<open>None\<close> when there is none to
  take.
\<close>

definition volume_turn ::
  "('e, 'err, 'o) output_ops \<Rightarrow> string option \<Rightarrow> string option \<Rightarrow> Model \<times> ('d, 'o) Player \<Rightarrow>
   (Model \<times> ('d, 'o) Player) option" where
  "volume_turn ops w w' mp =
     (case mp of (m, p) \<Rightarrow>
        case tm_volumeCtrl m of
          None \<Rightarrow> None
        | Some v \<Rightarrow>
            (case chan_take (vol_Changes v) of
               None \<Rightarrow> None
             | Some (x, c) \<Rightarrow>
                 Some (m\<lparr>tm_volumeCtrl := Some (v\<lparr>vol_Changes := c\<rparr>)\<rparr>, handle_volume ops w w' x p)))"

section \<open>The volume on the screen and the volume in use\<close>

text \<open>
  What happens to the interface and the player, in any order: a key, in either view (\<open>listed\<close> is what
  listing the devices gives when it opens the picker); the messages of \<open>OnStateChange\<close>, the statistics,
  the metadata and the terminal; a turn of the volume loop; and any call or command of the player.
\<close>

datatype 'e screen_event =
    Press string "string + PlaybackDevice list"
  | ShowState string player_state
  | ShowStats int
  | ShowMetadata Metadata
  | Resize int int
  | Expire nat
  | TakeChange "string option" "string option"
  | OnPlayer "'e player_event"

text \<open>
  Beside the model, the player and the files there are three records of the past: whether the last
  change was skipped because the channel was full, whether the player's volume or mute was set by anyone
  else since the loop last took a change, and whether anything has ever been muted.
\<close>

record ('d, 'o, 'f) screen_sys =
  ss_model :: Model
  ss_player :: "('d, 'o) Player"
  ss_files :: 'f
  ss_skipped :: bool
  ss_remote :: bool
  ss_muted :: bool

definition changes :: "Model \<Rightarrow> VolumeChange chan option" where
  "changes m = map_option vol_Changes (tm_volumeCtrl m)"

definition shown :: "Model \<Rightarrow> int \<times> bool" where
  "shown m = (tm_volume m, tm_muted m)"

definition room_for_change :: "Model \<Rightarrow> bool" where
  "room_for_change m \<longleftrightarrow> (case changes m of None \<Rightarrow> False | Some c \<Rightarrow> chan_room c)"

fun sets_gain :: "'e player_event \<Rightarrow> bool" where
  "sets_gain (EvSetVolume w v) = True"
| "sets_gain (EvMute w m) = True"
| "sets_gain (EvCommand w c) = True"
| "sets_gain _ = False"

definition notice_mute :: "('d, 'o, 'f) screen_sys \<Rightarrow> ('d, 'o, 'f) screen_sys" where
  "notice_mute y =
     y\<lparr>ss_muted := ss_muted y \<or> tm_muted (ss_model y) \<or> ps_Muted (pl_state (ss_player y))\<rparr>"

definition show_messages :: "StatusMsg list \<Rightarrow> ('d, 'o, 'f) screen_sys \<Rightarrow> ('d, 'o, 'f) screen_sys" where
  "show_messages msgs y = y\<lparr>ss_model := fold applyStatus msgs (ss_model y)\<rparr>"

type_synonym ('f, 'x) key_writer = "string \<Rightarrow> string \<Rightarrow> string \<Rightarrow> 'f \<Rightarrow> 'x option \<times> 'f"

fun screen_do ::
  "('f, 'x) key_writer \<Rightarrow> ('e, 'err, 'o) output_ops \<Rightarrow> 'e screen_event \<Rightarrow>
   ('d, 'o, 'f) screen_sys \<Rightarrow> ('d, 'o, 'f) screen_sys" where
  "screen_do write ops (Press key listed) y =
     (case handleKey write listed key (ss_model y) (ss_files y) of
        ((m, cmd), files) \<Rightarrow>
          y\<lparr>ss_model := m, ss_files := files,
            ss_skipped := (if shown m = shown (ss_model y) then ss_skipped y
                           else \<not> room_for_change (ss_model y))\<rparr>)"
| "screen_do write ops (ShowState addr st) y = show_messages (state_messages addr st) y"
| "screen_do write ops (ShowStats g) y = show_messages [stats_message g (ss_player y)] y"
| "screen_do write ops (ShowMetadata meta) y = show_messages [metadata_message meta] y"
| "screen_do write ops (Resize w h) y =
     y\<lparr>ss_model := (ss_model y)\<lparr>tm_width := w, tm_height := h\<rparr>\<rparr>"
| "screen_do write ops (Expire n) y =
     y\<lparr>ss_model := fst (fst (model_Update write (Inr []) (TransientExpire n) (ss_model y) (ss_files y)))\<rparr>"
| "screen_do write ops (TakeChange w w') y =
     (case volume_turn ops w w' (ss_model y, ss_player y) of
        None \<Rightarrow> y
      | Some (m, p) \<Rightarrow> y\<lparr>ss_model := m, ss_player := p, ss_remote := False\<rparr>)"
| "screen_do write ops (OnPlayer ev) y =
     y\<lparr>ss_player := player_step ops ev (ss_player y), ss_remote := ss_remote y \<or> sets_gain ev\<rparr>"

definition screen_step ::
  "('f, 'x) key_writer \<Rightarrow> ('e, 'err, 'o) output_ops \<Rightarrow> 'e screen_event \<Rightarrow>
   ('d, 'o, 'f) screen_sys \<Rightarrow> ('d, 'o, 'f) screen_sys" where
  "screen_step write ops ev y = notice_mute (screen_do write ops ev y)"

definition screen_run ::
  "('f, 'x) key_writer \<Rightarrow> ('e, 'err, 'o) output_ops \<Rightarrow> 'e screen_event list \<Rightarrow>
   ('d, 'o, 'f) screen_sys \<Rightarrow> ('d, 'o, 'f) screen_sys" where
  "screen_run write ops evs y = fold (screen_step write ops) evs y"

definition screen_start :: "Model \<Rightarrow> ('d, 'o) Player \<Rightarrow> 'f \<Rightarrow> ('d, 'o, 'f) screen_sys" where
  "screen_start m p files =
     \<lparr>ss_model = m, ss_player = p, ss_files = files, ss_skipped = False, ss_remote = False,
      ss_muted = False\<rparr>"

text \<open>The invariant.\<close>

definition screen_inv :: "('d, 'o, 'f) screen_sys \<Rightarrow> bool" where
  "screen_inv y \<longleftrightarrow>
     (let m = ss_model y; st = pl_state (ss_player y)
      in 0 \<le> tm_volume m \<and> tm_volume m \<le> 100 \<and>
         (\<not> ss_muted y \<longrightarrow> \<not> tm_muted m \<and> \<not> ps_Muted st) \<and>
         (\<exists>c. changes m = Some c \<and> chan_cap c = 10 \<and> length (chan_buf c) \<le> 10 \<and>
            (chan_buf c \<noteq> [] \<and> \<not> ss_skipped y \<longrightarrow>
               last (chan_buf c) = \<lparr>vc_Volume = tm_volume m, vc_Muted = tm_muted m\<rparr>) \<and>
            (chan_buf c = [] \<and> \<not> ss_skipped y \<and> \<not> ss_remote y \<longrightarrow>
               ps_Muted st = tm_muted m \<and> (\<not> ss_muted y \<longrightarrow> ps_Volume st = tm_volume m))))"

lemma handle_volume_state:
  "ps_Muted (pl_state (handle_volume ops w w' vol p)) = vc_Muted vol"
  "ps_Volume (pl_state (handle_volume ops w w' vol p)) =
     (if ps_Muted (pl_state p) then ps_Volume (pl_state p) else clamp_100 (vc_Volume vol))"
  by (simp_all add: handle_volume_def player_Mute_def player_SetVolume_def Let_def)

lemma changes_simps [simp]:
  "changes (send_volume m) =
     map_option (send_or_skip \<lparr>vc_Volume = tm_volume m, vc_Muted = tm_muted m\<rparr>) (changes m)"
  "shown (send_volume m) = shown m"
  "changes (send_transport cmd m) = changes m" "shown (send_transport cmd m) = shown m"
  "changes (send_quit m) = changes m" "shown (send_quit m) = shown m"
  by (cases "tm_volumeCtrl m";
      simp add: changes_def shown_def send_volume_def send_transport_def send_quit_def)+

lemma changes_update [simp]:
  "changes (m\<lparr>tm_volume := v\<rparr>) = changes m" "changes (m\<lparr>tm_muted := b\<rparr>) = changes m"
  "changes (m\<lparr>tm_showDebug := b\<rparr>) = changes m" "shown (m\<lparr>tm_showDebug := b\<rparr>) = shown m"
  by (simp_all add: changes_def shown_def)

lemma picker_mode_keeps:
  assumes "handlePickerMode write key m files = ((m', cmd), files')"
  shows "changes m' = changes m \<and> shown m' = shown m"
  using assms
  by (auto simp: handlePickerMode_def withTransient_def changes_def shown_def Let_def
      split: prod.splits pickerAction.splits option.splits if_splits)

text \<open>A key changes nothing of the three, or it changes what is shown and sends it.\<close>

lemma handleKey_effect:
  assumes "handleKey write listed key m files = ((m', cmd), files')"
    and "0 \<le> tm_volume m" "tm_volume m \<le> 100"
  shows "0 \<le> tm_volume m' \<and> tm_volume m' \<le> 100 \<and>
    (shown m' = shown m \<and> changes m' = changes m \<or>
     shown m' \<noteq> shown m \<and> changes m' =
       map_option (send_or_skip \<lparr>vc_Volume = tm_volume m', vc_Muted = tm_muted m'\<rparr>) (changes m))"
proof (cases "tm_mode m = ModeDevicePicker")
  case True
  with assms have "handlePickerMode write key m files = ((m', cmd), files')" by (simp add: handleKey_def)
  from picker_mode_keeps [OF this] assms(2,3) show ?thesis by (auto simp: shown_def)
next
  case False
  have volumes: "tm_volume (send_volume n) = tm_volume n" "tm_muted (send_volume n) = tm_muted n"
    "tm_volume (send_transport c n) = tm_volume n" "tm_volume (send_quit n) = tm_volume n" for n c
    by (simp_all add: send_volume_def send_transport_def send_quit_def)
  consider (up) "key = ''up''" "tm_volume m < 100" | (down) "key = ''down''" "0 < tm_volume m"
    | (mute) "key = ''m''" | (picker) "key = ''o''" | (quit) "key = ''q'' \<or> key = ''ctrl+c''"
    | (rest) "\<not> (key = ''up'' \<and> tm_volume m < 100)" "\<not> (key = ''down'' \<and> 0 < tm_volume m)"
        "key \<noteq> ''m''" "key \<noteq> ''o''" "\<not> (key = ''q'' \<or> key = ''ctrl+c'')" by argo
  then show ?thesis
  proof cases
    case rest
    have mode: "\<not> tm_mode m = ModeDevicePicker" using False .
    have dead: "(if a then if b then x else y else z) = (if a then y else z)"
      if "\<not> (a \<and> b)" for a b and x y z :: Model using that by simp
    from assms(1) have "m' = (if key = ''up'' then m else if key = ''down'' then m
        else if key = '' '' then send_transport ''toggle'' m else if key = ''n'' then send_transport ''next'' m
        else if key = ''p'' then send_transport ''previous'' m
        else if key = ''r'' then send_transport ''reconnect'' m
        else if key = ''d'' then m\<lparr>tm_showDebug := \<not> tm_showDebug m\<rparr> else m)"
      unfolding handleKey_def if_not_P [OF mode] if_not_P [OF rest(3)] if_not_P [OF rest(4)] if_not_P [OF rest(5)]
        dead [OF rest(1)] dead [OF rest(2)] prod.inject by (elim conjE) (rule sym)
    moreover define quiet where
      "quiet n \<longleftrightarrow> n = m \<or> n = m\<lparr>tm_showDebug := \<not> tm_showDebug m\<rparr> \<or> (\<exists>c. n = send_transport c m)" for n
    moreover have "quiet (if a then x else y)" if "quiet x" "quiet y" for a x y using that by simp
    moreover have "quiet m" "quiet (m\<lparr>tm_showDebug := \<not> tm_showDebug m\<rparr>)" "quiet (send_transport c m)" for c
      by (auto simp: quiet_def)
    ultimately have "quiet m'" by (simp only:)
    with assms(2,3) show ?thesis unfolding quiet_def by (elim disjE exE) (simp_all add: volumes)
  next
    case up
    have "m' = send_volume (m\<lparr>tm_volume := min 100 (tm_volume m + 5)\<rparr>)"
      using assms(1) False up by (simp add: handleKey_def)
    with up assms(2,3) show ?thesis by (simp add: volumes) (auto simp: shown_def)
  next
    case down
    have "m' = send_volume (m\<lparr>tm_volume := max 0 (tm_volume m - 5)\<rparr>)"
      using assms(1) False down by (simp add: handleKey_def)
    with down assms(2,3) show ?thesis by (simp add: volumes) (auto simp: shown_def)
  next
    case mute
    have "m' = send_volume (m\<lparr>tm_muted := \<not> tm_muted m\<rparr>)"
      using assms(1) False mute by (simp add: handleKey_def)
    with assms(2,3) show ?thesis by (simp add: volumes) (simp add: shown_def)
  next
    case picker
    have "m' = openDevicePicker listed m" using assms(1) False picker by (simp add: handleKey_def)
    with assms(2,3) show ?thesis by (simp add: openDevicePicker_def shown_def changes_def)
  next
    case quit
    have "m' = send_quit m" using assms(1) False quit by (auto simp: handleKey_def)
    with assms(2,3) show ?thesis by (simp add: volumes)
  qed
qed

lemma send_or_skip_cases:
  "send_or_skip x c = (if chan_room c then chan_put x c else c)"
  by (simp add: send_or_skip_def chan_offer_def)

lemma key_keeps_inv:
  assumes "screen_inv y"
  shows "screen_inv (screen_step write ops (Press key listed) y)"
proof -
  let ?m = "ss_model y"
  obtain m' cmd files' where k: "handleKey write listed key ?m (ss_files y) = ((m', cmd), files')"
    by (metis prod.collapse)
  obtain c where c: "changes ?m = Some c" "chan_cap c = 10" "length (chan_buf c) \<le> 10"
    using assms by (auto simp: screen_inv_def Let_def)
  have "0 \<le> tm_volume ?m" "tm_volume ?m \<le> 100" using assms by (simp_all add: screen_inv_def Let_def)
  note eff = handleKey_effect [OF k this]
  show ?thesis
  proof (cases "shown m' = shown ?m")
    case True
    with eff k assms show ?thesis
      by (auto simp: screen_step_def screen_inv_def notice_mute_def shown_def Let_def)
  next
    case False
    with eff have "changes m' = Some (send_or_skip \<lparr>vc_Volume = tm_volume m', vc_Muted = tm_muted m'\<rparr> c)"
      by (simp add: c(1))
    with False eff k assms c show ?thesis
      by (auto simp: screen_step_def screen_inv_def notice_mute_def room_for_change_def send_or_skip_cases
          chan_room_def chan_put_def Let_def)
  qed
qed

lemma take_keeps_inv:
  assumes "screen_inv y"
  shows "screen_inv (screen_step write ops (TakeChange w w') y)"
proof -
  let ?m = "ss_model y" and ?p = "ss_player y"
  obtain v where v: "tm_volumeCtrl ?m = Some v"
    using assms by (auto simp: screen_inv_def changes_def Let_def)
  show ?thesis
  proof (cases "chan_buf (vol_Changes v)")
    case Nil
    then have "volume_turn ops w w' (?m, ?p) = None" using v by (simp add: volume_turn_def chan_take_def)
    with assms show ?thesis by (auto simp: screen_step_def notice_mute_def screen_inv_def Let_def)
  next
    case (Cons x xs)
    define v' where "v' = v\<lparr>vol_Changes := (vol_Changes v)\<lparr>chan_buf := xs\<rparr>\<rparr>"
    have t: "volume_turn ops w w' (?m, ?p) = Some (?m\<lparr>tm_volumeCtrl := Some v'\<rparr>, handle_volume ops w w' x ?p)"
      using v Cons by (simp add: volume_turn_def chan_take_def v'_def)
    have clamp: "clamp_100 (tm_volume ?m) = tm_volume ?m"
      using assms by (simp add: screen_inv_def clamp_100_def Let_def)
    show ?thesis
      using assms v Cons clamp unfolding screen_step_def screen_do.simps t
      by (auto simp: screen_inv_def notice_mute_def changes_def v'_def handle_volume_state Let_def)
  qed
qed

lemma gain_kept:
  assumes "\<not> sets_gain ev"
  shows "ps_Volume (pl_state (player_step ops ev p)) = ps_Volume (pl_state p) \<and>
    ps_Muted (pl_state (player_step ops ev p)) = ps_Muted (pl_state p)"
proof (cases "silent_event ev")
  case True
  from silent_event_keeps [OF this] show ?thesis by blast
next
  case False
  with assms consider e f where "ev = EvStreamStart e f" | w where "ev = EvClose w"
    by (cases ev) (auto simp: silent_event_def)
  then show ?thesis
  proof cases
    case (1 e f)
    then show ?thesis by (auto simp: onStreamStart_def Let_def split: prod.split option.split)
  next
    case (2 w)
    then show ?thesis using close_keeps [of ops w p] by (auto split: option.split)
  qed
qed

lemma player_keeps_inv:
  assumes "screen_inv y"
  shows "screen_inv (screen_step write ops (OnPlayer ev) y)"
  using assms gain_kept [of ev ops "ss_player y"]
  by (cases "sets_gain ev") (auto simp: screen_step_def screen_inv_def notice_mute_def Let_def)

lemma status_keeps:
  "sm_Volume msg = 0 \<Longrightarrow> changes (applyStatus msg m) = changes m \<and> shown (applyStatus msg m) = shown m"
  by (simp add: applyStatus_def changes_def shown_def Let_def split: option.split)

lemma messages_keep:
  "list_all (\<lambda>msg. sm_Volume msg = 0) msgs \<Longrightarrow>
   changes (fold applyStatus msgs m) = changes m \<and> shown (fold applyStatus msgs m) = shown m"
  by (induction msgs arbitrary: m) (simp_all add: status_keeps)

lemma model_keeps_inv:
  assumes "screen_inv y" "changes m = changes (ss_model y)" "shown m = shown (ss_model y)"
  shows "screen_inv (notice_mute (y\<lparr>ss_model := m\<rparr>))"
  using assms by (auto simp: screen_inv_def notice_mute_def shown_def Let_def)

lemma main_messages:
  "list_all (\<lambda>msg. sm_Volume msg = 0) (state_messages addr st)"
  "list_all (\<lambda>msg. sm_Volume msg = 0) [stats_message g p]"
  "list_all (\<lambda>msg. sm_Volume msg = 0) [metadata_message meta]"
  by (auto simp: state_messages_def stats_message_def metadata_message_def no_status_def split: prod.split)

lemma screen_inv_step:
  assumes "screen_inv y"
  shows "screen_inv (screen_step write ops ev y)"
proof (cases ev)
  case (Press key listed)
  with key_keeps_inv [OF assms] show ?thesis by blast
next
  case (TakeChange w w')
  with take_keeps_inv [OF assms] show ?thesis by blast
next
  case (OnPlayer e)
  with player_keeps_inv [OF assms] show ?thesis by blast
next
  case (ShowState addr st)
  then show ?thesis using messages_keep [OF main_messages(1)]
    by (simp add: screen_step_def show_messages_def model_keeps_inv [OF assms] del: fold_simps)
next
  case (ShowStats g)
  then show ?thesis using messages_keep [OF main_messages(2) [of g "ss_player y"]]
    by (simp add: screen_step_def show_messages_def model_keeps_inv [OF assms] del: fold_simps)
next
  case (ShowMetadata meta)
  then show ?thesis using messages_keep [OF main_messages(3)]
    by (simp add: screen_step_def show_messages_def model_keeps_inv [OF assms] del: fold_simps)
qed (simp_all add: screen_step_def model_Update_def changes_def shown_def model_keeps_inv [OF assms])

lemma screen_inv_run: "screen_inv y \<Longrightarrow> screen_inv (screen_run write ops evs y)"
  by (induction evs arbitrary: y) (simp_all add: screen_run_def screen_inv_step)

definition start_view :: Model where
  "start_view = NewModel (Some NewVolumeControl) (Some NewTransportControl) [] []"

text \<open>
  C27. The volume on the screen and the volume of the player, under every interleaving of keys in both
  views, status messages, turns of the volume loop, and calls and commands of the player. The screen is
  always in 0..100 and at most ten changes are under way. Unless the last change was skipped because the
  channel was full, the newest change under way is what the screen shows; and once all are taken, and
  nobody else has set the player's volume or mute since, player and screen agree on the mute, and on the
  volume too as long as nothing has ever been muted. The two calls of a turn, SetVolume and Mute, are one
  step, as every call of the player is. What the conditions leave out does happen: \<open>quick_keys_lost\<close> and
  \<open>tui_volume_lost_while_muted\<close>.
\<close>

theorem tui_volume_in_use:
  assumes "ps_Volume (pl_state p) = 100" "\<not> ps_Muted (pl_state p)"
    and "y = screen_run write ops evs
      (screen_start (NewModel (Some NewVolumeControl) transport configPath device) p files)"
  shows "\<exists>c. changes (ss_model y) = Some c \<and> length (chan_buf c) \<le> 10 \<and>
    0 \<le> tm_volume (ss_model y) \<and> tm_volume (ss_model y) \<le> 100 \<and>
    (chan_buf c \<noteq> [] \<and> \<not> ss_skipped y \<longrightarrow>
       last (chan_buf c) = \<lparr>vc_Volume = tm_volume (ss_model y), vc_Muted = tm_muted (ss_model y)\<rparr>) \<and>
    (chan_buf c = [] \<and> \<not> ss_skipped y \<and> \<not> ss_remote y \<longrightarrow>
       ps_Muted (pl_state (ss_player y)) = tm_muted (ss_model y) \<and>
       (\<not> ss_muted y \<longrightarrow> ps_Volume (pl_state (ss_player y)) = tm_volume (ss_model y)))"
proof -
  have "screen_inv (screen_start (NewModel (Some NewVolumeControl) transport configPath device) p files)"
    using assms(1,2)
    by (simp add: screen_inv_def screen_start_def NewModel_def NewVolumeControl_def changes_def make_chan_def)
  then have "screen_inv y" unfolding assms(3) by (rule screen_inv_run)
  then show ?thesis unfolding screen_inv_def Let_def by blast
qed

definition quiet_player :: "(unit, Malgo) Player" where
  "quiet_player = NewPlayer None (player_config_example\<lparr>pf_Volume := 100\<rparr>)"

lemma quiet_player_state: "ps_Volume (pl_state quiet_player) = 100" "\<not> ps_Muted (pl_state quiet_player)"
  by (simp_all add: quiet_player_def NewPlayer_def Let_def)

abbreviation no_file :: "string \<Rightarrow> string \<Rightarrow> string \<Rightarrow> unit \<Rightarrow> unit option \<times> unit" where
  "no_file \<equiv> \<lambda>_ _ _ s. (None, s)"

lemmas run_defs = screen_run_def screen_step_def notice_mute_def handleKey_def send_volume_def
  send_or_skip_def chan_offer_def chan_room_def chan_put_def chan_take_def shown_def room_for_change_def changes_def
  volume_turn_def handle_volume_state clamp_100_def

lemma start_fields [simp]:
  "tm_mode start_view = ModeNormal" "tm_volume start_view = 100" "tm_muted start_view = False"
  "tm_volumeCtrl start_view = Some NewVolumeControl"
  by (simp_all add: start_view_def NewModel_def)

text \<open>Two keys in quick succession, taken one after the other: the second is under way in between.\<close>

lemma two_keys_run:
  assumes "y = screen_run no_file malgo_ops [Press ''down'' (Inr []), Press ''down'' (Inr []),
      TakeChange None None, TakeChange None None] (screen_start start_view quiet_player ())"
  shows "\<not> ss_skipped y \<and> \<not> ss_remote y \<and> \<not> ss_muted y \<and> tm_volume (ss_model y) = 90 \<and>
    (\<exists>c. changes (ss_model y) = Some c \<and> chan_buf c = [])"
  unfolding assms screen_start_def
  by (simp add: run_defs NewVolumeControl_def make_chan_def quiet_player_state)

theorem tui_volume_in_use_witness:
  "\<exists>y. y = screen_run no_file malgo_ops [Press ''down'' (Inr []), Press ''down'' (Inr []),
      TakeChange None None, TakeChange None None] (screen_start start_view quiet_player ()) \<and>
     tm_volume (ss_model y) = 90 \<and> ps_Volume (pl_state (ss_player y)) = 90"
proof -
  define y where "y = screen_run no_file malgo_ops [Press ''down'' (Inr []), Press ''down'' (Inr []),
      TakeChange None None, TakeChange None None] (screen_start start_view quiet_player ())"
  note run = two_keys_run [OF y_def]
  from tui_volume_in_use [OF quiet_player_state y_def [unfolded start_view_def]] run
  have "ps_Volume (pl_state (ss_player y)) = 90" by auto
  with run y_def show ?thesis by blast
qed

text \<open>
  A change of the volume during a mute reaches the screen and not the player: muting, pressing up and
  unmuting leaves the player at the old volume while the interface shows the new one, with every change
  taken as soon as it is sent.
\<close>

theorem tui_volume_lost_while_muted:
  assumes "0 \<le> v" "v < 100" "ps_Volume (pl_state p) = v" "\<not> ps_Muted (pl_state p)"
    and "y = screen_run write ops [Press ''m'' listed, TakeChange w w', Press ''up'' listed, TakeChange w w',
      Press ''m'' listed, TakeChange w w'] (screen_start (start_view\<lparr>tm_volume := v\<rparr>) p files)"
  shows "tm_volume (ss_model y) = min 100 (v + 5) \<and> ps_Volume (pl_state (ss_player y)) = v \<and>
         \<not> tm_muted (ss_model y) \<and> \<not> ps_Muted (pl_state (ss_player y))"
  unfolding assms(5) screen_start_def
  using assms(1-4) by (simp add: run_defs NewVolumeControl_def make_chan_def)

theorem tui_volume_lost_while_muted_witness:
  "\<exists>y. y = screen_run no_file malgo_ops [Press ''m'' (Inr []), TakeChange None None, Press ''up'' (Inr []),
      TakeChange None None, Press ''m'' (Inr []), TakeChange None None]
      (screen_start (start_view\<lparr>tm_volume := 40\<rparr>) (player_SetVolume malgo_ops None 40 quiet_player) ()) \<and>
     tm_volume (ss_model y) = 45 \<and> ps_Volume (pl_state (ss_player y)) = 40"
proof -
  have "ps_Volume (pl_state (player_SetVolume malgo_ops None 40 quiet_player)) = 40"
    "\<not> ps_Muted (pl_state (player_SetVolume malgo_ops None 40 quiet_player))"
    using quiet_player_state by (simp_all add: player_SetVolume_def clamp_100_def Let_def)
  from tui_volume_lost_while_muted [OF _ _ this refl, of no_file malgo_ops "Inr []" None None "()"]
  show ?thesis by simp
qed

text \<open>
  Keys pressed faster than the loop takes them are lost on the player's side once ten are under way:
  after eleven steps down and ten turns the screen is at 45 and the player at 50, and nothing is left to
  take.
\<close>

lemma quick_keys_lost:
  assumes "y = screen_run write ops (replicate 11 (Press ''down'' listed) @ replicate 10 (TakeChange w w'))
      (screen_start start_view p files)" "\<not> ps_Muted (pl_state p)"
  shows "ss_skipped y \<and> tm_volume (ss_model y) = 45 \<and> ps_Volume (pl_state (ss_player y)) = 50 \<and>
    (\<exists>c. changes (ss_model y) = Some c \<and> chan_buf c = [])"
  unfolding assms(1) screen_start_def
  using assms(2) by (simp add: run_defs NewVolumeControl_def make_chan_def eval_nat_numeral)

section \<open>Quitting\<close>

text \<open>
  Two goroutines receive from the quit channel: \<open>main\<close>, which then closes the player, and
  \<open>handleVolumeControl\<close>, which then returns. The framework ends the interface on \<open>QuitCmd\<close>.
\<close>

record app =
  ap_model :: Model
  ap_tui_running :: bool
  ap_main_waiting :: bool
  ap_handler_running :: bool

definition take_quit :: "Model \<Rightarrow> Model option" where
  "take_quit m =
     (case tm_volumeCtrl m of
        None \<Rightarrow> None
      | Some v \<Rightarrow> (case chan_take (vol_Quit v) of
          None \<Rightarrow> None
        | Some (_, c) \<Rightarrow> Some (m\<lparr>tm_volumeCtrl := Some (v\<lparr>vol_Quit := c\<rparr>)\<rparr>)))"

inductive app_step :: "app \<Rightarrow> app \<Rightarrow> bool" where
  press: "ap_tui_running a \<Longrightarrow>
    handleKey (\<lambda>_ _ _ s. (None :: unit option, s)) listed key (ap_model a) () = ((m, cmd), ()) \<Longrightarrow>
    app_step a (a\<lparr>ap_model := m, ap_tui_running := (cmd \<noteq> QuitCmd)\<rparr>)"
| main_quits: "ap_main_waiting a \<Longrightarrow> take_quit (ap_model a) = Some m \<Longrightarrow>
    app_step a (a\<lparr>ap_model := m, ap_main_waiting := False\<rparr>)"
| handler_quits: "ap_handler_running a \<Longrightarrow> take_quit (ap_model a) = Some m \<Longrightarrow>
    app_step a (a\<lparr>ap_model := m, ap_handler_running := False\<rparr>)"

inductive_cases app_stepE: "app_step a b"

definition started :: app where
  "started = \<lparr>ap_model = start_view, ap_tui_running = True, ap_main_waiting = True, ap_handler_running = True\<rparr>"

definition stuck :: "app \<Rightarrow> bool" where
  "stuck a \<longleftrightarrow> \<not> ap_tui_running a \<and> ap_main_waiting a \<and> take_quit (ap_model a) = None"

lemma stuck_no_step: "stuck a \<Longrightarrow> \<not> app_step a b"
  by (auto simp: stuck_def elim: app_stepE)

lemma quit_sent:
  "handleKey (\<lambda>_ _ _ s. (None :: unit option, s)) listed ''q'' start_view () =
     ((send_quit start_view, QuitCmd), ())"
  "take_quit (send_quit start_view) = Some start_view" "take_quit start_view = None"
  by (simp_all add: handleKey_def start_view_def NewModel_def send_quit_def NewVolumeControl_def
      send_or_skip_def chan_offer_def chan_room_def make_chan_def chan_put_def take_quit_def chan_take_def)

text \<open>
  Pressing q can end the interface and leave the program running: when the volume loop receives
  the message, \<open>main\<close> goes on waiting and no step is left but a signal from outside.
\<close>

theorem quit_can_be_lost:
  "\<exists>a. app_step\<^sup>*\<^sup>* started a \<and> \<not> ap_tui_running a \<and> \<not> ap_handler_running a \<and> ap_main_waiting a \<and>
       (\<nexists>b. app_step a b)"
proof -
  define a where "a = started\<lparr>ap_model := send_quit start_view, ap_tui_running := False\<rparr>"
  define b where "b = a\<lparr>ap_model := start_view, ap_handler_running := False\<rparr>"
  have "app_step started (started\<lparr>ap_model := send_quit start_view, ap_tui_running := (QuitCmd \<noteq> QuitCmd)\<rparr>)"
    by (rule app_step.press [where listed = "Inr []" and key = "''q''"]) (simp_all add: started_def quit_sent)
  then have "app_step started a" by (simp add: a_def)
  moreover have "app_step a b"
    unfolding b_def by (rule app_step.handler_quits) (simp_all add: a_def started_def quit_sent)
  ultimately have "app_step\<^sup>*\<^sup>* started b" by (meson converse_rtranclp_into_rtranclp rtranclp.rtrancl_refl)
  moreover have "stuck b" by (simp add: stuck_def b_def a_def started_def quit_sent)
  ultimately show ?thesis
    using stuck_no_step by (auto simp: stuck_def b_def intro!: exI [of _ b])
qed

section \<open>Status messages reset the counters\<close>

text \<open>
  A state change or new metadata shows zero for every counter until the next statistics arrive: the
  messages that carry them leave the counters at their zero values, which are always applied.
\<close>

lemma state_change_clears_counters:
  assumes "m' = fold applyStatus (state_messages addr st) m \<or> m' = applyStatus (metadata_message meta) m"
  shows "tm_received m' = 0 \<and> tm_played m' = 0 \<and> tm_dropped m' = 0 \<and> tm_bufferDepth m' = 0 \<and>
         tm_goroutines m' = 0 \<and> tm_volume m' = tm_volume m"
  using assms
  by (auto simp: state_messages_def metadata_message_def applyStatus_def no_status_def Let_def)

lemma applyStatus_keeps_rest:
  "tm_mode (applyStatus msg m) = tm_mode m" "tm_volumeCtrl (applyStatus msg m) = tm_volumeCtrl m"
  "tm_muted (applyStatus msg m) = tm_muted m" "tm_picker (applyStatus msg m) = tm_picker m"
  by (simp_all add: applyStatus_def Let_def split: option.split)

section \<open>The picker points at a device\<close>

lemma find_index_less: "find_index P xs = Some i \<Longrightarrow> i < length xs"
  by (induction xs arbitrary: i) (auto split: if_splits)

definition picker_ok :: "devicePicker \<Rightarrow> bool" where
  "picker_ok s \<longleftrightarrow> (dp_loadErr s = None \<longrightarrow> dp_devices s = [] \<or> dp_index s < length (dp_devices s)) \<and>
     (dp_loadErr s \<noteq> None \<longrightarrow> dp_devices s = [])"

lemma newDevicePicker_ok: "picker_ok (newDevicePicker listed current save)"
  by (auto simp: picker_ok_def newDevicePicker_def dest: find_index_less split: sum.split option.split)

lemma handlePickerKey_moves:
  "\<exists>i. fst (handlePickerKey key s) = s\<lparr>dp_index := i\<rparr> \<and>
     (i = dp_index s \<or> i < dp_index s \<or> i < length (dp_devices s))"
proof -
  consider "key = ''up''" | "key = ''down''" | "key \<noteq> ''up''" "key \<noteq> ''down''" by blast
  then show ?thesis
  proof cases
    case 1
    show ?thesis
      unfolding handlePickerKey_def if_P [OF 1] fst_conv
      by (rule exI [of _ "if dp_devices s \<noteq> [] \<and> 0 < dp_index s then dp_index s - 1 else dp_index s"]) simp
  next
    case 2
    show ?thesis
      unfolding handlePickerKey_def 2
      by (rule exI [of _ "if int (dp_index s) < int (length (dp_devices s)) - 1 then dp_index s + 1 else dp_index s"]) simp
  next
    case 3
    then have "fst (handlePickerKey key s) = s"
      unfolding handlePickerKey_def if_not_P [OF 3(1)] if_not_P [OF 3(2)] by (simp only: if_distrib [of fst] fst_conv if_cancel)
    then show ?thesis by (intro exI [of _ "dp_index s"]) simp
  qed
qed

lemma handlePickerKey_keeps:
  "picker_ok s \<Longrightarrow> picker_ok (fst (handlePickerKey key s)) \<and>
     dp_devices (fst (handlePickerKey key s)) = dp_devices s \<and>
     dp_saveEnabled (fst (handlePickerKey key s)) = dp_saveEnabled s"
  using handlePickerKey_moves [of key s] by (auto simp: picker_ok_def)

definition picker_keys :: "string list \<Rightarrow> devicePicker \<Rightarrow> devicePicker" where
  "picker_keys keys s = fold (\<lambda>key s. fst (handlePickerKey key s)) keys s"

lemma picker_keys_keep:
  "picker_ok s \<Longrightarrow> picker_ok (picker_keys keys s) \<and> dp_devices (picker_keys keys s) = dp_devices s \<and>
     dp_saveEnabled (picker_keys keys s) = dp_saveEnabled s"
proof (induction keys arbitrary: s)
  case Nil
  then show ?case by (simp add: picker_keys_def)
next
  case (Cons key keys)
  from Cons.IH [of "fst (handlePickerKey key s)"] handlePickerKey_keeps [OF Cons.prems, of key]
  show ?case by (simp add: picker_keys_def)
qed

lemma enter_in_picker:
  assumes "selected s = Some d" "dp_devices s \<noteq> []" "dp_saveEnabled s \<longleftrightarrow> tm_configPath m \<noteq> []"
    and "tm_configPath m' = tm_configPath m" "tm_audioDevice m' = tm_audioDevice m"
  shows "handlePickerMode write ''enter'' (m'\<lparr>tm_picker := s\<rparr>) files =
     (if tm_configPath m = [] then ((m'\<lparr>tm_picker := s\<rparr>, NoCmd), files)
      else
        let (e, files') = (if dev_Name d = tm_audioDevice m then (None, files)
                           else write (tm_configPath m) ''audio_device'' (dev_Name d) files)
        in (withTransient (if e = None then ''Saved audio_device='' @ dev_Name d else ''Save failed'')
              (m'\<lparr>tm_picker := s, tm_mode := ModeNormal\<rparr>), files'))"
proof -
  have key: "handlePickerKey ''enter'' s = (s, if tm_configPath m = [] then PickerNoop else PickerSave)"
    using assms(2,3) by (simp add: handlePickerKey_def)
  obtain e files' where e: "write (tm_configPath m) ''audio_device'' (dev_Name d) files = (e, files')"
    by (cases "write (tm_configPath m) ''audio_device'' (dev_Name d) files")
  note defs = handlePickerMode_def key assms(1,4,5) e
  show ?thesis
  proof (cases "dev_Name d = tm_audioDevice m")
    case True
    then show ?thesis by (simp add: defs)
  next
    case False
    then show ?thesis by (cases e) (simp_all add: defs)
  qed
qed

text \<open>
  After any keys in the picker, Enter saves the device that is highlighted, one of those that were
  listed: its name is written to the configuration unless it is the one in use, and the view is
  closed whether or not the write succeeds. Without a configuration file Enter does nothing.
\<close>

theorem picker_saves_highlighted:
  assumes "devices \<noteq> []" "m' = openDevicePicker (Inr devices) m"
    and "s = picker_keys keys (tm_picker m')"
  shows "\<exists>d \<in> set devices. selected s = Some d \<and>
    handlePickerMode write ''enter'' (m'\<lparr>tm_picker := s\<rparr>) files =
     (if tm_configPath m = [] then ((m'\<lparr>tm_picker := s\<rparr>, NoCmd), files)
      else
        let (e, files') = (if dev_Name d = tm_audioDevice m then (None, files)
                           else write (tm_configPath m) ''audio_device'' (dev_Name d) files)
        in (withTransient (if e = None then ''Saved audio_device='' @ dev_Name d else ''Save failed'')
              (m'\<lparr>tm_picker := s, tm_mode := ModeNormal\<rparr>), files'))"
proof -
  have ok: "picker_ok s" "dp_devices s = devices" "dp_saveEnabled s \<longleftrightarrow> tm_configPath m \<noteq> []"
    using picker_keys_keep [OF newDevicePicker_ok, of keys "Inr devices" "tm_audioDevice m" "tm_configPath m \<noteq> []"]
    by (simp_all add: assms(2,3) openDevicePicker_def newDevicePicker_def)
  then have s: "dp_index s < length devices" "dp_loadErr s = None"
    using assms(1) by (auto simp: picker_ok_def)
  define d where "d = devices ! dp_index s"
  have d: "selected s = Some d" "d \<in> set devices"
    using s ok(2) assms(1) by (auto simp: selected_def d_def)
  have m': "tm_configPath m' = tm_configPath m" "tm_audioDevice m' = tm_audioDevice m"
    by (simp_all add: assms(2) openDevicePicker_def)
  show ?thesis
  proof (intro bexI [OF _ d(2)] conjI d(1))
    show "handlePickerMode write ''enter'' (m'\<lparr>tm_picker := s\<rparr>) files =
     (if tm_configPath m = [] then ((m'\<lparr>tm_picker := s\<rparr>, NoCmd), files)
      else
        let (e, files') = (if dev_Name d = tm_audioDevice m then (None, files)
                           else write (tm_configPath m) ''audio_device'' (dev_Name d) files)
        in (withTransient (if e = None then ''Saved audio_device='' @ dev_Name d else ''Save failed'')
              (m'\<lparr>tm_picker := s, tm_mode := ModeNormal\<rparr>), files'))"
      by (rule enter_in_picker) (use assms(1) d(1) m' ok(2,3) in simp_all)
  qed
qed

theorem picker_saves_highlighted_witness:
  "snd (handlePickerMode (\<lambda>path key v files. (None :: unit option, files @ [(path, key, v)])) ''enter''
      ((openDevicePicker (Inr [\<lparr>dev_Name = ''Speakers'', dev_IsDefault = True, dev_ID = [1]\<rparr>,
          \<lparr>dev_Name = ''Headset'', dev_IsDefault = False, dev_ID = [2]\<rparr>])
        (start_view\<lparr>tm_configPath := ''player.yaml'', tm_audioDevice := ''Speakers''\<rparr>))\<lparr>tm_picker :=
       picker_keys [''down''] (newDevicePicker (Inr [\<lparr>dev_Name = ''Speakers'', dev_IsDefault = True, dev_ID = [1]\<rparr>,
          \<lparr>dev_Name = ''Headset'', dev_IsDefault = False, dev_ID = [2]\<rparr>]) ''Speakers'' True)\<rparr>) []) =
     [(''player.yaml'', ''audio_device'', ''Headset'')]"
proof -
  define devices where "devices = [\<lparr>dev_Name = ''Speakers'', dev_IsDefault = True, dev_ID = [1]\<rparr>,
          \<lparr>dev_Name = ''Headset'', dev_IsDefault = False, dev_ID = [2]\<rparr>]"
  define m where "m = start_view\<lparr>tm_configPath := ''player.yaml'', tm_audioDevice := ''Speakers''\<rparr>"
  define s where "s = picker_keys [''down''] (newDevicePicker (Inr devices) ''Speakers'' True)"
  have s: "s = picker_keys [''down''] (tm_picker (openDevicePicker (Inr devices) m))"
    by (simp add: s_def openDevicePicker_def m_def)
  have sel: "selected s = Some (devices ! 1)"
    by (simp add: s_def picker_keys_def newDevicePicker_def handlePickerKey_def selected_def devices_def)
  have "devices \<noteq> []" by (simp add: devices_def)
  from picker_saves_highlighted [OF this refl s,
      of "\<lambda>path key v files. (None :: unit option, files @ [(path, key, v)])" "[]"] sel
  show ?thesis
    unfolding devices_def [symmetric] m_def [symmetric] s_def [symmetric]
    by (auto simp: m_def devices_def)
qed

end
