(* ===== verification/Discovery.thy ===== *)
theory Discovery
  imports Client_Dialer "HOL-Library.Multiset"
begin

text \<open>
  mDNS discovery, \<open>pkg/discovery/mdns.go\<close> and \<open>pkg/discovery/txt.go\<close>: what is advertised, how the
  answers of other hosts are read, and the goroutines that pass them to the channels of the manager.
  The mDNS library and the network interfaces are parameters. \<open>main.go\<close> uses the channel of servers
  for the first connection and, through \<open>Rediscover\<close>, for every reconnection.
\<close>

section \<open>TXT records\<close>

definition put_txt :: "string \<Rightarrow> (string \<rightharpoonup> string) \<Rightarrow> (string \<rightharpoonup> string)" where
  "put_txt f out =
     (if f = [] then out
      else if CHR ''='' \<in> set f
      then out(takeWhile (\<lambda>c. c \<noteq> CHR ''='') f \<mapsto> tl (dropWhile (\<lambda>c. c \<noteq> CHR ''='') f))
      else out(f \<mapsto> []))"

definition parseTXT :: "string list \<Rightarrow> (string \<rightharpoonup> string)" where
  "parseTXT entries = fold put_txt entries Map.empty"

definition txt_get :: "(string \<rightharpoonup> string) \<Rightarrow> string \<Rightarrow> string" where
  "txt_get m k = (case m k of None \<Rightarrow> [] | Some v \<Rightarrow> v)"

section \<open>Entries\<close>

text \<open>An entry of the library; the address is kept as \<open>String\<close> prints it.\<close>

record ServiceEntry =
  se_Name :: string
  se_AddrV4 :: "string option"
  se_Port :: int
  se_InfoFields :: "string list"

record ServerInfo =
  si_Name :: string
  si_Host :: string
  si_Port :: int

record discovery_ClientInfo =
  ci_Instance :: string
  ci_Name :: string
  ci_Host :: string
  ci_Port :: int
  ci_Path :: string

definition clientInfoFromEntry :: "ServiceEntry option \<Rightarrow> discovery_ClientInfo option" where
  "clientInfoFromEntry entry =
     (case entry of None \<Rightarrow> None
      | Some e \<Rightarrow>
          (case se_AddrV4 e of None \<Rightarrow> None
           | Some ip \<Rightarrow>
               if se_Port e = 0 then None
               else if \<not> contains (se_Name e) ''._sendspin._tcp.'' then None
               else
                 let txt = parseTXT (se_InfoFields e);
                     path = txt_get txt ''path'';
                     name = txt_get txt ''name''
                 in Some \<lparr>ci_Instance = se_Name e, ci_Name = (if name = [] then se_Name e else name),
                          ci_Host = ip, ci_Port = se_Port e,
                          ci_Path = (if path = [] then ''/sendspin'' else path)\<rparr>))"

text \<open>The body of the loop over the answers in \<open>browseLoop\<close>.\<close>

definition server_of_entry :: "ServiceEntry \<Rightarrow> ServerInfo option" where
  "server_of_entry e =
     (if \<not> contains (se_Name e) ''._sendspin-server._tcp.'' then None
      else case se_AddrV4 e of None \<Rightarrow> None
      | Some ip \<Rightarrow>
          if se_Port e = 0 then None
          else Some \<lparr>si_Name = se_Name e, si_Host = ip, si_Port = se_Port e\<rparr>)"

definition client_of_entry :: "ServiceEntry \<Rightarrow> discovery_ClientInfo option" where
  "client_of_entry e = clientInfoFromEntry (Some e)"

section \<open>Local addresses and advertising\<close>

text \<open>Addresses are the bytes of a \<open>net.IP\<close>; \<open>To4\<close> accepts both of its forms.\<close>

definition To4 :: "nat list \<Rightarrow> nat list option" where
  "To4 ip =
     (if length ip = 4 then Some ip
      else if length ip = 16 \<and> take 12 ip = replicate 10 0 @ [255, 255] then Some (drop 12 ip)
      else None)"

definition IsLoopback :: "nat list \<Rightarrow> bool" where
  "IsLoopback ip =
     (case To4 ip of Some ip4 \<Rightarrow> hd ip4 = 127 | None \<Rightarrow> ip = replicate 15 0 @ [1])"

datatype iface_addr = IPNet "nat list" | OtherAddr

record iface =
  if_up :: bool
  if_loopback :: bool
  if_Addrs :: "string + iface_addr list"

definition usable_addrs :: "iface_addr list \<Rightarrow> nat list list" where
  "usable_addrs addrs =
     concat (map (\<lambda>a. case a of IPNet ip \<Rightarrow> if \<not> IsLoopback ip \<and> To4 ip \<noteq> None then [ip] else []
                       | OtherAddr \<Rightarrow> []) addrs)"

definition getLocalIPs :: "string + iface list \<Rightarrow> string + nat list list" where
  "getLocalIPs interfaces =
     (case interfaces of Inl err \<Rightarrow> Inl err
      | Inr ifaces \<Rightarrow>
          Inr (concat (map (\<lambda>i.
            if \<not> if_up i \<or> if_loopback i then []
            else case if_Addrs i of Inl _ \<Rightarrow> [] | Inr addrs \<Rightarrow> usable_addrs addrs) ifaces)))"

record disc_config =
  dc_ServiceName :: string
  dc_Port :: int
  dc_ServerMode :: bool

text \<open>The service that is handed to the library: instance, type, port, addresses and TXT record.\<close>

type_synonym mdns_service = "string \<times> string \<times> int \<times> nat list list \<times> string list"

datatype disc_error = LocalIPs string | CreateService string | CreateServer string

definition service_type :: "bool \<Rightarrow> string" where
  "service_type serverMode = (if serverMode then ''_sendspin-server._tcp'' else ''_sendspin._tcp'')"

definition Advertise ::
  "string + iface list \<Rightarrow> (mdns_service \<Rightarrow> string option) \<Rightarrow> (mdns_service \<Rightarrow> string option) \<Rightarrow>
   disc_config \<Rightarrow> disc_error + mdns_service" where
  "Advertise interfaces new_service new_server config =
     (case getLocalIPs interfaces of Inl err \<Rightarrow> Inl (LocalIPs err)
      | Inr ips \<Rightarrow>
          let service = (dc_ServiceName config, service_type (dc_ServerMode config), dc_Port config, ips,
                         [''path=/sendspin''])
          in case new_service service of Some err \<Rightarrow> Inl (CreateService err)
             | None \<Rightarrow>
                 (case new_server service of Some err \<Rightarrow> Inl (CreateServer err) | None \<Rightarrow> Inr service))"

section \<open>Browsing\<close>

text \<open>
  One goroutine per query reads the answers of that query: those that wait in its channel of ten, and
  whether the query is still running.
\<close>

record worker =
  wk_entries :: "ServiceEntry list"
  wk_open :: bool

text \<open>
  The state of \<open>browseLoop\<close> and \<open>browseClientsLoop\<close>, which differ in what they make of an entry: the
  channel of the manager, the goroutines of all queries, and as history the entries that arrived and
  what the consumer took.
\<close>

record 'a browsing =
  br_done :: bool
  br_out :: "'a chan"
  br_workers :: "worker list"
  br_arrived :: "ServiceEntry list"
  br_taken :: "'a list"

definition new_worker :: worker where
  "new_worker = \<lparr>wk_entries = [], wk_open = True\<rparr>"

definition NewManager :: "'a browsing" where
  "NewManager = \<lparr>br_done = False, br_out = make_chan 10, br_workers = [], br_arrived = [], br_taken = []\<rparr>"

text \<open>
  \<open>browse\<close> starts a loop, which begins its first query; \<open>arrive\<close> is an answer of the library;
  \<open>next_query\<close> ends a query and starts another; a goroutine skips an entry or sends it, which blocks
  while the channel is full; \<open>stop\<close> cancels the context, after which a blocked goroutine may give up.
\<close>

inductive browse_step :: "(ServiceEntry \<Rightarrow> 'a option) \<Rightarrow> 'a browsing \<Rightarrow> 'a browsing \<Rightarrow> bool"
  for parse :: "ServiceEntry \<Rightarrow> 'a option" where
  browse: "\<not> br_done s \<Longrightarrow>
    browse_step parse s (s\<lparr>br_workers := br_workers s @ [new_worker]\<rparr>)"
| arrive: "i < length (br_workers s) \<Longrightarrow> wk_open (br_workers s ! i) \<Longrightarrow>
    length (wk_entries (br_workers s ! i)) < 10 \<Longrightarrow>
    browse_step parse s (s\<lparr>br_arrived := br_arrived s @ [e],
      br_workers := (br_workers s)[i := (br_workers s ! i)\<lparr>wk_entries := wk_entries (br_workers s ! i) @ [e]\<rparr>]\<rparr>)"
| next_query: "i < length (br_workers s) \<Longrightarrow> wk_open (br_workers s ! i) \<Longrightarrow> \<not> br_done s \<Longrightarrow>
    browse_step parse s (s\<lparr>br_workers :=
      (br_workers s)[i := (br_workers s ! i)\<lparr>wk_open := False\<rparr>] @ [new_worker]\<rparr>)"
| skip: "i < length (br_workers s) \<Longrightarrow> wk_entries (br_workers s ! i) = e # es \<Longrightarrow> parse e = None \<Longrightarrow>
    browse_step parse s (s\<lparr>br_workers := (br_workers s)[i := (br_workers s ! i)\<lparr>wk_entries := es\<rparr>]\<rparr>)"
| send: "i < length (br_workers s) \<Longrightarrow> wk_entries (br_workers s ! i) = e # es \<Longrightarrow> parse e = Some x \<Longrightarrow>
    chan_room (br_out s) \<Longrightarrow>
    browse_step parse s (s\<lparr>br_out := chan_put x (br_out s),
      br_workers := (br_workers s)[i := (br_workers s ! i)\<lparr>wk_entries := es\<rparr>]\<rparr>)"
| take: "chan_take (br_out s) = Some (x, c) \<Longrightarrow>
    browse_step parse s (s\<lparr>br_out := c, br_taken := br_taken s @ [x]\<rparr>)"
| stop: "browse_step parse s (s\<lparr>br_done := True\<rparr>)"
| give_up: "i < length (br_workers s) \<Longrightarrow> br_done s \<Longrightarrow> wk_entries (br_workers s ! i) = e # es \<Longrightarrow>
    parse e \<noteq> None \<Longrightarrow>
    browse_step parse s (s\<lparr>br_workers := (br_workers s)[i := \<lparr>wk_entries = [], wk_open = False\<rparr>]\<rparr>)"

inductive_cases browse_stepE: "browse_step parse s t"

definition browseLoop :: "ServerInfo browsing \<Rightarrow> ServerInfo browsing \<Rightarrow> bool" where
  "browseLoop = browse_step server_of_entry"

definition browseClientsLoop :: "discovery_ClientInfo browsing \<Rightarrow> discovery_ClientInfo browsing \<Rightarrow> bool" where
  "browseClientsLoop = browse_step client_of_entry"

abbreviation browse_run :: "(ServiceEntry \<Rightarrow> 'a option) \<Rightarrow> 'a browsing \<Rightarrow> 'a browsing \<Rightarrow> bool" where
  "browse_run parse \<equiv> (browse_step parse)\<^sup>*\<^sup>*"

text \<open>The address that \<open>main.go\<close> makes of a server, and \<open>Rediscover\<close>: a new loop, and the first server
  that is taken from the channel, unless the context ends or five seconds pass.\<close>

definition server_addr :: "ServerInfo \<Rightarrow> string" where
  "server_addr s = si_Host s @ '':'' @ show_int (si_Port s)"

datatype rediscover_outcome = FromChannel | ContextEnded string | TimedOut

definition Rediscover ::
  "rediscover_outcome \<Rightarrow> ServerInfo browsing \<Rightarrow> ((string + string) \<times> ServerInfo browsing) option" where
  "Rediscover outcome s =
     (let s = s\<lparr>br_workers := (if br_done s then br_workers s else br_workers s @ [new_worker])\<rparr> in
      case outcome of
        ContextEnded err \<Rightarrow> Some (Inl err, s)
      | TimedOut \<Rightarrow> Some (Inl ''rediscover timed out'', s)
      | FromChannel \<Rightarrow>
          (case chan_take (br_out s) of
             None \<Rightarrow> None
           | Some (server, c) \<Rightarrow>
               Some (Inr (server_addr server), s\<lparr>br_out := c, br_taken := br_taken s @ [server]\<rparr>)))"

section \<open>Every answer is delivered once\<close>

definition wanted :: "(ServiceEntry \<Rightarrow> 'a option) \<Rightarrow> worker \<Rightarrow> 'a list" where
  "wanted parse w = List.map_filter parse (wk_entries w)"

lemma wanted_simps [simp]:
  "wanted parse new_worker = []" "wanted parse (w\<lparr>wk_open := b\<rparr>) = wanted parse w"
  "wanted parse \<lparr>wk_entries = [], wk_open = b\<rparr> = []"
  "wanted parse (w\<lparr>wk_entries := xs @ [e]\<rparr>) = wanted parse (w\<lparr>wk_entries := xs\<rparr>) @ List.map_filter parse [e]"
  by (simp_all add: wanted_def new_worker_def map_filter_def)

definition in_transit :: "(ServiceEntry \<Rightarrow> 'a option) \<Rightarrow> 'a browsing \<Rightarrow> 'a multiset" where
  "in_transit parse s = mset (chan_buf (br_out s)) + mset (concat (map (wanted parse) (br_workers s)))"

lemma mset_concat_update:
  "i < length ws \<Longrightarrow>
   mset (concat (map f (ws[i := w]))) + mset (f (ws ! i)) = mset (concat (map f ws)) + mset (f w)"
proof (induction ws arbitrary: i)
  case (Cons a ws)
  then show ?case by (cases i) (simp_all add: ac_simps)
qed simp

definition browse_inv :: "(ServiceEntry \<Rightarrow> 'a option) \<Rightarrow> 'a browsing \<Rightarrow> bool" where
  "browse_inv parse s \<longleftrightarrow>
     chan_cap (br_out s) = 10 \<and> chan_wf (br_out s) \<and>
     mset (br_taken s) + in_transit parse s \<subseteq># mset (List.map_filter parse (br_arrived s)) \<and>
     (\<not> br_done s \<longrightarrow> mset (br_taken s) + in_transit parse s = mset (List.map_filter parse (br_arrived s)))"

lemma browse_step_inv:
  assumes "browse_step parse s t" "browse_inv parse s"
  shows "browse_inv parse t"
  using assms
proof (cases rule: browse_step.cases)
  case (arrive i e)
  from mset_concat_update [OF arrive(2), of "wanted parse"
      "(br_workers s ! i)\<lparr>wk_entries := wk_entries (br_workers s ! i) @ [e]\<rparr>"]
  have "in_transit parse t = in_transit parse s + mset (List.map_filter parse [e])"
    by (simp add: arrive(1) in_transit_def ac_simps)
  with assms(2) show ?thesis
    by (simp add: browse_inv_def arrive(1) map_filter_def add.assoc [symmetric])
next
  case (next_query i)
  from mset_concat_update [OF next_query(2), of "wanted parse" "(br_workers s ! i)\<lparr>wk_open := False\<rparr>"]
  have "in_transit parse t = in_transit parse s" by (simp add: next_query(1) in_transit_def)
  with assms(2) show ?thesis by (simp add: browse_inv_def next_query(1))
next
  case (skip i e es)
  then have "wanted parse ((br_workers s ! i)\<lparr>wk_entries := es\<rparr>) = wanted parse (br_workers s ! i)"
    by (simp add: wanted_def map_filter_def)
  with mset_concat_update [OF skip(2), of "wanted parse" "(br_workers s ! i)\<lparr>wk_entries := es\<rparr>"]
  have "in_transit parse t = in_transit parse s" by (simp add: skip(1) in_transit_def)
  with assms(2) show ?thesis by (simp add: browse_inv_def skip(1))
next
  case (send i e es x)
  then have "wanted parse (br_workers s ! i) = x # wanted parse ((br_workers s ! i)\<lparr>wk_entries := es\<rparr>)"
    by (simp add: wanted_def map_filter_def)
  with mset_concat_update [OF send(2), of "wanted parse" "(br_workers s ! i)\<lparr>wk_entries := es\<rparr>"]
  have "in_transit parse t = in_transit parse s" by (simp add: send(1) in_transit_def chan_put_def ac_simps)
  moreover have "chan_wf (br_out t)" "chan_cap (br_out t) = chan_cap (br_out s)"
    using send(5) by (simp_all add: send(1) chan_wf_def chan_room_def chan_put_def)
  ultimately show ?thesis using assms(2) by (simp add: browse_inv_def send(1))
next
  case (take x c)
  then have "chan_buf (br_out s) = x # chan_buf c" "chan_cap c = chan_cap (br_out s)"
    by (auto simp: chan_take_def split: list.splits)
  with assms(2) show ?thesis
    by (simp add: browse_inv_def take(1) in_transit_def chan_wf_def)
next
  case (give_up i e es)
  from mset_concat_update [OF give_up(2), of "wanted parse" "\<lparr>wk_entries = [], wk_open = False\<rparr>"]
  have "in_transit parse t \<subseteq># in_transit parse s"
    by (simp add: give_up(1) in_transit_def subset_eq_diff_conv) (metis mset_subset_eq_add_left)
  then have "mset (br_taken s) + in_transit parse t \<subseteq># mset (br_taken s) + in_transit parse s" by simp
  also have "\<dots> \<subseteq># mset (List.map_filter parse (br_arrived s))" using assms(2) by (simp add: browse_inv_def)
  finally show ?thesis using assms(2) give_up(3) by (simp add: browse_inv_def give_up(1))
qed (auto simp: browse_inv_def in_transit_def)

interpretation browsing: step_invariant "browse_step parse" "browse_inv parse"
  for parse :: "ServiceEntry \<Rightarrow> 'a option"
  by unfold_locales (rule browse_step_inv)

lemma NewManager_inv: "browse_inv parse NewManager"
  by (simp add: browse_inv_def NewManager_def in_transit_def map_filter_def)

text \<open>
  C26. Whatever the interleaving of queries, goroutines and consumer, every usable answer is delivered
  at most once: what the consumer took, what waits in the channel of at most ten, and what the
  goroutines still hold together are answers that arrived, and until \<open>Stop\<close> they are all of them.
\<close>

theorem discovered_exactly_once:
  assumes "browse_run parse NewManager s"
  shows "mset (br_taken s) + in_transit parse s \<subseteq># mset (List.map_filter parse (br_arrived s)) \<and>
    (br_done s \<or> mset (br_taken s) + in_transit parse s = mset (List.map_filter parse (br_arrived s))) \<and>
    length (chan_buf (br_out s)) \<le> 10"
  using browsing.run [OF assms NewManager_inv] by (auto simp: browse_inv_def chan_wf_def)

section \<open>Rediscovery\<close>

definition served :: "'a browsing \<Rightarrow> 'a list" where
  "served s = br_taken s @ chan_buf (br_out s)"

definition served_since :: "'a browsing \<Rightarrow> 'a browsing \<Rightarrow> bool" where
  "served_since s t \<longleftrightarrow>
     (\<exists>ys. served t = served s @ ys) \<and> length (br_taken s) \<le> length (br_taken t)"

lemma browse_step_served: "browse_step parse s t \<Longrightarrow> served_since s t"
  by (erule browse_stepE) (auto simp: served_since_def served_def chan_put_def chan_take_def split: list.splits)

lemma served_since_trans: "served_since s t \<Longrightarrow> served_since t u \<Longrightarrow> served_since s u"
  by (auto simp: served_since_def)

interpretation served: step_invariant "browse_step parse" "served_since s"
  for parse :: "ServiceEntry \<Rightarrow> 'a option" and s
  by unfold_locales (blast intro: browse_step_served served_since_trans)

definition with_new_loop :: "'a browsing \<Rightarrow> 'a browsing" where
  "with_new_loop t = t\<lparr>br_workers := (if br_done t then br_workers t else br_workers t @ [new_worker])\<rparr>"

lemma with_new_loop_run: "browse_run parse t (with_new_loop t)"
proof (cases "br_done t")
  case False
  with browse_step.browse [OF False, of parse] show ?thesis by (simp add: with_new_loop_def)
qed (simp add: with_new_loop_def)

lemma Rediscover_taken:
  "Rediscover FromChannel t = Some (r, u) \<Longrightarrow>
   \<exists>x c. chan_take (br_out t) = Some (x, c) \<and> r = Inr (server_addr x) \<and>
     u = (with_new_loop t)\<lparr>br_out := c, br_taken := br_taken t @ [x]\<rparr>"
  by (cases "chan_take (br_out t)") (auto simp: Rediscover_def Let_def with_new_loop_def)

lemma taken_next: "chan_take (br_out t) = Some (x, c) \<Longrightarrow> served t ! length (br_taken t) = x"
  by (cases "chan_buf (br_out t)") (simp_all add: chan_take_def served_def nth_append)

text \<open>
  C14. A player that loses its server is sent to the servers that answered first. While what was queued
  when the connection broke is not used up, \<open>Rediscover\<close> returns from that queue, in its order,
  whatever has answered since: an entry can be tried long after the server has left its address.
\<close>

theorem rediscover_returns_stale:
  assumes "browse_run server_of_entry s t"
    and "length (br_taken t) < length (br_taken s) + length (chan_buf (br_out s))"
    and "Rediscover FromChannel t = Some (r, u)"
  shows "r = Inr (server_addr (chan_buf (br_out s) ! (length (br_taken t) - length (br_taken s)))) \<and>
         browse_run server_of_entry s u"
proof -
  from served.run [OF assms(1), of s] obtain ys
    where ys: "served t = served s @ ys" "length (br_taken s) \<le> length (br_taken t)"
    by (auto simp: served_since_def)
  from Rediscover_taken [OF assms(3)] obtain x c
    where x: "chan_take (br_out t) = Some (x, c)" "r = Inr (server_addr x)"
      "u = (with_new_loop t)\<lparr>br_out := c, br_taken := br_taken t @ [x]\<rparr>" by blast
  have "served t ! length (br_taken t) =
      chan_buf (br_out s) ! (length (br_taken t) - length (br_taken s))"
    unfolding ys(1) using ys(2) assms(2) by (simp add: served_def nth_append)
  then have "r = Inr (server_addr (chan_buf (br_out s) ! (length (br_taken t) - length (br_taken s))))"
    using taken_next [OF x(1)] x(2) by simp
  moreover have "browse_step server_of_entry (with_new_loop t) u"
    unfolding x(3) using browse_step.take [of "with_new_loop t" x c server_of_entry] x(1)
    by (simp add: with_new_loop_def)
  then have "browse_run server_of_entry s u"
    using assms(1) with_new_loop_run [of server_of_entry t] by (meson rtranclp.rtrancl_into_rtrancl rtranclp_trans)
  ultimately show ?thesis by blast
qed

text \<open>An answer of a server, from its arrival into the channel.\<close>

lemma answer_queued:
  assumes "i < length (br_workers s)" "br_workers s ! i = new_worker" "parse e = Some x" "chan_room (br_out s)"
  shows "browse_run parse s (s\<lparr>br_arrived := br_arrived s @ [e], br_out := chan_put x (br_out s)\<rparr>)"
proof -
  define s' where "s' = s\<lparr>br_arrived := br_arrived s @ [e],
      br_workers := (br_workers s)[i := \<lparr>wk_entries = [e], wk_open = True\<rparr>]\<rparr>"
  have "browse_step parse s s'"
    using browse_step.arrive [OF assms(1), of parse e] assms(2) by (simp add: s'_def new_worker_def)
  moreover have "browse_step parse s' (s'\<lparr>br_out := chan_put x (br_out s'),
      br_workers := (br_workers s')[i := (br_workers s' ! i)\<lparr>wk_entries := []\<rparr>]\<rparr>)"
    using assms by (intro browse_step.send [of i s' e]) (simp_all add: s'_def)
  moreover have "(br_workers s)[i := \<lparr>wk_entries = [], wk_open = True\<rparr>] = br_workers s"
    using assms(1,2) by (simp add: list_update_same_conv new_worker_def)
  ultimately show ?thesis
    using assms(1) by (auto simp: s'_def intro: converse_rtranclp_into_rtranclp)
qed

lemma answers_queued:
  assumes "i < length (br_workers s)" "br_workers s ! i = new_worker" "parse e = Some x"
    "length (chan_buf (br_out s)) + n \<le> chan_cap (br_out s)"
  shows "browse_run parse s (s\<lparr>br_arrived := br_arrived s @ replicate n e,
    br_out := (br_out s)\<lparr>chan_buf := chan_buf (br_out s) @ replicate n x\<rparr>\<rparr>)"
  using assms(4)
proof (induction n)
  case (Suc n)
  define u where "u = s\<lparr>br_arrived := br_arrived s @ replicate n e,
    br_out := (br_out s)\<lparr>chan_buf := chan_buf (br_out s) @ replicate n x\<rparr>\<rparr>"
  have "browse_run parse u (u\<lparr>br_arrived := br_arrived u @ [e], br_out := chan_put x (br_out u)\<rparr>)"
    using assms(1-3) Suc.prems by (intro answer_queued) (simp_all add: u_def chan_room_def)
  moreover have "browse_run parse s u" using Suc by (simp add: u_def)
  ultimately have "browse_run parse s (u\<lparr>br_arrived := br_arrived u @ [e], br_out := chan_put x (br_out u)\<rparr>)"
    by (rule rtranclp_trans [rotated])
  moreover have "replicate (Suc n) z = replicate n z @ [z]" for z :: ServiceEntry by (simp add: replicate_append_same)
  moreover have "replicate (Suc n) z = replicate n z @ [z]" for z :: 'a by (simp add: replicate_append_same)
  ultimately show ?case by (simp add: u_def chan_put_def del: replicate.simps)
qed simp

text \<open>A goroutine that can only wait: its query has ended and the channel is full.\<close>

definition blocked :: "(ServiceEntry \<Rightarrow> 'a option) \<Rightarrow> 'a browsing \<Rightarrow> worker \<Rightarrow> bool" where
  "blocked parse s w \<longleftrightarrow> \<not> br_done s \<and> \<not> chan_room (br_out s) \<and> \<not> wk_open w \<and>
     (case wk_entries w of [] \<Rightarrow> False | e # _ \<Rightarrow> parse e \<noteq> None)"

definition blocked_workers :: "(ServiceEntry \<Rightarrow> 'a option) \<Rightarrow> 'a browsing \<Rightarrow> nat" where
  "blocked_workers parse s = length (filter (blocked parse s) (br_workers s))"

definition full_and_querying :: "'a browsing \<Rightarrow> bool" where
  "full_and_querying s \<longleftrightarrow> \<not> br_done s \<and> \<not> chan_room (br_out s) \<and> br_workers s \<noteq> [] \<and>
     last (br_workers s) = new_worker"

lemma one_more_blocked:
  assumes "full_and_querying s" "parse e = Some x"
  shows "\<exists>t. browse_run parse s t \<and> full_and_querying t \<and> br_taken t = br_taken s \<and>
    blocked_workers parse t = Suc (blocked_workers parse s)"
proof -
  obtain ws where ws: "br_workers s = ws @ [new_worker]" and s: "\<not> br_done s" "\<not> chan_room (br_out s)"
    using assms(1) by (metis append_butlast_last_id full_and_querying_def)
  define u where "u = s\<lparr>br_arrived := br_arrived s @ [e], br_workers := ws @ [\<lparr>wk_entries = [e], wk_open = True\<rparr>]\<rparr>"
  define t where "t = u\<lparr>br_workers := ws @ [\<lparr>wk_entries = [e], wk_open = False\<rparr>, new_worker]\<rparr>"
  have "browse_step parse s u"
    using browse_step.arrive [of "length ws" s parse e] by (simp add: ws u_def new_worker_def list_update_append)
  moreover have "browse_step parse u t"
    using browse_step.next_query [of "length ws" u parse] s(1) by (simp add: u_def t_def list_update_append)
  moreover have "blocked parse t = blocked parse s"
    by (simp add: fun_eq_iff blocked_def t_def u_def)
  then have "blocked_workers parse t = Suc (blocked_workers parse s)"
    using assms(2) s by (simp add: blocked_workers_def ws) (simp add: blocked_def t_def u_def new_worker_def)
  ultimately show ?thesis
    using s by (intro exI [of _ t]) (auto simp: full_and_querying_def t_def u_def intro: converse_rtranclp_into_rtranclp)
qed

lemma many_blocked:
  assumes "full_and_querying s" "parse e = Some x"
  shows "\<exists>t. browse_run parse s t \<and> full_and_querying t \<and> br_taken t = br_taken s \<and>
    n \<le> blocked_workers parse t"
proof (induction n)
  case 0
  with assms(1) show ?case by blast
next
  case (Suc n)
  then obtain t where t: "browse_run parse s t" "full_and_querying t" "br_taken t = br_taken s"
    "n \<le> blocked_workers parse t" by blast
  from one_more_blocked [of t parse e x] t(2) assms(2) obtain u where "browse_run parse t u" "full_and_querying u"
    "br_taken u = br_taken t" "blocked_workers parse u = Suc (blocked_workers parse t)" by blast
  with t show ?case by (intro exI [of _ u]) (auto intro: rtranclp_trans)
qed

definition old_server :: ServiceEntry where
  "old_server = \<lparr>se_Name = ''Den._sendspin-server._tcp.local.'', se_AddrV4 = Some ''10.0.0.2'',
     se_Port = 8927, se_InfoFields = [''path=/sendspin'']\<rparr>"

definition old_info :: ServerInfo where
  "old_info = \<lparr>si_Name = ''Den._sendspin-server._tcp.local.'', si_Host = ''10.0.0.2'', si_Port = 8927\<rparr>"

lemma old_server_read: "server_of_entry old_server = Some old_info"
  by code_simp

lemma old_server_addr: "server_addr old_info = ''10.0.0.2:8927''"
proof -
  have "char_of (56 :: nat) = CHR ''8''" "char_of (57 :: nat) = CHR ''9''"
    "char_of (50 :: nat) = CHR ''2''" "char_of (55 :: nat) = CHR ''7''" by code_simp+
  then show ?thesis by (simp add: server_addr_def old_info_def show_int_def show_nat.simps digit_char_def)
qed

text \<open>The state of the player after its first connection, with ten more answers of the same server.\<close>

definition connected_player :: "ServerInfo browsing" where
  "connected_player =
     \<lparr>br_done = False, br_out = \<lparr>chan_cap = 10, chan_buf = replicate 10 old_info, chan_closed = False\<rparr>,
      br_workers = [new_worker], br_arrived = replicate 11 old_server, br_taken = [old_info]\<rparr>"

lemma connected_player_reached: "browse_run server_of_entry NewManager connected_player"
proof -
  define s0 :: "ServerInfo browsing" where "s0 = NewManager\<lparr>br_workers := [new_worker]\<rparr>"
  define s1 where "s1 = s0\<lparr>br_arrived := [old_server], br_out := chan_put old_info (br_out s0)\<rparr>"
  define s2 where "s2 = s1\<lparr>br_out := make_chan 10, br_taken := [old_info]\<rparr>"
  have s: "br_workers s0 = [new_worker]" "br_arrived s0 = []" "br_out s0 = make_chan 10" "br_taken s0 = []"
    by (simp_all add: s0_def NewManager_def)
  have "browse_step server_of_entry NewManager s0"
    using browse_step.browse [of NewManager server_of_entry] by (simp add: s0_def NewManager_def)
  moreover have "browse_run server_of_entry s0 s1"
    using answer_queued [of 0 s0 server_of_entry old_server old_info] old_server_read
    by (simp add: s1_def s chan_room_def)
  moreover have "browse_step server_of_entry s1 s2"
    using browse_step.take [of s1 old_info "make_chan 10" server_of_entry]
    by (simp add: s2_def s1_def s chan_put_def chan_take_def make_chan_def)
  moreover have "browse_run server_of_entry s2 connected_player"
    using answers_queued [of 0 s2 server_of_entry old_server old_info 10] old_server_read
    by (simp add: s2_def s1_def s0_def NewManager_def connected_player_def make_chan_def eval_nat_numeral)
  ultimately show ?thesis by (meson rtranclp.rtrancl_into_rtrancl converse_rtranclp_into_rtranclp rtranclp_trans)
qed

text \<open>
  The player never stops browsing: once the ten places of the channel are taken, every further
  query that is answered leaves a goroutine behind that waits for good, without a bound on their
  number.
\<close>

theorem browsing_leaks_goroutines:
  "\<exists>s. browse_run server_of_entry NewManager s \<and> length (br_taken s) = 1 \<and> n \<le> blocked_workers server_of_entry s"
proof -
  have "full_and_querying connected_player"
    by (simp add: full_and_querying_def connected_player_def chan_room_def)
  from many_blocked [of _ server_of_entry, OF this old_server_read, of n] obtain t
    where "browse_run server_of_entry connected_player t" "br_taken t = br_taken connected_player"
      "n \<le> blocked_workers server_of_entry t" by blast
  with connected_player_reached show ?thesis
    by (intro exI [of _ t]) (auto simp: connected_player_def intro: rtranclp_trans)
qed

theorem rediscover_returns_stale_witness:
  "\<exists>u. Rediscover FromChannel connected_player = Some (Inr ''10.0.0.2:8927'', u) \<and>
       browse_run server_of_entry NewManager u"
proof -
  have "chan_take (br_out connected_player) =
      Some (old_info, (br_out connected_player)\<lparr>chan_buf := replicate 9 old_info\<rparr>)"
    by (simp add: connected_player_def chan_take_def eval_nat_numeral)
  then obtain r u where u: "Rediscover FromChannel connected_player = Some (r, u)"
    by (simp add: Rediscover_def Let_def)
  have "server_addr old_info = ''10.0.0.2:8927''" by (rule old_server_addr)
  moreover have "replicate 10 old_info ! 0 = old_info" by simp
  moreover have "chan_buf (br_out connected_player) = replicate 10 old_info" by (simp add: connected_player_def)
  ultimately have "r = Inr ''10.0.0.2:8927''" "browse_run server_of_entry connected_player u"
    using rediscover_returns_stale [of connected_player connected_player, OF _ _ u] by simp_all
  with u rtranclp_trans [OF connected_player_reached, of u] show ?thesis by blast
qed

theorem discovered_exactly_once_witness:
  "length (br_taken connected_player) = 1 \<and> size (in_transit server_of_entry connected_player) = 10"
proof -
  have "mset (br_taken connected_player) + in_transit server_of_entry connected_player =
      mset (List.map_filter server_of_entry (br_arrived connected_player))"
    using discovered_exactly_once [OF connected_player_reached] by (simp add: connected_player_def)
  then have "size (mset (br_taken connected_player) + in_transit server_of_entry connected_player) = 11"
    by (simp add: connected_player_def map_filter_def old_server_read)
  then show ?thesis by (simp add: connected_player_def)
qed

section \<open>A player that is advertised, and the server that looks for it\<close>

text \<open>
  What the mDNS library makes of a service: another host receives an entry with the full instance name,
  the port, the TXT record and one of the addresses; \<open>show_ip\<close> prints it.
\<close>

definition announces :: "(nat list \<Rightarrow> string) \<Rightarrow> mdns_service \<Rightarrow> ServiceEntry \<Rightarrow> bool" where
  "announces show_ip service e \<longleftrightarrow>
     (case service of (inst, typ, port, ips, txt) \<Rightarrow>
        se_Name e = inst @ ''.'' @ typ @ ''.local.'' \<and> se_Port e = port \<and> se_InfoFields e = txt \<and>
        (\<exists>ip \<in> set ips. se_AddrV4 e = Some (show_ip ip)))"

lemma Advertise_service:
  "Advertise interfaces ns sv config = Inr service \<Longrightarrow>
   \<exists>ips. getLocalIPs interfaces = Inr ips \<and>
     service = (dc_ServiceName config, service_type (dc_ServerMode config), dc_Port config, ips, [''path=/sendspin''])"
  by (auto simp: Advertise_def Let_def split: sum.splits option.splits)

lemma local_ip_usable:
  "getLocalIPs interfaces = Inr ips \<Longrightarrow> ip \<in> set ips \<Longrightarrow> To4 ip \<noteq> None \<and> \<not> IsLoopback ip"
  by (auto simp: getLocalIPs_def usable_addrs_def split: sum.splits iface_addr.splits if_splits)

lemma default_txt: "txt_get (parseTXT [''path=/sendspin'']) ''path'' = ''/sendspin''"
  "txt_get (parseTXT [''path=/sendspin'']) ''name'' = []"
  by code_simp+

lemma contains_later: "contains s sub \<Longrightarrow> contains (a @ s) sub"
  by (metis append.assoc contains_iff)

lemma not_contains_after:
  assumes "hd sub \<notin> set a" "sub \<noteq> []" "\<not> contains s sub"
  shows "\<not> contains (a @ s) sub"
  using assms(1)
proof (induction a)
  case Nil
  with assms(3) show ?case by simp
next
  case (Cons c a)
  then have "\<not> has_prefix ((c # a) @ s) sub"
    using assms(2) by (cases sub) (auto simp: has_prefix_def)
  with Cons show ?case by simp
qed

text \<open>
  C30. A player that is advertised is understood by a server that looks for players: the entry that the
  library delivers gives a usable, non-loopback address, the port and the path of the default TXT
  record, and the dialler makes the WebSocket URL of it. With a name without a dot the entry is not
  taken for a server.
\<close>

theorem advertised_player_understood:
  assumes "Advertise interfaces ns sv config = Inr service" "\<not> dc_ServerMode config" "dc_Port config \<noteq> 0"
    and "announces show_ip service e"
  shows "\<exists>ip info. To4 ip \<noteq> None \<and> \<not> IsLoopback ip \<and> client_of_entry e = Some info \<and>
    ci_Instance info = dc_ServiceName config @ ''._sendspin._tcp.local.'' \<and> ci_Host info = show_ip ip \<and>
    clientInfoURL (ci_Host info) (ci_Port info) (ci_Path info) =
      ''ws://'' @ show_ip ip @ '':'' @ show_int (dc_Port config) @ ''/sendspin'' \<and>
    (CHR ''.'' \<in> set (dc_ServiceName config) \<or> server_of_entry e = None)"
proof -
  obtain ips where ips: "getLocalIPs interfaces = Inr ips"
      "service = (dc_ServiceName config, ''_sendspin._tcp'', dc_Port config, ips, [''path=/sendspin''])"
    using Advertise_service [OF assms(1)] assms(2) by (auto simp: service_type_def)
  obtain ip where e: "se_Name e = dc_ServiceName config @ ''._sendspin._tcp.local.''" "se_Port e = dc_Port config"
      "se_InfoFields e = [''path=/sendspin'']" "se_AddrV4 e = Some (show_ip ip)" "ip \<in> set ips"
    using assms(4) by (auto simp: announces_def ips(2))
  have "contains ''._sendspin._tcp.local.'' ''._sendspin._tcp.''"
      "\<not> contains ''._sendspin._tcp.local.'' ''._sendspin-server._tcp.''" by code_simp+
  then have "contains (se_Name e) ''._sendspin._tcp.''"
      "CHR ''.'' \<notin> set (dc_ServiceName config) \<Longrightarrow> \<not> contains (se_Name e) ''._sendspin-server._tcp.''"
    using contains_later [of _ _ "dc_ServiceName config"]
      not_contains_after [of "''._sendspin-server._tcp.''" "dc_ServiceName config"] by (simp_all add: e(1))
  with assms(3) local_ip_usable [OF ips(1) e(5)] show ?thesis
    by (intro exI [of _ ip] exI [of _ "\<lparr>ci_Instance = se_Name e, ci_Name = se_Name e, ci_Host = show_ip ip,
        ci_Port = dc_Port config, ci_Path = ''/sendspin''\<rparr>"])
      (auto simp: client_of_entry_def clientInfoFromEntry_def server_of_entry_def default_txt e clientInfoURL_def)
qed

definition lan :: "iface list" where
  "lan = [\<lparr>if_up = True, if_loopback = True, if_Addrs = Inr [IPNet [127, 0, 0, 1]]\<rparr>,
          \<lparr>if_up = True, if_loopback = False, if_Addrs = Inr [OtherAddr, IPNet [10, 0, 0, 7]]\<rparr>]"

theorem advertised_player_understood_witness:
  "\<exists>ip info. client_of_entry \<lparr>se_Name = ''Desk._sendspin._tcp.local.'', se_AddrV4 = Some ''10.0.0.7'',
        se_Port = 8927, se_InfoFields = [''path=/sendspin'']\<rparr> = Some info \<and>
     To4 ip \<noteq> None \<and> ci_Host info = ''10.0.0.7''"
proof -
  define config where "config = \<lparr>dc_ServiceName = ''Desk'', dc_Port = 8927, dc_ServerMode = False\<rparr>"
  define e where "e = \<lparr>se_Name = ''Desk._sendspin._tcp.local.'', se_AddrV4 = Some ''10.0.0.7'',
        se_Port = 8927, se_InfoFields = [''path=/sendspin'']\<rparr>"
  define service :: mdns_service where "service = (''Desk'', ''_sendspin._tcp'', 8927, [[10, 0, 0, 7]], [''path=/sendspin''])"
  have "getLocalIPs (Inr lan) = Inr [[10, 0, 0, 7]]" by code_simp
  then have "Advertise (Inr lan) (\<lambda>_. None) (\<lambda>_. None) config = Inr service"
    by (simp add: Advertise_def config_def service_def service_type_def)
  moreover have "\<not> dc_ServerMode config" "dc_Port config \<noteq> 0" by (simp_all add: config_def)
  moreover have "announces (\<lambda>_. ''10.0.0.7'') service e" by (simp add: announces_def service_def e_def)
  ultimately obtain ip info where "client_of_entry e = Some info" "To4 ip \<noteq> None" "ci_Host info = ''10.0.0.7''"
    using advertised_player_understood by blast
  then show ?thesis unfolding e_def by blast
qed

text \<open>Of several fields with one key the last counts.\<close>

lemma parseTXT_last: "parseTXT (entries @ [k @ ''='' @ v]) k = Some v" if "CHR ''='' \<notin> set k"
proof -
  have "takeWhile (\<lambda>c. c \<noteq> CHR ''='') (k @ ''='' @ v) = k" "dropWhile (\<lambda>c. c \<noteq> CHR ''='') (k @ ''='' @ v) = ''='' @ v"
    using that by (induction k) auto
  then show ?thesis by (simp add: parseTXT_def put_txt_def)
qed

end
