(* ===== verification/Server_Lifecycle.thy ===== *)
theory Server_Lifecycle
  imports Main
begin

text \<open>
  Start and stop of the server: \<open>Server.Start\<close> and \<open>Server.Stop\<close> of \<open>server.go\<close> step by step, with the
  goroutines that its wait group counts (the audio stream, the dialler and one writer per client),
  the connection handlers, and the main function of \<open>cmd/sendspin-server\<close>. What the goroutines
  do to the state of the server is in \<open>Server_System\<close>; here only their beginning and end count.
\<close>

section \<open>State\<close>

text \<open>Where \<open>Start\<close> stands; it returns an error or nil.\<close>

datatype start_pc =
    NotStarted | Binding | Accepting | CancelDials | StopMdns | ShutHttp | CloseSource | CloseGroup
  | Waiting | Returned "string option"

datatype handler_pc = Arrived | Admitted | InSession | Over

text \<open>
  A connection: its handler, whether the client keeps its end open, its writer, the \<open>done\<close> channel, and
  whether the server dialled it. \<open>lk_late\<close> is history: the handshake came after \<open>Start\<close> had returned.
\<close>

record link =
  lk_pc :: handler_pc
  lk_open :: bool
  lk_writer :: bool
  lk_done :: bool
  lk_dialled :: bool
  lk_late :: bool

definition new_link :: "bool \<Rightarrow> link" where
  "new_link dialled =
     \<lparr>lk_pc = Arrived, lk_open = True, lk_writer = False, lk_done = False, lk_dialled = dialled, lk_late = False\<rparr>"

record lifecycle =
  lc_pc :: start_pc
  lc_stopChan :: bool
  lc_isShutdown :: bool
  lc_stream :: bool
  lc_dialer :: bool
  lc_dialerCancel :: bool
  lc_mdns :: bool
  lc_http :: bool
  lc_wg :: nat
  lc_source_closed :: nat
  lc_group_closed :: bool
  lc_links :: "link list"

definition fresh_server :: lifecycle where
  "fresh_server =
     \<lparr>lc_pc = NotStarted, lc_stopChan = False, lc_isShutdown = False, lc_stream = False, lc_dialer = False,
      lc_dialerCancel = False, lc_mdns = False, lc_http = False, lc_wg = 0, lc_source_closed = 0,
      lc_group_closed = False, lc_links = []\<rparr>"

section \<open>Operations\<close>

text \<open>The first part of \<open>Start\<close>, up to the listener: mDNS, the dialler and the audio stream.\<close>

definition begin_start :: "bool \<Rightarrow> bool \<Rightarrow> lifecycle \<Rightarrow> lifecycle" where
  "begin_start enableMDNS discoverClients s =
     s\<lparr>lc_pc := Binding, lc_mdns := (enableMDNS \<or> discoverClients), lc_dialer := discoverClients,
       lc_stream := True, lc_wg := lc_wg s + (if discoverClients then 1 else 0) + 1\<rparr>"

definition lc_Stop :: "lifecycle \<Rightarrow> lifecycle" where
  "lc_Stop s = s\<lparr>lc_stopChan := True\<rparr>"

text \<open>The shutdown sequence of \<open>Start\<close>, one statement at a time.\<close>

fun shutdown_step :: "lifecycle \<Rightarrow> lifecycle option" where
  "shutdown_step s =
     (case lc_pc s of
        Accepting \<Rightarrow> if lc_stopChan s then Some (s\<lparr>lc_isShutdown := True, lc_pc := CancelDials\<rparr>) else None
      | CancelDials \<Rightarrow> Some (s\<lparr>lc_dialerCancel := True, lc_pc := StopMdns\<rparr>)
      | StopMdns \<Rightarrow> Some (s\<lparr>lc_mdns := False, lc_pc := ShutHttp\<rparr>)
      | ShutHttp \<Rightarrow> Some (s\<lparr>lc_http := False, lc_pc := CloseSource\<rparr>)
      | CloseSource \<Rightarrow> Some (s\<lparr>lc_source_closed := lc_source_closed s + 1, lc_pc := CloseGroup\<rparr>)
      | CloseGroup \<Rightarrow> Some (s\<lparr>lc_group_closed := True, lc_pc := Waiting\<rparr>)
      | Waiting \<Rightarrow> if lc_wg s = 0 then Some (s\<lparr>lc_pc := Returned None\<rparr>) else None
      | _ \<Rightarrow> None)"

definition upd_link :: "nat \<Rightarrow> (link \<Rightarrow> link) \<Rightarrow> lifecycle \<Rightarrow> lifecycle" where
  "upd_link i f s = s\<lparr>lc_links := (lc_links s)[i := f (lc_links s ! i)]\<rparr>"

text \<open>The check at the head of \<open>handleConnection\<close>.\<close>

definition check_shutdown :: "nat \<Rightarrow> lifecycle \<Rightarrow> lifecycle" where
  "check_shutdown i s = upd_link i (\<lambda>l. l\<lparr>lk_pc := (if lc_isShutdown s then Over else Admitted)\<rparr>) s"

text \<open>A good first message: the writer is started and counted.\<close>

definition begin_session :: "nat \<Rightarrow> lifecycle \<Rightarrow> lifecycle" where
  "begin_session i s =
     (upd_link i (\<lambda>l. l\<lparr>lk_pc := InSession, lk_writer := True, lk_late := (lc_pc s = Returned None)\<rparr>) s)
       \<lparr>lc_wg := lc_wg s + 1\<rparr>"

definition writer_ends :: "nat \<Rightarrow> lifecycle \<Rightarrow> lifecycle" where
  "writer_ends i s = (upd_link i (\<lambda>l. l\<lparr>lk_writer := False\<rparr>) s)\<lparr>lc_wg := lc_wg s - 1\<rparr>"

section \<open>Interleavings\<close>

text \<open>
  \<open>lk_open\<close> turns false when the client leaves or its connection breaks; until then reads of the handler
  block and writes and pings of the writer succeed. Nothing in the server ends it: \<open>Shutdown\<close> of the
  HTTP server does not close upgraded connections.
\<close>

datatype life_event =
    EStart bool bool | EListenFails string | EListening | EServeFails string | EShutdownStep | EStop
  | EStreamEnds | EDialerEnds | EAccept | EDial
  | ECheck nat | ERefused nat | EHello nat | ELeaves nat | EReadFails nat | EWriterEnds nat

definition link_at :: "nat \<Rightarrow> (link \<Rightarrow> bool) \<Rightarrow> lifecycle \<Rightarrow> bool" where
  "link_at i P s \<longleftrightarrow> i < length (lc_links s) \<and> P (lc_links s ! i)"

fun life_do :: "life_event \<Rightarrow> lifecycle \<Rightarrow> lifecycle option" where
  "life_do (EStart m d) s = (if lc_pc s = NotStarted then Some (begin_start m d s) else None)"
| "life_do (EListenFails e) s = (if lc_pc s = Binding then Some (s\<lparr>lc_pc := Returned (Some e)\<rparr>) else None)"
| "life_do EListening s = (if lc_pc s = Binding then Some (s\<lparr>lc_pc := Accepting, lc_http := True\<rparr>) else None)"
| "life_do (EServeFails e) s =
     (if lc_pc s = Accepting then Some (s\<lparr>lc_pc := Returned (Some e), lc_http := False\<rparr>) else None)"
| "life_do EShutdownStep s = shutdown_step s"
| "life_do EStop s = Some (lc_Stop s)"
| "life_do EStreamEnds s =
     (if lc_stream s \<and> lc_stopChan s then Some (s\<lparr>lc_stream := False, lc_wg := lc_wg s - 1\<rparr>) else None)"
| "life_do EDialerEnds s =
     (if lc_dialer s \<and> lc_dialerCancel s \<and> list_all (\<lambda>l. lk_dialled l \<longrightarrow> lk_pc l = Over) (lc_links s)
      then Some (s\<lparr>lc_dialer := False, lc_wg := lc_wg s - 1\<rparr>) else None)"
| "life_do EAccept s = (if lc_http s then Some (s\<lparr>lc_links := lc_links s @ [new_link False]\<rparr>) else None)"
| "life_do EDial s = (if lc_dialer s then Some (s\<lparr>lc_links := lc_links s @ [new_link True]\<rparr>) else None)"
| "life_do (ECheck i) s = (if link_at i (\<lambda>l. lk_pc l = Arrived) s then Some (check_shutdown i s) else None)"
| "life_do (ERefused i) s =
     (if link_at i (\<lambda>l. lk_pc l = Admitted) s then Some (upd_link i (\<lambda>l. l\<lparr>lk_pc := Over\<rparr>) s) else None)"
| "life_do (EHello i) s = (if link_at i (\<lambda>l. lk_pc l = Admitted) s then Some (begin_session i s) else None)"
| "life_do (ELeaves i) s =
     (if link_at i lk_open s then Some (upd_link i (\<lambda>l. l\<lparr>lk_open := False\<rparr>) s) else None)"
| "life_do (EReadFails i) s =
     (if link_at i (\<lambda>l. lk_pc l = InSession \<and> \<not> lk_open l) s
      then Some (upd_link i (\<lambda>l. l\<lparr>lk_pc := Over, lk_done := True\<rparr>) s) else None)"
| "life_do (EWriterEnds i) s =
     (if link_at i (\<lambda>l. lk_writer l \<and> (lk_done l \<or> \<not> lk_open l)) s then Some (writer_ends i s) else None)"

text \<open>A run: the events that happen, in their order.\<close>

fun life_run :: "life_event list \<Rightarrow> lifecycle \<Rightarrow> lifecycle option" where
  "life_run [] s = Some s"
| "life_run (e # es) s = (case life_do e s of None \<Rightarrow> None | Some t \<Rightarrow> life_run es t)"

text \<open>
  The main function of the server program, which stops the server on a signal or on a quit of its
  terminal interface and then waits for \<open>Start\<close>. Later signals only fill the channel.
\<close>

datatype main_pc = Selecting | AwaitStart | Exited

fun main_step :: "bool \<Rightarrow> main_pc \<times> lifecycle \<Rightarrow> (main_pc \<times> lifecycle) option" where
  "main_step asked (pc, s) =
     (case pc of
        Selecting \<Rightarrow>
          (case lc_pc s of
             Returned e \<Rightarrow> Some (Exited, lc_Stop s)
           | _ \<Rightarrow> if asked then Some (AwaitStart, lc_Stop s) else None)
      | AwaitStart \<Rightarrow> (case lc_pc s of Returned e \<Rightarrow> Some (Exited, s) | _ \<Rightarrow> None)
      | Exited \<Rightarrow> None)"

section \<open>The invariant\<close>

fun rank :: "start_pc \<Rightarrow> nat" where
  "rank CancelDials = 1"
| "rank StopMdns = 2"
| "rank ShutHttp = 3"
| "rank CloseSource = 4"
| "rank CloseGroup = 5"
| "rank Waiting = 6"
| "rank (Returned None) = 7"
| "rank _ = 0"

definition total :: "(link \<Rightarrow> nat) \<Rightarrow> lifecycle \<Rightarrow> nat" where
  "total w s = sum_list (map w (lc_links s))"

lemma sum_list_map_update:
  "i < length ls \<Longrightarrow> sum_list (map w (ls[i := l])) + (w (ls ! i) :: nat) = sum_list (map w ls) + w l"
proof (induction ls arbitrary: i)
  case (Cons a ls)
  then show ?case by (cases i) (simp_all add: ac_simps)
qed simp

lemma total_upd_link:
  "i < length (lc_links s) \<Longrightarrow> total w (upd_link i f s) + w (lc_links s ! i) = total w s + w (f (lc_links s ! i))"
  by (simp add: total_def upd_link_def sum_list_map_update)

lemma total_other_fields [simp]:
  "total w (s\<lparr>lc_wg := n\<rparr>) = total w s" "total w (s\<lparr>lc_pc := pc\<rparr>) = total w s"
  "total w (s\<lparr>lc_stream := b\<rparr>) = total w s" "total w (s\<lparr>lc_dialer := b\<rparr>) = total w s"
  "total w (s\<lparr>lc_stopChan := b\<rparr>) = total w s" "total w (s\<lparr>lc_http := b\<rparr>) = total w s"
  "total w (s\<lparr>lc_isShutdown := b\<rparr>) = total w s" "total w (s\<lparr>lc_dialerCancel := b\<rparr>) = total w s"
  "total w (s\<lparr>lc_mdns := b\<rparr>) = total w s" "total w (s\<lparr>lc_source_closed := n\<rparr>) = total w s"
  "total w (s\<lparr>lc_group_closed := b\<rparr>) = total w s"
  "total w (s\<lparr>lc_links := lc_links s @ [l]\<rparr>) = total w s + w l"
  by (simp_all add: total_def)

abbreviation writers :: "lifecycle \<Rightarrow> nat" where
  "writers \<equiv> total (\<lambda>l. of_bool (lk_writer l))"

definition link_ok :: "link \<Rightarrow> bool" where
  "link_ok l \<longleftrightarrow> (lk_writer l \<longrightarrow> lk_pc l = InSession \<or> lk_pc l = Over \<and> lk_done l) \<and>
     (lk_done l \<longrightarrow> lk_pc l = Over)"

definition counted :: "lifecycle \<Rightarrow> bool" where
  "counted s \<longleftrightarrow> lc_wg s = of_bool (lc_stream s) + of_bool (lc_dialer s) + writers s"

definition staged :: "lifecycle \<Rightarrow> bool" where
  "staged s \<longleftrightarrow>
     (lc_pc s = NotStarted \<longrightarrow> \<not> lc_stream s \<and> \<not> lc_dialer s) \<and>
     (1 \<le> rank (lc_pc s) \<longrightarrow> lc_isShutdown s \<and> lc_stopChan s) \<and>
     (2 \<le> rank (lc_pc s) \<longrightarrow> lc_dialerCancel s) \<and>
     (3 \<le> rank (lc_pc s) \<longrightarrow> \<not> lc_mdns s) \<and>
     (4 \<le> rank (lc_pc s) \<longrightarrow> \<not> lc_http s) \<and>
     lc_source_closed s = of_bool (5 \<le> rank (lc_pc s)) \<and>
     (6 \<le> rank (lc_pc s) \<longrightarrow> lc_group_closed s) \<and>
     (7 \<le> rank (lc_pc s) \<longrightarrow> \<not> lc_stream s \<and> \<not> lc_dialer s)"

definition late_only :: "lifecycle \<Rightarrow> bool" where
  "late_only s \<longleftrightarrow> (lc_pc s = Returned None \<longrightarrow> list_all (\<lambda>l. lk_writer l \<longrightarrow> lk_late l) (lc_links s))"

definition life_inv :: "lifecycle \<Rightarrow> bool" where
  "life_inv s \<longleftrightarrow> counted s \<and> staged s \<and> late_only s \<and> list_all link_ok (lc_links s)"

lemma list_all_update: "list_all P xs \<Longrightarrow> P x \<Longrightarrow> list_all P (xs[i := x])"
  using set_update_subset_insert [of xs i x] by (auto simp: list_all_iff)

lemma list_all_at: "list_all P xs \<Longrightarrow> i < length xs \<Longrightarrow> P (xs ! i)"
  by (simp add: list_all_length)

lemma no_writers: "writers s = 0 \<longleftrightarrow> list_all (\<lambda>l. \<not> lk_writer l) (lc_links s)"
  by (auto simp: total_def list_all_iff)

text \<open>A change of one link that keeps whether its writer runs.\<close>

lemma upd_link_inv:
  assumes "life_inv s" "i < length (lc_links s)" "link_ok (f (lc_links s ! i))"
    and "lk_writer (f (lc_links s ! i)) = lk_writer (lc_links s ! i)"
    and "lk_late (f (lc_links s ! i)) = lk_late (lc_links s ! i)"
  shows "life_inv (upd_link i f s)"
proof -
  from total_upd_link [OF assms(2), of "\<lambda>l. of_bool (lk_writer l)" f] assms(4)
  have "writers (upd_link i f s) = writers s" by simp
  moreover have "lc_pc s = Returned None \<Longrightarrow> lk_writer (lc_links s ! i) \<longrightarrow> lk_late (lc_links s ! i)"
    using assms(1) list_all_at [OF _ assms(2), of "\<lambda>l. lk_writer l \<longrightarrow> lk_late l"]
    by (simp add: life_inv_def late_only_def)
  ultimately show ?thesis
    using assms(1,3-5)
    by (simp add: life_inv_def counted_def staged_def late_only_def upd_link_def list_all_update)
qed

lemma shutdown_step_inv:
  assumes "life_inv s" "shutdown_step s = Some t"
  shows "life_inv t"
proof (cases "lc_pc s = Waiting")
  case True
  with assms(2) have t: "t = s\<lparr>lc_pc := Returned None\<rparr>" "lc_wg s = 0" by (simp_all split: if_splits)
  with assms(1) have "writers s = 0" "\<not> lc_stream s" "\<not> lc_dialer s"
    by (simp_all add: life_inv_def counted_def)
  moreover from this(1) have "list_all (\<lambda>l. lk_writer l \<longrightarrow> lk_late l) (lc_links s)"
    unfolding no_writers by (simp add: list_all_iff)
  ultimately show ?thesis
    using assms(1) True by (simp add: t(1) life_inv_def counted_def staged_def late_only_def)
next
  case False
  with assms show ?thesis
    by (cases "lc_pc s")
      (clarsimp simp: life_inv_def counted_def staged_def late_only_def split: if_splits)+
qed

lemma begin_session_inv:
  assumes "life_inv s" "link_at i (\<lambda>l. lk_pc l = Admitted) s"
  shows "life_inv (begin_session i s)"
proof -
  have i: "i < length (lc_links s)" "lk_pc (lc_links s ! i) = Admitted" using assms(2) by (simp_all add: link_at_def)
  with assms(1) have ok: "link_ok (lc_links s ! i)" by (simp add: life_inv_def list_all_at)
  with i(2) have off: "\<not> lk_writer (lc_links s ! i)" "\<not> lk_done (lc_links s ! i)" by (auto simp: link_ok_def)
  from total_upd_link [OF i(1), of "\<lambda>l. of_bool (lk_writer l)"
      "\<lambda>l. l\<lparr>lk_pc := InSession, lk_writer := True, lk_late := (lc_pc s = Returned None)\<rparr>"] off
  have "writers (begin_session i s) = Suc (writers s)" by (simp add: begin_session_def)
  with assms(1) off show ?thesis
    by (simp add: life_inv_def counted_def staged_def late_only_def begin_session_def upd_link_def
        list_all_update link_ok_def)
qed

lemma writer_ends_inv:
  assumes "life_inv s" "link_at i (\<lambda>l. lk_writer l \<and> (lk_done l \<or> \<not> lk_open l)) s"
  shows "life_inv (writer_ends i s)"
proof -
  have i: "i < length (lc_links s)" "lk_writer (lc_links s ! i)" using assms(2) by (simp_all add: link_at_def)
  with assms(1) have ok: "link_ok (lc_links s ! i)" by (simp add: life_inv_def list_all_at)
  from total_upd_link [OF i(1), of "\<lambda>l. of_bool (lk_writer l)" "\<lambda>l. l\<lparr>lk_writer := False\<rparr>"] i(2)
  have "Suc (writers (writer_ends i s)) = writers s" by (simp add: writer_ends_def)
  with assms(1) ok show ?thesis
    by (simp add: life_inv_def counted_def staged_def late_only_def writer_ends_def upd_link_def
        list_all_update link_ok_def)
qed

lemma new_link_inv:
  assumes "life_inv s"
  shows "life_inv (s\<lparr>lc_links := lc_links s @ [new_link d]\<rparr>)"
  using assms by (simp add: life_inv_def counted_def staged_def late_only_def new_link_def link_ok_def)

lemma plain_step_inv:
  assumes "life_inv s" "life_do e s = Some t"
    and "e = EStart m d \<or> e = EListenFails err \<or> e = EListening \<or> e = EServeFails err \<or> e = EStop"
  shows "life_inv t"
  using assms(3)
proof (elim disjE)
  assume "e = EStart m d"
  with assms show ?thesis
    by (clarsimp simp: begin_start_def life_inv_def counted_def staged_def late_only_def split: if_splits)
next
  assume "e = EStop"
  with assms show ?thesis
    by (clarsimp simp: lc_Stop_def life_inv_def counted_def staged_def late_only_def) blast
qed (use assms in \<open>clarsimp simp: life_inv_def counted_def staged_def late_only_def split: if_splits\<close>)+

lemma goroutine_ends_inv:
  assumes "life_inv s" "life_do e s = Some t" "e = EStreamEnds \<or> e = EDialerEnds"
  shows "life_inv t"
  using assms(3)
  by (elim disjE) (use assms in \<open>clarsimp simp: life_inv_def counted_def staged_def late_only_def split: if_splits\<close>)+

lemma link_change_inv:
  assumes "life_inv s" "link_at i P s"
    and "\<And>l. P l \<Longrightarrow> link_ok l \<Longrightarrow>
      link_ok (f l) \<and> lk_writer (f l) = lk_writer l \<and> lk_late (f l) = lk_late l"
  shows "life_inv (upd_link i f s)"
proof -
  have i: "i < length (lc_links s)" "P (lc_links s ! i)" using assms(2) by (simp_all add: link_at_def)
  with assms(1) have "link_ok (lc_links s ! i)" by (simp add: life_inv_def list_all_at)
  from assms(3) [OF i(2) this] show ?thesis by (intro upd_link_inv assms(1) i(1)) simp_all
qed

lemma link_step_inv:
  assumes "life_inv s" "life_do e s = Some t"
    and "e = ECheck i \<or> e = ERefused i \<or> e = ELeaves i \<or> e = EReadFails i"
  shows "life_inv t"
  using assms(3)
proof (elim disjE)
  assume "e = ECheck i"
  with assms(2) have "link_at i (\<lambda>l. lk_pc l = Arrived) s" "t = check_shutdown i s" by (simp_all split: if_splits)
  with link_change_inv [OF assms(1) this(1)] show ?thesis by (simp add: check_shutdown_def link_ok_def)
next
  assume "e = ERefused i"
  with assms(2) have "link_at i (\<lambda>l. lk_pc l = Admitted) s" "t = upd_link i (\<lambda>l. l\<lparr>lk_pc := Over\<rparr>) s"
    by (simp_all split: if_splits)
  with link_change_inv [OF assms(1) this(1)] show ?thesis by (simp add: link_ok_def)
next
  assume "e = ELeaves i"
  with assms(2) have "link_at i lk_open s" "t = upd_link i (\<lambda>l. l\<lparr>lk_open := False\<rparr>) s"
    by (simp_all split: if_splits)
  with link_change_inv [OF assms(1) this(1)] show ?thesis by (simp add: link_ok_def)
next
  assume "e = EReadFails i"
  with assms(2) have "link_at i (\<lambda>l. lk_pc l = InSession \<and> \<not> lk_open l) s"
      "t = upd_link i (\<lambda>l. l\<lparr>lk_pc := Over, lk_done := True\<rparr>) s"
    by (simp_all split: if_splits)
  with link_change_inv [OF assms(1) this(1)] show ?thesis by (simp add: link_ok_def)
qed

lemma life_do_inv:
  assumes "life_inv s" "life_do e s = Some t"
  shows "life_inv t"
proof (cases e)
  case EShutdownStep
  with assms show ?thesis by (simp add: shutdown_step_inv del: shutdown_step.simps)
next
  case EAccept
  with assms show ?thesis by (auto simp: new_link_inv split: if_splits)
next
  case EDial
  with assms show ?thesis by (auto simp: new_link_inv split: if_splits)
next
  case (EHello i)
  with assms show ?thesis by (auto simp: begin_session_inv split: if_splits)
next
  case (EWriterEnds i)
  with assms show ?thesis by (auto simp: writer_ends_inv split: if_splits)
qed (use plain_step_inv [OF assms] goroutine_ends_inv [OF assms] link_step_inv [OF assms] in blast)+

lemma life_run_inv: "life_inv s \<Longrightarrow> life_run es s = Some t \<Longrightarrow> life_inv t"
  by (induction es arbitrary: s) (auto intro: life_do_inv split: option.splits)

lemma fresh_inv: "life_inv fresh_server"
  by (simp add: life_inv_def counted_def staged_def late_only_def fresh_server_def total_def)

section \<open>A clean stop\<close>

text \<open>
  C25. When \<open>Start\<close> returns without an error, the audio stream, the dialler and every writer are over,
  mDNS and HTTP are shut, the source has been closed exactly once and the group is closed. A writer
  that runs then belongs to a client whose handshake came after the return.
\<close>

theorem start_returns_clean:
  assumes "life_run es fresh_server = Some s" "lc_pc s = Returned None"
  shows "\<not> lc_stream s \<and> \<not> lc_dialer s \<and> \<not> lc_mdns s \<and> \<not> lc_http s \<and> lc_isShutdown s \<and>
    lc_source_closed s = 1 \<and> lc_group_closed s \<and> lc_wg s = writers s \<and>
    list_all (\<lambda>l. \<not> lk_writer l \<or> lk_late l) (lc_links s)"
proof -
  have inv: "counted s" "staged s" "late_only s"
    using life_run_inv [OF fresh_inv assms(1)] by (simp_all add: life_inv_def)
  have "(\<lambda>l. \<not> lk_writer l \<or> lk_late l) = (\<lambda>l. lk_writer l \<longrightarrow> lk_late l)" by auto
  with inv(3) assms(2) have "list_all (\<lambda>l. \<not> lk_writer l \<or> lk_late l) (lc_links s)"
    by (simp only: late_only_def) simp
  with inv(1,2) assms(2) show ?thesis by (simp add: counted_def staged_def)
qed

text \<open>The handshake that comes too late: its writer is never waited for.\<close>

lemma session_after_return:
  "\<exists>s. life_run [EStart False False, EListening, EAccept, ECheck 0, EStop, EShutdownStep, EShutdownStep,
      EShutdownStep, EShutdownStep, EShutdownStep, EShutdownStep, EStreamEnds, EShutdownStep, EHello 0]
      fresh_server = Some s \<and> lc_pc s = Returned None \<and> writers s = 1"
  by (rule exI, intro conjI, code_simp, code_simp, code_simp)

section \<open>A client that stays\<close>

definition stays :: "link \<Rightarrow> bool" where
  "stays l \<longleftrightarrow> lk_pc l = InSession \<and> lk_open l \<and> lk_writer l \<and> \<not> lk_done l \<and> \<not> lk_late l"



lemma link_at_other [simp]:
  "link_at i P (s\<lparr>lc_wg := n\<rparr>) = link_at i P s" "link_at i P (s\<lparr>lc_pc := pc\<rparr>) = link_at i P s"
  "link_at i P (s\<lparr>lc_stream := b\<rparr>) = link_at i P s" "link_at i P (s\<lparr>lc_dialer := b\<rparr>) = link_at i P s"
  "link_at i P (s\<lparr>lc_stopChan := b\<rparr>) = link_at i P s" "link_at i P (s\<lparr>lc_http := b\<rparr>) = link_at i P s"
  "link_at i P (s\<lparr>lc_isShutdown := b\<rparr>) = link_at i P s" "link_at i P (s\<lparr>lc_dialerCancel := b\<rparr>) = link_at i P s"
  "link_at i P (s\<lparr>lc_mdns := b\<rparr>) = link_at i P s" "link_at i P (s\<lparr>lc_source_closed := n\<rparr>) = link_at i P s"
  "link_at i P (s\<lparr>lc_group_closed := b\<rparr>) = link_at i P s"
  "link_at i P s \<Longrightarrow> link_at i P (s\<lparr>lc_links := lc_links s @ [l]\<rparr>)"
  by (auto simp: link_at_def nth_append)

lemma stays_step:
  assumes "link_at i stays s" "life_do e s = Some t" "e \<noteq> ELeaves i"
  shows "link_at i stays t"
proof (cases e)
  case EShutdownStep
  with assms show ?thesis by (cases "lc_pc s") (auto split: if_splits)
next
  case (EStart m d)
  with assms show ?thesis by (auto simp: begin_start_def link_at_def split: if_splits)
next
  case EStop
  with assms show ?thesis by (auto simp: lc_Stop_def)
next
  case (ECheck j)
  with assms show ?thesis
    by (cases "i = j") (auto simp: check_shutdown_def link_at_def upd_link_def stays_def split: if_splits)
next
  case (ERefused j)
  with assms show ?thesis by (cases "i = j") (auto simp: link_at_def upd_link_def stays_def split: if_splits)
next
  case (EHello j)
  with assms show ?thesis
    by (cases "i = j") (auto simp: begin_session_def link_at_def upd_link_def stays_def split: if_splits)
next
  case (ELeaves j)
  with assms show ?thesis by (cases "i = j") (auto simp: link_at_def upd_link_def split: if_splits)
next
  case (EReadFails j)
  with assms show ?thesis by (cases "i = j") (auto simp: link_at_def upd_link_def stays_def split: if_splits)
next
  case (EWriterEnds j)
  with assms show ?thesis
    by (cases "i = j") (auto simp: writer_ends_def link_at_def upd_link_def stays_def split: if_splits)
qed (use assms in \<open>auto split: if_splits\<close>)

lemma stays_run:
  "life_run es s = Some t \<Longrightarrow> link_at i stays s \<Longrightarrow> ELeaves i \<notin> set es \<Longrightarrow> link_at i stays t"
proof (induction es arbitrary: s)
  case (Cons e es)
  then obtain s' where s': "life_do e s = Some s'" "life_run es s' = Some t" by (auto split: option.splits)
  with Cons.prems stays_step [OF Cons.prems(2) s'(1)] show ?case by (intro Cons.IH [OF s'(2)]) auto
qed simp

text \<open>
  C3. A connected client keeps a stopped server from ending: as long as the client does not leave, no
  order of the other steps lets \<open>Start\<close> return without an error, whenever the stop was requested.
\<close>

theorem client_blocks_stop:
  assumes "life_run es fresh_server = Some s" "life_run es' s = Some t"
    and "link_at i stays s" "ELeaves i \<notin> set es'"
  shows "lc_pc t \<noteq> Returned None"
proof
  assume r: "lc_pc t = Returned None"
  have "life_inv t" using assms(1,2) by (blast intro: life_run_inv fresh_inv)
  with r have "list_all (\<lambda>l. lk_writer l \<longrightarrow> lk_late l) (lc_links t)" by (simp add: life_inv_def late_only_def)
  moreover have "link_at i stays t" by (rule stays_run [OF assms(2-4)])
  ultimately show False using list_all_at [of _ "lc_links t" i] by (auto simp: link_at_def stays_def)
qed

section \<open>Completion\<close>

text \<open>The steps that the server can take by itself, and what is left for it to do.\<close>

fun server_event :: "life_event \<Rightarrow> bool" where
  "server_event e \<longleftrightarrow> (case e of
     EShutdownStep \<Rightarrow> True | EStreamEnds \<Rightarrow> True | EDialerEnds \<Rightarrow> True | ECheck _ \<Rightarrow> True | ERefused _ \<Rightarrow> True
   | EHello _ \<Rightarrow> True | EReadFails _ \<Rightarrow> True | EWriterEnds _ \<Rightarrow> True | _ \<Rightarrow> False)"

fun link_work :: "link \<Rightarrow> nat" where
  "link_work l =
     (case lk_pc l of Arrived \<Rightarrow> 4 | Admitted \<Rightarrow> 3 | InSession \<Rightarrow> 1 | Over \<Rightarrow> 0) + of_bool (lk_writer l)"

definition work :: "lifecycle \<Rightarrow> nat" where
  "work s = (7 - rank (lc_pc s)) + of_bool (lc_stream s) + of_bool (lc_dialer s) + total link_work s"

definition all_left :: "lifecycle \<Rightarrow> bool" where
  "all_left s \<longleftrightarrow> 1 \<le> rank (lc_pc s) \<and> list_all (\<lambda>l. \<not> lk_open l) (lc_links s)"

lemma upd_link_work:
  assumes "link_at i P s" "\<And>l. P l \<Longrightarrow> link_ok l \<Longrightarrow> link_work (f l) < link_work l" "life_inv s"
  shows "total link_work (upd_link i f s) < total link_work s"
proof -
  have i: "i < length (lc_links s)" "P (lc_links s ! i)" using assms(1) by (simp_all add: link_at_def)
  with assms(3) have "link_ok (lc_links s ! i)" by (simp add: life_inv_def list_all_at)
  from total_upd_link [OF i(1), of link_work f] assms(2) [OF i(2) this] show ?thesis by linarith
qed

lemma work_upd_link: "total link_work (upd_link i f s) < total link_work s \<Longrightarrow> work (upd_link i f s) < work s"
  by (simp add: work_def) (simp add: upd_link_def)

lemma all_left_upd: "all_left s \<Longrightarrow> (\<And>l. lk_open (f l) = lk_open l) \<Longrightarrow> all_left (upd_link i f s)"
  by (cases "i < length (lc_links s)")
    (auto simp: all_left_def upd_link_def list_all_length nth_list_update)

lemma link_event_works:
  assumes "life_inv s" "all_left s" "life_do e s = Some t"
    and "e = ECheck i \<or> e = ERefused i \<or> e = EHello i \<or> e = EReadFails i \<or> e = EWriterEnds i"
  shows "work t < work s \<and> all_left t"
  using assms(4)
proof (elim disjE)
  assume "e = ECheck i"
  with assms(3) have t: "link_at i (\<lambda>l. lk_pc l = Arrived) s" "t = check_shutdown i s" by (simp_all split: if_splits)
  show ?thesis
    unfolding t(2) check_shutdown_def using assms(1,2)
    by (intro conjI work_upd_link upd_link_work [OF t(1)] all_left_upd) auto
next
  assume "e = ERefused i"
  with assms(3) have t: "link_at i (\<lambda>l. lk_pc l = Admitted) s" "t = upd_link i (\<lambda>l. l\<lparr>lk_pc := Over\<rparr>) s"
    by (simp_all split: if_splits)
  show ?thesis
    unfolding t(2) using assms(1,2) by (intro conjI work_upd_link upd_link_work [OF t(1)] all_left_upd) auto
next
  assume "e = EHello i"
  with assms(3) have t: "link_at i (\<lambda>l. lk_pc l = Admitted) s" "t = begin_session i s" by (simp_all split: if_splits)
  define u where "u = upd_link i (\<lambda>l. l\<lparr>lk_pc := InSession, lk_writer := True, lk_late := (lc_pc s = Returned None)\<rparr>) s"
  have "work u < work s \<and> all_left u"
    unfolding u_def using assms(1,2)
    by (intro conjI work_upd_link upd_link_work [OF t(1)] all_left_upd) (auto simp: link_ok_def)
  then show ?thesis by (simp add: t(2) begin_session_def u_def [symmetric] work_def all_left_def)
next
  assume "e = EReadFails i"
  with assms(3) have t: "link_at i (\<lambda>l. lk_pc l = InSession \<and> \<not> lk_open l) s"
      "t = upd_link i (\<lambda>l. l\<lparr>lk_pc := Over, lk_done := True\<rparr>) s" by (simp_all split: if_splits)
  show ?thesis
    unfolding t(2) using assms(1,2) by (intro conjI work_upd_link upd_link_work [OF t(1)] all_left_upd) auto
next
  assume "e = EWriterEnds i"
  with assms(3) have t: "link_at i (\<lambda>l. lk_writer l \<and> (lk_done l \<or> \<not> lk_open l)) s" "t = writer_ends i s"
    by (simp_all split: if_splits)
  define u where "u = upd_link i (\<lambda>l. l\<lparr>lk_writer := False\<rparr>) s"
  have "work u < work s \<and> all_left u"
    unfolding u_def using assms(1,2) by (intro conjI work_upd_link upd_link_work [OF t(1)] all_left_upd) auto
  then show ?thesis by (simp add: t(2) writer_ends_def u_def [symmetric] work_def all_left_def)
qed

lemma shutdown_step_works:
  "all_left s \<Longrightarrow> shutdown_step s = Some t \<Longrightarrow> work t < work s \<and> all_left t"
  by (cases "lc_pc s") (auto simp: all_left_def work_def split: if_splits)

lemma server_event_works:
  assumes "life_inv s" "all_left s" "server_event e" "life_do e s = Some t"
  shows "work t < work s \<and> all_left t"
proof (cases e)
  case EShutdownStep
  with assms show ?thesis by (simp add: shutdown_step_works del: shutdown_step.simps)
next
  case EStreamEnds
  with assms(2,4) show ?thesis by (clarsimp simp: work_def all_left_def split: if_splits)
next
  case EDialerEnds
  with assms(2,4) show ?thesis by (clarsimp simp: work_def all_left_def split: if_splits)
qed (use link_event_works [OF assms(1,2,4)] assms(3) in auto)

lemma idle_link:
  assumes "life_inv s" "all_left s" "i < length (lc_links s)" "\<nexists>e. server_event e \<and> life_do e s \<noteq> None"
  shows "lk_pc (lc_links s ! i) = Over \<and> \<not> lk_writer (lc_links s ! i)"
proof -
  have left: "\<not> lk_open (lc_links s ! i)" using assms(2,3) by (simp add: all_left_def list_all_length)
  have "life_do (ECheck i) s = None" "life_do (ERefused i) s = None" "life_do (EReadFails i) s = None"
      "life_do (EWriterEnds i) s = None"
    using assms(4) server_event.simps [of "ECheck i"] server_event.simps [of "ERefused i"]
      server_event.simps [of "EReadFails i"] server_event.simps [of "EWriterEnds i"]
    by (metis life_event.simps)+
  with left assms(3) show ?thesis
    by (cases "lk_pc (lc_links s ! i)") (simp_all add: link_at_def split: if_splits)
qed

lemma rank_Returned: "Suc 0 \<le> rank (Returned r) \<longleftrightarrow> r = None"
  by (cases r) simp_all

lemma idle_returned:
  assumes "life_inv s" "all_left s" "\<nexists>e. server_event e \<and> life_do e s \<noteq> None"
  shows "lc_pc s = Returned None"
proof -
  have over: "list_all (\<lambda>l. lk_pc l = Over \<and> \<not> lk_writer l) (lc_links s)"
    using idle_link [OF assms(1,2) _ assms(3)] by (simp add: list_all_length)
  then have writers: "writers s = 0" unfolding no_writers by (simp add: list_all_iff)
  have none: "life_do EStreamEnds s = None" "life_do EDialerEnds s = None" "shutdown_step s = None"
    using assms(3) server_event.simps [of EStreamEnds] server_event.simps [of EDialerEnds]
      server_event.simps [of EShutdownStep] by (metis life_do.simps life_event.simps)+
  have st: "staged s" "counted s" using assms(1) by (simp_all add: life_inv_def)
  have stream: "\<not> lc_stream s" using none(1) assms(2) st(1) by (auto simp: all_left_def staged_def split: if_splits)
  have pc: "lc_pc s = Waiting \<or> lc_pc s = Returned None"
    using none(3) assms(2) by (cases "lc_pc s") (auto simp: all_left_def rank_Returned)
  then have "lc_dialerCancel s" using st(1) by (auto simp: staged_def)
  then have "\<not> lc_dialer s" using none(2) over by (auto simp: list_all_iff split: if_splits)
  with stream writers st(2) have "lc_wg s = 0" by (simp add: counted_def)
  with pc none(3) show ?thesis by auto
qed

lemma server_run_bounded:
  "life_run es s = Some t \<Longrightarrow> life_inv s \<Longrightarrow> all_left s \<Longrightarrow> list_all server_event es \<Longrightarrow>
   length es + work t \<le> work s \<and> all_left t"
proof (induction es arbitrary: s)
  case (Cons e es)
  then obtain s' where s': "life_do e s = Some s'" "life_run es s' = Some t" by (auto split: option.splits)
  from server_event_works [OF Cons.prems(2,3) _ s'(1)] Cons.prems(4)
  have w: "work s' < work s" "all_left s'" by auto
  with Cons.IH [OF s'(2) life_do_inv [OF Cons.prems(2) s'(1)] w(2)] Cons.prems(4) show ?case by auto
qed simp

text \<open>
  C8. Once a stop has been seen and all clients have left, the shutdown ends: every sequence of steps of
  the server is at most as long as the work that is left, and where no further step is possible \<open>Start\<close>
  has returned without an error.
\<close>

theorem stop_completes:
  assumes "life_run es fresh_server = Some s" "all_left s"
    and "life_run es' s = Some t" "list_all server_event es'"
  shows "length es' \<le> work s \<and>
    ((\<exists>e. server_event e \<and> life_do e t \<noteq> None) \<or> lc_pc t = Returned None)"
proof -
  have inv: "life_inv s" by (rule life_run_inv [OF fresh_inv assms(1)])
  from server_run_bounded [OF assms(3) inv assms(2,4)] idle_returned [OF life_run_inv [OF inv assms(3)]]
  show ?thesis by (metis le_add1 order_trans)
qed

text \<open>A port that is taken: \<open>Start\<close> returns, the audio stream runs on and the source stays open.\<close>

lemma listen_failure_leaks:
  "life_run [EStart m d, EListenFails err] fresh_server = Some s \<Longrightarrow>
   lc_pc s = Returned (Some err) \<and> lc_stream s \<and> lc_source_closed s = 0 \<and> lc_wg s = (if d then 2 else 1) \<and>
   lc_mdns s = (m \<or> d)"
  by (auto simp: fresh_server_def begin_start_def)

text \<open>The program waits with it: after a signal it ends only when \<open>Start\<close> has returned.\<close>

lemma main_waits:
  "main_step asked (AwaitStart, s) = Some (pc, t) \<Longrightarrow> \<exists>r. lc_pc s = Returned r"
  "(\<forall>e. lc_pc s \<noteq> Returned (Some e)) \<Longrightarrow> lc_pc s \<noteq> Returned None \<Longrightarrow> main_step asked (AwaitStart, s) = None"
  by (auto split: start_pc.splits)

definition one_client :: "life_event list" where
  "one_client = [EStart True True, EListening, EAccept, ECheck 0, EHello 0]"

definition stopping :: "life_event list" where
  "stopping = [EStop, EShutdownStep, EShutdownStep, EShutdownStep, EShutdownStep, EShutdownStep, EShutdownStep,
     EStreamEnds, EDialerEnds]"

theorem start_returns_clean_witness:
  "\<exists>s. life_run (one_client @ stopping @ [ELeaves 0, EReadFails 0, EWriterEnds 0, EShutdownStep]) fresh_server =
     Some s \<and> lc_source_closed s = 1 \<and> lc_wg s = writers s"
proof -
  obtain s where s: "life_run (one_client @ stopping @ [ELeaves 0, EReadFails 0, EWriterEnds 0, EShutdownStep])
      fresh_server = Some s" "lc_pc s = Returned None"
    by (simp add: one_client_def stopping_def fresh_server_def begin_start_def check_shutdown_def
        begin_session_def upd_link_def new_link_def link_at_def lc_Stop_def writer_ends_def)
  from start_returns_clean [OF this] s(1) show ?thesis by blast
qed

theorem client_blocks_stop_witness:
  "\<exists>s t. life_run one_client fresh_server = Some s \<and> life_run stopping s = Some t \<and> lc_wg t = 1 \<and>
     lc_pc t \<noteq> Returned None"
proof -
  obtain s where s: "life_run one_client fresh_server = Some s" "link_at 0 stays s"
      "\<exists>t. life_run stopping s = Some t \<and> lc_wg t = 1"
    by (simp add: one_client_def stopping_def fresh_server_def begin_start_def check_shutdown_def
        begin_session_def upd_link_def new_link_def link_at_def lc_Stop_def stays_def)
  then obtain t where t: "life_run stopping s = Some t" "lc_wg t = 1" by blast
  have "ELeaves 0 \<notin> set stopping" by (simp add: stopping_def)
  from client_blocks_stop [OF s(1) t(1) s(2) this] s(1) t show ?thesis by blast
qed

theorem stop_completes_witness:
  "\<exists>s. life_run (one_client @ [EStop, EShutdownStep, ELeaves 0]) fresh_server = Some s \<and>
     ((\<exists>e. server_event e \<and> life_do e s \<noteq> None) \<or> lc_pc s = Returned None)"
proof -
  obtain s where s: "life_run (one_client @ [EStop, EShutdownStep, ELeaves 0]) fresh_server = Some s" "all_left s"
    by (simp add: one_client_def fresh_server_def begin_start_def check_shutdown_def
        begin_session_def upd_link_def new_link_def link_at_def lc_Stop_def all_left_def)
  have "life_run [] s = Some s" "list_all server_event []" by simp_all
  from stop_completes [OF s this] s(1) show ?thesis by blast
qed

end
