(* ===== verification/Connection_Writer.thy ===== *)
theory Connection_Writer
  imports Server_Client
begin

text \<open>
  The typed connections of the server side: \<open>ServerConn\<close> of \<open>pkg/protocol/server_conn.go\<close>, and the
  writer goroutine that it shares, statement for statement, with \<open>Server.clientWriter\<close> and
  \<open>ServerClient.runWriter\<close>: messages, pings, write errors and the end of the connection.
\<close>

section \<open>The connection\<close>

datatype 'p conn_msg = TypedMessage string 'p | RawFrame "byte list"

datatype wire = TextFrame json | BinaryFrame "byte list" | Ping

text \<open>
  \<open>co_accepted\<close> and \<open>co_wire\<close> are history: the messages that \<open>Send\<close> and \<open>SendBinary\<close> accepted, and what
  was written. \<open>co_writer\<close> tells whether the goroutine runs.
\<close>

record 'p ServerConn =
  co_id :: string
  co_name :: string
  co_sendChan :: "'p conn_msg chan"
  co_done :: bool
  co_writer :: bool
  co_accepted :: "'p conn_msg list"
  co_wire :: "wire list"

definition NewServerConn :: "string \<Rightarrow> string \<Rightarrow> 'p ServerConn" where
  "NewServerConn i name =
     \<lparr>co_id = i, co_name = name, co_sendChan = make_chan 100, co_done = False, co_writer = True,
      co_accepted = [], co_wire = []\<rparr>"

text \<open>\<open>None\<close> is the error of a full buffer.\<close>

definition conn_enqueue :: "'p conn_msg \<Rightarrow> 'p ServerConn \<Rightarrow> 'p ServerConn option" where
  "conn_enqueue m c =
     map_option (\<lambda>ch. c\<lparr>co_sendChan := ch, co_accepted := co_accepted c @ [m]\<rparr>) (chan_offer m (co_sendChan c))"

definition conn_Send :: "string \<Rightarrow> 'p \<Rightarrow> 'p ServerConn \<Rightarrow> 'p ServerConn option" where
  "conn_Send msgType payload c = conn_enqueue (TypedMessage msgType payload) c"

definition conn_SendBinary :: "byte list \<Rightarrow> 'p ServerConn \<Rightarrow> 'p ServerConn option" where
  "conn_SendBinary data c = conn_enqueue (RawFrame data) c"

definition conn_Close :: "'p ServerConn \<Rightarrow> 'p ServerConn" where
  "conn_Close c = (if co_done c then c else c\<lparr>co_done := True\<rparr>)"

text \<open>What the writer makes of a message; \<open>marshal\<close> is \<open>json.Marshal\<close> on the envelope, which can fail.\<close>

definition wire_of :: "(string \<Rightarrow> 'p \<Rightarrow> json option) \<Rightarrow> 'p conn_msg \<Rightarrow> wire option" where
  "wire_of marshal m =
     (case m of RawFrame data \<Rightarrow> Some (BinaryFrame data)
      | TypedMessage t p \<Rightarrow> map_option TextFrame (marshal t p))"

section \<open>The writer\<close>

text \<open>One iteration of the loop: what \<open>select\<close> finds ready, and whether the write succeeds.\<close>

datatype writer_choice = TakeMessage bool | TickerFires bool | SeesDone

definition writer_iteration ::
  "(string \<Rightarrow> 'p \<Rightarrow> json option) \<Rightarrow> writer_choice \<Rightarrow> 'p ServerConn \<Rightarrow> 'p ServerConn option" where
  "writer_iteration marshal choice c =
     (if \<not> co_writer c then None
      else case choice of
        TakeMessage ok \<Rightarrow>
          (case chan_take (co_sendChan c) of
             None \<Rightarrow> None
           | Some (m, ch) \<Rightarrow>
               let c = c\<lparr>co_sendChan := ch\<rparr> in
               case wire_of marshal m of
                 None \<Rightarrow> Some c
               | Some w \<Rightarrow> Some (if ok then c\<lparr>co_wire := co_wire c @ [w]\<rparr> else c\<lparr>co_writer := False\<rparr>))
      | TickerFires ok \<Rightarrow> Some (if ok then c\<lparr>co_wire := co_wire c @ [Ping]\<rparr> else c\<lparr>co_writer := False\<rparr>)
      | SeesDone \<Rightarrow> if co_done c then Some (c\<lparr>co_writer := False\<rparr>) else None)"

inductive conn_step :: "(string \<Rightarrow> 'p \<Rightarrow> json option) \<Rightarrow> 'p ServerConn \<Rightarrow> 'p ServerConn \<Rightarrow> bool"
  for marshal :: "string \<Rightarrow> 'p \<Rightarrow> json option" where
  send: "conn_Send t p c = Some c' \<Longrightarrow> conn_step marshal c c'"
| send_binary: "conn_SendBinary data c = Some c' \<Longrightarrow> conn_step marshal c c'"
| close: "conn_step marshal c (conn_Close c)"
| writer: "writer_iteration marshal choice c = Some c' \<Longrightarrow> conn_step marshal c c'"

inductive_cases conn_stepE: "conn_step marshal c c'"

text \<open>The other two writers, which differ in the owner of the connection only.\<close>

definition runWriter ::
  "(string \<Rightarrow> 'p \<Rightarrow> json option) \<Rightarrow> writer_choice \<Rightarrow> 'p ServerConn \<Rightarrow> 'p ServerConn option" where
  "runWriter = writer_iteration"

definition clientWriter ::
  "(string \<Rightarrow> 'p \<Rightarrow> json option) \<Rightarrow> writer_choice \<Rightarrow> 'p ServerConn \<Rightarrow> 'p ServerConn option" where
  "clientWriter = writer_iteration"

section \<open>What reaches the wire\<close>

definition conn_messages :: "'p ServerConn \<Rightarrow> wire list" where
  "conn_messages c = filter (\<lambda>w. w \<noteq> Ping) (co_wire c)"

text \<open>\<open>taken\<close> were taken from the queue; the last of them is lost when its write failed.\<close>

definition conn_inv :: "(string \<Rightarrow> 'p \<Rightarrow> json option) \<Rightarrow> 'p ServerConn \<Rightarrow> bool" where
  "conn_inv marshal c \<longleftrightarrow> chan_cap (co_sendChan c) = 100 \<and> chan_wf (co_sendChan c) \<and>
     (\<exists>taken. co_accepted c = taken @ chan_buf (co_sendChan c) \<and>
        (conn_messages c = List.map_filter (wire_of marshal) taken \<or>
         \<not> co_writer c \<and> conn_messages c = List.map_filter (wire_of marshal) (butlast taken)))"

lemma wire_of_not_Ping: "wire_of marshal m = Some w \<Longrightarrow> w \<noteq> Ping"
  by (auto simp: wire_of_def split: conn_msg.splits)

lemma map_filter_snoc: "List.map_filter f (xs @ [x]) = List.map_filter f xs @ (case f x of None \<Rightarrow> [] | Some y \<Rightarrow> [y])"
  by (simp add: map_filter_def split: option.split)

lemma NewServerConn_inv: "conn_inv marshal (NewServerConn i name)"
  by (simp add: conn_inv_def NewServerConn_def conn_messages_def map_filter_def)

lemma conn_enqueue_inv:
  assumes "conn_enqueue m c = Some c'" "conn_inv marshal c"
  shows "conn_inv marshal c'"
proof -
  have c': "chan_room (co_sendChan c)"
      "c' = c\<lparr>co_sendChan := chan_put m (co_sendChan c), co_accepted := co_accepted c @ [m]\<rparr>"
    using assms(1) by (auto simp: conn_enqueue_def chan_offer_Some)
  moreover have "chan_wf (chan_put m (co_sendChan c))"
    using c'(1) assms(2) by (simp add: chan_wf_def chan_room_def chan_put_def)
  ultimately show ?thesis
    using assms(2) by (auto simp: conn_inv_def conn_messages_def chan_put_def)
qed

lemma writer_takes:
  assumes "conn_inv marshal c" "co_writer c" "chan_take (co_sendChan c) = Some (m, ch)"
  shows "\<exists>taken. co_accepted c = (taken @ [m]) @ chan_buf ch \<and> chan_wf ch \<and> chan_cap ch = 100 \<and>
    conn_messages c = List.map_filter (wire_of marshal) taken"
  using assms by (auto simp: conn_inv_def chan_take_def chan_wf_def split: list.splits)

lemma writer_iteration_inv:
  assumes "writer_iteration marshal choice c = Some c'" "conn_inv marshal c"
  shows "conn_inv marshal c'"
proof -
  have w: "co_writer c" using assms(1) by (auto simp: writer_iteration_def split: if_splits)
  show ?thesis
  proof (cases choice)
    case (TakeMessage ok)
    with assms(1) w obtain m ch where m: "chan_take (co_sendChan c) = Some (m, ch)"
      by (auto simp: writer_iteration_def split: option.splits)
    from writer_takes [OF assms(2) w m] obtain taken where taken:
      "co_accepted c = (taken @ [m]) @ chan_buf ch" "chan_wf ch" "chan_cap ch = 100"
      "conn_messages c = List.map_filter (wire_of marshal) taken" by blast
    show ?thesis
    proof (cases "wire_of marshal m")
      case None
      with assms(1) w m TakeMessage have "c' = c\<lparr>co_sendChan := ch\<rparr>" by (simp add: writer_iteration_def)
      with taken None show ?thesis
        by (auto simp: conn_inv_def conn_messages_def map_filter_snoc intro!: exI [of _ "taken @ [m]"])
    next
      case (Some x)
      with assms(1) w m TakeMessage have "c' = (if ok then c\<lparr>co_sendChan := ch, co_wire := co_wire c @ [x]\<rparr>
          else c\<lparr>co_sendChan := ch, co_writer := False\<rparr>)" by (auto simp: writer_iteration_def Let_def)
      with taken Some wire_of_not_Ping [OF Some] show ?thesis
        by (auto simp: conn_inv_def conn_messages_def map_filter_snoc intro!: exI [of _ "taken @ [m]"])
    qed
  next
    case (TickerFires ok)
    with assms w show ?thesis
      by (auto simp: writer_iteration_def conn_inv_def conn_messages_def split: if_splits)
  next
    case SeesDone
    with assms w show ?thesis
      by (auto simp: writer_iteration_def conn_inv_def conn_messages_def split: if_splits)
  qed
qed

lemma conn_step_inv: "conn_step marshal c c' \<Longrightarrow> conn_inv marshal c \<Longrightarrow> conn_inv marshal c'"
proof (induction rule: conn_step.induct)
  case (close c)
  then show ?case by (auto simp: conn_Close_def conn_inv_def conn_messages_def)
qed (auto simp: conn_Send_def conn_SendBinary_def intro: conn_enqueue_inv writer_iteration_inv)

interpretation conn: step_invariant "conn_step marshal" "conn_inv marshal"
  for marshal :: "string \<Rightarrow> 'p \<Rightarrow> json option"
  by unfold_locales (rule conn_step_inv)

lemmas conn_run_inv = conn.run [OF _ NewServerConn_inv]

definition silent :: "wire list \<Rightarrow> 'p ServerConn \<Rightarrow> bool" where
  "silent ws c \<longleftrightarrow> \<not> co_writer c \<and> co_wire c = ws"

interpretation ended: step_invariant "conn_step marshal" "silent ws"
  for marshal :: "string \<Rightarrow> 'p \<Rightarrow> json option" and ws
  by unfold_locales
    (erule conn_stepE; auto simp: silent_def conn_Send_def conn_SendBinary_def conn_enqueue_def conn_Close_def
      writer_iteration_def)

text \<open>
  C12. In every run the wire carries the accepted messages in the order of their acceptance, without those
  that cannot be marshalled, up to the one whose write failed; at most a hundred wait. Once the
  writer has ended nothing more is written, however much is still accepted.
\<close>

theorem conn_writes_in_order:
  assumes "(conn_step marshal)\<^sup>*\<^sup>* (NewServerConn i name) c" "(conn_step marshal)\<^sup>*\<^sup>* c c'"
  shows "(\<exists>taken. co_accepted c = taken @ chan_buf (co_sendChan c) \<and> length (chan_buf (co_sendChan c)) \<le> 100 \<and>
      (conn_messages c = List.map_filter (wire_of marshal) taken \<or>
       \<not> co_writer c \<and> conn_messages c = List.map_filter (wire_of marshal) (butlast taken))) \<and>
    (co_writer c \<or> co_wire c' = co_wire c)"
  using conn_run_inv [OF assms(1)] ended.run [OF assms(2), of "co_wire c"]
  by (auto simp: conn_inv_def chan_wf_def silent_def)
text \<open>After the end of the writer at most a hundred more messages are accepted, and none is delivered.\<close>

lemma chan_offer_full: "chan_wf c \<Longrightarrow> chan_offer x c = None \<longleftrightarrow> length (chan_buf c) = chan_cap c"
  by (auto simp: chan_offer_def chan_room_def chan_wf_def)

lemma ended_writer_fills:
  assumes "(conn_step marshal)\<^sup>*\<^sup>* (NewServerConn i name) c" "length (chan_buf (co_sendChan c)) = 100"
  shows "conn_Send t p c = None" "conn_SendBinary data c = None"
  using conn_run_inv [OF assms(1)] assms(2)
  by (simp_all add: conn_Send_def conn_SendBinary_def conn_enqueue_def conn_inv_def chan_offer_full)

theorem conn_writes_in_order_witness:
  "\<exists>c. co_wire c = [TextFrame JNull, Ping] \<and> \<not> co_writer c \<and>
     (\<exists>taken. co_accepted c = taken @ chan_buf (co_sendChan c)) \<and>
     (conn_step (\<lambda>_ (p :: bool). if p then Some JNull else None))\<^sup>*\<^sup>* (NewServerConn ''a'' ''A'') c"
proof -
  define marshal :: "string \<Rightarrow> bool \<Rightarrow> json option" where "marshal = (\<lambda>_ p. if p then Some JNull else None)"
  define c0 :: "bool ServerConn" where "c0 = NewServerConn ''a'' ''A''"
  define ms where "ms = [TypedMessage ''x'' False, TypedMessage ''y'' True]"
  define c1 where "c1 = c0\<lparr>co_sendChan := (make_chan 100)\<lparr>chan_buf := take 1 ms\<rparr>, co_accepted := take 1 ms\<rparr>"
  define c2 where "c2 = c0\<lparr>co_sendChan := (make_chan 100)\<lparr>chan_buf := ms\<rparr>, co_accepted := ms\<rparr>"
  define c3 where "c3 = c2\<lparr>co_sendChan := (make_chan 100)\<lparr>chan_buf := drop 1 ms\<rparr>\<rparr>"
  define c4 where "c4 = c3\<lparr>co_sendChan := make_chan 100, co_wire := [TextFrame JNull]\<rparr>"
  define c5 where "c5 = c4\<lparr>co_wire := [TextFrame JNull, Ping]\<rparr>"
  define c6 where "c6 = c5\<lparr>co_done := True\<rparr>"
  define c7 where "c7 = c6\<lparr>co_writer := False\<rparr>"
  note defs = c0_def c1_def c2_def c3_def c4_def c5_def c6_def c7_def ms_def NewServerConn_def make_chan_def
  have "conn_step marshal c0 c1"
    by (rule conn_step.send [of "''x''" False])
      (simp add: defs conn_Send_def conn_enqueue_def chan_offer_def chan_room_def chan_put_def)
  moreover have "conn_step marshal c1 c2"
    by (rule conn_step.send [of "''y''" True])
      (simp add: defs conn_Send_def conn_enqueue_def chan_offer_def chan_room_def chan_put_def)
  moreover have "conn_step marshal c2 c3"
    by (rule conn_step.writer [of _ "TakeMessage True"])
      (simp add: defs writer_iteration_def chan_take_def wire_of_def marshal_def)
  moreover have "conn_step marshal c3 c4"
    by (rule conn_step.writer [of _ "TakeMessage True"])
      (simp add: defs writer_iteration_def chan_take_def wire_of_def marshal_def)
  moreover have "conn_step marshal c4 c5"
    by (rule conn_step.writer [of _ "TickerFires True"]) (simp add: defs writer_iteration_def)
  moreover have "conn_step marshal c5 c6"
    using conn_step.close [of marshal c5] by (simp add: defs conn_Close_def)
  moreover have "conn_step marshal c6 c7"
    by (rule conn_step.writer [of _ SeesDone]) (simp add: defs writer_iteration_def)
  ultimately have run: "(conn_step marshal)\<^sup>*\<^sup>* c0 c7"
    by (meson converse_rtranclp_into_rtranclp rtranclp.rtrancl_refl)
  from conn_writes_in_order [OF run [unfolded c0_def] rtranclp.rtrancl_refl]
  have "\<exists>taken. co_accepted c7 = taken @ chan_buf (co_sendChan c7)" by blast
  moreover have "co_wire c7 = [TextFrame JNull, Ping]" "\<not> co_writer c7" by (simp_all add: defs)
  ultimately show ?thesis using run unfolding marshal_def c0_def by blast
qed

end
