(* ===== verification/Legacy_Messages.thy ===== *)
theory Legacy_Messages
  imports Messages
begin

text \<open>
  The message types that \<open>pkg/protocol/messages.go\<close> keeps for older peers. The program itself does not
  exchange them; their JSON form is modelled as for the current types, with numbers of
  \<open>playback_speed\<close> as the rationals that a \<open>float64\<close> holds.
\<close>

section \<open>The types\<close>

record MetadataSupport =
  ms_SupportPictureFormats :: "string list"
  ms_MediaWidth :: int
  ms_MediaHeight :: int

record StreamMetadata =
  sm_StreamTitle :: string
  sm_StreamArtist :: string
  sm_StreamAlbum :: string
  sm_StreamArtworkURL :: string

record SessionMetadata =
  se_Title :: string
  se_Artist :: string
  se_Album :: string
  se_AlbumArtist :: string
  se_ArtworkURL :: string
  se_Track :: int
  se_TrackDuration :: int
  se_Year :: int
  se_PlaybackSpeed :: rat
  se_Repeat :: string
  se_Shuffle :: bool
  se_Timestamp :: int

record SessionUpdate =
  su_GroupID :: string
  su_PlaybackState :: string
  su_Metadata :: "SessionMetadata option"

record ClientState =
  cl_State :: string
  cl_Volume :: int
  cl_Muted :: bool

record ServerCommand =
  cm_Command :: string
  cm_Volume :: int
  cm_Mute :: bool

record PlayerSupport =
  pu_SupportedFormats :: "AudioFormat list"
  pu_BufferCapacity :: int
  pu_SupportedCommands :: "string list"

type_synonym VisualizerSupport = VisualizerV1Support

type_synonym ArtworkSupport = ArtworkV1Support

section \<open>Encoding\<close>

definition omit_rat :: "string \<Rightarrow> rat \<Rightarrow> (string \<times> json) list" where
  "omit_rat k r = (if r = 0 then [] else [(k, JNum r)])"

text \<open>A nil slice is \<open>null\<close>; here lists stand for slices that are not nil.\<close>

definition enc_MetadataSupport :: "MetadataSupport \<Rightarrow> json" where
  "enc_MetadataSupport m =
     JObj ((''support_picture_formats'', JArr (map JStr (ms_SupportPictureFormats m))) #
           omit_int ''media_width'' (ms_MediaWidth m) @ omit_int ''media_height'' (ms_MediaHeight m))"

definition enc_StreamMetadata :: "StreamMetadata \<Rightarrow> json" where
  "enc_StreamMetadata m =
     JObj (omit_string ''title'' (sm_StreamTitle m) @ omit_string ''artist'' (sm_StreamArtist m)
           @ omit_string ''album'' (sm_StreamAlbum m) @ omit_string ''artwork_url'' (sm_StreamArtworkURL m))"

definition enc_SessionMetadata :: "SessionMetadata \<Rightarrow> json" where
  "enc_SessionMetadata m =
     JObj (omit_string ''title'' (se_Title m) @ omit_string ''artist'' (se_Artist m)
           @ omit_string ''album'' (se_Album m) @ omit_string ''album_artist'' (se_AlbumArtist m)
           @ omit_string ''artwork_url'' (se_ArtworkURL m) @ omit_int ''track'' (se_Track m)
           @ omit_int ''track_duration'' (se_TrackDuration m) @ omit_int ''year'' (se_Year m)
           @ omit_rat ''playback_speed'' (se_PlaybackSpeed m) @ omit_string ''repeat'' (se_Repeat m)
           @ omit_bool ''shuffle'' (se_Shuffle m) @ omit_int ''timestamp'' (se_Timestamp m))"

definition enc_SessionUpdate :: "SessionUpdate \<Rightarrow> json" where
  "enc_SessionUpdate u =
     JObj ((''group_id'', JStr (su_GroupID u)) # omit_string ''playback_state'' (su_PlaybackState u)
           @ enc_opt ''metadata'' enc_SessionMetadata (su_Metadata u))"

definition enc_ClientState :: "ClientState \<Rightarrow> json" where
  "enc_ClientState c =
     JObj [(''state'', JStr (cl_State c)), (''volume'', enc_int (cl_Volume c)), (''muted'', JBool (cl_Muted c))]"

definition enc_ServerCommand :: "ServerCommand \<Rightarrow> json" where
  "enc_ServerCommand c =
     JObj ((''command'', JStr (cm_Command c)) # omit_int ''volume'' (cm_Volume c) @ omit_bool ''mute'' (cm_Mute c))"

definition enc_PlayerSupport :: "PlayerSupport \<Rightarrow> json" where
  "enc_PlayerSupport p =
     JObj ((if pu_SupportedFormats p = [] then []
            else [(''supported_formats'', JArr (map enc_AudioFormat (pu_SupportedFormats p)))])
           @ omit_int ''buffer_capacity'' (pu_BufferCapacity p)
           @ omit_strings ''supported_commands'' (pu_SupportedCommands p))"

section \<open>Flat messages read as the current ones\<close>

text \<open>
  A flat command is read as the payload of the current command, and a flat state as the player's
  state, but not at the top level of a \<open>client/state\<close> or \<open>server/command\<close>, where it carries nothing.
\<close>

lemma flat_command_read:
  "is_int64 (cm_Volume c) \<Longrightarrow> dec_PlayerCommand (enc_ServerCommand c) =
     Some \<lparr>pc_Command = cm_Command c, pc_Volume = cm_Volume c, pc_Mute = cm_Mute c\<rparr>"
  by (simp add: dec_PlayerCommand_def enc_ServerCommand_def json_eval)

lemma flat_state_read:
  "is_int64 (cl_Volume c) \<Longrightarrow> dec_PlayerState (enc_ClientState c) =
     Some \<lparr>pst_State = cl_State c, pst_Volume = cl_Volume c, pst_Muted = cl_Muted c\<rparr>"
  by (simp add: dec_PlayerState_def enc_ClientState_def json_eval)

lemma flat_messages_ignored:
  "dec_ClientStateMessage (enc_ClientState c) = Some None"
  "dec_ServerCommandMessage (enc_ServerCommand d) = Some None"
  by (simp_all add: dec_ClientStateMessage_def dec_ServerCommandMessage_def enc_ClientState_def
      enc_ServerCommand_def json_eval)

end
