(* ===== verification/Tui_Render.thy ===== *)
theory Tui_Render
  imports Player_Tui
begin

text \<open>
  The views of the player's terminal interface: \<open>View\<close> and its parts in \<open>internal/ui/model.go\<close>, the
  device picker of \<open>internal/ui/device_picker.go\<close>, and the labels of \<open>internal/ui/hotkey.go\<close>. A view is
  the list of its lines, without the line breaks; a line is the list of its code points, which is
  what \<open>fmt\<close> counts when it pads. Strings that come from outside are bytes and are decoded as
  \<open>range\<close> does. Formatting of a number with one decimal is a parameter.
\<close>

section \<open>Text\<close>

type_synonym glyphs = "nat list"

definition asc :: "string \<Rightarrow> glyphs" where
  "asc s = map of_char s"

text \<open>The code points of a string, with one replacement character for every byte that is not valid.\<close>

definition tail_byte :: "nat \<Rightarrow> bool" where
  "tail_byte b \<longleftrightarrow> 128 \<le> b \<and> b < 192"

definition second_ok :: "nat \<Rightarrow> nat \<Rightarrow> bool" where
  "second_ok lead b \<longleftrightarrow> tail_byte b \<and> (lead = 224 \<longrightarrow> 160 \<le> b) \<and> (lead = 237 \<longrightarrow> b < 160) \<and>
     (lead = 240 \<longrightarrow> 144 \<le> b) \<and> (lead = 244 \<longrightarrow> b < 144)"

text \<open>How many bytes the first code point takes, and the code point.\<close>

definition decode_rune :: "nat list \<Rightarrow> nat \<times> nat" where
  "decode_rune bs =
     (case bs of
        [] \<Rightarrow> (0, 65533)
      | b # rest \<Rightarrow>
          if b < 128 then (1, b)
          else if 194 \<le> b \<and> b < 224 \<and> 1 \<le> length rest \<and> tail_byte (rest ! 0)
          then (2, (b - 192) * 64 + (rest ! 0 - 128))
          else if 224 \<le> b \<and> b < 240 \<and> 2 \<le> length rest \<and> second_ok b (rest ! 0) \<and> tail_byte (rest ! 1)
          then (3, (b - 224) * 4096 + (rest ! 0 - 128) * 64 + (rest ! 1 - 128))
          else if 240 \<le> b \<and> b < 245 \<and> 3 \<le> length rest \<and> second_ok b (rest ! 0) \<and> tail_byte (rest ! 1)
            \<and> tail_byte (rest ! 2)
          then (4, (b - 240) * 262144 + (rest ! 0 - 128) * 4096 + (rest ! 1 - 128) * 64 + (rest ! 2 - 128))
          else (1, 65533))"

lemma decode_rune_progress: "bs \<noteq> [] \<Longrightarrow> 1 \<le> fst (decode_rune bs)"
  by (cases bs) (simp_all add: decode_rune_def)

function decode_runes :: "nat list \<Rightarrow> glyphs" where
  "decode_runes bs =
     (if bs = [] then [] else snd (decode_rune bs) # decode_runes (drop (fst (decode_rune bs)) bs))"
  by pat_completeness auto
termination
  by (relation "measure length") (use decode_rune_progress in \<open>fastforce simp: Suc_le_eq\<close>)+

declare decode_runes.simps [simp del]

definition runes :: "string \<Rightarrow> glyphs" where
  "runes s = decode_runes (map of_char s)"

text \<open>\<open>%-*s\<close> and \<open>strings.Repeat\<close> of a space or a line.\<close>

definition pad_to :: "nat \<Rightarrow> glyphs \<Rightarrow> glyphs" where
  "pad_to n s = s @ replicate (n - length s) 32"

definition repeatString :: "nat \<Rightarrow> int \<Rightarrow> glyphs" where
  "repeatString r n = replicate (nat n) r"

text \<open>A bordered row, and \<open>renderLineWithANSI\<close>, whose padding does not count escape sequences.\<close>

definition row :: "nat \<Rightarrow> glyphs \<Rightarrow> glyphs" where
  "row inner s = [9474, 32] @ pad_to inner s @ [32, 9474]"

fun display_len :: "bool \<Rightarrow> glyphs \<Rightarrow> nat" where
  "display_len inEsc [] = 0"
| "display_len inEsc (r # rs) =
     (if r = 27 then display_len True rs
      else if inEsc then display_len (r \<noteq> 109) rs
      else Suc (display_len False rs))"

definition displayLen :: "glyphs \<Rightarrow> nat" where
  "displayLen s = display_len False s"

definition renderLineWithANSI :: "nat \<Rightarrow> glyphs \<Rightarrow> glyphs" where
  "renderLineWithANSI inner content =
     [9474, 32] @ content @ replicate (inner - displayLen content) 32 @ [32, 9474]"

definition padRight :: "glyphs \<Rightarrow> nat \<Rightarrow> glyphs" where
  "padRight s width = (if width \<le> displayLen s then s else s @ replicate (width - displayLen s) 32)"

text \<open>\<open>truncate\<close> cuts bytes, \<open>truncateRunes\<close> code points; both mark the cut.\<close>

definition truncate :: "string \<Rightarrow> nat \<Rightarrow> string" where
  "truncate s n = (if length s \<le> n then s else take (n - 3) s @ ''...'')"

definition truncateRunes :: "glyphs \<Rightarrow> nat \<Rightarrow> glyphs" where
  "truncateRunes s maxCols =
     (if length s \<le> maxCols then s
      else if maxCols \<le> 1 then [8230]
      else take (maxCols - 1) s @ [8230])"

section \<open>Hotkeys\<close>

definition ansiReverse :: glyphs where "ansiReverse = 27 # asc ''[7m''"

definition ansiReset :: glyphs where "ansiReset = 27 # asc ''[0m''"

definition KeySpace :: nat where "KeySpace = 57344"
definition KeyUp :: nat where "KeyUp = 57345"
definition KeyDown :: nat where "KeyDown = 57346"
definition KeyUpDown :: nat where "KeyUpDown = 57347"
definition KeyEnter :: nat where "KeyEnter = 57348"
definition KeyEsc :: nat where "KeyEsc = 57349"

definition specialKeyName :: "nat \<Rightarrow> glyphs option" where
  "specialKeyName r =
     (if r = KeySpace then Some (asc ''Space'')
      else if r = KeyUp then Some [8593]
      else if r = KeyDown then Some [8595]
      else if r = KeyUpDown then Some [8593, 8595]
      else if r = KeyEnter then Some (asc ''Enter'')
      else if r = KeyEsc then Some (asc ''Esc'')
      else None)"

definition bracketPrefix :: "glyphs \<Rightarrow> glyphs \<Rightarrow> glyphs" where
  "bracketPrefix keyName label =
     (let pre = asc ''['' @ ansiReverse @ keyName @ ansiReset @ asc '']''
      in if label = [] then pre else pre @ asc '' '' @ label)"

text \<open>
  \<open>unicode.IsLetter\<close>, \<open>IsDigit\<close>, \<open>ToLower\<close> and \<open>ToUpper\<close> on ASCII, which all triggers are; the only letter
  outside ASCII that becomes one of theirs in lower case would be the Kelvin sign for \<open>k\<close>.
\<close>

definition ascii_letter :: "nat \<Rightarrow> bool" where
  "ascii_letter r \<longleftrightarrow> 65 \<le> r \<and> r \<le> 90 \<or> 97 \<le> r \<and> r \<le> 122"

definition ascii_digit :: "nat \<Rightarrow> bool" where
  "ascii_digit r \<longleftrightarrow> 48 \<le> r \<and> r \<le> 57"

definition lower_rune :: "nat \<Rightarrow> nat" where
  "lower_rune r = (if 65 \<le> r \<and> r \<le> 90 then r + 32 else r)"

definition upper_rune :: "nat \<Rightarrow> nat" where
  "upper_rune r = (if 97 \<le> r \<and> r \<le> 122 then r - 32 else r)"

definition firstCaseFoldIndex :: "glyphs \<Rightarrow> nat \<Rightarrow> nat option" where
  "firstCaseFoldIndex s needle = find_index (\<lambda>r. lower_rune r = lower_rune needle) s"

definition hotkey :: "nat \<Rightarrow> glyphs \<Rightarrow> glyphs" where
  "hotkey trigger label =
     (case specialKeyName trigger of
        Some name \<Rightarrow> bracketPrefix name label
      | None \<Rightarrow>
          if \<not> ascii_letter trigger \<and> \<not> ascii_digit trigger then bracketPrefix [trigger] label
          else case firstCaseFoldIndex label trigger of
            Some i \<Rightarrow> take i label @ ansiReverse @ [label ! i] @ ansiReset @ drop (i + 1) label
          | None \<Rightarrow> bracketPrefix [upper_rune trigger] label)"

section \<open>The device picker\<close>

definition join_comma :: "glyphs list \<Rightarrow> glyphs" where
  "join_comma ws = (case ws of [] \<Rightarrow> [] | w # ws \<Rightarrow> concat (w # map (\<lambda>v. asc '', '' @ v) ws))"

text \<open>One device: marker, name and annotations; the row of the index is in reverse video.\<close>

definition device_line :: "nat \<Rightarrow> devicePicker \<Rightarrow> nat \<Rightarrow> PlaybackDevice \<Rightarrow> glyphs" where
  "device_line inner s i d =
     (let marker = (if i = dp_index s then asc ''>'' else asc '' '');
          annotations = (if dev_IsDefault d then [asc ''default''] else []) @
                        (if dev_Name d = dp_current s then [asc ''current''] else []);
          name = (if annotations = [] then runes (dev_Name d)
                  else runes (dev_Name d) @ asc '' ('' @ join_comma annotations @ asc '')'');
          line = marker @ asc '' '' @ truncateRunes name (inner - 2)
      in if i = dp_index s
         then [9474, 32] @ ansiReverse @ padRight line inner @ ansiReset @ [32, 9474]
         else row inner line)"

definition picker_hints :: "bool \<Rightarrow> glyphs" where
  "picker_hints saveEnabled =
     (if saveEnabled
      then asc ''  '' @ hotkey KeyUpDown (asc ''move'') @ asc ''   '' @ hotkey KeyEnter (asc ''save'') @
           asc ''   '' @ hotkey KeyEsc (asc ''cancel'')
      else asc ''  '' @ hotkey KeyUpDown (asc ''move'') @
           asc ''   save unavailable (no writable config path)   '' @ hotkey KeyEsc (asc ''cancel''))"

definition picker_title :: "nat \<Rightarrow> glyphs" where
  "picker_title width =
     [9484, 9472] @ asc '' Select playback device '' @ repeatString 9472 (int width - 26) @ [9488]"

definition renderPicker :: "devicePicker \<Rightarrow> int \<Rightarrow> glyphs list" where
  "renderPicker s w =
     (let width = nat (max 60 w); inner = width - 4
      in [picker_title width] @
         (case dp_loadErr s of
            Some err \<Rightarrow> [row inner (asc ''  '' @ truncateRunes (runes err) (inner - 2))]
          | None \<Rightarrow>
              if dp_devices s = [] then [row inner (asc ''  (no playback devices found)'')]
              else map (\<lambda>i. device_line inner s i (dp_devices s ! i)) [0..<length (dp_devices s)]) @
         [row inner [], renderLineWithANSI inner (picker_hints (dp_saveEnabled s)),
          [9492] @ repeatString 9472 (int width - 2) @ [9496]])"

section \<open>The main view\<close>

definition playbackStateDisplay :: "string \<Rightarrow> glyphs" where
  "playbackStateDisplay state =
     (if state = ''playing'' then 9654 # asc '' Playing''
      else if state = ''paused'' then 9208 # asc '' Paused''
      else if state = ''stopped'' then 9209 # asc '' Stopped''
      else if state = ''idle'' then 9679 # asc '' Idle''
      else if state = ''reconnecting'' then 8635 # asc '' Reconnecting...''
      else 9679 # asc '' Idle'')"

definition formatSampleRate :: "(int \<Rightarrow> string) \<Rightarrow> int \<Rightarrow> string" where
  "formatSampleRate thousandth rate =
     (if rate = 44100 then ''44.1kHz''
      else if rate = 48000 then ''48kHz''
      else if rate = 88200 then ''88.2kHz''
      else if rate = 96000 then ''96kHz''
      else if rate = 176400 then ''176.4kHz''
      else if rate = 192000 then ''192kHz''
      else if rate mod 1000 = 0 then show_int (go_quot rate 1000) @ ''kHz''
      else thousandth rate @ ''kHz'')"

definition formatCodecDisplay :: "(int \<Rightarrow> string) \<Rightarrow> string \<Rightarrow> int \<Rightarrow> int \<Rightarrow> string" where
  "formatCodecDisplay thousandth codec sampleRate bitDepth =
     to_upper codec @ '' '' @ formatSampleRate thousandth sampleRate @ ''/'' @ show_int bitDepth @
       (if to_lower codec \<in> {''pcm'', ''flac''} then ''bit lossless'' else ''bit'')"

text \<open>\<open>strings.Repeat\<close> panics on a negative count, which is \<open>None\<close>.\<close>

definition renderBar :: "int \<Rightarrow> int \<Rightarrow> int \<Rightarrow> glyphs option" where
  "renderBar value limit width =
     (let filled = go_quot (value * width) limit
      in if filled < 0 \<or> width < filled then None
         else Some (repeatString 9608 filled @ repeatString 9617 (width - filled)))"

definition view_width :: "Model \<Rightarrow> nat" where
  "view_width m = nat (max 60 (tm_width m))"

definition view_inner :: "Model \<Rightarrow> nat" where
  "view_inner m = view_width m - 4"

definition view_separator :: "Model \<Rightarrow> glyphs" where
  "view_separator m = [9500] @ repeatString 9472 (int (view_width m) - 2) @ [9508]"

definition sync_display :: "(int \<Rightarrow> string) \<Rightarrow> Model \<Rightarrow> glyphs" where
  "sync_display thousandth m =
     (case tm_syncQuality m of
        QualityGood \<Rightarrow> asc ''Sync: '' @ [10003] @ asc ('' Good (RTT: '' @ thousandth (tm_syncRTT m) @ ''ms)'')
      | QualityDegraded \<Rightarrow> asc ''Sync: '' @ [9888] @ asc '' Degraded''
      | QualityLost \<Rightarrow> asc ''Sync: '' @ [10007] @ asc '' Lost'')"

definition state_text :: "(int \<Rightarrow> string) \<Rightarrow> Model \<Rightarrow> glyphs" where
  "state_text thousandth m =
     pad_to 30 (asc ''State:  '' @ playbackStateDisplay (tm_playbackState m)) @ asc '' '' @ sync_display thousandth m"

definition status_line :: "Model \<Rightarrow> glyphs" where
  "status_line m =
     (let connStatus = (if tm_connected m then ''Connected to '' @ tm_serverName m else ''Disconnected'');
          inner = view_inner m
      in [9474] @ asc '' Status: '' @ pad_to (inner - 9) (runes (truncate connStatus (inner - 9))) @ [32, 9474])"

definition renderHeader :: "(int \<Rightarrow> string) \<Rightarrow> Model \<Rightarrow> glyphs list" where
  "renderHeader thousandth m =
     [[9484, 9472] @ asc '' Sendspin Player '' @ repeatString 9472 (int (view_width m) - 20) @ [9488],
      status_line m,
      row (view_inner m) (state_text thousandth m),
      view_separator m]"

definition meta_line :: "nat \<Rightarrow> string \<Rightarrow> string \<Rightarrow> glyphs" where
  "meta_line inner label value =
     [9474] @ asc label @ pad_to (inner - 10) (runes (truncate value (inner - 10))) @ [32, 9474]"

definition no_metadata_line :: "Model \<Rightarrow> glyphs" where
  "no_metadata_line m = [9474] @ asc ''   '' @ pad_to (view_inner m - 3) (asc ''(No metadata)'') @ [32, 9474]"

definition renderStreamInfo :: "(int \<Rightarrow> string) \<Rightarrow> Model \<Rightarrow> glyphs list" where
  "renderStreamInfo thousandth m =
     (let inner = view_inner m
      in if \<not> tm_connected m \<or> tm_codec m = [] then [row inner (asc ''No stream'')]
         else
           [row inner (asc ''Now Playing:'')] @
           (if tm_title m \<noteq> [] then
              [meta_line inner ''   Track:  '' (tm_title m),
               meta_line inner ''   Artist: '' (tm_artist m),
               meta_line inner ''   Album:  '' (tm_album m)] @
              (if tm_artworkPath m \<noteq> [] then [meta_line inner ''   Art:    '' (tm_artworkPath m)] else [])
            else [no_metadata_line m]) @
           [row inner [],
            row inner (runes (formatCodecDisplay thousandth (tm_codec m) (tm_sampleRate m) (tm_bitDepth m)))])"

definition renderControls :: "Model \<Rightarrow> glyphs list option" where
  "renderControls m =
     (let inner = view_inner m;
          muteIcon = (if tm_muted m then [32, 128263] else []);
          outputName = (if tm_audioDevice m = [] then ''(miniaudio default)'' else tm_audioDevice m)
      in map_option (\<lambda>bar.
           [row inner [],
            row inner (asc ''Volume: ['' @ bar @ asc (''] '' @ show_int (tm_volume m) @ ''%'') @ muteIcon),
            row inner (asc (''Buffer: '' @ show_int (tm_bufferDepth m) @ ''ms'')),
            renderLineWithANSI inner
              (hotkey (of_char CHR ''o'') (asc ''Output: '' @ runes (truncate outputName (inner - 10))))] @
           (if tm_transientMsg m \<noteq> [] then [renderLineWithANSI inner (asc ''  '' @ runes (tm_transientMsg m))]
            else []))
         (renderBar (tm_volume m) 100 20))"

definition stats_text :: "Model \<Rightarrow> glyphs" where
  "stats_text m =
     asc (''Stats:  RX: '' @ show_int (tm_received m) @ ''  Played: '' @ show_int (tm_played m) @
       ''  Dropped: '' @ show_int (tm_dropped m))"

definition renderStats :: "Model \<Rightarrow> glyphs list" where
  "renderStats m =
     [view_separator m,
      row (view_inner m) (stats_text m),
      row (view_inner m) []]"

definition renderDebug :: "Model \<Rightarrow> glyphs list" where
  "renderDebug m =
     [row (view_inner m) (asc ''DEBUG:''),
      row (view_inner m) (asc (''  Goroutines: '' @ show_int (tm_goroutines m))),
      row (view_inner m) (asc ''  Playback: '' @ runes (tm_playbackState m)),
      row (view_inner m) (asc ''  Preferred codec: '' @ runes (tm_codec m))]"

definition help_text :: glyphs where
  "help_text =
     hotkey KeySpace (asc ''Play/Pause'') @ asc ''  '' @ hotkey (of_char CHR ''n'') (asc ''Next'') @ asc ''  '' @
     hotkey (of_char CHR ''p'') (asc ''Prev'') @ asc ''  '' @ hotkey KeyUpDown (asc ''Volume'') @ asc ''  '' @
     hotkey (of_char CHR ''m'') (asc ''Mute'') @ asc ''  '' @ hotkey (of_char CHR ''o'') (asc ''Output'') @ asc ''  '' @
     hotkey (of_char CHR ''q'') (asc ''Quit'')"

definition renderHelp :: "Model \<Rightarrow> glyphs list" where
  "renderHelp m =
     [renderLineWithANSI (view_inner m) help_text,
      [9492] @ repeatString 9472 (int (view_width m) - 2) @ [9496]]"

definition model_View :: "(int \<Rightarrow> string) \<Rightarrow> Model \<Rightarrow> glyphs list option" where
  "model_View thousandth m =
     (if tm_width m = 0 then Some [asc ''Loading...'']
      else if tm_mode m = ModeDevicePicker
      then Some (renderHeader thousandth m @ renderPicker (tm_picker m) (tm_width m))
      else map_option (\<lambda>controls.
        renderHeader thousandth m @ renderStreamInfo thousandth m @ controls @ renderStats m @
        (if tm_showDebug m then renderDebug m else []) @ renderHelp m) (renderControls m))"

section \<open>Columns\<close>

abbreviation esc_free :: "glyphs \<Rightarrow> bool" where
  "esc_free s \<equiv> 27 \<notin> set s"

fun in_escape :: "bool \<Rightarrow> glyphs \<Rightarrow> bool" where
  "in_escape e [] = e"
| "in_escape e (r # rs) = in_escape (r = 27 \<or> e \<and> r \<noteq> 109) rs"

lemma display_len_append: "display_len e (a @ b) = display_len e a + display_len (in_escape e a) b"
  by (induction e a rule: in_escape.induct) auto

lemma display_len_free: "esc_free s \<Longrightarrow> display_len False s = length s" "esc_free s \<Longrightarrow> \<not> in_escape False s"
  by (induction s) auto

lemma displayLen_free [simp]: "esc_free s \<Longrightarrow> displayLen s = length s"
  by (simp add: displayLen_def display_len_free)

lemma displayLen_append_free: "esc_free a \<Longrightarrow> displayLen (a @ b) = length a + displayLen b"
  by (simp add: displayLen_def display_len_append display_len_free)

lemma ansi_columns:
  "displayLen (ansiReverse @ b) = displayLen b" "displayLen (ansiReset @ b) = displayLen b"
  by (simp_all add: displayLen_def ansiReverse_def ansiReset_def asc_def)

lemma length_pad_to [simp]: "length (pad_to n s) = max n (length s)"
  by (simp add: pad_to_def)

lemma set_pad_to: "set (pad_to n s) \<subseteq> insert 32 (set s)"
  by (auto simp: pad_to_def)

lemma esc_free_pad [simp]: "esc_free (pad_to n s) \<longleftrightarrow> esc_free s"
  by (auto simp: pad_to_def)

lemma repeat_columns [simp]: "length (repeatString r n) = nat n" "27 \<in> set (repeatString r n) \<longleftrightarrow> 0 < n \<and> r = 27"
  by (auto simp: repeatString_def)

lemma displayLen_row: "esc_free s \<Longrightarrow> displayLen (row inner s) = max inner (length s) + 4"
  by (simp add: row_def)

lemma displayLen_framed:
  "displayLen ([9474, 32] @ content @ replicate n 32 @ [32, 9474]) = displayLen content + n + 4"
  if "\<not> in_escape False content"
  using that by (simp add: displayLen_def display_len_append display_len_free)

lemma length_asc [simp]: "length (asc s) = length s"
  by (simp add: asc_def)

lemma asc_append: "asc (a @ b) = asc a @ asc b"
  by (simp add: asc_def)

lemma esc_char: "of_char c = (27 :: nat) \<longleftrightarrow> c = CHR 0x1B"
proof
  assume "of_char c = (27 :: nat)"
  then have "c = char_of (27 :: nat)" by (metis char_of_char)
  also have "char_of (27 :: nat) = CHR 0x1B" by code_simp
  finally show "c = CHR 0x1B" .
qed simp

lemma esc_in_asc: "27 \<in> set (asc s) \<longleftrightarrow> CHR 0x1B \<in> set s"
proof -
  have "27 \<in> set (asc s) \<longleftrightarrow> (\<exists>c \<in> set s. of_char c = (27 :: nat))" by (auto simp: asc_def)
  then show ?thesis by (simp add: esc_char)
qed

text \<open>Decoding neither lengthens a string nor makes an escape character.\<close>

lemma decode_rune_esc: "bs \<noteq> [] \<Longrightarrow> snd (decode_rune bs) = 27 \<Longrightarrow> hd bs = 27"
  by (cases bs) (auto simp: decode_rune_def second_ok_def tail_byte_def split: if_splits)

lemma decode_runes_facts:
  "length (decode_runes bs) \<le> length bs \<and> (27 \<in> set (decode_runes bs) \<longrightarrow> 27 \<in> set bs)"
proof (induction bs rule: decode_runes.induct)
  case (1 bs)
  show ?case
  proof (cases "bs = []")
    case True
    then show ?thesis by (simp add: decode_runes.simps [of "[]"])
  next
    case False
    then have hd: "hd bs \<in> set bs" and pos: "1 \<le> fst (decode_rune bs)" "0 < length bs"
      using decode_rune_progress [of bs] by simp_all
    have "length (decode_runes (drop (fst (decode_rune bs)) bs)) \<le> length bs - fst (decode_rune bs)"
      using "1.IH" [OF False] by simp
    moreover have "27 \<in> set (decode_runes (drop (fst (decode_rune bs)) bs)) \<Longrightarrow> 27 \<in> set bs"
      using "1.IH" [OF False] by (meson in_set_dropD)
    moreover have "length bs - fst (decode_rune bs) + 1 \<le> length bs" using pos by linarith
    moreover have "snd (decode_rune bs) = 27 \<Longrightarrow> 27 \<in> set bs" using decode_rune_esc [OF False] hd by metis
    ultimately show ?thesis using False by (auto simp: decode_runes.simps [of bs])
  qed
qed

lemma length_runes: "length (runes s) \<le> length s"
  using decode_runes_facts [of "map of_char s"] by (simp add: runes_def)

lemma esc_in_runes: "CHR 0x1B \<notin> set s \<Longrightarrow> esc_free (runes s)"
  using decode_runes_facts [of "map of_char s"] esc_in_asc [of s] by (auto simp: runes_def asc_def)

lemma length_truncate: "3 \<le> n \<Longrightarrow> length (truncate s n) \<le> n"
  by (auto simp: truncate_def)

lemma esc_in_truncate: "CHR 0x1B \<notin> set s \<Longrightarrow> CHR 0x1B \<notin> set (truncate s n)"
  by (auto simp: truncate_def dest: in_set_takeD)

lemma truncated_runes:
  assumes "3 \<le> n" "CHR 0x1B \<notin> set s"
  shows "length (runes (truncate s n)) \<le> n" "esc_free (runes (truncate s n))"
  using length_runes [of "truncate s n"] length_truncate [OF assms(1), of s] esc_in_runes [OF esc_in_truncate [OF assms(2)]]
  by simp_all

lemma truncateRunes_facts: "1 \<le> n \<Longrightarrow> length (truncateRunes s n) \<le> n" "esc_free s \<Longrightarrow> esc_free (truncateRunes s n)"
  by (auto simp: truncateRunes_def dest: in_set_takeD)

section \<open>The picker is a box with a title that is too long\<close>

lemma device_line_columns:
  assumes "56 \<le> inner" "esc_free (runes (dev_Name d))"
  shows "displayLen (device_line inner s i d) = inner + 4"
proof -
  define annotations where "annotations = (if dev_IsDefault d then [asc ''default''] else []) @
                        (if dev_Name d = dp_current s then [asc ''current''] else [])"
  define name where "name = (if annotations = [] then runes (dev_Name d)
                  else runes (dev_Name d) @ asc '' ('' @ join_comma annotations @ asc '')'')"
  define line where "line = (if i = dp_index s then asc ''>'' else asc '' '') @ asc '' '' @ truncateRunes name (inner - 2)"
  have "esc_free name"
    using assms(2) by (auto simp: name_def annotations_def join_comma_def esc_in_asc)
  moreover have "length (truncateRunes name (inner - 2)) \<le> inner - 2"
    using assms(1) by (intro truncateRunes_facts(1)) simp
  ultimately have line: "esc_free line" "length line \<le> inner"
    using assms(1) truncateRunes_facts(2) [of name "inner - 2"] by (auto simp: line_def esc_in_asc)
  have "esc_free (padRight line inner)" "length (padRight line inner) = inner"
    using line by (auto simp: padRight_def)
  then have "displayLen ([9474, 32] @ ansiReverse @ padRight line inner @ ansiReset @ [32, 9474]) = inner + 4"
    using displayLen_append_free [of "[9474, 32]"] displayLen_append_free [of "padRight line inner"]
    by (simp add: ansi_columns)
  moreover have "displayLen (row inner line) = inner + 4" using line by (simp add: displayLen_row)
  moreover have "device_line inner s i d = (if i = dp_index s
      then [9474, 32] @ ansiReverse @ padRight line inner @ ansiReset @ [32, 9474] else row inner line)"
    by (simp add: device_line_def Let_def annotations_def name_def line_def)
  ultimately show ?thesis by simp
qed

lemmas hotkey_eval = hotkey_def specialKeyName_def bracketPrefix_def KeySpace_def KeyUp_def KeyDown_def
  KeyUpDown_def KeyEnter_def KeyEsc_def ascii_letter_def ascii_digit_def firstCaseFoldIndex_def lower_rune_def

lemma hints_columns:
  "displayLen (picker_hints True) = 41" "displayLen (picker_hints False) = 71"
  "\<not> in_escape False (picker_hints b)"
  by (simp_all add: picker_hints_def hotkey_eval displayLen_def ansiReverse_def ansiReset_def asc_def)

lemma help_columns: "displayLen help_text = 63" "\<not> in_escape False help_text"
  by (simp_all add: help_text_def hotkey_eval displayLen_def ansiReverse_def ansiReset_def asc_def)

lemma renderLine_columns:
  "\<not> in_escape False content \<Longrightarrow> displayLen content \<le> inner \<Longrightarrow>
   displayLen (renderLineWithANSI inner content) = inner + 4"
  unfolding renderLineWithANSI_def by (subst displayLen_framed) simp_all

text \<open>
  Whatever the devices are called and however wide the terminal is, every row of the picker below
  the title has the width of the box, at least 60 columns; the title is one column wider. The hints
  fit unless saving is disabled on less than 75 columns. Names must not contain escape characters.
\<close>

theorem picker_rows_aligned:
  assumes "dp_saveEnabled s \<or> 75 \<le> w"
    and "list_all (\<lambda>d. CHR 0x1B \<notin> set (dev_Name d)) (dp_devices s)"
    and "pred_option (\<lambda>err. CHR 0x1B \<notin> set err) (dp_loadErr s)"
  shows "\<exists>rows. renderPicker s w = picker_title (nat (max 60 w)) # rows \<and>
    displayLen (picker_title (nat (max 60 w))) = nat (max 60 w) + 1 \<and>
    list_all (\<lambda>r. displayLen r = nat (max 60 w)) rows"
proof -
  define width where "width = nat (max 60 w)"
  define inner where "inner = width - 4"
  have w: "60 \<le> width" "56 \<le> inner" "width = inner + 4" by (simp_all add: width_def inner_def)
  define content where "content = (case dp_loadErr s of
            Some err \<Rightarrow> [row inner (asc ''  '' @ truncateRunes (runes err) (inner - 2))]
          | None \<Rightarrow>
              if dp_devices s = [] then [row inner (asc ''  (no playback devices found)'')]
              else map (\<lambda>i. device_line inner s i (dp_devices s ! i)) [0..<length (dp_devices s)])"
  have "list_all (\<lambda>r. displayLen r = width) content"
  proof (cases "dp_loadErr s")
    case None
    have "displayLen (device_line inner s i (dp_devices s ! i)) = width" if "i < length (dp_devices s)" for i
      using esc_in_runes [of "dev_Name (dp_devices s ! i)"] assms(2) that w
      by (subst device_line_columns) (simp_all add: list_all_length)
    moreover have "displayLen (row inner (asc ''  (no playback devices found)'')) = width"
      using w by (simp add: displayLen_row esc_in_asc)
    ultimately show ?thesis using None by (simp add: content_def list_all_iff)
  next
    case (Some err)
    then have "esc_free (runes err)" using assms(3) by (simp add: esc_in_runes)
    then have "esc_free (truncateRunes (runes err) (inner - 2))" by (rule truncateRunes_facts)
    moreover have "length (truncateRunes (runes err) (inner - 2)) \<le> inner - 2"
      using w(2) by (intro truncateRunes_facts(1)) simp
    ultimately show ?thesis using Some w by (simp add: content_def displayLen_row esc_in_asc)
  qed
  moreover have "displayLen (renderLineWithANSI inner (picker_hints (dp_saveEnabled s))) = width"
    using assms(1) w by (cases "dp_saveEnabled s") (simp_all add: renderLine_columns hints_columns width_def inner_def)
  moreover have "displayLen (row inner []) = width" "displayLen ([9492] @ repeatString 9472 (int width - 2) @ [9496]) = width"
    using w by (simp_all add: displayLen_row)
  moreover have "displayLen (picker_title width) = width + 1"
    using w by (simp add: picker_title_def esc_in_asc)
  moreover have "renderPicker s w = picker_title width # content @ [row inner [],
      renderLineWithANSI inner (picker_hints (dp_saveEnabled s)), [9492] @ repeatString 9472 (int width - 2) @ [9496]]"
    unfolding renderPicker_def Let_def width_def [symmetric] inner_def [symmetric] content_def by simp
  ultimately show ?thesis unfolding width_def [symmetric] by simp
qed

section \<open>The main view\<close>

definition fits :: "Model \<Rightarrow> glyphs \<Rightarrow> bool" where
  "fits m s \<longleftrightarrow> esc_free s \<and> length s \<le> view_inner m"

text \<open>What the view needs: no escape characters, and room for the numbers and the texts that are not cut.\<close>

definition plain_model :: "(int \<Rightarrow> string) \<Rightarrow> Model \<Rightarrow> bool" where
  "plain_model thousandth m \<longleftrightarrow>
     list_all (\<lambda>s. CHR 0x1B \<notin> set s)
       [tm_serverName m, tm_title m, tm_artist m, tm_album m, tm_artworkPath m, tm_audioDevice m] \<and>
     0 \<le> tm_volume m \<and> tm_volume m \<le> 100 \<and> fits m (state_text thousandth m) \<and> fits m (stats_text m) \<and>
     fits m (runes (formatCodecDisplay thousandth (tm_codec m) (tm_sampleRate m) (tm_bitDepth m))) \<and>
     fits m (asc (''Buffer: '' @ show_int (tm_bufferDepth m) @ ''ms'')) \<and>
     fits m (asc ''  '' @ runes (tm_transientMsg m)) \<and>
     (tm_showDebug m \<longrightarrow> fits m (asc (''  Goroutines: '' @ show_int (tm_goroutines m))) \<and>
        fits m (asc ''  Playback: '' @ runes (tm_playbackState m)) \<and>
        fits m (asc ''  Preferred codec: '' @ runes (tm_codec m)))"

lemma row_fits: "fits m s \<Longrightarrow> 60 \<le> view_width m \<Longrightarrow> displayLen (row (view_inner m) s) = view_width m"
  by (simp add: fits_def displayLen_row view_inner_def)

lemma show_nat_length: "n < 10 ^ k \<Longrightarrow> 0 < k \<Longrightarrow> length (show_nat n) \<le> k"
proof (induction k arbitrary: n)
  case (Suc k)
  show ?case
  proof (cases "n < 10")
    case True
    then show ?thesis by (simp add: show_nat.simps [of n])
  next
    case False
    with Suc.prems(1) have "0 < k" by (cases k) simp_all
    moreover have "n div 10 < 10 ^ k" using Suc.prems(1) by (simp add: less_mult_imp_div_less mult.commute)
    ultimately show ?thesis using Suc.IH [of "n div 10"] False by (simp add: show_nat.simps [of n])
  qed
qed simp

lemma digit_not_esc: "d < 10 \<Longrightarrow> digit_char d \<noteq> CHR 0x1B"
  using digit_value_char [of d] by (auto simp: digit_value_def)

lemma esc_in_show_int: "CHR 0x1B \<notin> set (show_int n)"
proof -
  have "CHR 0x1B \<notin> set (show_nat k)" for k using show_nat_digits [of "CHR 0x1B" k] digit_not_esc by metis
  then show ?thesis by (simp add: show_int_def)
qed

lemma volume_bar:
  assumes "0 \<le> v" "v \<le> 100"
  shows "\<exists>bar. renderBar v 100 20 = Some bar \<and> length bar = 20 \<and> esc_free bar"
proof -
  have "go_quot (v * 20) 100 = v * 20 div 100" using assms by (simp add: go_quot_nonneg)
  moreover have "0 \<le> v * 20 div 100" "v * 20 div 100 \<le> 20" using assms by linarith+
  ultimately show ?thesis by (simp add: renderBar_def Let_def)
qed

lemma meta_line_columns:
  assumes "60 \<le> view_width m" "length label = 11" "CHR 0x1B \<notin> set label" "CHR 0x1B \<notin> set value"
  shows "displayLen (meta_line (view_inner m) label value) = view_width m"
proof -
  define n where "n = view_inner m - 10"
  have n: "3 \<le> n" "view_width m = n + 14" using assms(1) by (simp_all add: n_def view_inner_def)
  from truncated_runes [OF n(1) assms(4)] show ?thesis
    using assms(2,3) by (simp add: meta_line_def n_def [symmetric] esc_in_asc n(2))
qed

lemma status_line_columns:
  assumes "60 \<le> view_width m" "CHR 0x1B \<notin> set (tm_serverName m)"
  shows "displayLen (status_line m) + 1 = view_width m"
proof -
  define n where "n = view_inner m - 9"
  define s where "s = (if tm_connected m then ''Connected to '' @ tm_serverName m else ''Disconnected'')"
  have n: "3 \<le> n" "view_width m = n + 13" using assms(1) by (simp_all add: n_def view_inner_def)
  have "CHR 0x1B \<notin> set s" using assms(2) by (simp add: s_def)
  from truncated_runes [OF n(1) this] show ?thesis
    by (simp add: status_line_def Let_def n_def [symmetric] s_def [symmetric] esc_in_asc n(2))
qed

lemma no_metadata_columns: "60 \<le> view_width m \<Longrightarrow> displayLen (no_metadata_line m) + 1 = view_width m"
  by (simp add: no_metadata_line_def esc_in_asc view_inner_def)

lemma view_width_60: "60 \<le> view_width m"
  by (simp add: view_width_def)

lemma separator_columns: "displayLen (view_separator m) = view_width m"
  using view_width_60 [of m] by (simp add: view_separator_def)

lemma header_columns:
  assumes "plain_model thousandth m" "r \<in> set (renderHeader thousandth m)"
  shows "r = status_line m \<or> displayLen r = view_width m"
  using assms view_width_60 [of m] row_fits [OF _ view_width_60, of m "state_text thousandth m"]
  by (auto simp: renderHeader_def separator_columns esc_in_asc plain_model_def)

lemma stream_columns:
  assumes "plain_model thousandth m" "r \<in> set (renderStreamInfo thousandth m)"
  shows "r = no_metadata_line m \<or> displayLen r = view_width m"
proof -
  have "displayLen (row (view_inner m) s) = view_width m" if "length s \<le> 56" "esc_free s" for s
    using that view_width_60 [of m] by (intro row_fits) (simp_all add: fits_def view_inner_def)
  moreover have "displayLen (row (view_inner m)
      (runes (formatCodecDisplay thousandth (tm_codec m) (tm_sampleRate m) (tm_bitDepth m)))) = view_width m"
    using assms(1) by (intro row_fits view_width_60) (simp add: plain_model_def)
  moreover have "displayLen (meta_line (view_inner m) label value) = view_width m"
    if "label \<in> {''   Track:  '', ''   Artist: '', ''   Album:  '', ''   Art:    ''}"
      "value \<in> {tm_title m, tm_artist m, tm_album m, tm_artworkPath m}" for label "value"
    using that assms(1) by (intro meta_line_columns view_width_60) (auto simp: plain_model_def)
  ultimately show ?thesis
    using assms(2) by (auto simp: renderStreamInfo_def Let_def esc_in_asc split: if_splits)
qed

lemma device_hotkey_columns:
  assumes "esc_free name"
  shows "displayLen (hotkey (of_char CHR ''o'') (asc ''Output: '' @ name)) = length name + 8"
    "\<not> in_escape False (hotkey (of_char CHR ''o'') (asc ''Output: '' @ name))"
proof -
  have eq: "hotkey (of_char CHR ''o'') (asc ''Output: '' @ name) =
      ansiReverse @ asc ''O'' @ ansiReset @ asc ''utput: '' @ name"
    by (simp add: hotkey_eval asc_def)
  have body: "asc ''utput: '' @ name = (asc ''utput: '' @ name)" "esc_free (asc ''utput: '' @ name)"
    using assms by (simp_all add: esc_in_asc)
  show "displayLen (hotkey (of_char CHR ''o'') (asc ''Output: '' @ name)) = length name + 8"
    unfolding eq using body(2) displayLen_append_free [of "asc ''O''"]
    by (simp add: ansi_columns esc_in_asc)
  show "\<not> in_escape False (hotkey (of_char CHR ''o'') (asc ''Output: '' @ name))"
    unfolding eq using display_len_free(2) [OF assms]
    by (simp add: ansiReverse_def ansiReset_def asc_def)
qed

lemma controls_columns:
  assumes "plain_model thousandth m" "56 \<le> view_inner m"
  shows "\<exists>controls. renderControls m = Some controls \<and> (\<forall>r \<in> set controls. displayLen r = view_width m)"
proof -
  define inner where "inner = view_inner m"
  have w: "60 \<le> view_width m" "view_width m = inner + 4"
    using view_width_60 [of m] by (simp_all add: inner_def view_inner_def)
  have m: "CHR 0x1B \<notin> set (tm_audioDevice m)" "0 \<le> tm_volume m" "tm_volume m \<le> 100"
    using assms(1) by (simp_all add: plain_model_def)
  obtain bar where bar: "renderBar (tm_volume m) 100 20 = Some bar" "length bar = 20" "esc_free bar"
    using volume_bar [OF m(2,3)] by blast
  have "length (show_int (tm_volume m)) \<le> 3"
    using m(2,3) show_nat_length [of "nat (tm_volume m)" 3] by (simp add: show_int_def)
  then have volume: "displayLen (row inner (asc ''Volume: ['' @ bar @ asc (''] '' @ show_int (tm_volume m) @ ''%'') @
      (if tm_muted m then [32, 128263] else []))) = view_width m"
    using bar(2,3) w by (subst displayLen_row) (simp_all add: esc_in_asc esc_in_show_int asc_append)
  have buffer: "displayLen (row inner (asc (''Buffer: '' @ show_int (tm_bufferDepth m) @ ''ms''))) = view_width m"
    using assms(1) row_fits [OF _ w(1)] by (simp add: plain_model_def inner_def)
  define name where "name = runes (truncate (if tm_audioDevice m = [] then ''(miniaudio default)'' else tm_audioDevice m)
      (inner - 10))"
  have "3 \<le> inner - 10" "CHR 0x1B \<notin> set (if tm_audioDevice m = [] then ''(miniaudio default)'' else tm_audioDevice m)"
    using m(1) w by simp_all
  from truncated_runes [OF this] have name: "length name \<le> inner - 10" "esc_free name" by (simp_all add: name_def)
  have device: "displayLen (renderLineWithANSI inner (hotkey (of_char CHR ''o'') (asc ''Output: '' @ name))) = view_width m"
    using device_hotkey_columns [OF name(2)] name(1) w by (subst renderLine_columns) simp_all
  have banner: "displayLen (renderLineWithANSI inner (asc ''  '' @ runes (tm_transientMsg m))) = view_width m"
  proof -
    have "fits m (asc ''  '' @ runes (tm_transientMsg m))" using assms(1) by (simp add: plain_model_def)
    then show ?thesis
      using w(2) display_len_free(2) [of "asc ''  '' @ runes (tm_transientMsg m)"]
      by (subst renderLine_columns) (simp_all add: fits_def inner_def)
  qed
  have "displayLen (row inner []) = view_width m" using w by (simp add: displayLen_row)
  with bar(1) volume buffer device banner show ?thesis
    by (simp add: renderControls_def Let_def inner_def [symmetric] name_def [symmetric])
qed

lemma stats_columns:
  "plain_model thousandth m \<Longrightarrow> r \<in> set (renderStats m) \<Longrightarrow> displayLen r = view_width m"
  using row_fits [OF _ view_width_60, of m "stats_text m"] row_fits [OF _ view_width_60, of m "[]"]
  by (auto simp: renderStats_def separator_columns plain_model_def fits_def)

lemma debug_columns:
  "plain_model thousandth m \<Longrightarrow> tm_showDebug m \<Longrightarrow> r \<in> set (renderDebug m) \<Longrightarrow> displayLen r = view_width m"
proof -
  assume m: "plain_model thousandth m" "tm_showDebug m" "r \<in> set (renderDebug m)"
  have "fits m (asc ''DEBUG:'')" using view_width_60 [of m] by (simp add: fits_def esc_in_asc view_inner_def)
  with m show ?thesis
    by (auto simp: renderDebug_def plain_model_def intro!: row_fits view_width_60)
qed

lemma help_rows_columns:
  "67 \<le> view_width m \<Longrightarrow> r \<in> set (renderHelp m) \<Longrightarrow> displayLen r = view_width m"
  using renderLine_columns [OF help_columns(2), of "view_inner m"]
  by (auto simp: renderHelp_def help_columns(1) view_inner_def)

text \<open>
  The rows of the main view on a terminal of at least 67 columns have the width of the frame, but for
  the status row and the row of a stream without metadata, which are one column short.
\<close>

theorem view_rows_aligned:
  assumes "plain_model thousandth m" "67 \<le> tm_width m" "tm_mode m = ModeNormal"
  shows "\<exists>rows. model_View thousandth m = Some rows \<and>
    (\<forall>r \<in> set rows. displayLen r = view_width m \<or> r = status_line m \<or> r = no_metadata_line m) \<and>
    displayLen (status_line m) + 1 = view_width m \<and> displayLen (no_metadata_line m) + 1 = view_width m"
proof -
  have w: "67 \<le> view_width m" "56 \<le> view_inner m" using assms(2) by (simp_all add: view_width_def view_inner_def)
  from controls_columns [OF assms(1) w(2)] obtain controls
    where c: "renderControls m = Some controls" "\<forall>r \<in> set controls. displayLen r = view_width m" by blast
  have "CHR 0x1B \<notin> set (tm_serverName m)" using assms(1) by (simp add: plain_model_def)
  from status_line_columns [OF view_width_60 this] no_metadata_columns [OF view_width_60, of m] c
  show ?thesis
    using assms header_columns [OF assms(1)] stream_columns [OF assms(1)] stats_columns [OF assms(1)]
      debug_columns [OF assms(1)] help_rows_columns [OF w(1)]
    by (auto simp: model_View_def)
qed

lemma plain_example: "plain_model (\<lambda>_. ''1.5'') (start_view\<lparr>tm_width := 80\<rparr>)"
proof -
  have "esc_free (runes [])" "length (runes []) = 0" by (simp_all add: runes_def decode_runes.simps [of "[]"])
  moreover have "runes (formatCodecDisplay (\<lambda>_. ''1.5'') [] 0 0) = asc '' 0kHz/0bit''" by code_simp
  moreover have "show_int 0 = ''0''" by code_simp
  ultimately show ?thesis
    by (simp add: plain_model_def start_view_def NewModel_def fits_def view_inner_def view_width_def
        state_text_def stats_text_def playbackStateDisplay_def sync_display_def esc_in_asc)
qed

end
