(* ===== verification/Server_Tui.thy ===== *)
theory Server_Tui
  imports Audio_Sources "HOL-Library.Sublist"
begin

text \<open>
  The terminal interface of the server, \<open>internal/server/tui.go\<close>: the model and its view, the
  channel of status updates, and what \<open>cmd/sendspin-server/main.go\<close> puts into it. \<open>None\<close> is a panic.
\<close>

section \<open>The model\<close>

record tui_client =
  tc_Name :: string
  tc_ID :: string
  tc_Codec :: string
  tc_State :: string

record ServerStatus =
  ss_Name :: string
  ss_Port :: int
  ss_Uptime :: int
  ss_Clients :: "tui_client list"
  ss_AudioTitle :: string

record tuiModel =
  tu_status :: ServerStatus
  tu_quitting :: bool
  tu_quitChan :: "unit chan"

datatype tui_message = KeyPressed string | TickMsg | StatusUpdate ServerStatus | OtherMessage

datatype tui_command = NoCommand | NextTick | QuitProgram

definition tui_Update :: "tui_message \<Rightarrow> tuiModel \<Rightarrow> tuiModel \<times> tui_command" where
  "tui_Update msg m =
     (case msg of
        KeyPressed key \<Rightarrow>
          if key = ''q'' \<or> key = ''ctrl+c''
          then (m\<lparr>tu_quitting := True,
                  tu_quitChan := (case chan_offer () (tu_quitChan m) of None \<Rightarrow> tu_quitChan m | Some c \<Rightarrow> c)\<rparr>,
                QuitProgram)
          else (m, NoCommand)
      | TickMsg \<Rightarrow> (m, NextTick)
      | StatusUpdate st \<Rightarrow> (m\<lparr>tu_status := st\<rparr>, NoCommand)
      | OtherMessage \<Rightarrow> (m, NoCommand))"

definition initial_status :: "string \<Rightarrow> int \<Rightarrow> ServerStatus" where
  "initial_status name port =
     \<lparr>ss_Name = name, ss_Port = port, ss_Uptime = 0, ss_Clients = [], ss_AudioTitle = ''Initializing...''\<rparr>"

section \<open>The view\<close>

text \<open>
  What a style of \<open>lipgloss\<close> makes of a text is the parameter \<open>render\<close>. The running time is in
  nanoseconds; \<open>uptime_text\<close> is \<open>Round (time.Second)\<close> and \<open>String\<close> of a duration that is not negative.
\<close>

datatype tui_style = TitleStyle | HeaderStyle | ValueStyle | ClientHeaderStyle | FaintStyle

definition newline :: string where "newline = [CHR 0x0A]"

definition bullet :: string where "bullet = [CHR 0xE2, CHR 0x80, CHR 0xA2]"

definition quoted_q :: string where "quoted_q = [CHR 0x27, CHR ''q'', CHR 0x27]"

definition uptime_text :: "int \<Rightarrow> string" where
  "uptime_text d =
     (let s = (d + 500000000) div 1000000000; h = s div 3600; m = s div 60 mod 60
      in (if 0 < h then show_int h @ ''h'' else []) @
         (if 0 < h \<or> 0 < m then show_int m @ ''m'' else []) @ show_int (s mod 60) @ ''s'')"

definition client_line :: "(tui_style \<Rightarrow> string \<Rightarrow> string) \<Rightarrow> tui_client \<Rightarrow> string" where
  "client_line render c =
     ''  '' @ bullet @ '' '' @ tc_Name c @
     render ValueStyle ('' ('' @ tc_Codec c @ '', '' @ tc_State c @ '')'') @ newline"

definition tui_View :: "(tui_style \<Rightarrow> string \<Rightarrow> string) \<Rightarrow> int \<Rightarrow> tuiModel \<Rightarrow> string" where
  "tui_View render elapsed m =
     (let st = tu_status m
      in if tu_quitting m then ''Shutting down server...'' @ newline
         else
           render TitleStyle ''Sendspin Server'' @ newline @ newline @
           render HeaderStyle ''Server: '' @ render ValueStyle (ss_Name st) @ newline @
           render HeaderStyle ''Port: '' @ render ValueStyle (show_int (ss_Port st)) @ newline @
           render HeaderStyle ''Uptime: '' @ render ValueStyle (uptime_text elapsed) @ newline @
           render HeaderStyle ''Playing: '' @ render ValueStyle (ss_AudioTitle st) @ newline @ newline @
           render ClientHeaderStyle (''Connected Clients ('' @ show_int (int (length (ss_Clients st))) @ '')'') @
           newline @ newline @
           (if ss_Clients st = [] then render ValueStyle ''  No clients connected'' @ newline
            else concat (map (client_line render) (ss_Clients st))) @
           newline @ render FaintStyle (''Press '' @ quoted_q @ '' or Ctrl+C to quit''))"

section \<open>The handle\<close>

text \<open>\<open>tt_shown\<close> is what the forwarding goroutine has passed to the program.\<close>

record ServerTUI =
  tt_updates :: "ServerStatus chan"
  tt_stopped :: bool
  tt_shown :: "ServerStatus list"

definition NewServerTUI :: ServerTUI where
  "NewServerTUI = \<lparr>tt_updates = make_chan 10, tt_stopped = False, tt_shown = []\<rparr>"

text \<open>\<open>Update\<close> and the first part of \<open>Stop\<close> run under the mutex; \<open>Stop\<close> closes the channel after it.\<close>

definition handle_Update :: "ServerStatus \<Rightarrow> ServerTUI \<Rightarrow> ServerTUI option" where
  "handle_Update status t =
     (if tt_stopped t then Some t
      else if chan_closed (tt_updates t) then None
      else Some (case chan_offer status (tt_updates t) of None \<Rightarrow> t | Some c \<Rightarrow> t\<lparr>tt_updates := c\<rparr>))"

definition stop_mark :: "ServerTUI \<Rightarrow> ServerTUI" where
  "stop_mark t = t\<lparr>tt_stopped := True\<rparr>"

definition stop_close :: "ServerTUI \<Rightarrow> ServerTUI option" where
  "stop_close t =
     (if chan_closed (tt_updates t) then None
      else Some (t\<lparr>tt_updates := (tt_updates t)\<lparr>chan_closed := True\<rparr>\<rparr>))"

definition forward :: "ServerTUI \<Rightarrow> ServerTUI" where
  "forward t =
     (case chan_take (tt_updates t) of None \<Rightarrow> t | Some (st, c) \<Rightarrow> t\<lparr>tt_updates := c, tt_shown := tt_shown t @ [st]\<rparr>)"

text \<open>
  The goroutines: the ticker of \<open>main\<close> updates, the forwarding goroutine receives, and \<open>Stop\<close>, which
  \<open>main\<close> calls once, marks and then closes.
\<close>

datatype tui_event = TickerUpdate ServerStatus | Forward | Mark | CloseUpdates

fun tui_do :: "tui_event \<Rightarrow> ServerTUI \<Rightarrow> ServerTUI option" where
  "tui_do (TickerUpdate st) t = handle_Update st t"
| "tui_do Forward t = Some (forward t)"
| "tui_do Mark t = Some (stop_mark t)"
| "tui_do CloseUpdates t = stop_close t"

fun tui_run :: "tui_event list \<Rightarrow> ServerTUI \<Rightarrow> ServerTUI option" where
  "tui_run [] t = Some t"
| "tui_run (e # es) t = (case tui_do e t of None \<Rightarrow> None | Some t \<Rightarrow> tui_run es t)"

text \<open>One call of \<open>Stop\<close>: the mark before the close, each at most once.\<close>

fun one_stop :: "bool \<Rightarrow> bool \<Rightarrow> tui_event list \<Rightarrow> bool" where
  "one_stop marked shut [] \<longleftrightarrow> True"
| "one_stop marked shut (Mark # es) \<longleftrightarrow> \<not> marked \<and> one_stop True shut es"
| "one_stop marked shut (CloseUpdates # es) \<longleftrightarrow> marked \<and> \<not> shut \<and> one_stop marked True es"
| "one_stop marked shut (e # es) \<longleftrightarrow> one_stop marked shut es"

section \<open>What main shows\<close>

definition audio_title :: "string \<times> string \<times> string \<Rightarrow> string" where
  "audio_title meta =
     (case meta of (title, artist, album) \<Rightarrow>
        if artist \<noteq> [] \<and> artist \<noteq> ''Unknown Artist'' then artist @ '' - '' @ title else title)"

definition updateTUI :: "string \<Rightarrow> int \<Rightarrow> tui_client list \<Rightarrow> string \<times> string \<times> string \<Rightarrow> ServerStatus" where
  "updateTUI name port clients meta =
     \<lparr>ss_Name = name, ss_Port = port, ss_Uptime = 0, ss_Clients = clients, ss_AudioTitle = audio_title meta\<rparr>"

lemma stream_titles_doubled:
  "hs_title s = ''HTTP Stream'' \<Longrightarrow> audio_title (http_Metadata s) = ''HTTP Stream - HTTP Stream''"
  "audio_title (mp3_Metadata (NewM\<lparr>ms_artist := ''Unknown Artist''\<rparr>)) = ms_title NewM"
  by (simp_all add: audio_title_def http_Metadata_def mp3_Metadata_def)

section \<open>No send on a closed channel\<close>

lemma handle_Update_returns:
  assumes "chan_closed (tt_updates t) \<longrightarrow> tt_stopped t"
  shows "\<exists>t'. handle_Update st t = Some t' \<and> tt_stopped t' = tt_stopped t \<and>
    chan_closed (tt_updates t') = chan_closed (tt_updates t)"
proof (cases "tt_stopped t \<or> chan_offer st (tt_updates t) = None")
  case True
  with assms show ?thesis by (auto simp: handle_Update_def)
next
  case False
  then obtain c where c: "chan_offer st (tt_updates t) = Some c" by blast
  then have "chan_closed c = chan_closed (tt_updates t)" by (auto simp: chan_offer_Some chan_put_def)
  with False c assms show ?thesis by (intro exI [of _ "t\<lparr>tt_updates := c\<rparr>"]) (simp add: handle_Update_def)
qed

text \<open>
  With one call of \<open>Stop\<close> no interleaving of the ticker, the forwarding goroutine and the stop panics;
  a second \<open>Stop\<close> would close the channel again.
\<close>

theorem server_tui_never_panics:
  assumes "one_stop (tt_stopped t) (chan_closed (tt_updates t)) es"
    and "chan_closed (tt_updates t) \<longrightarrow> tt_stopped t"
  shows "\<exists>t'. tui_run es t = Some t'"
  using assms
proof (induction es arbitrary: t)
  case (Cons e es)
  show ?case
  proof (cases e)
    case (TickerUpdate st)
    from handle_Update_returns [OF Cons.prems(2)] obtain t' where t': "handle_Update st t = Some t'"
        "tt_stopped t' = tt_stopped t" "chan_closed (tt_updates t') = chan_closed (tt_updates t)" by blast
    with Cons.IH [of t'] Cons.prems TickerUpdate show ?thesis by simp
  next
    case Forward
    have "tt_stopped (forward t) = tt_stopped t" "chan_closed (tt_updates (forward t)) = chan_closed (tt_updates t)"
      by (auto simp: forward_def chan_take_def split: option.splits list.splits)
    with Cons.IH [of "forward t"] Cons.prems Forward show ?thesis by simp
  next
    case Mark
    with Cons.IH [of "stop_mark t"] Cons.prems show ?thesis by (simp add: stop_mark_def)
  next
    case CloseUpdates
    from Cons.prems(1) have "tt_stopped t \<and> \<not> chan_closed (tt_updates t) \<and> one_stop (tt_stopped t) True es"
      unfolding CloseUpdates one_stop.simps .
    then have stop: "tt_stopped t = True" "\<not> chan_closed (tt_updates t)" and "one_stop (tt_stopped t) True es"
      by iprover+
    from this(3) have "one_stop True True es" by (simp only: stop(1))
    with stop Cons.IH [of "t\<lparr>tt_updates := (tt_updates t)\<lparr>chan_closed := True\<rparr>\<rparr>"] CloseUpdates
    show ?thesis by (simp add: stop_close_def)
  qed
qed simp

lemma second_stop_panics: "tui_run [Mark, CloseUpdates, CloseUpdates] NewServerTUI = None"
  by (simp add: NewServerTUI_def stop_mark_def stop_close_def)

section \<open>What is shown\<close>

fun ticker_updates :: "tui_event list \<Rightarrow> ServerStatus list" where
  "ticker_updates [] = []"
| "ticker_updates (TickerUpdate st # es) = st # ticker_updates es"
| "ticker_updates (_ # es) = ticker_updates es"

definition handed_on :: "ServerTUI \<Rightarrow> ServerStatus list" where
  "handed_on t = tt_shown t @ chan_buf (tt_updates t)"

lemma handle_Update_keeps:
  "handle_Update st t = Some t' \<Longrightarrow> handed_on t' = handed_on t \<or> handed_on t' = handed_on t @ [st]"
  by (auto simp: handed_on_def handle_Update_def chan_offer_Some chan_put_def split: if_splits option.splits)

lemma forward_keeps: "handed_on (forward t) = handed_on t"
  by (simp add: handed_on_def forward_def chan_take_def split: option.splits list.splits)

lemma tui_run_hands_on:
  "tui_run es t = Some t' \<Longrightarrow> \<exists>new. handed_on t' = handed_on t @ new \<and> subseq new (ticker_updates es)"
proof (induction es arbitrary: t)
  case (Cons e es)
  from Cons.prems obtain u where u: "tui_do e t = Some u" "tui_run es u = Some t'"
    by (auto split: option.splits)
  from Cons.IH [OF u(2)] obtain new where new: "handed_on t' = handed_on u @ new" "subseq new (ticker_updates es)"
    by blast
  show ?case
  proof (cases e)
    case (TickerUpdate st)
    with u(1) handle_Update_keeps [of st t u]
    have "handed_on u = handed_on t \<or> handed_on u = handed_on t @ [st]" by simp
    then show ?thesis
    proof
      assume "handed_on u = handed_on t"
      with new TickerUpdate show ?thesis by (intro exI [of _ new]) auto
    next
      assume "handed_on u = handed_on t @ [st]"
      with new TickerUpdate show ?thesis by (intro exI [of _ "st # new"]) auto
    qed
  next
    case Forward
    with u(1) forward_keeps [of t] have "handed_on u = handed_on t" by simp
    with new Forward show ?thesis by auto
  next
    case Mark
    with u(1) have "handed_on u = handed_on t" by (auto simp: handed_on_def stop_mark_def)
    with new Mark show ?thesis by auto
  next
    case CloseUpdates
    with u(1) have "handed_on u = handed_on t" by (auto simp: handed_on_def stop_close_def split: if_splits)
    with new CloseUpdates show ?thesis by auto
  qed
qed simp

lemma subseq_prefix: "subseq xs (xs @ ys)"
  by (induction xs) simp_all

text \<open>What reaches the program are updates of the ticker, in order and each at most once.\<close>

theorem server_tui_shows_in_order:
  assumes "tui_run es NewServerTUI = Some t"
  shows "subseq (tt_shown t) (ticker_updates es)"
proof -
  from tui_run_hands_on [OF assms] obtain new where new: "handed_on t = new" "subseq new (ticker_updates es)"
    by (auto simp: NewServerTUI_def handed_on_def)
  have "subseq (tt_shown t) (handed_on t)" unfolding handed_on_def by (rule subseq_prefix)
  with new show ?thesis by (metis subseq_order.trans)
qed

text \<open>The view of the last status that the program received, unless a key ended it.\<close>

fun last_status :: "ServerStatus \<Rightarrow> tui_message list \<Rightarrow> ServerStatus" where
  "last_status st [] = st"
| "last_status st (StatusUpdate st' # ms) = last_status st' ms"
| "last_status st (_ # ms) = last_status st ms"

definition quit_key :: "tui_message \<Rightarrow> bool" where
  "quit_key msg \<longleftrightarrow> msg = KeyPressed ''q'' \<or> msg = KeyPressed ''ctrl+c''"

lemma tui_Update_facts:
  "tu_status (fst (tui_Update msg m)) = last_status (tu_status m) [msg]"
  "tu_quitting (fst (tui_Update msg m)) \<longleftrightarrow> tu_quitting m \<or> quit_key msg"
  "snd (tui_Update msg m) = QuitProgram \<longleftrightarrow> quit_key msg"
  by (cases msg; simp add: tui_Update_def quit_key_def)+

lemma last_status_snoc: "last_status st (ms @ [msg]) = last_status (last_status st ms) [msg]"
  by (induction st ms rule: last_status.induct) simp_all

definition tui_updates :: "tui_message list \<Rightarrow> tuiModel \<Rightarrow> tuiModel" where
  "tui_updates ms = fold (\<lambda>msg m. fst (tui_Update msg m)) ms"

lemma tui_updates_snoc: "tui_updates (ms @ [msg]) m = fst (tui_Update msg (tui_updates ms m))"
  "tui_updates [] m = m"
  by (simp_all add: tui_updates_def)

lemma tui_fold_facts:
  "tu_status (tui_updates ms m) = last_status (tu_status m) ms"
  "tu_quitting (tui_updates ms m) \<longleftrightarrow> tu_quitting m \<or> (\<exists>msg \<in> set ms. quit_key msg)"
  by (induction ms rule: rev_induct) (auto simp: tui_updates_snoc tui_Update_facts last_status_snoc)

lemma tui_View_status:
  "tu_status m = tu_status m' \<Longrightarrow> \<not> tu_quitting m \<Longrightarrow> \<not> tu_quitting m' \<Longrightarrow>
   tui_View render elapsed m = tui_View render elapsed m'"
  by (simp only: tui_View_def if_False)

theorem server_view_shows_last_status:
  "tui_View render elapsed (tui_updates ms m) =
     (if tu_quitting m \<or> (\<exists>msg \<in> set ms. quit_key msg) then ''Shutting down server...'' @ newline
      else tui_View render elapsed (m\<lparr>tu_quitting := False, tu_status := last_status (tu_status m) ms\<rparr>))"
proof (cases "tu_quitting m \<or> (\<exists>msg \<in> set ms. quit_key msg)")
  case True
  then have "tu_quitting (tui_updates ms m)" by (simp only: tui_fold_facts)
  then have "tui_View render elapsed (tui_updates ms m) = ''Shutting down server...'' @ newline"
    by (simp only: tui_View_def Let_def if_True)
  with True show ?thesis by (simp only: if_True)
next
  case False
  then have "\<not> tu_quitting (tui_updates ms m)" by (simp only: tui_fold_facts) simp
  then have "tui_View render elapsed (tui_updates ms m) =
      tui_View render elapsed (m\<lparr>tu_quitting := False, tu_status := last_status (tu_status m) ms\<rparr>)"
    by (intro tui_View_status) (simp_all add: tui_fold_facts)
  with False show ?thesis by (simp only: if_False)
qed

end
