(* ===== verification/Program_Start.thy ===== *)
theory Program_Start
  imports Client_Id Player_Model Discovery Audio_Sources Stream_Constants
begin

text \<open>
  How the two programs start: \<open>main\<close> of \<open>main.go\<close> up to the creation of the player, and of
  \<open>cmd/sendspin-server/main.go\<close> up to the creation of the server. Flags come from the command line,
  the environment and the configuration file; what is persisted is written on the way.
\<close>

section \<open>Flags\<close>

text \<open>\<open>flag.Parse\<close>: the values that the command line gives.\<close>

definition parsed_flags :: "(string \<rightharpoonup> flag_value) \<Rightarrow> flag_value Flag list \<Rightarrow> flag_value Flag list" where
  "parsed_flags args = map (\<lambda>f. case args (fg_Name f) of None \<Rightarrow> f | Some v \<Rightarrow> f\<lparr>fg_Value := v\<rparr>)"

definition given :: "(string \<rightharpoonup> flag_value) \<Rightarrow> string \<Rightarrow> bool" where
  "given args name \<longleftrightarrow> args name \<noteq> None"

definition flag_named :: "string \<Rightarrow> flag_value Flag list \<Rightarrow> flag_value option" where
  "flag_named name fs = map_option fg_Value (find (\<lambda>f. fg_Name f = name) fs)"

definition string_flag :: "string \<Rightarrow> flag_value Flag list \<Rightarrow> string" where
  "string_flag name fs = (case flag_named name fs of Some (StringFlag s) \<Rightarrow> s | _ \<Rightarrow> [])"

definition int_flag :: "string \<Rightarrow> flag_value Flag list \<Rightarrow> int" where
  "int_flag name fs = (case flag_named name fs of Some (IntFlag i) \<Rightarrow> i | _ \<Rightarrow> 0)"

definition bool_flag :: "string \<Rightarrow> flag_value Flag list \<Rightarrow> bool" where
  "bool_flag name fs = (case flag_named name fs of Some (BoolFlag b) \<Rightarrow> b | _ \<Rightarrow> False)"

section \<open>What both programs decide\<close>

datatype log_destination = LogStdout | LogFileOnly string | LogBoth string

text \<open>Where the log goes, given whether the program is a daemon, has an interface, and its log file.\<close>

definition log_target :: "bool \<Rightarrow> bool \<Rightarrow> string \<Rightarrow> log_destination" where
  "log_target daemon useTUI logFile =
     (if daemon then LogStdout else if useTUI then LogFileOnly logFile else LogBoth logFile)"

text \<open>The file that the choice opens.\<close>

fun log_path :: "log_destination \<Rightarrow> string option" where
  "log_path LogStdout = None"
| "log_path (LogFileOnly f) = Some f"
| "log_path (LogBoth f) = Some f"

definition program_name :: "string + string \<Rightarrow> string \<Rightarrow> string \<Rightarrow> string" where
  "program_name hostname ending name =
     (if name = [] then (case hostname of Inl e \<Rightarrow> ''unknown'' | Inr h \<Rightarrow> h) @ ending else name)"

section \<open>The player\<close>

definition version_Version :: string where "version_Version = ''1.6.3''"
definition version_Product :: string where "version_Product = ''Sendspin Go Player''"
definition version_Manufacturer :: string where "version_Manufacturer = ''sendspin-go''"

definition player_useTUI :: "flag_value Flag list \<Rightarrow> bool" where
  "player_useTUI fs \<longleftrightarrow>
     \<not> (bool_flag ''no-tui'' fs \<or> bool_flag ''stream-logs'' fs \<or> bool_flag ''daemon'' fs)"

definition in_quotes :: "string \<Rightarrow> string" where
  "in_quotes s = CHR 0x22 # s @ [CHR 0x22]"

text \<open>The lines of \<open>printPlaybackDevices\<close>; \<open>quote\<close> is \<open>%q\<close>.\<close>

definition printPlaybackDevices :: "(string \<Rightarrow> string) \<Rightarrow> string + PlaybackDevice list \<Rightarrow> string + string list" where
  "printPlaybackDevices quote devices =
     (case devices of Inl e \<Rightarrow> Inl e
      | Inr ds \<Rightarrow> Inr
          (if ds = [] then [''No playback devices found.'']
           else [''Playback devices:''] @
             map (\<lambda>d. ''  '' @ (if dev_IsDefault d then ''[*]'' else ''[ ]'') @ '' '' @ quote (dev_Name d)) ds @
             ['''', ''[*] = current default. Use --audio-device '' @ in_quotes ''<name>'' @
                '' or set audio_device: in player.yaml.'',
              ''On Linux, miniaudio names look like '' @ in_quotes ''<short>, <description>'' @
                ''; either the full name or just the short part before the comma will match.'']))"

text \<open>
  What the program finds outside: the environment, the user's configuration directory, the results
  of system calls, the interfaces and the id generated at need, the host name, the errors of
  opening the log file and of the interface, and the first server that answers, if not a signal.
\<close>

record 'b launch_env =
  le_env :: "string \<Rightarrow> string option"
  le_dir :: "string + string"
  le_bad :: "string option"
  le_io :: "'b os_io"
  le_ifaces :: "Interface list"
  le_generated :: string
  le_hostname :: "string + string"
  le_log :: "string \<Rightarrow> string option"
  le_tui :: "string option"
  le_answer :: "ServerInfo option"
  le_devices :: "string + PlaybackDevice list"

record launch =
  la_log :: log_destination
  la_tui :: "(string \<times> string) option"
  la_discovery :: "disc_config option"
  la_config :: "unit PlayerConfig"
  la_rediscover :: bool

datatype launch_result =
    ListedDevices "string + string list"
  | ConfigUnreadable config_error
  | OverlayFailed overlay_error
  | LogUnopened string
  | InterfaceFailed string
  | StoppedBySignal
  | Launched launch

definition player_discovery :: "flag_value Flag list \<Rightarrow> string \<Rightarrow> disc_config option" where
  "player_discovery fs playerName =
     (if string_flag ''server'' fs = []
      then Some \<lparr>dc_ServiceName = playerName, dc_Port = int_flag ''port'' fs, dc_ServerMode = False\<rparr>
      else None)"

definition server_address :: "flag_value Flag list \<Rightarrow> ServerInfo option \<Rightarrow> string option" where
  "server_address fs answer =
     (if string_flag ''server'' fs = [] then map_option server_addr answer else Some (string_flag ''server'' fs))"

definition player_config :: "flag_value Flag list \<Rightarrow> string \<Rightarrow> string \<Rightarrow> string \<Rightarrow> unit PlayerConfig" where
  "player_config fs serverAddress playerName clientID =
     \<lparr>pf_ServerAddr = serverAddress, pf_PlayerName = playerName, pf_Volume = 100,
      pf_BufferMs = int_flag ''buffer-ms'' fs, pf_StaticDelayMs = int_flag ''static-delay-ms'' fs,
      pf_PreferredCodec = string_flag ''preferred-codec'' fs, pf_BufferCapacity = int_flag ''buffer-capacity'' fs,
      pf_ClientID = clientID, pf_AudioDevice = string_flag ''audio-device'' fs,
      pf_MaxSampleRate = int_flag ''max-sample-rate'' fs, pf_MaxBitDepth = int_flag ''max-bit-depth'' fs,
      pf_DeviceInfo =
        \<lparr>di_ProductName = (if string_flag ''product-name'' fs \<noteq> [] then string_flag ''product-name'' fs else version_Product),
         di_Manufacturer = (if string_flag ''manufacturer'' fs \<noteq> [] then string_flag ''manufacturer'' fs else version_Manufacturer),
         di_SoftwareVersion = version_Version\<rparr>,
      pf_CustomOutput = False, pf_DecoderFactory = None,
      pf_Reconnect = \<lparr>rn_Enabled = \<not> bool_flag ''no-reconnect'' fs, rn_InitialDelay = 0, rn_MaxDelay = 0,
        rn_Multiplier = Fin 0, rn_MaxAttempts = 0\<rparr>\<rparr>"

text \<open>The part after the overlay: log file, interface, discovery, then the id and the static delay.\<close>

definition launch_player ::
  "('b, PlayerConfigFile) yaml_ops \<Rightarrow> 'b launch_env \<Rightarrow> bool \<Rightarrow> PlayerConfigFile option \<Rightarrow> string \<Rightarrow>
   flag_value Flag list \<Rightarrow> (string \<rightharpoonup> 'b) \<Rightarrow> launch_result \<times> (string \<rightharpoonup> 'b)" where
  "launch_player ym w delayGiven cfg loaded fs files =
     (let target = log_target (bool_flag ''daemon'' fs) (player_useTUI fs) (string_flag ''log-file'' fs);
          playerName = program_name (le_hostname w) ''-sendspin-player'' (string_flag ''name'' fs);
          tui = (if player_useTUI fs
                 then Some (case persist_path (le_dir w) loaded of None \<Rightarrow> [] | Some p \<Rightarrow> p, string_flag ''audio-device'' fs)
                 else None);
          disc = player_discovery fs playerName
      in case Option.bind (log_path target) (le_log w) of
           Some e \<Rightarrow> (LogUnopened e, files)
         | None \<Rightarrow>
             (case if tui = None then None else le_tui w of
                Some e \<Rightarrow> (InterfaceFailed e, files)
              | None \<Rightarrow>
                  (case server_address fs (le_answer w) of
                     None \<Rightarrow> (StoppedBySignal, files)
                   | Some addr \<Rightarrow>
                       (case resolveClientID ym (le_bad w) (le_io w) (le_dir w) (le_ifaces w) (le_generated w)
                               (string_flag ''client-id'' fs) cfg loaded files of
                          (cid, files) \<Rightarrow>
                            (Launched \<lparr>la_log = target, la_tui = tui, la_discovery = disc,
                               la_config = player_config fs addr playerName cid,
                               la_rediscover = (\<not> bool_flag ''no-reconnect'' fs \<and> disc \<noteq> None)\<rparr>,
                             if delayGiven
                             then persistStaticDelay ym (le_bad w) (le_io w) (le_dir w) (int_flag ''static-delay-ms'' fs)
                                    cfg loaded files
                             else files)))))"

definition player_main ::
  "('b, PlayerConfigFile) yaml_ops \<Rightarrow> (string \<Rightarrow> string) \<Rightarrow> 'b launch_env \<Rightarrow> (string \<rightharpoonup> flag_value) \<Rightarrow>
   (string \<rightharpoonup> 'b) \<Rightarrow> launch_result \<times> (string \<rightharpoonup> 'b)" where
  "player_main ym quote w args files =
     (let flags = parsed_flags args player_flags;
          setByUser = player_setByUser (given args)
      in if bool_flag ''list-audio-devices'' flags
         then (ListedDevices (printPlaybackDevices quote (le_devices w)), files)
         else case load_config (read_file (le_bad w) files) (ym_Decode ym)
                     (playerConfigSearchPaths (le_env w) (le_dir w) (string_flag ''config'' flags)) of
           (cfg, loaded, Some e) \<Rightarrow> (ConfigUnreadable e, files)
         | (cfg, loaded, None) \<Rightarrow>
             (case ApplyEnvAndFile set_flag setByUser ''SENDSPIN_PLAYER_'' (le_env w) (player_AsStringMap cfg) flags of
                (Some e, fs) \<Rightarrow> (OverlayFailed e, files)
              | (None, fs) \<Rightarrow> launch_player ym w (setByUser ''static-delay-ms'') cfg loaded fs files))"

section \<open>The server\<close>

datatype server_source = DefaultTone TestToneSource | SourceOf source_kind

record server_launch =
  sl_Port :: int
  sl_Name :: string
  sl_Source :: server_source
  sl_EnableMDNS :: bool
  sl_Debug :: bool
  sl_DiscoverClients :: bool
  sl_log :: log_destination
  sl_tui :: bool

datatype server_start =
    ServerConfigUnreadable config_error
  | ServerOverlayFailed overlay_error
  | ServerLogUnopened string
  | SourceFailed open_error
  | ServerCreated server_launch

definition server_main ::
  "('b, ServerConfigFile) yaml_ops \<Rightarrow> (string \<Rightarrow> string option) \<Rightarrow> string + string \<Rightarrow> string option \<Rightarrow>
   string + string \<Rightarrow> (string \<Rightarrow> string option) \<Rightarrow> (string \<Rightarrow> open_error + source_kind) \<Rightarrow>
   (string \<rightharpoonup> flag_value) \<Rightarrow> (string \<rightharpoonup> 'b) \<Rightarrow> server_start" where
  "server_main ym env dir bad hostname log_open open_source args files =
     (let flags = parsed_flags args server_flags
      in case load_config (read_file bad files) (ym_Decode ym)
                (serverConfigSearchPaths env dir (string_flag ''config'' flags)) of
           (cfg, loaded, Some e) \<Rightarrow> ServerConfigUnreadable e
         | (cfg, loaded, None) \<Rightarrow>
             (case ApplyEnvAndFile set_flag (server_setByUser (given args)) ''SENDSPIN_SERVER_'' env
                     (server_AsStringMap cfg) flags of
                (Some e, fs) \<Rightarrow> ServerOverlayFailed e
              | (None, fs) \<Rightarrow>
                  let useTUI = (\<not> (bool_flag ''no-tui'' fs \<or> bool_flag ''daemon'' fs));
                      target = log_target (bool_flag ''daemon'' fs) useTUI (string_flag ''log-file'' fs)
                  in case Option.bind (log_path target) log_open of
                       Some e \<Rightarrow> ServerLogUnopened e
                     | None \<Rightarrow>
                         (case if string_flag ''audio'' fs = []
                               then Inr (DefaultTone (NewTestTone DefaultSampleRate DefaultChannels))
                               else (case open_source (string_flag ''audio'' fs) of
                                       Inl e \<Rightarrow> Inl e | Inr k \<Rightarrow> Inr (SourceOf k)) of
                            Inl e \<Rightarrow> SourceFailed e
                          | Inr source \<Rightarrow>
                              ServerCreated \<lparr>sl_Port = int_flag ''port'' fs,
                                sl_Name = program_name hostname ''-sendspin-server'' (string_flag ''name'' fs),
                                sl_Source = source, sl_EnableMDNS = (\<not> bool_flag ''no-mdns'' fs),
                                sl_Debug = bool_flag ''debug'' fs,
                                sl_DiscoverClients = bool_flag ''discover-clients'' fs,
                                sl_log = target, sl_tui = useTUI\<rparr>)))"

section \<open>One file or none\<close>

text \<open>A daemon writes no log file and shows no interface, and an interface never shares the terminal with the log.\<close>

lemma log_targets:
  "bool_flag ''daemon'' fs \<Longrightarrow> log_path (log_target (bool_flag ''daemon'' fs) tui f) = None \<and> \<not> player_useTUI fs"
  "player_useTUI fs \<Longrightarrow> log_target (bool_flag ''daemon'' fs) (player_useTUI fs) f = LogFileOnly f"
  by (auto simp: log_target_def player_useTUI_def)

section \<open>A static delay stays\<close>

text \<open>What is used of the YAML library besides \<open>yaml_ok\<close>: an integer scalar decodes to its value.\<close>

definition yaml_delay :: "('b, PlayerConfigFile) yaml_ops \<Rightarrow> (string \<Rightarrow> int option) \<Rightarrow> bool" where
  "yaml_delay ym int_of \<longleftrightarrow>
     (\<forall>data c. ym_Decode ym data = Inr c \<longrightarrow>
        (\<exists>root. ym_Unmarshal ym data = Inr root \<and>
           cp_StaticDelayMs c = (case top_scalar root ''static_delay_ms'' of None \<Rightarrow> None | Some s \<Rightarrow> int_of s))) \<and>
     (\<forall>v. - (2 ^ 63) \<le> v \<and> v < 2 ^ 63 \<longrightarrow> int_of (show_int v) = Some v)"

definition document :: "('b, PlayerConfigFile) yaml_ops \<Rightarrow> (string \<rightharpoonup> 'b) \<Rightarrow> string \<Rightarrow> (string \<rightharpoonup> string) \<Rightarrow> bool" where
  "document ym files p keys \<longleftrightarrow> (\<exists>root. old_document ym files p = Inr root \<and> top_scalar root = keys)"

definition rewritten :: "string \<Rightarrow> (string \<rightharpoonup> 'b) \<Rightarrow> (string \<rightharpoonup> 'b) \<Rightarrow> bool" where
  "rewritten p files files' \<longleftrightarrow> (\<exists>data. files' = (files(p @ ''.tmp'' := None))(p \<mapsto> data))"

lemma rewritten_trans: "rewritten p a b \<Longrightarrow> rewritten p b c \<Longrightarrow> rewritten p a c"
  by (auto simp: rewritten_def fun_eq_iff)

lemma write_document:
  assumes "yaml_ok ym" "document ym files p keys"
  shows "rewritten p files (snd (writeScalarKey ym None good_io p key val tag files))"
    and "document ym (snd (writeScalarKey ym None good_io p key val tag files)) p (keys(key \<mapsto> val))"
proof -
  obtain root where root: "old_document ym files p = Inr root" "top_scalar root = keys"
    using assms(2) by (auto simp: document_def)
  define files' where "files' = snd (writeScalarKey ym None good_io p key val tag files)"
  have "writeScalarKey ym None good_io p key val tag files = (None, files')"
    using write_succeeds [OF assms(1) root(1), of key val tag] by (simp add: files'_def prod_eq_iff)
  from writeScalarKey_None [OF assms(1) this] root(1) obtain data root' where w: "well_paired root"
    "files' = (files(p @ ''.tmp'' := None))(p \<mapsto> data)" "ym_Unmarshal ym data = Inr root'"
    "top_scalar root' = top_scalar (written_document key val tag root)" by auto
  from w(2) show "rewritten p files (snd (writeScalarKey ym None good_io p key val tag files))"
    unfolding files'_def [symmetric] rewritten_def by blast
  have "old_document ym files' p = Inr root'" using w(2,3) by (simp add: old_document_def)
  moreover have "top_scalar root' = keys(key \<mapsto> val)"
    using w(4) top_scalar_written [OF w(1)] root(2) by (auto simp: fun_eq_iff)
  ultimately show "document ym (snd (writeScalarKey ym None good_io p key val tag files)) p (keys(key \<mapsto> val))"
    unfolding files'_def [symmetric] document_def by blast
qed

text \<open>What the choice of the id does to the files.\<close>

lemma resolve_writes:
  assumes "persist_path dir loaded = Some p" "resolveClientID ym None good_io dir ifaces g override cfg loaded files = (cid, files')"
  shows "files' = files \<or> files' = snd (WriteStringKey ym None good_io p ''client_id'' cid files)"
  using assms
  by (auto simp: resolveClientID_def ResolveClientID_def tryPersist_def Let_def split: if_splits option.splits)

lemma delay_in_document:
  assumes "yaml_ok ym" "yaml_delay ym int_of" "- (2 ^ 63) \<le> v" "v < 2 ^ 63" "dir = Inr d" "persist_path dir loaded = Some p"
    and "document ym files p keys" "cfg = None \<longrightarrow> keys = Map.empty"
    and "\<And>c. cfg = Some c \<Longrightarrow> cp_StaticDelayMs c = Option.bind (keys ''static_delay_ms'') int_of"
    and id: "resolveClientID ym None good_io dir ifaces g override cfg loaded files = (cid, files1)"
    and delay: "files2 = persistStaticDelay ym None good_io dir v cfg loaded files1"
  shows "(files2 = files \<and> (\<exists>c. cfg = Some c \<and> cp_StaticDelayMs c = Some v)) \<or>
    rewritten p files files2 \<and> (\<exists>keys s. document ym files2 p keys \<and> keys ''static_delay_ms'' = Some s \<and> int_of s = Some v)"
proof -
  have v: "int_of (show_int v) = Some v" using assms(2-4) by (simp add: yaml_delay_def)
  obtain keys1 where one: "files1 = files \<or> rewritten p files files1" "document ym files1 p keys1"
    "keys1 ''static_delay_ms'' = keys ''static_delay_ms''"
    using resolve_writes [OF assms(6) id]
  proof
    assume "files1 = files"
    with assms(7) that show ?thesis by blast
  next
    assume "files1 = snd (WriteStringKey ym None good_io p ''client_id'' cid files)"
    with write_document [OF assms(1,7), of "''client_id''" cid "''!!str''"]
    have "rewritten p files files1" "document ym files1 p (keys(''client_id'' \<mapsto> cid))"
      by (simp_all add: WriteStringKey_def)
    with that show ?thesis by fastforce
  qed
  show ?thesis
  proof (cases "\<exists>c. cfg = Some c \<and> cp_StaticDelayMs c = Some v")
    case True
    then obtain c where c: "cfg = Some c" "cp_StaticDelayMs c = Some v" by blast
    then have "files2 = files1"
      using delay assms(6) by (simp add: persistStaticDelay_def PersistStaticDelay_def)
    moreover have "Option.bind (keys ''static_delay_ms'') int_of = Some v"
      using assms(9) [OF c(1)] c(2) by simp
    then obtain s where "keys1 ''static_delay_ms'' = Some s" "int_of s = Some v"
      using one(3) by (auto simp: bind_eq_Some_conv)
    ultimately show ?thesis using one True by blast
  next
    case False
    then have "(case cfg of None \<Rightarrow> None | Some c \<Rightarrow> cp_StaticDelayMs c) \<noteq> Some v" by (auto split: option.splits)
    then have "files2 = snd (writeScalarKey ym None good_io p ''static_delay_ms'' (show_int v) ''!!int'' files1)"
      using delay assms(6)
      by (simp add: persistStaticDelay_def PersistStaticDelay_def WriteIntKey_def split: prod.splits option.splits)
    with write_document [OF assms(1) one(2), of "''static_delay_ms''" "show_int v" "''!!int''"]
    have two: "rewritten p files1 files2" "document ym files2 p (keys1(''static_delay_ms'' \<mapsto> show_int v))" by simp_all
    from two(1) one(1) have "rewritten p files files2" by (auto intro: rewritten_trans)
    with two(2) v show ?thesis by (intro disjI2 conjI exI [of _ "keys1(''static_delay_ms'' \<mapsto> show_int v)"] exI [of _ "show_int v"]) simp_all
  qed
qed

lemma decoded_delay:
  assumes "yaml_delay ym int_of" "ym_Decode ym data = Inr c" "files p = Some data" "document ym files p keys"
  shows "cp_StaticDelayMs c = Option.bind (keys ''static_delay_ms'') int_of"
proof -
  from assms(1,2) obtain root where root: "ym_Unmarshal ym data = Inr root"
    "cp_StaticDelayMs c = (case top_scalar root ''static_delay_ms'' of None \<Rightarrow> None | Some s \<Rightarrow> int_of s)"
    unfolding yaml_delay_def by blast
  with assms(3,4) have "top_scalar root = keys" by (auto simp: document_def old_document_def)
  with root(2) show ?thesis by (cases "keys ''static_delay_ms''") simp_all
qed

text \<open>The configuration that the next launch finds.\<close>

lemma delay_reloaded:
  assumes ok: "yaml_ok ym" "yaml_delay ym int_of" and v: "- (2 ^ 63) \<le> v" "v < 2 ^ 63"
    and dir: "dir = Inr d" "d @ ''/sendspin/player.yaml'' \<in> set paths"
    and load: "load_config (read_file None files) (ym_Decode ym) paths = (cfg, loaded, None)"
    and id: "resolveClientID ym None good_io dir ifaces g override cfg loaded files = (cid, files1)"
    and delay: "files2 = persistStaticDelay ym None good_io dir v cfg loaded files1"
    and again: "load_config (read_file None files2) (ym_Decode ym) paths = (cfg', loaded', None)"
  shows "\<exists>c. cfg' = Some c \<and> cp_StaticDelayMs c = Some v"
proof -
  obtain p where path: "persist_path dir loaded = Some p"
    using dir(1) by (cases "loaded = []") (auto simp: persist_path_def userConfigPath_def)
  note p = persist_target [OF ok(1) dir load path]
  from p(3) obtain keys where doc: "document ym files p keys" by (auto simp: document_def)
  have none: "cfg = None \<longrightarrow> keys = Map.empty"
  proof
    assume "cfg = None"
    with load_cases [OF load] p have "files p = None" by auto
    with doc show "keys = Map.empty"
      by (auto simp: document_def old_document_def top_scalar_def has_mapping_def fun_eq_iff)
  qed
  have some: "cp_StaticDelayMs c = Option.bind (keys ''static_delay_ms'') int_of" if "cfg = Some c" for c
  proof -
    from load_cases [OF load] that p obtain data where "files p = Some data" "ym_Decode ym data = Inr c" by auto
    with doc decoded_delay [OF ok(2)] show ?thesis by blast
  qed
  have "(files2 = files \<and> (\<exists>c. cfg = Some c \<and> cp_StaticDelayMs c = Some v)) \<or>
    rewritten p files files2 \<and> (\<exists>keys s. document ym files2 p keys \<and> keys ''static_delay_ms'' = Some s \<and> int_of s = Some v)"
    by (rule delay_in_document [OF ok v dir(1) path doc none _ id delay]) (rule some)
  then show ?thesis
  proof (elim disjE conjE)
    assume "files2 = files" and c: "\<exists>c. cfg = Some c \<and> cp_StaticDelayMs c = Some v"
    with load again have "cfg' = cfg" by simp
    with c show ?thesis by blast
  next
    assume re: "rewritten p files files2"
      and "\<exists>keys s. document ym files2 p keys \<and> keys ''static_delay_ms'' = Some s \<and> int_of s = Some v"
    then obtain keys s where s: "document ym files2 p keys" "keys ''static_delay_ms'' = Some s" "int_of s = Some v"
      by blast
    from re obtain data where w: "files2 = (files(p @ ''.tmp'' := None))(p \<mapsto> data)" by (auto simp: rewritten_def)
    from load_after_write [OF load p(2,1) w again] obtain c where
      c: "cfg' = Some c" "ym_Decode ym data = Inr c" by blast
    have "files2 p = Some data" using w by simp
    from decoded_delay [OF ok(2) c(2) this s(1)] s(2,3) c(1) show ?thesis by simp
  qed
qed

section \<open>Single flags\<close>

lemma overlay_all2:
  "ApplyEnvAndFile set_value u pre env m fs = (None, gs) \<Longrightarrow>
   list_all2 (\<lambda>f g. overlay_flag set_value u pre env m f = (None, g)) fs gs"
  by (induction fs arbitrary: gs) (auto split: prod.splits option.splits)

lemma overlay_keeps_name: "overlay_flag set_value u pre env m f = (None, g) \<Longrightarrow> fg_Name g = fg_Name f"
  by (auto simp: overlay_flag_def Let_def split: if_splits option.splits prod.splits)

lemma find_overlaid:
  assumes "list_all2 (\<lambda>f g. overlay_flag set_value u pre env m f = (None, g)) fs gs"
    and "find (\<lambda>f. fg_Name f = n) fs = Some f"
  shows "\<exists>g. find (\<lambda>f. fg_Name f = n) gs = Some g \<and> overlay_flag set_value u pre env m f = (None, g)"
  using assms by (induction rule: list_all2_induct) (auto dest: overlay_keeps_name split: if_splits)

lemma find_parsed:
  "find (\<lambda>f. fg_Name f = n) (parsed_flags args fs) =
     map_option (\<lambda>f. case args n of None \<Rightarrow> f | Some v \<Rightarrow> f\<lparr>fg_Value := v\<rparr>) (find (\<lambda>f. fg_Name f = n) fs)"
  by (induction fs) (auto simp: parsed_flags_def split: option.splits)

lemma delay_flag_default:
  "find (\<lambda>f. fg_Name f = ''static-delay-ms'') player_flags = Some \<lparr>fg_Name = ''static-delay-ms'', fg_Value = IntFlag 0\<rparr>"
  by (simp add: player_flags_def)

lemma delay_flag:
  assumes "ApplyEnvAndFile set_flag (player_setByUser (given args)) ''SENDSPIN_PLAYER_'' env (player_AsStringMap cfg)
      (parsed_flags args player_flags) = (None, fs)"
  shows "args ''static-delay-ms'' = Some (IntFlag v) \<Longrightarrow> int_flag ''static-delay-ms'' fs = v"
    and "args ''static-delay-ms'' = None \<Longrightarrow> env ''SENDSPIN_PLAYER_STATIC_DELAY_MS'' = None \<Longrightarrow> cfg = Some c \<Longrightarrow>
      cp_StaticDelayMs c = Some v \<Longrightarrow> - (2 ^ 63) \<le> v \<Longrightarrow> v < 2 ^ 63 \<Longrightarrow> int_flag ''static-delay-ms'' fs = v"
proof -
  define f where "f = (case args ''static-delay-ms'' of
      None \<Rightarrow> \<lparr>fg_Name = ''static-delay-ms'', fg_Value = IntFlag 0\<rparr>
    | Some v \<Rightarrow> \<lparr>fg_Name = ''static-delay-ms'', fg_Value = v\<rparr>)"
  have "find (\<lambda>f. fg_Name f = ''static-delay-ms'') (parsed_flags args player_flags) = Some f"
    by (simp add: find_parsed delay_flag_default f_def split: option.splits)
  from find_overlaid [OF overlay_all2 [OF assms] this] obtain g where
    g: "find (\<lambda>f. fg_Name f = ''static-delay-ms'') fs = Some g"
    "overlay_flag set_flag (player_setByUser (given args)) ''SENDSPIN_PLAYER_'' env (player_AsStringMap cfg) f = (None, g)"
    by blast
  have name: "fg_Name f = ''static-delay-ms''" by (simp add: f_def split: option.splits)
  {
    assume a: "args ''static-delay-ms'' = Some (IntFlag v)"
    then have "player_setByUser (given args) ''static-delay-ms''" by (simp add: player_setByUser_def given_def)
    with g(2) name have "g = f" by (simp add: overlay_flag_def)
    with g(1) a show "int_flag ''static-delay-ms'' fs = v" by (simp add: int_flag_def flag_named_def f_def)
  next
    assume a: "args ''static-delay-ms'' = None" "env ''SENDSPIN_PLAYER_STATIC_DELAY_MS'' = None" "cfg = Some c"
      "cp_StaticDelayMs c = Some v" "- (2 ^ 63) \<le> v" "v < 2 ^ 63"
    have key: "env_key ''SENDSPIN_PLAYER_'' ''static-delay-ms'' = ''SENDSPIN_PLAYER_STATIC_DELAY_MS''" by code_simp
    have "\<not> player_setByUser (given args) ''static-delay-ms''" using a(1) by (simp add: player_setByUser_def given_def)
    with a g(2) name key have "g = \<lparr>fg_Name = ''static-delay-ms'', fg_Value = IntFlag v\<rparr>"
      using flag_value.overlay_from_file [where w = "Some (IntFlag v)" and f = f and setByUser = "player_setByUser (given args)"
          and env = env and pre = "''SENDSPIN_PLAYER_''" and fileValues = "player_AsStringMap cfg"]
      by (simp add: player_map snake_def show_flag_def same_kind_def f_def)
    with g(1) show "int_flag ''static-delay-ms'' fs = v" by (simp add: int_flag_def flag_named_def)
  }
qed

text \<open>
  C22. A static delay that was given on the command line is the delay of that launch and of the next
  one, which need not give it again, wherever the file is and whatever it held before.
\<close>

theorem static_delay_survives_restart:
  assumes "yaml_ok ym" "yaml_delay ym int_of" "- (2 ^ 63) \<le> v" "v < 2 ^ 63"
    and "player_main ym quote w args files = (Launched l, files1)"
    and "args ''static-delay-ms'' = Some (IntFlag v)"
    and "le_bad w = None" "le_io w = good_io" "le_dir w = Inr d"
    and "player_main ym quote w' args' files1 = (Launched l', files2)"
    and "args' ''static-delay-ms'' = None" "le_env w' ''SENDSPIN_PLAYER_STATIC_DELAY_MS'' = None"
    and "le_bad w' = None"
    and "playerConfigSearchPaths (le_env w') (le_dir w') (string_flag ''config'' (parsed_flags args' player_flags)) =
      playerConfigSearchPaths (le_env w) (le_dir w) (string_flag ''config'' (parsed_flags args player_flags))"
  shows "pf_StaticDelayMs (la_config l) = v \<and> pf_StaticDelayMs (la_config l') = v"
proof -
  obtain cfg loaded fs addr name cid files0 where
    load: "load_config (read_file None files) (ym_Decode ym)
      (playerConfigSearchPaths (le_env w) (le_dir w) (string_flag ''config'' (parsed_flags args player_flags))) = (cfg, loaded, None)"
    and flags: "ApplyEnvAndFile set_flag (player_setByUser (given args)) ''SENDSPIN_PLAYER_'' (le_env w)
      (player_AsStringMap cfg) (parsed_flags args player_flags) = (None, fs)"
    and id: "resolveClientID ym None good_io (le_dir w) (le_ifaces w) (le_generated w) (string_flag ''client-id'' fs)
      cfg loaded files = (cid, files0)"
    and config: "la_config l = player_config fs addr name cid"
    and delay: "files1 = persistStaticDelay ym None good_io (le_dir w) (int_flag ''static-delay-ms'' fs) cfg loaded files0"
    using assms(5,6,7,8)
    by (auto simp: player_main_def launch_player_def Let_def player_setByUser_def given_def
        split: if_splits prod.splits option.splits)
  obtain cfg' loaded' fs' addr' name' cid' where
    load': "load_config (read_file None files1) (ym_Decode ym)
      (playerConfigSearchPaths (le_env w') (le_dir w') (string_flag ''config'' (parsed_flags args' player_flags))) = (cfg', loaded', None)"
    and flags': "ApplyEnvAndFile set_flag (player_setByUser (given args')) ''SENDSPIN_PLAYER_'' (le_env w')
      (player_AsStringMap cfg') (parsed_flags args' player_flags) = (None, fs')"
    and config': "la_config l' = player_config fs' addr' name' cid'"
    using assms(10,13)
    by (auto simp: player_main_def launch_player_def Let_def split: if_splits prod.splits option.splits)
  have v: "int_flag ''static-delay-ms'' fs = v" by (rule delay_flag(1) [OF flags assms(6)])
  have home: "d @ ''/sendspin/player.yaml'' \<in> set (playerConfigSearchPaths (le_env w) (le_dir w)
      (string_flag ''config'' (parsed_flags args player_flags)))"
    by (rule home_in_search_paths [OF assms(9)])
  from delay_reloaded [OF assms(1-4,9) home load id delay [unfolded v] load' [unfolded assms(14)]]
  obtain c where c: "cfg' = Some c" "cp_StaticDelayMs c = Some v" by blast
  have "int_flag ''static-delay-ms'' fs' = v" by (rule delay_flag(2) [OF flags' assms(11,12) c assms(3,4)])
  with v show ?thesis by (simp add: config config' player_config_def)
qed

section \<open>Two concrete launches\<close>

definition empty_player_config :: PlayerConfigFile where
  "empty_player_config =
     \<lparr>cp_Name = '''', cp_Server = '''', cp_Port = None, cp_BufferMs = None, cp_StaticDelayMs = None, cp_LogFile = '''',
      cp_NoTUI = None, cp_StreamLogs = None, cp_ProductName = '''', cp_Manufacturer = '''', cp_NoReconnect = None,
      cp_Daemon = None, cp_PreferredCodec = '''', cp_BufferCapacity = None, cp_ClientID = '''', cp_AudioDevice = '''',
      cp_MaxSampleRate = None, cp_MaxBitDepth = None\<rparr>"

definition delay_yaml :: "(Node, PlayerConfigFile) yaml_ops" where
  "delay_yaml = plain_yaml\<lparr>ym_Decode := \<lambda>n. if well_paired n
     then Inr (empty_player_config
       \<lparr>cp_ClientID := (case top_scalar n ''client_id'' of None \<Rightarrow> [] | Some s \<Rightarrow> s),
        cp_StaticDelayMs := (case top_scalar n ''static_delay_ms'' of None \<Rightarrow> None | Some s \<Rightarrow> atoi s)\<rparr>)
     else Inl ''odd''\<rparr>"

lemma delay_yaml_ok: "yaml_ok delay_yaml" "yaml_delay delay_yaml atoi"
  by (simp_all add: yaml_ok_def yaml_delay_def delay_yaml_def plain_yaml_def empty_player_config_def atoi_show_int)

definition delay_file :: Node where
  "delay_file = Node DocumentNode '''' '''' 0
     [Node MappingNode '''' '''' 0
        [Node ScalarNode ''!!str'' ''static_delay_ms'' 0 [] [], Node ScalarNode ''!!int'' (show_int 120) 0 [] []] []] []"

definition quiet_env :: "Node launch_env" where
  "quiet_env = \<lparr>le_env = \<lambda>_. None, le_dir = Inr ''h'', le_bad = None, le_io = good_io, le_ifaces = [lan_interface],
     le_generated = ''u'', le_hostname = Inr ''host'', le_log = \<lambda>_. None, le_tui = None,
     le_answer = Some \<lparr>si_Name = ''s'', si_Host = ''10.0.0.2'', si_Port = 8927\<rparr>, le_devices = Inr []\<rparr>"

lemma overlay_accepts:
  "(\<And>f. f \<in> set fs \<Longrightarrow> \<exists>g. overlay_flag set_value u pre env m f = (None, g)) \<Longrightarrow>
   \<exists>gs. ApplyEnvAndFile set_value u pre env m fs = (None, gs)"
proof (induction fs)
  case (Cons f fs)
  then obtain g gs where "overlay_flag set_value u pre env m f = (None, g)"
    "ApplyEnvAndFile set_value u pre env m fs = (None, gs)" by fastforce
  then show ?case by simp
qed simp

lemma only_delay_flag:
  "list_all (\<lambda>f. snake (fg_Name f) = ''static_delay_ms'' \<longrightarrow> fg_Name f = ''static-delay-ms'' \<and> fg_Value f = IntFlag 0) player_flags"
  by (simp add: player_flags_def snake_def)

lemma delay_overlay:
  assumes "m = Map.empty \<or> m = [''static_delay_ms'' \<mapsto> show_int 120]"
    and "args = Map.empty \<or> args = [''static-delay-ms'' \<mapsto> IntFlag 120]"
  shows "\<exists>gs. ApplyEnvAndFile set_flag (player_setByUser (given args)) ''SENDSPIN_PLAYER_'' (\<lambda>_. None) m
    (parsed_flags args player_flags) = (None, gs)"
proof (rule overlay_accepts)
  fix f
  assume f: "f \<in> set (parsed_flags args player_flags)"
  show "\<exists>g. overlay_flag set_flag (player_setByUser (given args)) ''SENDSPIN_PLAYER_'' (\<lambda>_. None) m f = (None, g)"
  proof (cases "snake (fg_Name f) = ''static_delay_ms''")
    case True
    from f obtain h where h: "h \<in> set player_flags"
      "f = (case args (fg_Name h) of None \<Rightarrow> h | Some v \<Rightarrow> h\<lparr>fg_Value := v\<rparr>)" by (auto simp: parsed_flags_def)
    then have "fg_Name f = fg_Name h" by (simp split: option.splits)
    with True h(1) only_delay_flag have "fg_Name h = ''static-delay-ms''" "fg_Value h = IntFlag 0"
      by (simp_all add: list_all_iff)
    with h(2) assms(2) have "\<exists>i. fg_Value f = IntFlag i" by auto
    then have "set_flag (fg_Value f) (show_int 120) = (None, IntFlag 120)"
      using flag_value.set_show [of "fg_Value f" "IntFlag 120"] by (auto simp: same_kind_def show_flag_def)
    with True assms(1) show ?thesis by (auto simp: overlay_flag_def)
  next
    case False
    with assms(1) show ?thesis by (auto simp: overlay_flag_def)
  qed
qed

lemma quiet_launch:
  assumes "load_config (read_file None files) (ym_Decode delay_yaml) (playerConfigSearchPaths (\<lambda>_. None) (Inr ''h'') []) =
      (cfg, loaded, None)"
    and "player_AsStringMap cfg = Map.empty \<or> player_AsStringMap cfg = [''static_delay_ms'' \<mapsto> show_int 120]"
    and "args = Map.empty \<or> args = [''static-delay-ms'' \<mapsto> IntFlag 120]"
    and "cfg = None \<or> cfg = Some c \<and> cp_ClientID c = []"
  shows "\<exists>l. player_main delay_yaml quote quiet_env args files = (Launched l,
    if args = Map.empty then files else persistStaticDelay delay_yaml None good_io (Inr ''h'') 120 cfg loaded files)"
proof -
  obtain fs where fs: "ApplyEnvAndFile set_flag (player_setByUser (given args)) ''SENDSPIN_PLAYER_'' (\<lambda>_. None)
      (player_AsStringMap cfg) (parsed_flags args player_flags) = (None, fs)"
    using delay_overlay [OF assms(2,3)] by blast
  have find: "find (\<lambda>f. fg_Name f = n) fs = Some f"
    if n: "snake n \<noteq> ''static_delay_ms''" "n \<noteq> ''static-delay-ms''" "find (\<lambda>f. fg_Name f = n) player_flags = Some f" for n f
  proof -
    have "find (\<lambda>f. fg_Name f = n) (parsed_flags args player_flags) = Some f"
      using n(2,3) assms(3) by (auto simp: find_parsed)
    from find_overlaid [OF overlay_all2 [OF fs] this] obtain g where
      g: "find (\<lambda>f. fg_Name f = n) fs = Some g"
      "overlay_flag set_flag (player_setByUser (given args)) ''SENDSPIN_PLAYER_'' (\<lambda>_. None) (player_AsStringMap cfg) f = (None, g)"
      by blast
    have "fg_Name f = n" using n(3) by (auto simp: find_Some_iff)
    with g(2) n(1) assms(2) have "g = f" by (auto simp: overlay_flag_def split: if_splits)
    with g(1) show ?thesis by simp
  qed
  have flags: "string_flag ''server'' fs = []" "string_flag ''client-id'' fs = []"
    using find [of "''server''" "\<lparr>fg_Name = ''server'', fg_Value = StringFlag ''''\<rparr>"]
      find [of "''client-id''" "\<lparr>fg_Name = ''client-id'', fg_Value = StringFlag ''''\<rparr>"]
    by (simp_all add: string_flag_def flag_named_def player_flags_def snake_def)
  have "string_flag ''config'' (parsed_flags args player_flags) = []"
    "\<not> bool_flag ''list-audio-devices'' (parsed_flags args player_flags)"
    using assms(3) by (auto simp: string_flag_def bool_flag_def flag_named_def find_parsed player_flags_def)
  moreover have "resolveClientID delay_yaml None good_io (Inr ''h'') [lan_interface] ''u'' [] cfg loaded files =
      (''01:02:03:04:05:ab'', files)"
  proof (rule mac_not_persisted [OF assms(4)])
    show "pickStableMAC [lan_interface] = Some ''01:02:03:04:05:ab''" by code_simp
  qed
  moreover have "Option.bind p (\<lambda>_. None) = None" for p :: "string option" by (cases p) simp_all
  moreover have "args \<noteq> Map.empty \<Longrightarrow> int_flag ''static-delay-ms'' fs = 120"
    using delay_flag(1) [OF fs, of 120] assms(3) by auto
  ultimately show ?thesis
    using assms(1,3) fs flags
    by (auto simp: player_main_def launch_player_def Let_def quiet_env_def server_address_def player_config_def
        player_setByUser_def given_def)
qed

lemma delay_written:
  "persistStaticDelay delay_yaml None good_io (Inr ''h'') 120 None [] Map.empty = [default_path \<mapsto> delay_file]"
  by (simp add: persistStaticDelay_def PersistStaticDelay_def persist_path_def userConfigPath_def WriteIntKey_def
      writeScalarKey_def read_file_def topLevelMapping_def has_mapping_def with_content_def setOrAppendScalarKey_def
      delay_yaml_def plain_yaml_def atomicWriteFile_def good_io_def default_path_def delay_file_def Let_def)

theorem static_delay_survives_restart_witness:
  "\<exists>l files1 l' files2.
     player_main delay_yaml (\<lambda>s. s) quiet_env [''static-delay-ms'' \<mapsto> IntFlag 120] Map.empty = (Launched l, files1) \<and>
     player_main delay_yaml (\<lambda>s. s) quiet_env Map.empty files1 = (Launched l', files2) \<and>
     pf_StaticDelayMs (la_config l') = 120"
proof -
  have paths: "playerConfigSearchPaths (\<lambda>_. None) (Inr ''h'') [] = [default_path, ''/etc/sendspin/player.yaml'']"
    by (simp add: playerConfigSearchPaths_def search_paths_def userConfigPath_def default_path_def)
  have none: "load_config (read_file None Map.empty) (ym_Decode delay_yaml) (playerConfigSearchPaths (\<lambda>_. None) (Inr ''h'') []) =
      (None, [], None)"
    by (simp add: paths load_config_def read_file_def default_path_def)
  obtain l where l: "player_main delay_yaml (\<lambda>s. s) quiet_env [''static-delay-ms'' \<mapsto> IntFlag 120] Map.empty =
      (Launched l, [default_path \<mapsto> delay_file])"
    using quiet_launch [OF none, of "[''static-delay-ms'' \<mapsto> IntFlag 120]"]
    by (auto simp: player_AsStringMap_def delay_written)
  define c where "c = empty_player_config\<lparr>cp_StaticDelayMs := Some 120\<rparr>"
  have "well_paired delay_file" "top_scalar delay_file ''client_id'' = None"
    "top_scalar delay_file ''static_delay_ms'' = Some (show_int 120)"
    by (simp_all add: well_paired_def top_scalar_def has_mapping_def delay_file_def)
  then have some: "load_config (read_file None [default_path \<mapsto> delay_file]) (ym_Decode delay_yaml)
      (playerConfigSearchPaths (\<lambda>_. None) (Inr ''h'') []) = (Some c, default_path, None)"
    by (simp add: paths load_config_def read_file_def delay_yaml_def c_def atoi_show_int)
      (simp add: empty_player_config_def default_path_def)
  have "player_AsStringMap (Some c) = [''static_delay_ms'' \<mapsto> show_int 120]" "cp_ClientID c = []"
    by (simp_all add: player_AsStringMap_def c_def empty_player_config_def add_string_def add_int_def add_bool_def)
  then obtain l' where l': "player_main delay_yaml (\<lambda>s. s) quiet_env Map.empty [default_path \<mapsto> delay_file] =
      (Launched l', [default_path \<mapsto> delay_file])"
    using quiet_launch [OF some, of Map.empty] by auto
  have "pf_StaticDelayMs (la_config l') = 120"
    by (rule conjunct2 [OF static_delay_survives_restart [OF delay_yaml_ok _ _ l _ _ _ _ l']])
      (simp_all add: quiet_env_def string_flag_def flag_named_def find_parsed player_flags_def)
  with l l' show ?thesis by blast
qed

end
