(* ===== verification/Client_Heartbeat.thy ===== *)
theory Client_Heartbeat
  imports Go_Prelude
begin

text \<open>
  The heartbeat of a client connection in \<open>protocol/client.go\<close>: \<open>pingLoop\<close> sends a ping every thirty
  seconds, the pong handler that \<open>Start\<close> installs moves the read deadline, and \<open>ReadMessage\<close> fails when
  the deadline has passed, upon which the reader closes the client. Times are in nanoseconds. The
  pong handler runs inside \<open>ReadMessage\<close>, so pongs count only while the reader reads.
\<close>

section \<open>The connection\<close>

definition pingPeriod :: int where "pingPeriod = 30000000000"

definition pongWait :: int where "pongWait = 60000000000"

text \<open>
  \<open>hb_tick\<close> is when the ticker fires next, \<open>hb_pending\<close> are the times of the pings that are not answered,
  oldest first, and \<open>hb_heard\<close> is the time of the last pong or of the start.
\<close>

record heartbeat =
  hb_now :: int
  hb_deadline :: int
  hb_tick :: int
  hb_reading :: bool
  hb_open :: bool
  hb_pinging :: bool
  hb_pending :: "int list"
  hb_heard :: int

text \<open>\<open>Start\<close> at a time \<open>t\<close>; the goroutine that makes the ticker begins \<open>lag\<close> later.\<close>

definition start_heartbeat :: "int \<Rightarrow> int \<Rightarrow> heartbeat" where
  "start_heartbeat t lag =
     \<lparr>hb_now = t, hb_deadline = t + pongWait, hb_tick = t + lag + pingPeriod, hb_reading = True,
      hb_open = True, hb_pinging = True, hb_pending = [], hb_heard = t\<rparr>"

datatype beat = Elapse int | PingTick bool | PongFrame | FrameRead | FrameDelivered | ReadTimeout | CloseCalled

text \<open>Time does not pass the deadline while the reader is in \<open>ReadMessage\<close>, which returns then.\<close>

definition elapse :: "int \<Rightarrow> heartbeat \<Rightarrow> heartbeat option" where
  "elapse d s =
     (if 0 \<le> d \<and> (hb_open s \<and> hb_reading s \<longrightarrow> hb_now s + d \<le> hb_deadline s)
      then Some (s\<lparr>hb_now := hb_now s + d\<rparr>) else None)"

text \<open>One turn of \<open>pingLoop\<close>; the argument is whether \<open>WriteControl\<close> succeeds.\<close>

definition ping_tick :: "bool \<Rightarrow> heartbeat \<Rightarrow> heartbeat option" where
  "ping_tick sent s =
     (if hb_pinging s \<and> hb_tick s \<le> hb_now s
      then Some (if sent
        then s\<lparr>hb_tick := hb_tick s + pingPeriod, hb_pending := hb_pending s @ [hb_now s]\<rparr>
        else s\<lparr>hb_pinging := False\<rparr>)
      else None)"

definition pong_handler :: "heartbeat \<Rightarrow> heartbeat option" where
  "pong_handler s =
     (case hb_pending s of
        [] \<Rightarrow> None
      | p # ps \<Rightarrow>
          if hb_open s \<and> hb_reading s
          then Some (s\<lparr>hb_deadline := hb_now s + pongWait, hb_pending := ps, hb_heard := hb_now s\<rparr>)
          else None)"

text \<open>\<open>Close\<close>, by the reader after an error or by the user, cancels the context, which ends \<open>pingLoop\<close>.\<close>

definition close_beat :: "heartbeat \<Rightarrow> heartbeat" where
  "close_beat s = s\<lparr>hb_open := False, hb_pinging := False\<rparr>"

fun hb_do :: "beat \<Rightarrow> heartbeat \<Rightarrow> heartbeat option" where
  "hb_do (Elapse d) s = elapse d s"
| "hb_do (PingTick sent) s = ping_tick sent s"
| "hb_do PongFrame s = pong_handler s"
| "hb_do FrameRead s = (if hb_open s \<and> hb_reading s then Some (s\<lparr>hb_reading := False\<rparr>) else None)"
| "hb_do FrameDelivered s = (if hb_reading s then None else Some (s\<lparr>hb_reading := True\<rparr>))"
| "hb_do ReadTimeout s =
     (if hb_open s \<and> hb_reading s \<and> hb_deadline s \<le> hb_now s then Some (close_beat s) else None)"
| "hb_do CloseCalled s = Some (close_beat s)"

text \<open>A run; \<open>P\<close> holds in every state that it passes.\<close>

fun hb_run :: "(heartbeat \<Rightarrow> bool) \<Rightarrow> beat list \<Rightarrow> heartbeat \<Rightarrow> heartbeat option" where
  "hb_run P [] s = (if P s then Some s else None)"
| "hb_run P (e # es) s =
     (if P s then (case hb_do e s of None \<Rightarrow> None | Some t \<Rightarrow> hb_run P es t) else None)"

text \<open>
  A client that sends each ping at most \<open>jitter\<close> after its tick, and a peer whose answer is read at most
  \<open>latency\<close> after the ping.
\<close>

definition answered_in_time :: "int \<Rightarrow> int \<Rightarrow> heartbeat \<Rightarrow> bool" where
  "answered_in_time jitter latency s \<longleftrightarrow>
     (hb_pinging s \<longrightarrow> hb_now s \<le> hb_tick s + jitter) \<and> list_all (\<lambda>p. hb_now s \<le> p + latency) (hb_pending s)"

section \<open>A peer that answers keeps the connection\<close>

fun spaced :: "int \<Rightarrow> int list \<Rightarrow> int \<Rightarrow> bool" where
  "spaced jitter [] tick \<longleftrightarrow> True"
| "spaced jitter [p] tick \<longleftrightarrow> tick \<le> p + pingPeriod"
| "spaced jitter (p # q # ps) tick \<longleftrightarrow> q \<le> p + pingPeriod + jitter \<and> spaced jitter (q # ps) tick"

lemma spaced_snoc:
  "spaced jitter ps tick \<Longrightarrow> tick \<le> now \<Longrightarrow> now \<le> tick + jitter \<Longrightarrow> spaced jitter (ps @ [now]) (tick + pingPeriod)"
  by (induction jitter ps tick rule: spaced.induct) auto

definition covered :: "int \<Rightarrow> int \<Rightarrow> heartbeat \<Rightarrow> bool" where
  "covered lag jitter s \<longleftrightarrow>
     spaced jitter (hb_pending s) (hb_tick s) \<and> list_all (\<lambda>p. p \<le> hb_now s) (hb_pending s) \<and>
     (case hb_pending s of
        [] \<Rightarrow> hb_tick s + (pongWait - pingPeriod) \<le> hb_deadline s + lag
      | p # ps \<Rightarrow> p + (pongWait - pingPeriod) \<le> hb_deadline s + lag + jitter)"

lemma covered_start: "covered lag jitter (start_heartbeat t lag)"
  by (simp add: covered_def start_heartbeat_def)

lemma covered_not_due:
  assumes "covered lag jitter s" "answered_in_time jitter latency s" "hb_pinging s" "0 \<le> lag" "0 \<le> jitter" "0 \<le> latency"
    and "lag + jitter + latency < pongWait - pingPeriod"
  shows "hb_now s < hb_deadline s"
  using assms by (cases "hb_pending s") (auto simp: covered_def answered_in_time_def)

lemma covered_reading [simp]: "covered lag jitter (s\<lparr>hb_reading := b\<rparr>) = covered lag jitter s"
  by (cases "hb_pending s") (simp_all add: covered_def)

lemma covered_elapse: "covered lag jitter s \<Longrightarrow> elapse d s = Some t \<Longrightarrow> covered lag jitter t"
  by (fastforce simp: covered_def elapse_def list_all_iff split: if_splits list.splits)

lemma covered_ping:
  assumes "covered lag jitter s" "answered_in_time jitter latency s" "ping_tick True s = Some t"
  shows "covered lag jitter t"
proof -
  from assms(3) have tick: "hb_pinging s" "hb_tick s \<le> hb_now s"
    and t: "t = s\<lparr>hb_tick := hb_tick s + pingPeriod, hb_pending := hb_pending s @ [hb_now s]\<rparr>"
    by (auto simp: ping_tick_def split: if_splits)
  from assms(2) tick have late: "hb_now s \<le> hb_tick s + jitter" by (simp add: answered_in_time_def)
  with assms(1) tick have "spaced jitter (hb_pending s @ [hb_now s]) (hb_tick s + pingPeriod)"
    by (intro spaced_snoc) (simp_all add: covered_def)
  with assms(1) late t show ?thesis by (cases "hb_pending s") (auto simp: covered_def)
qed

lemma covered_pong:
  assumes "covered lag jitter s" "0 \<le> lag" "0 \<le> jitter" "pong_handler s = Some t"
  shows "covered lag jitter t"
proof -
  from assms(4) obtain p ps where p: "hb_pending s = p # ps"
    and t: "t = s\<lparr>hb_deadline := hb_now s + pongWait, hb_pending := ps, hb_heard := hb_now s\<rparr>"
    by (auto simp: pong_handler_def split: list.splits if_splits)
  with assms(1-3) show ?thesis by (cases ps) (auto simp: covered_def)
qed

lemma covered_step:
  assumes "covered lag jitter s" "answered_in_time jitter latency s" "hb_pinging s" "hb_open s" "0 \<le> lag" "0 \<le> jitter" "0 \<le> latency"
    and "lag + jitter + latency < pongWait - pingPeriod"
    and "hb_do e s = Some t" "e \<noteq> CloseCalled" "e \<noteq> PingTick False"
  shows "covered lag jitter t \<and> hb_pinging t \<and> hb_open t \<and> e \<noteq> ReadTimeout"
proof (cases e)
  case (Elapse d)
  with assms covered_elapse [of lag jitter s d t] show ?thesis by (auto simp: elapse_def split: if_splits)
next
  case (PingTick sent)
  with assms covered_ping [of lag jitter s latency t] show ?thesis by (auto simp: ping_tick_def split: if_splits)
next
  case PongFrame
  with assms covered_pong [of lag jitter s t] show ?thesis
    by (auto simp: pong_handler_def split: list.splits if_splits)
next
  case ReadTimeout
  with assms covered_not_due [of lag jitter s latency] show ?thesis by (auto split: if_splits)
qed (use assms in \<open>auto split: if_splits\<close>)

text \<open>
  C38. With a peer that answers in time the connection is never given up: if the ticker is late by at
  most \<open>lag\<close>, a ping by at most \<open>jitter\<close> and its answer by at most \<open>latency\<close>, and these make less than the
  difference of the two periods, then only a failed write or a call of \<open>Close\<close> ends it.
\<close>

theorem prompt_peer_keeps_connection:
  assumes "0 \<le> lag" "0 \<le> jitter" "0 \<le> latency" "lag + jitter + latency < pongWait - pingPeriod"
    and "hb_run (answered_in_time jitter latency) es (start_heartbeat t lag) = Some s"
    and "CloseCalled \<notin> set es" "PingTick False \<notin> set es"
  shows "hb_open s \<and> hb_pinging s \<and> hb_now s < hb_deadline s \<and> ReadTimeout \<notin> set es"
proof -
  have "hb_open s \<and> hb_pinging s \<and> hb_now s < hb_deadline s \<and> ReadTimeout \<notin> set es"
    if "covered lag jitter u" "hb_open u" "hb_pinging u" "hb_run (answered_in_time jitter latency) es u = Some s"
      "CloseCalled \<notin> set es" "PingTick False \<notin> set es" for u
    using that
  proof (induction es arbitrary: u)
    case Nil
    then show ?case using covered_not_due [of lag jitter u latency] assms(1-4) by (auto split: if_splits)
  next
    case (Cons e es)
    from Cons.prems(4) obtain v where v: "answered_in_time jitter latency u" "hb_do e u = Some v"
        "hb_run (answered_in_time jitter latency) es v = Some s"
      by (auto split: if_splits option.splits)
    from Cons.prems v assms(1-4) have "covered lag jitter v \<and> hb_pinging v \<and> hb_open v \<and> e \<noteq> ReadTimeout"
      by (intro covered_step [of lag jitter u latency e v]) auto
    with Cons.IH [of v] v Cons.prems show ?case by auto
  qed
  with assms covered_start [of lag jitter t] show ?thesis by (auto simp: start_heartbeat_def)
qed

definition calm_minute :: "beat list" where
  "calm_minute = [Elapse 31000000000, PingTick True, Elapse 2000000000, PongFrame, Elapse 28000000000, PingTick True]"

lemma calm_run:
  "hb_run (answered_in_time 500000000 5000000000) calm_minute (start_heartbeat 0 1000000000) =
     Some \<lparr>hb_now = 61000000000, hb_deadline = 93000000000, hb_tick = 91000000000, hb_reading = True, hb_open = True,
       hb_pinging = True, hb_pending = [61000000000], hb_heard = 33000000000\<rparr>"
  by (simp add: calm_minute_def start_heartbeat_def answered_in_time_def elapse_def ping_tick_def pong_handler_def
      pingPeriod_def pongWait_def)

theorem prompt_peer_keeps_connection_witness:
  "ReadTimeout \<notin> set calm_minute \<and>
   (\<exists>s. hb_run (answered_in_time 500000000 5000000000) calm_minute (start_heartbeat 0 1000000000) = Some s \<and> hb_open s)"
  using prompt_peer_keeps_connection [OF _ _ _ _ calm_run]
  by (simp add: calm_run pingPeriod_def pongWait_def) (simp add: calm_minute_def)

section \<open>A peer that is gone is noticed\<close>

lemma peer_heard_step:
  "hb_do e s = Some t \<Longrightarrow> hb_deadline s = hb_heard s + pongWait \<Longrightarrow> hb_deadline t = hb_heard t + pongWait"
  by (cases e) (auto simp: elapse_def ping_tick_def pong_handler_def close_beat_def split: if_splits list.splits)

lemma heard_run:
  "hb_run P es s = Some t \<Longrightarrow> hb_deadline s = hb_heard s + pongWait \<Longrightarrow> hb_deadline t = hb_heard t + pongWait"
  by (induction es arbitrary: s) (auto split: if_splits option.splits dest: peer_heard_step)

text \<open>
  Sixty seconds after the last pong a reader that is in \<open>ReadMessage\<close> has failed: until it has, and
  the client is closed, time does not go on.
\<close>

theorem dead_peer_noticed:
  assumes "hb_run P es (start_heartbeat t lag) = Some s" "hb_open s" "hb_reading s" "hb_heard s + pongWait \<le> hb_now s"
  shows "hb_do ReadTimeout s = Some (close_beat s)" "0 < d \<Longrightarrow> elapse d s = None"
  using heard_run [OF assms(1)] assms(2-4) by (simp_all add: start_heartbeat_def elapse_def)

text \<open>
  While the reader waits for a consumer of a channel nothing watches the connection: it stays open
  for any time without a pong.
\<close>

lemma blocked_reader_unwatched:
  assumes "0 \<le> d"
  shows "\<exists>s. hb_run (\<lambda>_. True) [FrameRead, Elapse d] (start_heartbeat t lag) = Some s \<and> hb_open s \<and>
    hb_heard s = t \<and> hb_now s = t + d"
  using assms by (simp add: start_heartbeat_def elapse_def)

end
