(* ===== verification/Example_Sources.thy ===== *)
theory Example_Sources
  imports Audio_Sources
begin

text \<open>
  The audio sources of \<open>examples/custom-source/main.go\<close>, which show how a program implements the
  interface \<open>AudioSource\<close>: a mix of sine tones and a frequency sweep. \<open>math.Sin\<close> is a parameter, as
  for the test tone.
\<close>

section \<open>Frames\<close>

definition to_24bit :: "f64 \<Rightarrow> sample" where
  "to_24bit v = f64_to_int32 (f64_mul (f64_mul v (Fin 8388607)) (Fin (1 / 2)))"

definition sample_time :: "int \<Rightarrow> nat \<Rightarrow> f64" where
  "sample_time sampleRate index = f64_div (f64_of_int (int (index mod 2 ^ 64))) (f64_of_int sampleRate)"

text \<open>
  The loop that both sources share: each value goes to all channels of its frame, the rest of the
  buffer stays, and all of it is counted. Division by zero channels panics.
\<close>

definition fill_frames :: "(nat \<Rightarrow> sample) \<Rightarrow> int \<Rightarrow> sample list \<Rightarrow> nat \<Rightarrow> (sample list \<times> nat \<times> nat) option" where
  "fill_frames val channels samples index =
     (if channels = 0 then None
      else let numFrames = go_quot (int (length samples)) channels;
               frames = map (\<lambda>i. replicate (nat channels) (val (index + i))) [0..<nat numFrames]
           in Some (concat frames @ drop (length (concat frames)) samples, length samples,
                    nat ((int index + numFrames) mod 2 ^ 64)))"

section \<open>The mix\<close>

record MultiToneSource =
  mt_frequencies :: "f64 list"
  mt_sampleRate :: int
  mt_channels :: int
  mt_sampleIndex :: nat

definition NewMultiTone :: "int \<Rightarrow> int \<Rightarrow> f64 list \<Rightarrow> MultiToneSource" where
  "NewMultiTone sampleRate channels frequencies =
     \<lparr>mt_frequencies = frequencies, mt_sampleRate = sampleRate, mt_channels = channels, mt_sampleIndex = 0\<rparr>"

definition sine_at :: "(f64 \<Rightarrow> f64) \<Rightarrow> f64 \<Rightarrow> f64 \<Rightarrow> f64" where
  "sine_at sin' freq t = sin' (f64_mul (f64_mul f64_two_pi freq) t)"

definition mixed_sample :: "(f64 \<Rightarrow> f64) \<Rightarrow> f64 list \<Rightarrow> f64 \<Rightarrow> f64" where
  "mixed_sample sin' freqs t = fold (\<lambda>freq mixed. f64_add mixed (sine_at sin' freq t)) freqs (Fin 0)"

definition multi_value :: "(f64 \<Rightarrow> f64) \<Rightarrow> f64 list \<Rightarrow> int \<Rightarrow> nat \<Rightarrow> sample" where
  "multi_value sin' freqs sampleRate index =
     (let mixed = mixed_sample sin' freqs (sample_time sampleRate index)
      in to_24bit (if 0 < length freqs then f64_div mixed (f64_of_int (int (length freqs))) else mixed))"

definition multi_Read :: "(f64 \<Rightarrow> f64) \<Rightarrow> sample list \<Rightarrow> MultiToneSource \<Rightarrow> (sample list \<times> nat \<times> MultiToneSource) option" where
  "multi_Read sin' samples s =
     map_option (\<lambda>(out, n, index). (out, n, s\<lparr>mt_sampleIndex := index\<rparr>))
       (fill_frames (multi_value sin' (mt_frequencies s) (mt_sampleRate s)) (mt_channels s) samples (mt_sampleIndex s))"

definition multi_Metadata :: "MultiToneSource \<Rightarrow> string \<times> string \<times> string" where
  "multi_Metadata s = (''Multi-Tone Test Signal'', ''Sendspin Examples'', ''Custom Sources'')"

section \<open>The sweep\<close>

record SweepSource =
  sw_startFreq :: f64
  sw_endFreq :: f64
  sw_duration :: f64
  sw_sampleRate :: int
  sw_channels :: int
  sw_sampleIndex :: nat

definition NewSweep :: "int \<Rightarrow> int \<Rightarrow> f64 \<Rightarrow> f64 \<Rightarrow> f64 \<Rightarrow> SweepSource" where
  "NewSweep sampleRate channels startFreq endFreq duration =
     \<lparr>sw_startFreq = startFreq, sw_endFreq = endFreq, sw_duration = duration, sw_sampleRate = sampleRate,
      sw_channels = channels, sw_sampleIndex = 0\<rparr>"

text \<open>\<open>math.Mod\<close>: the remainder of truncated division, which is exact, with the sign of the first operand.\<close>

fun f64_mod :: "f64 \<Rightarrow> f64 \<Rightarrow> f64" where
  "f64_mod (Fin x) (Fin y) = (if y = 0 then NaN else Fin (x - of_int (f64_trunc (x / y)) * y))"
| "f64_mod (Fin x) (Inf s) = Fin x"
| "f64_mod _ _ = NaN"

definition sweep_value :: "(f64 \<Rightarrow> f64) \<Rightarrow> SweepSource \<Rightarrow> nat \<Rightarrow> sample" where
  "sweep_value sin' s index =
     (let t = f64_mod (sample_time (sw_sampleRate s) index) (sw_duration s);
          progress = f64_div t (sw_duration s);
          freq = f64_add (sw_startFreq s) (f64_mul (f64_sub (sw_endFreq s) (sw_startFreq s)) progress)
      in to_24bit (sine_at sin' freq t))"

definition sweep_Read :: "(f64 \<Rightarrow> f64) \<Rightarrow> sample list \<Rightarrow> SweepSource \<Rightarrow> (sample list \<times> nat \<times> SweepSource) option" where
  "sweep_Read sin' samples s =
     map_option (\<lambda>(out, n, index). (out, n, s\<lparr>sw_sampleIndex := index\<rparr>))
       (fill_frames (sweep_value sin' s) (sw_channels s) samples (sw_sampleIndex s))"

definition sweep_Metadata :: "SweepSource \<Rightarrow> string \<times> string \<times> string" where
  "sweep_Metadata s = (''Frequency Sweep'', ''Sendspin Examples'', ''Custom Sources'')"

section \<open>The choice of main\<close>

datatype example_source = ChordMode MultiToneSource | SweepMode SweepSource | SingleMode TestToneSource

text \<open>\<open>None\<close> is the exit of the program on any other mode.\<close>

definition example_choice :: "string \<Rightarrow> int \<Rightarrow> int \<Rightarrow> example_source option" where
  "example_choice mode sampleRate channels =
     (if mode = ''chord'' then
        Some (ChordMode (NewMultiTone sampleRate channels [Fin 440, fl (55437 / 100), fl (65925 / 100)]))
      else if mode = ''sweep'' then
        Some (SweepMode (NewSweep sampleRate channels (Fin 220) (Fin 880) (Fin 5)))
      else if mode = ''single'' then Some (SingleMode (NewTestTone sampleRate channels))
      else None)"

section \<open>The range of the samples\<close>

lemma to_24bit_range:
  assumes "\<bar>y\<bar> \<le> 1"
  shows "in_24bit (to_24bit (Fin y))"
proof -
  have "sine_like (\<lambda>_. Fin y)" using assms by (simp add: sine_like_def)
  then have "in_24bit (tone_value (\<lambda>_. Fin y) (Fin 440) 1 0)" by (rule tone_value_range) simp_all
  then show ?thesis by (simp add: tone_value_def to_24bit_def)
qed

lemma sample_time_finite:
  assumes "rate \<noteq> 0" "\<bar>rate\<bar> < 2 ^ 63"
  shows "\<exists>t. sample_time rate index = Fin t \<and> \<bar>t\<bar> < pow2 66"
proof -
  define n where "n = int (index mod 2 ^ 64)"
  have "0 \<le> n" "n < 2 ^ 64" unfolding n_def by (simp_all flip: of_nat_power add: zmod_int)
  then have "\<bar>of_int n\<bar> < (of_int (2 ^ 64) :: rat)" by (simp only: of_int_less_iff flip: of_int_abs)
  then have "\<bar>of_int n\<bar> < pow2 64" by (simp add: pow2_int)
  then obtain r where r: "f64_of_int n = Fin r" "\<bar>r\<bar> < pow2 65"
    using fl_below [of "of_int n" 64] by (auto simp: f64_of_int_def)
  obtain z where z: "f64_of_int rate = Fin z" "1 \<le> \<bar>z\<bar>" using rate_away_from_0 [OF assms] by blast
  have "\<bar>r / z\<bar> = \<bar>r\<bar> / \<bar>z\<bar>" by (rule abs_divide)
  also have "\<dots> \<le> \<bar>r\<bar> / 1" using z(2) by (intro divide_left_mono) auto
  finally have "\<bar>r / z\<bar> < pow2 65" using r(2) by simp
  then obtain t where "fl (r / z) = Fin t" "\<bar>t\<bar> < pow2 66" using fl_below [of "r / z" 65] by auto
  moreover have "z \<noteq> 0" using z(2) by auto
  ultimately show ?thesis using r(1) z(1) by (simp add: sample_time_def n_def)
qed

definition moderate :: "f64 \<Rightarrow> bool" where
  "moderate f \<longleftrightarrow> (\<exists>x. f = Fin x \<and> \<bar>x\<bar> < pow2 20)"

lemma two_pi_small: "\<exists>x. f64_two_pi = Fin x \<and> \<bar>x\<bar> < pow2 3"
  unfolding f64_two_pi_def by (intro exI conjI, rule refl) (simp add: power_int_def)

lemma sine_at_range:
  assumes "sine_like sin'" "\<bar>f\<bar> < pow2 30" "\<bar>t\<bar> < pow2 66"
  shows "\<exists>y. sine_at sin' (Fin f) (Fin t) = Fin y \<and> \<bar>y\<bar> \<le> 1"
proof -
  obtain x where x: "f64_two_pi = Fin x" "\<bar>x\<bar> < pow2 3" using two_pi_small by blast
  obtain a where a: "fl (x * f) = Fin a" "\<bar>a\<bar> < pow2 34" using fl_product [OF x(2) assms(2)] by auto
  obtain b where "fl (a * t) = Fin b" using fl_product [OF a(2) assms(3)] by auto
  then have "sine_at sin' (Fin f) (Fin t) = sin' (Fin b)"
    by (simp only: sine_at_def x(1) a(1) f64_mul.simps)
  with assms(1) show ?thesis by (simp only: sine_like_def)
qed

lemma mix_bounded:
  assumes "sine_like sin'" "list_all moderate freqs" "\<bar>t\<bar> < pow2 66" "int (length freqs) + n \<le> 2 ^ 53" "0 \<le> n" "\<bar>m\<bar> \<le> of_int n"
  shows "\<exists>y. fold (\<lambda>freq mixed. f64_add mixed (sine_at sin' freq (Fin t))) freqs (Fin m) = Fin y \<and>
    \<bar>y\<bar> \<le> of_int (int (length freqs) + n)"
  using assms
proof (induction freqs arbitrary: m n)
  case Nil
  then show ?case by auto
next
  case (Cons f freqs)
  then obtain x where x: "f = Fin x" "\<bar>x\<bar> < pow2 20" by (auto simp: moderate_def)
  moreover have "pow2 20 \<le> pow2 30" by (simp only: pow2_le_iff)
  ultimately obtain y where y: "sine_at sin' f (Fin t) = Fin y" "\<bar>y\<bar> \<le> 1"
    using sine_at_range [OF Cons.prems(1), of x t] Cons.prems(3) by auto
  have "of_int (- (n + 1)) \<le> m + y" "m + y \<le> of_int (n + 1)"
    using y(2) Cons.prems(6) by (simp_all add: abs_le_iff)
  then obtain z where z: "fl (m + y) = Fin z" "of_int (- (n + 1)) \<le> z" "z \<le> of_int (n + 1)"
    using fl_bounded [of "- (n + 1)" "m + y" "n + 1"] Cons.prems(4,5) by auto
  then have "\<bar>z\<bar> \<le> of_int (n + 1)" by (simp add: abs_le_iff)
  with Cons.IH [of "n + 1" z] Cons.prems z(1) y(1) show ?case by (simp add: ac_simps)
qed

lemma fl_unit: "\<bar>x\<bar> \<le> 1 \<Longrightarrow> \<exists>z. fl x = Fin z \<and> \<bar>z\<bar> \<le> 1"
  using fl_bounded [of "- 1" x 1] by (simp add: abs_le_iff)

lemma multi_value_range:
  assumes "sine_like sin'" "list_all moderate freqs" "int (length freqs) \<le> 2 ^ 53" "rate \<noteq> 0" "\<bar>rate\<bar> < 2 ^ 63"
  shows "in_24bit (multi_value sin' freqs rate index)"
proof -
  obtain t where t: "sample_time rate index = Fin t" "\<bar>t\<bar> < pow2 66" using sample_time_finite [OF assms(4,5)] by blast
  obtain y where y: "mixed_sample sin' freqs (Fin t) = Fin y" "\<bar>y\<bar> \<le> of_int (int (length freqs))"
    using mix_bounded [OF assms(1,2) t(2), of 0 0] assms(3) by (auto simp: mixed_sample_def)
  show ?thesis
  proof (cases "freqs = []")
    case True
    with y t to_24bit_range [of y] show ?thesis by (simp add: multi_value_def)
  next
    case False
    define k where "k = int (length freqs)"
    have pos: "0 < k" "\<bar>k\<bar> \<le> 2 ^ 53" using False assms(3) by (simp_all add: k_def)
    then have k: "0 < k" "f64_of_int k = Fin (of_int k)" using f64_of_int_exact [of k] by simp_all
    have "\<bar>y / of_int k\<bar> \<le> 1" using y(2) k(1) by (simp add: abs_divide k_def [symmetric])
    then obtain z where z: "fl (y / of_int k) = Fin z" "\<bar>z\<bar> \<le> 1" using fl_unit by blast
    have "multi_value sin' freqs rate index = to_24bit (Fin z)"
      using False y(1) t(1) k z(1) by (simp add: multi_value_def k_def [symmetric])
    with to_24bit_range [OF z(2)] show ?thesis by simp
  qed
qed

lemma mod_bounds:
  assumes "0 < d"
  shows "\<exists>r. f64_mod (Fin t) (Fin d) = Fin r \<and> \<bar>r\<bar> \<le> d \<and> \<bar>r\<bar> \<le> \<bar>t\<bar>"
proof -
  define k where "k = f64_trunc (t / d)"
  have td: "t / d * d = t" using assms by simp
  have "\<bar>t - of_int k * d\<bar> \<le> d \<and> \<bar>t - of_int k * d\<bar> \<le> \<bar>t\<bar>"
  proof (cases "0 \<le> t")
    case True
    then have "0 \<le> t / d" using assms by simp
    then have k: "of_int k \<le> t / d" "t / d < of_int k + 1" "0 \<le> k"
      using floor_correct [of "t / d"] by (simp_all add: k_def f64_trunc_def)
    have "of_int k * d \<le> t / d * d" "t / d * d \<le> (of_int k + 1) * d" "0 \<le> of_int k * d"
      using k assms by (simp_all only: mult_right_mono less_imp_le) (simp_all add: mult_nonneg_nonneg less_imp_le)
    with True show ?thesis unfolding td by (simp add: abs_le_iff algebra_simps)
  next
    case False
    then have neg: "t / d < 0" using assms by (simp add: divide_less_0_iff)
    then have k: "t / d \<le> of_int k" "of_int k - 1 < t / d" "of_int k \<le> (0 :: rat)"
      by (simp_all add: k_def f64_trunc_def) linarith+
    have "t / d * d \<le> of_int k * d" "(of_int k - 1) * d \<le> t / d * d" "of_int k * d \<le> 0"
      using k assms by (simp_all only: mult_right_mono less_imp_le) (simp_all add: mult_nonpos_nonneg less_imp_le)
    with False show ?thesis unfolding td by (simp add: abs_le_iff algebra_simps)
  qed
  with assms show ?thesis by (simp add: k_def)
qed

lemma moderate_add:
  assumes "\<bar>x\<bar> < pow2 j" "\<bar>y\<bar> < pow2 j" "0 \<le> j" "j \<le> 900"
  shows "\<exists>z. fl (x + y) = Fin z \<and> \<bar>z\<bar> < pow2 (j + 2)"
proof -
  have "pow2 (j + 1) = 2 * pow2 j" by (simp add: power_int_add)
  with assms(1,2) have "\<bar>x + y\<bar> < pow2 (j + 1)" by linarith
  with fl_below [of "x + y" "j + 1"] assms(3,4) show ?thesis by (simp add: add.assoc)
qed

definition sweep_ok :: "SweepSource \<Rightarrow> bool" where
  "sweep_ok s \<longleftrightarrow> moderate (sw_startFreq s) \<and> moderate (sw_endFreq s) \<and>
     (\<exists>d. sw_duration s = Fin d \<and> 0 < d) \<and> sw_sampleRate s \<noteq> 0 \<and> \<bar>sw_sampleRate s\<bar> < 2 ^ 63"

lemma sweep_value_range:
  assumes "sine_like sin'" "sweep_ok s"
  shows "in_24bit (sweep_value sin' s index)"
proof -
  from assms(2) obtain a b d where f: "sw_startFreq s = Fin a" "\<bar>a\<bar> < pow2 20" "sw_endFreq s = Fin b" "\<bar>b\<bar> < pow2 20"
    "sw_duration s = Fin d" "0 < d" by (auto simp: sweep_ok_def moderate_def)
  obtain t where t: "sample_time (sw_sampleRate s) index = Fin t" "\<bar>t\<bar> < pow2 66"
    using sample_time_finite [of "sw_sampleRate s" index] assms(2) by (auto simp: sweep_ok_def)
  obtain r where r: "f64_mod (Fin t) (Fin d) = Fin r" "\<bar>r\<bar> \<le> d" "\<bar>r\<bar> \<le> \<bar>t\<bar>" using mod_bounds [OF f(6)] by blast
  have "\<bar>r / d\<bar> \<le> 1" using r(2) f(6) by (simp add: abs_divide)
  then obtain p where p: "fl (r / d) = Fin p" "\<bar>p\<bar> \<le> 1" using fl_unit by blast
  obtain w where w: "fl (b - a) = Fin w" "\<bar>w\<bar> < pow2 22"
    using moderate_add [of b 20 "- a"] f by auto
  have "1 < pow2 1" by simp
  with p(2) have "\<bar>p\<bar> < pow2 1" by linarith
  from fl_product [OF w(2) this] obtain q where q: "fl (w * p) = Fin q" "\<bar>q\<bar> < pow2 24" by auto
  have "pow2 20 \<le> pow2 24" by (simp only: pow2_le_iff)
  then have "\<bar>a\<bar> < pow2 24" using f(2) by linarith
  from moderate_add [OF this q(2)] obtain g where g: "fl (a + q) = Fin g" "\<bar>g\<bar> < pow2 26" by auto
  have "pow2 26 \<le> pow2 30" by (simp only: pow2_le_iff)
  then have "\<bar>g\<bar> < pow2 30" "\<bar>r\<bar> < pow2 66" using g(2) r(3) t(2) by linarith+
  from sine_at_range [OF assms(1) this] obtain y where y: "sine_at sin' (Fin g) (Fin r) = Fin y" "\<bar>y\<bar> \<le> 1" by blast
  have "sweep_value sin' s index = to_24bit (Fin y)"
    using f(6) by (simp add: sweep_value_def Let_def f(1,3,5) t(1) r(1) p(1) f64_sub_def w(1) q(1) g(1) y(1)
        del: f64_mod.simps)
  with to_24bit_range [OF y(2)] show ?thesis by simp
qed

section \<open>Reads\<close>

lemma fill_frames_facts:
  assumes "0 < channels" "list_all P samples" "\<And>i. P (val i)"
  shows "\<exists>out i'. fill_frames val channels samples index = Some (out, length samples, i') \<and>
    length out = length samples \<and> list_all P out"
proof -
  define tone where "tone = concat (map (\<lambda>k. replicate (nat channels) (val (index + k)))
      [0..<nat (go_quot (int (length samples)) channels)])"
  have "length tone \<le> length samples" unfolding tone_def by (rule length_frames [OF assms(1)])
  moreover have "list_all P tone" using assms(3) by (auto simp: tone_def list_all_iff)
  moreover have "list_all P (drop n samples)" for n
    using assms(2) set_drop_subset [of n samples] by (auto simp: list_all_iff)
  moreover have "\<exists>i'. fill_frames val channels samples index = Some (tone @ drop (length tone) samples, length samples, i')"
    using assms(1) by (simp add: fill_frames_def tone_def Let_def)
  ultimately show ?thesis by auto
qed

text \<open>
  Every source that the program offers fills its buffer with 24-bit samples, at any rate but zero
  and however long it has played.
\<close>

theorem example_sources_in_range:
  assumes "sine_like sin'" "rate \<noteq> 0" "\<bar>rate\<bar> < 2 ^ 63" "0 < channels" "list_all in_24bit samples"
  shows "example_choice mode rate channels = Some (ChordMode m) \<Longrightarrow>
      \<exists>out m'. multi_Read sin' samples (m\<lparr>mt_sampleIndex := i\<rparr>) = Some (out, length samples, m') \<and>
        length out = length samples \<and> list_all in_24bit out"
    and "example_choice mode rate channels = Some (SweepMode s) \<Longrightarrow>
      \<exists>out s'. sweep_Read sin' samples (s\<lparr>sw_sampleIndex := i\<rparr>) = Some (out, length samples, s') \<and>
        length out = length samples \<and> list_all in_24bit out"
proof -
  assume "example_choice mode rate channels = Some (ChordMode m)"
  then have m: "m = NewMultiTone rate channels [Fin 440, fl (55437 / 100), fl (65925 / 100)]"
    by (auto simp: example_choice_def split: if_splits)
  have "moderate (fl x)" if "0 \<le> x" "x \<le> 1000" for x
    using fl_bounded [of 0 x 1000] that by (auto simp: moderate_def power_int_def)
  then have "list_all moderate (mt_frequencies m)"
    by (simp add: m NewMultiTone_def) (simp add: moderate_def power_int_def)
  then have "in_24bit (multi_value sin' (mt_frequencies m) rate k)" for k
    using multi_value_range [OF assms(1) _ _ assms(2,3)] by (simp add: m NewMultiTone_def)
  from fill_frames_facts [where index = i, OF assms(4,5) this]
  show "\<exists>out m'. multi_Read sin' samples (m\<lparr>mt_sampleIndex := i\<rparr>) = Some (out, length samples, m') \<and>
        length out = length samples \<and> list_all in_24bit out"
    by (auto simp: multi_Read_def m NewMultiTone_def)
next
  assume "example_choice mode rate channels = Some (SweepMode s)"
  then have s: "s = NewSweep rate channels (Fin 220) (Fin 880) (Fin 5)"
    by (auto simp: example_choice_def split: if_splits)
  have "sweep_ok (s\<lparr>sw_sampleIndex := i\<rparr>)"
    using assms(2,3) by (simp add: s NewSweep_def sweep_ok_def moderate_def power_int_def)
  from fill_frames_facts [where index = i, OF assms(4,5) sweep_value_range [OF assms(1) this]]
  show "\<exists>out s'. sweep_Read sin' samples (s\<lparr>sw_sampleIndex := i\<rparr>) = Some (out, length samples, s') \<and>
        length out = length samples \<and> list_all in_24bit out"
    by (auto simp: sweep_Read_def s NewSweep_def)
qed

text \<open>
  The sweep multiplies the momentary frequency by the time instead of summing it up: in a short
  time \<open>h\<close> before the end the phase grows as that of a tone near \<open>2 * b - a\<close>, not \<open>b\<close>.
\<close>

lemma sweep_overshoots:
  fixes a b d h :: rat
  assumes "0 < d"
  defines "phase t \<equiv> (a + (b - a) * (t / d)) * t"
  shows "phase d - phase (d - h) = h * (2 * b - a - (b - a) * (h / d))"
  using assms(1) by (simp add: phase_def field_simps)

lemma zero_channels_panic: "multi_Read sin' samples (NewMultiTone rate 0 freqs) = None"
  by (simp add: multi_Read_def fill_frames_def NewMultiTone_def)

section \<open>The interface\<close>

text \<open>
  What the audio stream of the server relies on in an \<open>AudioSource\<close>: a read of a well-formed source
  returns, keeps the length of the buffer, reports at most that many samples, all of 24 bits, and leaves the
  source well formed. The server reads into a new buffer of zeros at every tick.
\<close>

locale audio_source =
  fixes read :: "sample list \<Rightarrow> 's \<Rightarrow> (sample list \<times> nat \<times> 's) option"
    and ready :: "'s \<Rightarrow> bool"
  assumes read_ready: "ready s \<Longrightarrow> list_all in_24bit samples \<Longrightarrow>
    \<exists>out n s'. read samples s = Some (out, n, s') \<and> length out = length samples \<and> n \<le> length samples \<and>
      list_all in_24bit out \<and> ready s'"
begin

fun reads :: "nat list \<Rightarrow> 's \<Rightarrow> (sample list list \<times> 's) option" where
  "reads [] s = Some ([], s)"
| "reads (n # ns) s =
     (case read (replicate n 0) s of
        None \<Rightarrow> None
      | Some (out, k, s) \<Rightarrow> map_option (\<lambda>(chunks, s). (take k out # chunks, s)) (reads ns s))"

lemma zeros_in_range: "list_all in_24bit (replicate n 0)"
  by (simp add: in_24bit_def Min24Bit_def Max24Bit_def list_all_iff)

lemma reads_go_on:
  "ready s \<Longrightarrow> \<exists>chunks s'. reads ns s = Some (chunks, s') \<and> ready s' \<and> length chunks = length ns \<and>
     list_all2 (\<lambda>chunk n. length chunk \<le> n \<and> list_all in_24bit chunk) chunks ns"
proof (induction ns arbitrary: s)
  case (Cons n ns)
  from read_ready [OF Cons.prems zeros_in_range [of n]] obtain out k t where
    t: "read (replicate n 0) s = Some (out, k, t)" "length out = n" "k \<le> n" "list_all in_24bit out" "ready t" by auto
  from Cons.IH [OF t(5)] obtain chunks s' where "reads ns t = Some (chunks, s')" "ready s'"
    "length chunks = length ns" "list_all2 (\<lambda>chunk n. length chunk \<le> n \<and> list_all in_24bit chunk) chunks ns" by blast
  moreover have "list_all in_24bit (take k out)"
    using t(4) set_take_subset [of k out] by (auto simp: list_all_iff)
  ultimately show ?case using t(1-3) by simp
qed simp

end

definition tone_ready :: "(f64 \<Rightarrow> f64) \<Rightarrow> TestToneSource \<Rightarrow> bool" where
  "tone_ready sin' s \<longleftrightarrow> sine_like sin' \<and> tt_frequency s = Fin 440 \<and> tt_sampleRate s \<noteq> 0 \<and>
     \<bar>tt_sampleRate s\<bar> < 2 ^ 63 \<and> 0 < tt_channels s"

definition multi_ready :: "(f64 \<Rightarrow> f64) \<Rightarrow> MultiToneSource \<Rightarrow> bool" where
  "multi_ready sin' s \<longleftrightarrow> sine_like sin' \<and> list_all moderate (mt_frequencies s) \<and>
     int (length (mt_frequencies s)) \<le> 2 ^ 53 \<and> mt_sampleRate s \<noteq> 0 \<and> \<bar>mt_sampleRate s\<bar> < 2 ^ 63 \<and> 0 < mt_channels s"

definition sweep_ready :: "(f64 \<Rightarrow> f64) \<Rightarrow> SweepSource \<Rightarrow> bool" where
  "sweep_ready sin' s \<longleftrightarrow> sine_like sin' \<and> sweep_ok s \<and> 0 < sw_channels s"

lemma tone_Read_fills:
  "tone_Read sin' samples s =
     map_option (\<lambda>(out, n, index). (out, n, s\<lparr>tt_sampleIndex := index\<rparr>))
       (fill_frames (tone_value sin' (tt_frequency s) (tt_sampleRate s)) (tt_channels s) samples (tt_sampleIndex s))"
  by (simp add: tone_Read_def fill_frames_def Let_def)

lemma filled_by_frames:
  assumes "read_result = map_option (\<lambda>(out, n, index). (out, n, upd index)) (fill_frames val channels samples i)"
    and "0 < channels" "list_all in_24bit samples" "\<And>i. in_24bit (val i)" "\<And>i. ready (upd i)"
  shows "\<exists>out n s'. read_result = Some (out, n, s') \<and> length out = length samples \<and> n \<le> length samples \<and>
    list_all in_24bit out \<and> ready s'"
proof -
  obtain out i' where "fill_frames val channels samples i = Some (out, length samples, i')"
    "length out = length samples" "list_all in_24bit out"
    using fill_frames_facts [OF assms(2,3,4), of "\<lambda>i. i" i] by blast
  with assms(1,5) show ?thesis by simp
qed

interpretation tone: audio_source "tone_Read sin'" "tone_ready sin'" for sin'
proof (unfold_locales, rule filled_by_frames [OF tone_Read_fills])
qed (auto simp: tone_ready_def tone_value_range)

interpretation multi_tone: audio_source "multi_Read sin'" "multi_ready sin'" for sin'
proof (unfold_locales, rule filled_by_frames [OF multi_Read_def])
qed (auto simp: multi_ready_def multi_value_range)

interpretation sweep: audio_source "sweep_Read sin'" "sweep_ready sin'" for sin'
proof (unfold_locales, rule filled_by_frames [OF sweep_Read_def])
qed (auto simp: sweep_ready_def sweep_ok_def intro: sweep_value_range)

text \<open>The default tone of both programs can be read for ever, in chunks of any size.\<close>

lemma default_tone_goes_on:
  "sine_like sin' \<Longrightarrow> \<exists>chunks s'. tone.reads sin' ns (NewTestTone 0 0) = Some (chunks, s') \<and> length chunks = length ns"
  using tone.reads_go_on [of sin' "NewTestTone 0 0" ns] by (auto simp: tone_ready_def NewTestTone_def)

end
