(* ===== verification/Receiver_Pumps.thy ===== *)
theory Receiver_Pumps
  imports Receiver_Model
begin

text \<open>
  The last step of a buffer in \<open>pkg/sendspin/receiver.go\<close>: every stream has a scheduler and a goroutine
  \<open>pumpSchedulerOutput\<close> that moves its buffers to the output of the receiver, where the player takes
  them. The goroutines of several streams, the stream handler that replaces them, the player and
  \<open>Close\<close> interleave; a select whose cases are both ready may take either. The burst that runs
  before the first stream and the summary of the advertised formats are here as well.
\<close>

section \<open>The goroutines\<close>

text \<open>
  One stream: the channel of its scheduler, the buffer that the goroutine holds between its two
  selects, whether its context is cancelled and whether it has returned. \<open>pu_emitted\<close>, \<open>pu_sent\<close> and
  \<open>pu_lost\<close> are the past: what the scheduler delivered, what was forwarded and what was thrown away.
\<close>

record pump =
  pu_in :: "AudioBuffer chan"
  pu_hold :: "AudioBuffer option"
  pu_cancelled :: bool
  pu_returned :: bool
  pu_emitted :: "AudioBuffer list"
  pu_sent :: "AudioBuffer list"
  pu_lost :: "AudioBuffer list"

definition new_pump :: "bool \<Rightarrow> pump" where
  "new_pump ended =
     \<lparr>pu_in = make_chan 10, pu_hold = None, pu_cancelled = ended, pu_returned = False,
      pu_emitted = [], pu_sent = [], pu_lost = []\<rparr>"

text \<open>
  All streams so far, the last one being current. Buffers in the output carry the number of their
  stream; \<open>ps_device\<close> counts the calls of \<open>OnStreamStart\<close>, which opens the device in the new format.
\<close>

record pumps =
  ps_list :: "pump list"
  ps_out :: "(nat \<times> AudioBuffer) chan"
  ps_heard :: "(nat \<times> AudioBuffer) list"
  ps_device :: nat
  ps_cancelled :: bool
  ps_closed :: bool
  ps_panic :: bool

definition start_pumps :: pumps where
  "start_pumps = \<lparr>ps_list = [], ps_out = make_chan 10, ps_heard = [], ps_device = 0, ps_cancelled = False,
     ps_closed = False, ps_panic = False\<rparr>"

definition cancel_pump :: "pump \<Rightarrow> pump" where
  "cancel_pump u = u\<lparr>pu_cancelled := True\<rparr>"

definition cancel_last :: "pump list \<Rightarrow> pump list" where
  "cancel_last us = (if us = [] then [] else butlast us @ [cancel_pump (last us)])"

definition upd_pump :: "nat \<Rightarrow> pump \<Rightarrow> pumps \<Rightarrow> pumps" where
  "upd_pump i u s = s\<lparr>ps_list := (ps_list s)[i := u]\<rparr>"

definition pump_emit :: "AudioBuffer \<Rightarrow> pump \<Rightarrow> pump option" where
  "pump_emit b u =
     map_option (\<lambda>c. u\<lparr>pu_in := c, pu_emitted := pu_emitted u @ [b]\<rparr>) (chan_offer b (pu_in u))"

definition pump_take :: "pump \<Rightarrow> pump option" where
  "pump_take u =
     (if pu_returned u \<or> pu_hold u \<noteq> None then None
      else map_option (\<lambda>(b, c). u\<lparr>pu_in := c, pu_hold := Some b\<rparr>) (chan_take (pu_in u)))"

definition pump_quit :: "pump \<Rightarrow> pump option" where
  "pump_quit u =
     (if pu_returned u \<or> \<not> pu_cancelled u then None
      else Some (u\<lparr>pu_returned := True, pu_hold := None, pu_lost := (case pu_hold u of None \<Rightarrow> [] | Some b \<Rightarrow> [b])\<rparr>))"

text \<open>
  The steps. The handler opens the device, then cancels the old stream and starts the new one;
  \<open>Close\<close> cancels and later closes the output, on which a goroutine that still holds a buffer panics.
\<close>

inductive pump_step :: "pumps \<Rightarrow> pumps \<Rightarrow> bool" where
  stream_open:
    "\<not> ps_panic s \<Longrightarrow> ps_device s = length (ps_list s) \<Longrightarrow> pump_step s (s\<lparr>ps_device := Suc (ps_device s)\<rparr>)"
| stream_swap:
    "\<not> ps_panic s \<Longrightarrow> ps_device s = Suc (length (ps_list s)) \<Longrightarrow>
     pump_step s (s\<lparr>ps_list := cancel_last (ps_list s) @ [new_pump (ps_cancelled s)]\<rparr>)"
| emit:
    "\<not> ps_panic s \<Longrightarrow> i < length (ps_list s) \<Longrightarrow> pump_emit b (ps_list s ! i) = Some u \<Longrightarrow> pump_step s (upd_pump i u s)"
| take_one:
    "\<not> ps_panic s \<Longrightarrow> i < length (ps_list s) \<Longrightarrow> pump_take (ps_list s ! i) = Some u \<Longrightarrow> pump_step s (upd_pump i u s)"
| quit:
    "\<not> ps_panic s \<Longrightarrow> i < length (ps_list s) \<Longrightarrow> pump_quit (ps_list s ! i) = Some u \<Longrightarrow> pump_step s (upd_pump i u s)"
| forward:
    "\<not> ps_panic s \<Longrightarrow> i < length (ps_list s) \<Longrightarrow> u = ps_list s ! i \<Longrightarrow> pu_hold u = Some b \<Longrightarrow> \<not> ps_closed s \<Longrightarrow>
     chan_offer (i, b) (ps_out s) = Some c \<Longrightarrow>
     pump_step s (upd_pump i (u\<lparr>pu_hold := None, pu_sent := pu_sent u @ [b]\<rparr>) (s\<lparr>ps_out := c\<rparr>))"
| send_closed:
    "\<not> ps_panic s \<Longrightarrow> i < length (ps_list s) \<Longrightarrow> pu_hold (ps_list s ! i) = Some b \<Longrightarrow> ps_closed s \<Longrightarrow>
     pump_step s (s\<lparr>ps_panic := True\<rparr>)"
| consume:
    "\<not> ps_panic s \<Longrightarrow> chan_take (ps_out s) = Some (x, c) \<Longrightarrow>
     pump_step s (s\<lparr>ps_out := c, ps_heard := ps_heard s @ [x]\<rparr>)"
| cancel:
    "\<not> ps_panic s \<Longrightarrow> pump_step s (s\<lparr>ps_cancelled := True, ps_list := map cancel_pump (ps_list s)\<rparr>)"
| close:
    "\<not> ps_panic s \<Longrightarrow> ps_cancelled s \<Longrightarrow> pump_step s (s\<lparr>ps_closed := True\<rparr>)"

inductive_cases pump_stepE: "pump_step s t"

section \<open>The invariant\<close>

definition of_stream :: "nat \<Rightarrow> (nat \<times> AudioBuffer) list \<Rightarrow> AudioBuffer list" where
  "of_stream i xs = map snd (filter (\<lambda>x. fst x = i) xs)"

lemma of_stream_append [simp]: "of_stream i (xs @ ys) = of_stream i xs @ of_stream i ys"
  by (simp add: of_stream_def)

lemma of_stream_single [simp]: "of_stream i [(j, b)] = (if j = i then [b] else [])" "of_stream i [] = []"
  by (simp_all add: of_stream_def)

text \<open>What a stream has emitted is where it can be, in order; what was lost was held by a goroutine that returned.\<close>

definition pump_ok :: "pump \<Rightarrow> bool" where
  "pump_ok u \<longleftrightarrow>
     pu_emitted u = pu_sent u @ (case pu_hold u of None \<Rightarrow> [] | Some b \<Rightarrow> [b]) @ pu_lost u @ chan_buf (pu_in u) \<and>
     (pu_returned u \<longrightarrow> pu_hold u = None \<and> pu_cancelled u) \<and>
     (\<not> pu_returned u \<longrightarrow> pu_lost u = []) \<and> length (pu_lost u) \<le> 1"

definition pumps_inv :: "pumps \<Rightarrow> bool" where
  "pumps_inv s \<longleftrightarrow>
     list_all pump_ok (ps_list s) \<and>
     (\<forall>i. of_stream i (ps_heard s @ chan_buf (ps_out s)) = (if i < length (ps_list s) then pu_sent (ps_list s ! i) else [])) \<and>
     (\<forall>i < length (ps_list s). pu_cancelled (ps_list s ! i) \<longrightarrow> Suc i < length (ps_list s) \<or> ps_cancelled s) \<and>
     (ps_closed s \<longrightarrow> ps_cancelled s) \<and> (ps_panic s \<longrightarrow> ps_closed s)"

lemma pump_ok_new: "pump_ok (new_pump c)"
  by (simp add: pump_ok_def new_pump_def)

lemma pump_ok_cancel: "pump_ok u \<Longrightarrow> pump_ok (cancel_pump u)"
  by (simp add: pump_ok_def cancel_pump_def)

lemma pump_emit_ok:
  "pump_emit b u = Some u' \<Longrightarrow> pump_ok u \<Longrightarrow> pump_ok u' \<and> pu_sent u' = pu_sent u \<and> pu_cancelled u' = pu_cancelled u"
  by (auto simp: pump_emit_def pump_ok_def chan_offer_Some chan_put_def)

lemma pump_take_ok:
  "pump_take u = Some u' \<Longrightarrow> pump_ok u \<Longrightarrow> pump_ok u' \<and> pu_sent u' = pu_sent u \<and> pu_cancelled u' = pu_cancelled u"
  by (auto simp: pump_take_def pump_ok_def chan_take_def split: if_splits list.splits)

lemma pump_quit_ok:
  "pump_quit u = Some u' \<Longrightarrow> pump_ok u \<Longrightarrow> pump_ok u' \<and> pu_sent u' = pu_sent u \<and> pu_cancelled u' = pu_cancelled u"
  by (auto simp: pump_quit_def pump_ok_def split: if_splits option.splits)

lemma pumps_inv_upd:
  assumes "pumps_inv s" "i < length (ps_list s)" "pump_ok u" "pu_sent u = pu_sent (ps_list s ! i)"
    "pu_cancelled u = pu_cancelled (ps_list s ! i)"
  shows "pumps_inv (upd_pump i u s)"
  using assms unfolding pumps_inv_def upd_pump_def
  by (simp add: list_all_length nth_list_update)

lemma nth_cancel_last: "i < length us \<Longrightarrow> cancel_last us ! i = (if Suc i = length us then cancel_pump (us ! i) else us ! i)"
  by (auto simp: cancel_last_def nth_append nth_butlast last_conv_nth) (metis One_nat_def diff_Suc_1)

lemma length_cancel_last [simp]: "length (cancel_last us) = length us"
  by (simp add: cancel_last_def)

lemma cancel_pump_fields [simp]: "pu_sent (cancel_pump u) = pu_sent u" "pu_cancelled (cancel_pump u)"
  by (simp_all add: cancel_pump_def)

lemma pumps_inv_swap:
  assumes "pumps_inv s"
  shows "pumps_inv (s\<lparr>ps_list := cancel_last (ps_list s) @ [new_pump (ps_cancelled s)]\<rparr>)"
  using assms unfolding pumps_inv_def
  by (auto simp: list_all_length nth_append nth_cancel_last pump_ok_new pump_ok_cancel less_Suc_eq)
    (simp_all add: new_pump_def)

lemma pumps_inv_forward:
  assumes "pumps_inv s" "i < length (ps_list s)" "u = ps_list s ! i" "pu_hold u = Some b" "chan_offer (i, b) (ps_out s) = Some c"
  shows "pumps_inv (upd_pump i (u\<lparr>pu_hold := None, pu_sent := pu_sent u @ [b]\<rparr>) (s\<lparr>ps_out := c\<rparr>))"
proof -
  have "pump_ok (u\<lparr>pu_hold := None, pu_sent := pu_sent u @ [b]\<rparr>)"
    using assms(1-4) by (auto simp: pumps_inv_def list_all_length pump_ok_def)
  then show ?thesis
    using assms unfolding pumps_inv_def upd_pump_def
    by (auto simp: list_all_length nth_list_update chan_offer_Some chan_put_def)
qed

lemma pumps_inv_step: "pump_step s t \<Longrightarrow> pumps_inv s \<Longrightarrow> pumps_inv t"
proof (induction rule: pump_step.induct)
  case (stream_open s)
  then show ?case by (simp add: pumps_inv_def)
next
  case (stream_swap s)
  from stream_swap.prems show ?case by (rule pumps_inv_swap)
next
  case (emit s i b u)
  then have "pump_ok (ps_list s ! i)" by (simp add: pumps_inv_def list_all_length)
  from pump_emit_ok [OF emit.hyps(3) this] emit show ?case by (intro pumps_inv_upd) simp_all
next
  case (take_one s i u)
  then have "pump_ok (ps_list s ! i)" by (simp add: pumps_inv_def list_all_length)
  from pump_take_ok [OF take_one.hyps(3) this] take_one show ?case by (intro pumps_inv_upd) simp_all
next
  case (quit s i u)
  then have "pump_ok (ps_list s ! i)" by (simp add: pumps_inv_def list_all_length)
  from pump_quit_ok [OF quit.hyps(3) this] quit show ?case by (intro pumps_inv_upd) simp_all
next
  case (forward s i u b c)
  then show ?case by (intro pumps_inv_forward) simp_all
next
  case (send_closed s i b)
  then show ?case by (simp add: pumps_inv_def)
next
  case (consume s x c)
  then have "chan_buf (ps_out s) = x # chan_buf c" by (auto simp: chan_take_def split: list.splits)
  with consume.prems show ?case by (simp add: pumps_inv_def)
next
  case (cancel s)
  then show ?case by (auto simp: pumps_inv_def list_all_length pump_ok_cancel)
next
  case (close s)
  then show ?case by (simp add: pumps_inv_def)
qed

interpretation pumping: step_invariant pump_step pumps_inv
  by unfold_locales (rule pumps_inv_step)

lemma start_pumps_inv: "pumps_inv start_pumps"
  by (simp add: pumps_inv_def start_pumps_def)


section \<open>What can go wrong\<close>

definition held :: "AudioBuffer \<Rightarrow> pump" where
  "held b = (new_pump False)\<lparr>pu_hold := Some b, pu_emitted := [b]\<rparr>"

lemma steps_into: "pump_step\<^sup>*\<^sup>* a s \<Longrightarrow> pump_step s t \<Longrightarrow> t = t' \<Longrightarrow> pump_step\<^sup>*\<^sup>* a t'"
  by auto

lemma chan_round_trip: "chan_take (chan_put x (make_chan (Suc n))) = Some (x, make_chan (Suc n))"
  by (simp add: chan_take_def chan_put_def make_chan_def)

lemma pump_gets:
  assumes "pump_step\<^sup>*\<^sup>* start_pumps s" "\<not> ps_panic s" "i < length (ps_list s)" "ps_list s ! i = new_pump False"
  shows "pump_step\<^sup>*\<^sup>* start_pumps (upd_pump i (held b) s)"
proof -
  define u where "u = (new_pump False)\<lparr>pu_in := chan_put b (make_chan 10), pu_emitted := [b]\<rparr>"
  have "pump_emit b (ps_list s ! i) = Some u"
    using assms(4) by (simp add: pump_emit_def u_def new_pump_def chan_offer_def chan_room_def make_chan_def)
  with assms have one: "pump_step\<^sup>*\<^sup>* start_pumps (upd_pump i u s)" by (blast intro: steps_into emit)
  have "pump_take u = Some (held b)"
    using chan_round_trip [of b 9] by (simp add: pump_take_def u_def new_pump_def held_def)
  then have "pump_step (upd_pump i u s) (upd_pump i (held b) (upd_pump i u s))"
    using assms by (intro take_one) (simp_all add: upd_pump_def)
  with one show ?thesis by (rule steps_into) (simp add: upd_pump_def)
qed

lemma first_stream: "pump_step\<^sup>*\<^sup>* start_pumps (start_pumps\<lparr>ps_list := [new_pump False], ps_device := 1\<rparr>)"
proof -
  have "pump_step\<^sup>*\<^sup>* start_pumps (start_pumps\<lparr>ps_device := 1\<rparr>)"
    by (rule steps_into [OF rtranclp.rtrancl_refl stream_open]) (simp_all add: start_pumps_def)
  then show ?thesis
    by (rule steps_into [OF _ stream_swap]) (simp_all add: start_pumps_def cancel_last_def)
qed

text \<open>
  \<open>Close\<close> closes the output while a goroutine may still hold a buffer: it panics if its select takes
  the send, although its context is cancelled too.
\<close>

lemma close_can_panic: "\<exists>s. pump_step\<^sup>*\<^sup>* start_pumps s \<and> ps_panic s"
proof -
  define b where "b = zeroBuffer"
  define s where "s = start_pumps\<lparr>ps_list := [held b], ps_device := 1\<rparr>"
  have s: "pump_step\<^sup>*\<^sup>* start_pumps s"
    using pump_gets [OF first_stream, of 0 b] by (simp add: s_def upd_pump_def start_pumps_def)
  define t where "t = s\<lparr>ps_cancelled := True, ps_list := map cancel_pump (ps_list s)\<rparr>"
  have t: "pump_step\<^sup>*\<^sup>* start_pumps t"
    by (rule steps_into [OF s cancel]) (simp_all add: t_def s_def start_pumps_def)
  have c: "pump_step\<^sup>*\<^sup>* start_pumps (t\<lparr>ps_closed := True\<rparr>)"
    by (rule steps_into [OF t close]) (simp_all add: t_def s_def start_pumps_def)
  have "pump_step\<^sup>*\<^sup>* start_pumps (t\<lparr>ps_closed := True, ps_panic := True\<rparr>)"
    by (rule steps_into [OF c send_closed [of _ 0 b]])
      (simp_all add: t_def s_def start_pumps_def held_def cancel_pump_def)
  then show ?thesis by (intro exI [of _ "t\<lparr>ps_closed := True, ps_panic := True\<rparr>"]) simp
qed

text \<open>
  A buffer of the first stream can reach the player after the device was opened in the format of the
  second, and the player writes it whatever its format.
\<close>

lemma stale_format:
  "\<exists>s. pump_step\<^sup>*\<^sup>* start_pumps s \<and> ps_device s = 2 \<and> ps_heard s = [(0, b)] \<and> length (ps_list s) = 1"
proof -
  define s where "s = start_pumps\<lparr>ps_list := [held b], ps_device := 1\<rparr>"
  have s: "pump_step\<^sup>*\<^sup>* start_pumps s"
    using pump_gets [OF first_stream, of 0 b] by (simp add: s_def upd_pump_def start_pumps_def)
  define u where "u = (held b)\<lparr>pu_hold := None, pu_sent := [b]\<rparr>"
  define t where "t = start_pumps\<lparr>ps_list := [u], ps_device := 1, ps_out := chan_put (0, b) (make_chan 10)\<rparr>"
  have t: "pump_step\<^sup>*\<^sup>* start_pumps t"
    by (rule steps_into [OF s forward [of s 0 "held b" b "chan_put (0, b) (make_chan 10)"]])
      (simp_all add: s_def t_def u_def held_def start_pumps_def upd_pump_def chan_offer_def chan_room_def new_pump_def)
  have o: "pump_step\<^sup>*\<^sup>* start_pumps (t\<lparr>ps_device := 2\<rparr>)"
    by (rule steps_into [OF t stream_open]) (simp_all add: t_def start_pumps_def)
  have "pump_step\<^sup>*\<^sup>* start_pumps (t\<lparr>ps_device := 2, ps_out := make_chan 10, ps_heard := [(0, b)]\<rparr>)"
    by (rule steps_into [OF o consume [of _ "(0, b)" "make_chan 10"]])
      (simp_all add: t_def start_pumps_def chan_round_trip [of "(0, b)" 9, simplified])
  then show ?thesis by (intro exI [of _ "t\<lparr>ps_device := 2, ps_out := make_chan 10, ps_heard := [(0, b)]\<rparr>"]) (simp add: t_def)
qed


section \<open>The first burst and the formats\<close>

text \<open>\<open>performInitialSync\<close> runs one burst; \<open>clockSyncLoop\<close> one every ten seconds until the context ends.\<close>

definition timeSyncBurstSize :: nat where "timeSyncBurstSize = 8"

definition performInitialSync :: "instant \<Rightarrow> sync_round list \<Rightarrow> 'd Receiver \<Rightarrow> 'd Receiver" where
  "performInitialSync now rounds r = runTimeSyncBurst now (take timeSyncBurstSize rounds) r"

fun clockSyncLoop :: "(instant \<times> sync_round list) list \<Rightarrow> 'd Receiver \<Rightarrow> 'd Receiver" where
  "clockSyncLoop [] r = r"
| "clockSyncLoop ((now, rounds) # ticks) r =
     (if rv_cancelled r then r else clockSyncLoop ticks (runTimeSyncBurst now (take timeSyncBurstSize rounds) r))"

text \<open>
  What \<open>logAdvertisedFormats\<close> prints: nothing but a warning without formats, else the codecs in the order of
  their first format, and the highest rate and depth.
\<close>

definition formats_summary :: "AudioFormat list \<Rightarrow> (string list \<times> int \<times> int) option" where
  "formats_summary formats =
     (if formats = [] then None
      else Some (fold (\<lambda>f (codecs, rate, depth).
             (if af_Codec f \<in> set codecs then codecs else codecs @ [af_Codec f],
              if rate < af_SampleRate f then af_SampleRate f else rate,
              if depth < af_BitDepth f then af_BitDepth f else depth)) formats ([], 0, 0)))"

lemma all_formats_summary:
  "formats_summary (buildSupportedFormats [] 0 0) = Some ([''pcm'', ''flac'', ''opus''], 192000, 24)"
  by (simp add: formats_summary_def buildSupportedFormats_def allFormats_def)

end
