(* ===== verification/Spec2Isabelle.thy ===== *)
theory Spec2Isabelle
  imports Time_Sync Client_Dialer End_To_End Client_Id Audio_Sources Player_Tui Discovery Server_Lifecycle
    Connection_Writer Legacy_Messages Tui_Render Server_Tui
    Program_Start Client_Heartbeat Example_Sources Receiver_Pumps
begin

text \<open>
  A model of sendspin-go, a synchronised multi-room audio system. A server reads 24-bit audio from
  a source, cuts it into chunks of 20 ms, encodes it for each connected player and sends it, with
  the time at which it is to be played, as binary frames over a WebSocket connection. A client
  parses the frames, decodes them, converts the play times to its own clock, which it keeps in
  step with the clock of the server by timed message exchanges, and plays each buffer when it is due.
  Control messages (hello, state, commands, metadata) travel as JSON text over the same connection.
  The two find each other by mDNS; the player has a terminal interface and a configuration file.

  \<^bold>\<open>From the source code to the theories\<close> (file names are relative to \<open>pkg/\<close> unless they start with
  \<open>internal/\<close>, \<open>cmd/\<close> or \<open>main.go\<close>). Records, datatypes and definitions keep the names of the code;
  a prefix separates operations that have one name in several types (\<open>malgo_Write\<close>, \<open>player_Mute\<close>).

  \<^item> \<open>Go_Prelude\<close>: 64-bit wrap-around (\<open>wrap64\<close>), \<open>time.Sub\<close>, buffered channels (\<open>chan\<close>), rings, the
    locales of a FIFO queue, which the tracker, the sample ring and the channels provide, and of an
    invariant of a step relation, which the interleaving models use.
  \<^item> \<open>Go_Strings\<close>: \<open>%d\<close>, \<open>strconv.Atoi\<close>, \<open>strings.TrimSpace\<close>, \<open>Split\<close>, \<open>Join\<close>, \<open>Contains\<close> on lists of bytes.
  \<^item> \<open>Float64\<close>: the binary64 numbers that the code calculates with, as reals rounded to 53 bits with
    infinities and NaN, and bounds on the rounding error.
  \<^item> \<open>Wire_Frames\<close>: \<open>CreateAudioChunk\<close>, \<open>CreateArtworkChunk\<close> (\<open>sendspin/server_stream.go\<close>) and the frame
    parser of \<open>protocol/client.go\<close>; \<open>Messages\<close> and \<open>Legacy_Messages\<close>: \<open>protocol/messages.go\<close>, records
    with their JSON encoders and decoders; \<open>Base64\<close>: the codec headers of a stream.
  \<^item> \<open>Sample_Codec\<close>: \<open>audio/types.go\<close>, \<open>audio/decode/pcm.go\<close>, \<open>encodePCM\<close> and the device encodings;
    \<open>Codecs\<close>: \<open>audio/encode\<close>, \<open>audio/decode\<close>, the wrappers around the Opus and FLAC libraries;
    \<open>Audio_Math\<close>: \<open>audio/resample.go\<close>, \<open>audio/output/volume.go\<close>.
  \<^item> The server. \<open>Audio_Sources\<close>: \<open>internal/server/audio_source.go\<close> and the test tones; \<open>Buffer_Tracker\<close>:
    \<open>sendspin/buffer_tracker.go\<close>, what a client holds unplayed; \<open>Server_Client\<close>:
    \<open>server_client.go\<close>, \<open>role_player.go\<close> and the per-client half of \<open>server_stream.go\<close>;
    \<open>Connection_Writer\<close>: \<open>protocol/server_conn.go\<close> and the writer goroutine; \<open>Group_Bus\<close>:
    \<open>group.go\<close>; \<open>Group_Roles\<close>: \<open>group_role.go\<close>, \<open>role_controller.go\<close>, \<open>role_metadata.go\<close>;
    \<open>Server_Model\<close>: the operations of \<open>server.go\<close>, \<open>server_dispatch.go\<close> and the ticker; \<open>Server_Audio\<close>:
    what keeps the ticker from panicking; \<open>Server_System\<close>: their interleavings; \<open>Server_Runs\<close>: roles and failing sources; \<open>Server_Lifecycle\<close>: \<open>Start\<close>, \<open>Stop\<close>
    and \<open>cmd/sendspin-server/main.go\<close>; \<open>Server_Tui\<close>: \<open>internal/server/tui.go\<close> and what \<open>main\<close> puts
    into it; \<open>Client_Dialer\<close>: \<open>client_dialer.go\<close>.
  \<^item> The client. \<open>Time_Sync\<close>: \<open>sync/timefilter.go\<close>, \<open>sync/clock.go\<close>; \<open>Heap_Queue\<close>, \<open>Scheduler_Model\<close>:
    \<open>sendspin/scheduler.go\<close>; \<open>Ring_Buffer\<close>, \<open>Audio_Output\<close>: \<open>audio/output\<close>; \<open>Protocol_Client\<close>:
    \<open>protocol/client.go\<close>, \<open>Client_Heartbeat\<close>: its pings and read deadline; \<open>Receiver_Model\<close>,
    \<open>Receiver_Pumps\<close>: \<open>sendspin/receiver.go\<close>, its handlers and the goroutines that feed its output;
    \<open>Player_Model\<close>: \<open>sendspin/player.go\<close>; \<open>Stream_Constants\<close>: \<open>sendspin/constants.go\<close>; \<open>Config_Files\<close>:
    \<open>config_common.go\<close>, \<open>config_player.go\<close>, \<open>config_server.go\<close>; \<open>Client_Id\<close>: \<open>client_id.go\<close> and its use
    in \<open>main.go\<close>; \<open>Player_Tui\<close>: \<open>internal/ui\<close> and the loops of \<open>main.go\<close>; \<open>Tui_Render\<close>: the
    views of \<open>internal/ui\<close>, as rows of code points.
  \<^item> \<open>Program_Start\<close>: the main functions of both programs up to the creation of player and server.
    \<open>Example_Sources\<close>: the audio sources of \<open>examples/custom-source\<close>, and the contract of an
    \<open>AudioSource\<close> as a locale that the tones, the mix and the sweep provide.
  \<^item> \<open>Discovery\<close>: \<open>discovery/mdns.go\<close>, \<open>discovery/txt.go\<close>, used by both sides; \<open>End_To_End\<close>: server
    and client composed, from the source of the one to the scheduler of the other.

  \<^bold>\<open>State and steps.\<close> A struct is a record; an operation is a function from the state to the new state
  and its results. An \<open>Inl\<close> is a returned error; what a \<open>None\<close> in place of a result stands for, a Go panic
  or a step that is not possible, is said where the operation is defined. Objects that goroutines share are
  addressed by references into a heap (\<open>Server_Model\<close>). A goroutine is cut at its critical sections and
  channel operations, and the pieces interleave in every order that locks and channels allow: \<open>srv_do\<close>,
  \<open>sched_step\<close>, \<open>reader_step\<close>, \<open>browse_step\<close>, \<open>conn_step\<close>, \<open>life_do\<close>, \<open>app_step\<close>, \<open>screen_step\<close>,
  \<open>pump_step\<close>, \<open>hb_do\<close>, \<open>tui_do\<close>. A \<open>select\<close> with a default is \<open>chan_offer\<close>. Times are integers of nanoseconds; sums that
  can overflow are written with \<open>wrap64\<close>, samples and bytes are words.
\<close>

text \<open>
  \<^bold>\<open>What the lemmas show.\<close>

  \<^item> Audio keeps its content: PCM packed by the server is unpacked unchanged, and in every run the
    scheduler of the receiver gets an unchanged subsequence of the chunks of the source (\<open>End_To_End\<close>);
    from there each stream reaches the player in order (\<open>Receiver_Pumps\<close>); resampling and volume stay
    in range; the ring and the device deliver in order.
  \<^item> Audio keeps its time: the tracker never lets a client overflow, the scheduler plays what is due
    and accounts for every buffer, one clock exchange bounds the error by half the round trip.
  \<^item> Sessions are well formed: of all messages but audio frames and \<open>stream/end\<close> the greeting comes first,
    and all others follow the group update; joins and leaves alternate; no interleaving panics, ticks
    included; and what is written to a connection is what was queued, in order. A client whose peer answers in time keeps its connection, and one whose reader
    reads notices within a minute that the peer is gone.
  \<^item> State that is told is state that is kept: metadata are applied exactly once, the gain of an open
    device is the one that is reported, every state the player reports is valid and the last is the
    current one; the volume on the screen is the one in use once all changes are taken, unless keys were
    skipped, something was muted or the server has set the volume; the client id,
    a static delay and written configuration keys are found again at the next launch.
  \<^item> Loops end: \<open>PruneConsumed\<close>, the heap operations and the scans of the scheduler terminate by a
    measure; the reconnect loop and a blocked write return under the stated conditions; a stop ends
    once the clients have left.
  \<^item> Several lemmas record behaviour that is not what the code means to do, as theorems about it: a
    server with a client cannot be stopped, rediscovery returns stale addresses, an artwork frame
    too many stops the reader, a FLAC file without frames hangs its source, closing a receiver can panic,
    keys pressed faster than they are taken leave the screen and the player at different volumes.

  \<^bold>\<open>Bounds and loops.\<close> No model uses fuel. Loops without a bound of their own are
  \<open>partial_function (option)\<close>: \<open>reconnectWithBackoff\<close>, whose return is proved when attempts are limited or
  the player is closed at some time, and \<open>flac_fill\<close>, which is proved to return for a file with a frame
  that has samples and not to return for one without. The blocking write of the output is given the
  passes of its loop with the time and the device reads of each; that enough passes make it return is
  proved (\<open>malgo_Write_returns\<close>). Channel capacities are those of the code (ten, a hundred); integers
  that come through JSON are exact to 53 bits, which the round-trip lemmas assume.

  \<^bold>\<open>Parameters.\<close> Code outside the repository is an argument of the definitions that use it: the Opus,
  FLAC and MP3 libraries (\<open>stream_libs\<close>, \<open>flac_library\<close>, \<open>byte_reader\<close>), \<open>math.Pow\<close> and \<open>math.Sin\<close>,
  miniaudio, the YAML library (\<open>yaml_ok\<close>, \<open>yaml_delay\<close>: what was marshalled is read back), the file system, mDNS
  (\<open>announces\<close>) and the outcomes of network reads and writes.

  \<^bold>\<open>Not modelled.\<close> What \<open>lipgloss\<close> makes of a styled text and the \<open>bubbletea\<close> loops; the text of
  log lines and error messages; the WebSocket and HTTP protocols; the programs under \<open>examples/\<close> but for
  the custom sources; the log lines of the main functions; package documentation.
  The handler goroutines of the receiver and of the player, which take a message
  from a channel and treat it, are represented by the order in which their operations are called.
\<close>

end
